(* ===== verification/Prelude.thy ===== *)
theory Prelude
  imports Main "HOL-Library.Word" "HOL-Library.Monad_Syntax"
begin

text \<open>
  What every component shares: the reading of C in HOL.

  A C function whose execution may be undefined (an access outside an array, a signed
  overflow) returns an \<open>option\<close>: \<open>None\<close> is the undefined execution, so a theorem that a
  function returns \<open>Some\<close> is a theorem of memory safety. Arrays are lists read and written
  with \<open>aget\<close> and \<open>aset\<close>, \<open>memmove\<close> within one array is \<open>blit\<close>, counted loops are \<open>for_up\<close>
  and \<open>for_down\<close>, and \<open>i32\<close> checks that a result fits a C \<open>int\<close>. The macros LIMIT and
  BETWEEN of main.c are here as well, because all components use them.
\<close>

unbundle bit_operations_syntax

named_theorems carray_simps \<open>closed forms of array accesses in range\<close>
named_theorems flag_simps \<open>tests of single flags in flag words\<close>

type_synonym byte = "8 word"

section \<open>The option monad\<close>

lemma bind_Some_iff [simp]:
  "(Option.bind m f = Some y) \<longleftrightarrow> (\<exists>x. m = Some x \<and> f x = Some y)"
  by (cases m) auto

lemma bind_None_iff: "(Option.bind m f = None) \<longleftrightarrow> (\<forall>x. m = Some x \<longrightarrow> f x = None)"
  by (cases m) auto

section \<open>C integers\<close>

definition INT_MAX :: int where "INT_MAX = 2147483647"

definition INT_MIN :: int where "INT_MIN = - 2147483648"

text \<open>The result of an \<open>int\<close> operation: undefined when it does not fit.\<close>

definition i32 :: "int \<Rightarrow> int option" where
  "i32 x = (if INT_MIN \<le> x \<and> x \<le> INT_MAX then Some x else None)"

lemma i32_Some [simp]: "i32 x = Some y \<longleftrightarrow> y = x \<and> INT_MIN \<le> x \<and> x \<le> INT_MAX"
  by (auto simp: i32_def)

lemma i32_in: "INT_MIN \<le> x \<Longrightarrow> x \<le> INT_MAX \<Longrightarrow> i32 x = Some x"
  by simp

text \<open>The macros LIMIT (its value), BETWEEN, MIN and MAX.\<close>

definition LIMIT :: "int \<Rightarrow> int \<Rightarrow> int \<Rightarrow> int" where
  "LIMIT x a b = (if x < a then a else if x > b then b else x)"

definition BETWEEN :: "int \<Rightarrow> int \<Rightarrow> int \<Rightarrow> bool" where
  "BETWEEN x a b \<longleftrightarrow> a \<le> x \<and> x \<le> b"

lemma LIMIT_bounds: "a \<le> b \<Longrightarrow> a \<le> LIMIT x a b \<and> LIMIT x a b \<le> b"
  by (simp add: LIMIT_def)

lemma LIMIT_ge [simp]: "a \<le> b \<Longrightarrow> a \<le> LIMIT x a b"
  by (simp add: LIMIT_def)

lemma LIMIT_le [simp]: "a \<le> b \<Longrightarrow> LIMIT x a b \<le> b"
  by (simp add: LIMIT_def)

lemma LIMIT_less [simp]: "a < c \<Longrightarrow> LIMIT x a (c - 1) < c"
  by (simp add: LIMIT_def)

lemma LIMIT_id [simp]: "a \<le> x \<Longrightarrow> x \<le> b \<Longrightarrow> LIMIT x a b = x"
  by (simp add: LIMIT_def)

section \<open>C arrays\<close>

definition aget :: "'a list \<Rightarrow> int \<Rightarrow> 'a option" where
  "aget xs i = (if 0 \<le> i \<and> i < int (length xs) then Some (xs ! nat i) else None)"

definition aset :: "'a list \<Rightarrow> int \<Rightarrow> 'a \<Rightarrow> 'a list option" where
  "aset xs i v = (if 0 \<le> i \<and> i < int (length xs) then Some (xs[nat i := v]) else None)"

text \<open>\<open>memmove(&a[dst], &a[src], n * sizeof *a)\<close> within one array.\<close>

definition blit :: "'a list \<Rightarrow> int \<Rightarrow> int \<Rightarrow> int \<Rightarrow> 'a list option" where
  "blit xs dst src n =
     (if 0 \<le> dst \<and> 0 \<le> src \<and> 0 \<le> n \<and> dst + n \<le> int (length xs) \<and> src + n \<le> int (length xs)
      then Some (take (nat dst) xs @ take (nat n) (drop (nat src) xs) @ drop (nat (dst + n)) xs)
      else None)"

lemma aget_Some [carray_simps]:
  "0 \<le> i \<Longrightarrow> i < int (length xs) \<Longrightarrow> aget xs i = Some (xs ! nat i)"
  by (simp add: aget_def)

lemma aset_Some [carray_simps]:
  "0 \<le> i \<Longrightarrow> i < int (length xs) \<Longrightarrow> aset xs i v = Some (xs[nat i := v])"
  by (simp add: aset_def)

lemma blit_Some [carray_simps]:
  "0 \<le> dst \<Longrightarrow> 0 \<le> src \<Longrightarrow> 0 \<le> n \<Longrightarrow> dst + n \<le> int (length xs) \<Longrightarrow> src + n \<le> int (length xs) \<Longrightarrow>
   blit xs dst src n =
     Some (take (nat dst) xs @ take (nat n) (drop (nat src) xs) @ drop (nat (dst + n)) xs)"
  by (simp add: blit_def)

lemma aset_SomeD: "aset xs i v = Some ys \<Longrightarrow> ys = xs[nat i := v] \<and> 0 \<le> i \<and> i < int (length xs)"
  by (simp add: aset_def split: if_splits)

lemma aget_SomeD: "aget xs i = Some v \<Longrightarrow> v = xs ! nat i \<and> 0 \<le> i \<and> i < int (length xs)"
  by (simp add: aget_def split: if_splits)

lemma blit_length: "blit xs dst src n = Some ys \<Longrightarrow> length ys = length xs"
  by (auto simp: blit_def split: if_splits)

text \<open>The elements of a list whose index lies in an interval, replaced by their images.\<close>

definition upd_range :: "int \<Rightarrow> int \<Rightarrow> ('a \<Rightarrow> 'a) \<Rightarrow> 'a list \<Rightarrow> 'a list" where
  "upd_range lo hi f xs =
     map (\<lambda>(i, x). if lo \<le> int i \<and> int i \<le> hi then f x else x) (enumerate 0 xs)"

lemma length_upd_range [simp]: "length (upd_range lo hi f xs) = length xs"
  by (simp add: upd_range_def)

lemma nth_upd_range [simp]:
  "i < length xs \<Longrightarrow>
   upd_range lo hi f xs ! i = (if lo \<le> int i \<and> int i \<le> hi then f (xs ! i) else xs ! i)"
  by (simp add: upd_range_def nth_enumerate_eq)

lemma upd_range_empty: "hi < lo \<Longrightarrow> upd_range lo hi f xs = xs"
  by (rule nth_equalityI) auto

lemma set_upd_rangeD:
  "y \<in> set (upd_range lo hi f xs) \<Longrightarrow> y \<in> set xs \<or> (\<exists>x \<in> set xs. y = f x)"
  by (fastforce simp: in_set_conv_nth split: if_splits)

lemma upd_range_step:
  assumes "0 \<le> i" and "i < int (length xs)"
  shows "upd_range lo i f xs =
    (if lo \<le> i then (upd_range lo (i - 1) f xs)[nat i := f (xs ! nat i)] else xs)"
proof (rule nth_equalityI)
  fix j
  assume "j < length (upd_range lo i f xs)"
  then show "upd_range lo i f xs ! j =
    (if lo \<le> i then (upd_range lo (i - 1) f xs)[nat i := f (xs ! nat i)] else xs) ! j"
    using assms by (cases "j = nat i") (auto simp: nth_list_update)
qed simp

section \<open>Counted loops\<close>

text \<open>\<open>for (i = lo; i <= hi; i++) body\<close> and \<open>for (i = hi; i >= lo; i--) body\<close>.\<close>

function for_up :: "int \<Rightarrow> int \<Rightarrow> (int \<Rightarrow> 's \<Rightarrow> 's option) \<Rightarrow> 's \<Rightarrow> 's option" where
  "for_up i hi body s =
     (if i \<le> hi then do { s' \<leftarrow> body i s; for_up (i + 1) hi body s' } else Some s)"
  by pat_completeness auto
termination
  by (relation "measure (\<lambda>(i, hi, body, s). nat (hi + 1 - i))") auto

function for_down :: "int \<Rightarrow> int \<Rightarrow> (int \<Rightarrow> 's \<Rightarrow> 's option) \<Rightarrow> 's \<Rightarrow> 's option" where
  "for_down i lo body s =
     (if lo \<le> i then do { s' \<leftarrow> body i s; for_down (i - 1) lo body s' } else Some s)"
  by pat_completeness auto
termination
  by (relation "measure (\<lambda>(i, lo, body, s). nat (i + 1 - lo))") auto

declare for_up.simps [simp del] for_down.simps [simp del]

lemma for_up_done: "hi < i \<Longrightarrow> for_up i hi body s = Some s"
  by (simp add: for_up.simps)

lemma for_up_inv:
  assumes "P lo s"
    and "\<And>i s. lo \<le> i \<Longrightarrow> i \<le> hi \<Longrightarrow> P i s \<Longrightarrow> \<exists>s'. body i s = Some s' \<and> P (i + 1) s'"
  shows "\<exists>s'. for_up lo hi body s = Some s' \<and> P (max lo (hi + 1)) s'"
  using assms
proof (induction lo hi body s rule: for_up.induct)
  case (1 i hi body s)
  show ?case
  proof (cases "i \<le> hi")
    case True
    with "1.prems" obtain s1 where s1: "body i s = Some s1" "P (i + 1) s1" by blast
    have "\<exists>s'. for_up (i + 1) hi body s1 = Some s' \<and> P (max (i + 1) (hi + 1)) s'"
      using True s1 "1.prems" by (intro "1.IH") auto
    with True s1 show ?thesis
      by (subst for_up.simps) (simp add: max_absorb2)
  next
    case False
    with "1.prems" show ?thesis by (simp add: for_up.simps max_absorb1)
  qed
qed

lemma for_down_inv:
  assumes "P hi s"
    and "\<And>i s. lo \<le> i \<Longrightarrow> i \<le> hi \<Longrightarrow> P i s \<Longrightarrow> \<exists>s'. body i s = Some s' \<and> P (i - 1) s'"
  shows "\<exists>s'. for_down hi lo body s = Some s' \<and> P (min hi (lo - 1)) s'"
  using assms
proof (induction hi lo body s rule: for_down.induct)
  case (1 i lo body s)
  show ?case
  proof (cases "lo \<le> i")
    case True
    with "1.prems" obtain s1 where s1: "body i s = Some s1" "P (i - 1) s1" by blast
    have "\<exists>s'. for_down (i - 1) lo body s1 = Some s' \<and> P (min (i - 1) (lo - 1)) s'"
      using True s1 "1.prems" by (intro "1.IH") auto
    with True s1 show ?thesis
      by (subst for_down.simps) (simp add: min_absorb2)
  next
    case False
    with "1.prems" show ?thesis by (simp add: for_down.simps min_absorb1)
  qed
qed

text \<open>The exact result of a loop that runs its body on every index.\<close>

lemma for_up_eq:
  assumes "\<And>i. lo \<le> i \<Longrightarrow> i \<le> hi \<Longrightarrow> body i (g (i - 1)) = Some (g i)" and "lo \<le> hi + 1"
  shows "for_up lo hi body (g (lo - 1)) = Some (g hi)"
proof -
  have "\<exists>s'. for_up lo hi body (g (lo - 1)) = Some s' \<and> s' = g (max lo (hi + 1) - 1)"
    by (rule for_up_inv [where P = "\<lambda>i s. s = g (i - 1)"]) (use assms(1) in auto)
  with assms(2) show ?thesis by (simp add: max_def split: if_splits)
qed

section \<open>Machines that consume events\<close>

text \<open>Running a step over a list of events; the run is undefined when a step is.\<close>

fun run :: "('e \<Rightarrow> 's \<Rightarrow> 's option) \<Rightarrow> 'e list \<Rightarrow> 's \<Rightarrow> 's option" where
  "run step [] s = Some s"
| "run step (e # es) s = do { s' \<leftarrow> step e s; run step es s' }"

lemma run_append: "run step (xs @ ys) s = do { s' \<leftarrow> run step xs s; run step ys s' }"
proof (induction xs arbitrary: s)
  case (Cons x xs)
  then show ?case by (cases "step x s") auto
qed simp

text \<open>
  The contract between an event source and a component: the component promises that an
  acceptable event never leads to an undefined execution and keeps its invariant; the
  source relies on the same for every sequence of acceptable events.
\<close>

locale safe_machine =
  fixes step :: "'e \<Rightarrow> 's \<Rightarrow> 's option"
    and inv :: "'s \<Rightarrow> bool"
    and accepts :: "'e \<Rightarrow> 's \<Rightarrow> bool"
  assumes step_safe: "inv s \<Longrightarrow> accepts e s \<Longrightarrow> \<exists>s'. step e s = Some s' \<and> inv s'"
begin

fun accepts_all :: "'e list \<Rightarrow> 's \<Rightarrow> bool" where
  "accepts_all [] s = True"
| "accepts_all (e # es) s = (accepts e s \<and> (\<forall>s'. step e s = Some s' \<longrightarrow> accepts_all es s'))"

lemma run_safe: "inv s \<Longrightarrow> accepts_all es s \<Longrightarrow> \<exists>s'. run step es s = Some s' \<and> inv s'"
proof (induction es arbitrary: s)
  case (Cons e es)
  then obtain s1 where "step e s = Some s1" "inv s1" using step_safe by fastforce
  with Cons show ?case by auto
qed simp

lemma run_inv: "inv s \<Longrightarrow> accepts_all es s \<Longrightarrow> run step es s = Some s' \<Longrightarrow> inv s'"
  using run_safe by fastforce

end

text \<open>A machine that accepts every event: no run is ever undefined.\<close>

locale total_machine =
  fixes step :: "'e \<Rightarrow> 's \<Rightarrow> 's option"
    and inv :: "'s \<Rightarrow> bool"
  assumes step_total: "inv s \<Longrightarrow> \<exists>s'. step e s = Some s' \<and> inv s'"
begin

lemma run_total: "inv s \<Longrightarrow> \<exists>s'. run step es s = Some s' \<and> inv s'"
proof (induction es arbitrary: s)
  case (Cons e es)
  then obtain s1 where "step e s = Some s1" "inv s1" using step_total by blast
  with Cons show ?case by auto
qed simp

end

sublocale total_machine \<subseteq> safe: safe_machine step inv "\<lambda>_ _. True"
  by unfold_locales (rule step_total)

section \<open>Flag words\<close>

definition flag :: "'a::len word \<Rightarrow> 'a word \<Rightarrow> bool" where
  "flag w f \<longleftrightarrow> w AND f \<noteq> 0"

text \<open>The macro MODBIT.\<close>

definition MODBIT :: "'a::len word \<Rightarrow> bool \<Rightarrow> 'a word \<Rightarrow> 'a word" where
  "MODBIT x on b = (if on then x OR b else x AND NOT b)"

lemma flag_MODBIT [flag_simps]: "b \<noteq> 0 \<Longrightarrow> flag (MODBIT x on b) b = on"
  by (auto simp: flag_def MODBIT_def word_bw_assocs word_ao_dist)

lemma flag_MODBIT_other [flag_simps]: "b AND f = 0 \<Longrightarrow> flag (MODBIT x on b) f = flag x f"
proof -
  assume d: "b AND f = 0"
  have "NOT b AND f = f"
    using d by (auto simp: bit_eq_iff bit_simps)
  with d show ?thesis
    by (simp add: flag_def MODBIT_def word_ao_dist word_bw_assocs)
qed

end
