(* ===== verification/Utf8.thy ===== *)
theory Utf8
  imports Prelude
begin

text \<open>
  The UTF-8 codec of simple-terminal (src/package/simple-terminal/src/main.c):
  \<open>utf8decode\<close>, \<open>utf8encode\<close>, \<open>isfullutf8\<close> and \<open>utf8size\<close>, on bytes (8-bit words) and
  code points held in a 64-bit \<open>long\<close>. A read past the bytes at hand is the undefined
  result \<open>None\<close>. The interface \<open>utf8_codec\<close> states what the input loop of the terminal
  relies on, and is interpreted on these definitions.
\<close>

section \<open>The functions\<close>

text \<open>
  The continuation loop of \<open>utf8decode\<close>: the bytes left to read, the bytes from \<open>s\<close>, the
  code point and the count so far. The flag of the result is False when the loop jumps to
  the label \<open>invalid\<close>.
\<close>

fun utf8decode_loop :: "nat \<Rightarrow> byte list \<Rightarrow> 64 word \<Rightarrow> nat \<Rightarrow> (bool \<times> 64 word \<times> nat) option" where
  "utf8decode_loop 0 s u rtn = Some (True, u, rtn)"
| "utf8decode_loop (Suc i) [] u rtn = None"
| "utf8decode_loop (Suc i) (c # s) u rtn =
     (if c AND 0xC0 \<noteq> 0x80 then Some (False, u, rtn)
      else utf8decode_loop i s (push_bit 6 u OR ucast (c AND 0x3F)) (rtn + 1))"

text \<open>The bytes consumed and the code point; U+FFFD when the bytes are not valid.\<close>

definition utf8decode :: "byte list \<Rightarrow> (nat \<times> 64 word) option" where
  "utf8decode s =
     (case s of
        [] \<Rightarrow> None
      | c # s' \<Rightarrow>
          if NOT c AND 0x80 \<noteq> 0 then Some (1, ucast c)
          else
            let start =
              (if c AND 0xE0 = 0xC0 then Some (1, ucast (c AND 0x1F))
               else if c AND 0xF0 = 0xE0 then Some (2, ucast (c AND 0x0F))
               else if c AND 0xF8 = 0xF0 then Some (3, ucast (c AND 0x07))
               else None)
            in case start of
                 None \<Rightarrow> Some (1, 0xFFFD)
               | Some (n, u0) \<Rightarrow>
                   do {
                     (ok, u, rtn) \<leftarrow> utf8decode_loop n s' u0 1;
                     Some (rtn,
                       if \<not> ok \<or> (n = 1 \<and> u < 0x80) \<or> (n = 2 \<and> u < 0x800)
                         \<or> (n = 3 \<and> u < 0x10000) \<or> (0xD800 \<le> u \<and> u \<le> 0xDFFF)
                       then 0xFFFD else u)
                   })"

text \<open>The loop of \<open>utf8encode\<close>, from \<open>i = n\<close> down to 1.\<close>

fun utf8encode_loop :: "nat \<Rightarrow> 64 word \<Rightarrow> byte list" where
  "utf8encode_loop 0 uc = []"
| "utf8encode_loop (Suc i) uc =
     ((ucast (drop_bit (6 * i) uc AND 0x3F) OR 0x80) # utf8encode_loop i uc)"

text \<open>
  The bytes written; their number is the value returned. The second comparison of the code
  is on the signed \<open>*u\<close>, the others on the unsigned copy.
\<close>

definition utf8encode :: "64 word \<Rightarrow> byte list" where
  "utf8encode u =
     (if u < 0x80 then [ucast u]
      else if sint u < 0x800 then (ucast (drop_bit 6 u) OR 0xC0) # utf8encode_loop 1 u
      else if u < 0x10000 then (ucast (drop_bit 12 u) OR 0xE0) # utf8encode_loop 2 u
      else if u \<le> 0x10FFFF then (ucast (drop_bit 18 u) OR 0xF0) # utf8encode_loop 3 u
      else [0xEF, 0xBF, 0xBD])"

text \<open>\<open>isfullutf8(s, b)\<close>, where \<open>s\<close> holds at least \<open>b\<close> bytes.\<close>

definition isfullutf8 :: "byte list \<Rightarrow> nat \<Rightarrow> bool" where
  "isfullutf8 s b =
     (if b < 1 then False
      else if s ! 0 AND 0xE0 = 0xC0 \<and> b = 1 then False
      else if s ! 0 AND 0xF0 = 0xE0 \<and> (b = 1 \<or> (b = 2 \<and> s ! 1 AND 0xC0 = 0x80)) then False
      else if s ! 0 AND 0xF8 = 0xF0
           \<and> (b = 1 \<or> (b = 2 \<and> s ! 1 AND 0xC0 = 0x80)
              \<or> (b = 3 \<and> s ! 1 AND 0xC0 = 0x80 \<and> s ! 2 AND 0xC0 = 0x80)) then False
      else True)"

definition utf8size :: "byte \<Rightarrow> nat" where
  "utf8size c =
     (if NOT c AND 0x80 \<noteq> 0 then 1
      else if c AND 0xE0 = 0xC0 then 2
      else if c AND 0xF0 = 0xE0 then 3
      else 4)"

section \<open>Bytes by their value\<close>

text \<open>
  The bit tests of the code, as intervals of the byte's value: each is checked on all 256
  bytes.
\<close>

lemma byte_exhaust:
  fixes c :: byte
  assumes "list_all (\<lambda>n. P (word_of_nat n :: byte)) [0..<256]"
  shows "P c"
proof -
  have "unat c < 256" using unsigned_less [of c, where ?'a = nat] by simp
  then have "P (word_of_nat (unat c))" using assms unfolding list_all_iff by (metis atLeastLessThan_iff le0 set_upt)
  then show ?thesis by simp
qed

lemma byte_class [simp]:
  fixes c :: byte
  shows "(NOT c AND 0x80 = 0) \<longleftrightarrow> 128 \<le> unat c"
    and "(c AND 0xC0 = 0x80) \<longleftrightarrow> 128 \<le> unat c \<and> unat c < 192"
    and "(c AND 0xE0 = 0xC0) \<longleftrightarrow> 192 \<le> unat c \<and> unat c < 224"
    and "(c AND 0xF0 = 0xE0) \<longleftrightarrow> 224 \<le> unat c \<and> unat c < 240"
    and "(c AND 0xF8 = 0xF0) \<longleftrightarrow> 240 \<le> unat c \<and> unat c < 248"
  by ((rule byte_exhaust [where c = c], code_simp))+

lemma byte_payload [simp]:
  fixes c :: byte
  shows "unat (c AND 0x3F) = unat c mod 64"
    and "unat (c AND 0x1F) = unat c mod 32"
    and "unat (c AND 0x0F) = unat c mod 16"
    and "unat (c AND 0x07) = unat c mod 8"
  by ((rule byte_exhaust [where c = c], code_simp))+

lemma byte_mark:
  fixes d :: byte
  shows "unat d < 64 \<longrightarrow> unat (d OR 0x80) = 128 + unat d"
    and "unat d < 32 \<longrightarrow> unat (d OR 0xC0) = 192 + unat d"
    and "unat d < 16 \<longrightarrow> unat (d OR 0xE0) = 224 + unat d"
    and "unat d < 8 \<longrightarrow> unat (d OR 0xF0) = 240 + unat d"
  by ((rule byte_exhaust [where c = d], code_simp))+

lemma unat_byte_of_64: "unat (ucast (w :: 64 word) :: byte) = unat w mod 256"
  by (simp add: unsigned_ucast_eq take_bit_eq_mod)

lemma unat_64_of_byte [simp]: "unat (ucast (d :: byte) :: 64 word) = unat d"
proof -
  have "unat d < 2 ^ 64" using unsigned_less [of d, where ?'a = nat] by simp
  then show ?thesis by (simp add: unsigned_ucast_eq take_bit_nat_eq_self)
qed

lemma unat_drop_div: "unat (drop_bit k (w :: 64 word)) = unat w div 2 ^ k"
  unfolding unat_drop_bit_eq by (rule drop_bit_eq_div)

lemma unat_low6: "unat ((w :: 64 word) AND 0x3F) = unat w mod 64"
proof -
  have "w AND 0x3F = take_bit 6 w" by (simp add: take_bit_eq_mask mask_eq_exp_minus_1)
  then have "unat (w AND 0x3F) = take_bit 6 (unat w)" by (simp only: unsigned_take_bit_eq)
  then show ?thesis by (simp add: take_bit_eq_mod)
qed

lemma or_shift6:
  fixes u :: "64 word"
  assumes "unat u < 2 ^ 58" and "unat d < 64"
  shows "unat (push_bit 6 u OR ucast (d::byte)) = unat u * 64 + unat d"
proof -
  have "push_bit 6 u AND ucast d = 0"
  proof (rule bit_word_eqI)
    fix n assume "n < LENGTH(64)"
    have "d = take_bit 6 d" using assms(2)
      by (simp add: word_unat_eq_iff unsigned_take_bit_eq take_bit_nat_eq_self)
    then have "bit d n \<Longrightarrow> n < 6" by (metis bit_take_bit_iff)
    then show "bit (push_bit 6 u AND ucast d) n = bit (0 :: 64 word) n"
      by (auto simp: bit_simps)
  qed
  then have "push_bit 6 u OR ucast d = push_bit 6 u + ucast d"
    by (rule disjunctive_add_eq_or [symmetric])
  moreover have "unat (push_bit 6 u) = unat u * 64"
    using assms(1) by (simp add: push_bit_eq_mult unat_word_ariths)
  ultimately show ?thesis using assms by (simp add: unat_word_ariths)
qed

lemma cont_byte:
  "unat (ucast (drop_bit k (u :: 64 word) AND 0x3F) OR 0x80 :: byte) = 128 + unat u div 2 ^ k mod 64"
proof -
  have "unat (ucast (drop_bit k u AND 0x3F) :: byte) = unat u div 2 ^ k mod 64"
    by (simp only: unat_byte_of_64 unat_low6 unat_drop_div) simp
  then show ?thesis using byte_mark(1) [of "ucast (drop_bit k u AND 0x3F)"] by simp
qed

lemma lead_byte:
  fixes u :: "64 word"
  shows "unat u < 0x800 \<Longrightarrow> unat (ucast (drop_bit 6 u) OR 0xC0 :: byte) = 192 + unat u div 64"
    and "unat u < 0x10000 \<Longrightarrow> unat (ucast (drop_bit 12 u) OR 0xE0 :: byte) = 224 + unat u div 4096"
    and "unat u < 0x200000 \<Longrightarrow> unat (ucast (drop_bit 18 u) OR 0xF0 :: byte) = 240 + unat u div 262144"
  using byte_mark(2) [of "ucast (drop_bit 6 u)"] byte_mark(3) [of "ucast (drop_bit 12 u)"]
    byte_mark(4) [of "ucast (drop_bit 18 u)"]
  unfolding unat_byte_of_64 unat_drop_div by auto

definition join :: "64 word \<Rightarrow> byte \<Rightarrow> 64 word" where
  "join u c = push_bit 6 u OR ucast (c AND 0x3F)"

lemma unat_join: "unat u < 2 ^ 58 \<Longrightarrow> unat (join u c) = unat u * 64 + unat c mod 64"
  using or_shift6 [of u "c AND 0x3F"] by (simp add: join_def)

lemma utf8decode_loop_Cons [simp]:
  "0 < i \<Longrightarrow> utf8decode_loop i (c # s) u r =
    (if 128 \<le> unat c \<and> unat c < 192 then utf8decode_loop (i - 1) s (join u c) (r + 1)
     else Some (False, u, r))"
  by (cases i) (simp_all add: join_def)

lemma utf8encode_loop_pos [simp]:
  "0 < i \<Longrightarrow> utf8encode_loop i uc =
    (ucast (drop_bit (6 * (i - 1)) uc AND 0x3F) OR 0x80) # utf8encode_loop (i - 1) uc"
  by (cases i) simp_all

declare utf8decode_loop.simps(3) [simp del]

lemma utf8decode_Cons:
  "utf8decode (c # s) =
    (if unat c < 128 then Some (1, ucast c)
     else if 192 \<le> unat c \<and> unat c < 248 then
       let n = (if unat c < 224 then 1 else if unat c < 240 then 2 else 3);
           u0 = (if unat c < 224 then ucast (c AND 0x1F) else if unat c < 240 then ucast (c AND 0x0F) else ucast (c AND 0x07))
       in do {
           (ok, u, rtn) \<leftarrow> utf8decode_loop n s u0 1;
           Some (rtn,
              if \<not> ok \<or> (n = 1 \<and> u < 0x80) \<or> (n = 2 \<and> u < 0x800)
                         \<or> (n = 3 \<and> u < 0x10000) \<or> (0xD800 \<le> u \<and> u \<le> 0xDFFF)
                       then 0xFFFD else u)
          }
     else Some (1, 0xFFFD))"
  unfolding utf8decode_def byte_class list.case
  by (auto simp: Let_def not_less split: option.splits)

abbreviation is_cont :: "byte \<Rightarrow> bool" where
  "is_cont c \<equiv> 128 \<le> unat c \<and> unat c < 192"

definition reject :: "nat \<Rightarrow> 64 word \<Rightarrow> 64 word" where
  "reject n u = (if (n = 1 \<and> u < 0x80) \<or> (n = 2 \<and> u < 0x800) \<or> (n = 3 \<and> u < 0x10000)
     \<or> (0xD800 \<le> u \<and> u \<le> 0xDFFF) then 0xFFFD else u)"

lemma utf8decode_2:
  "192 \<le> unat b0 \<Longrightarrow> unat b0 < 224 \<Longrightarrow> is_cont b1 \<Longrightarrow>
   utf8decode (b0 # b1 # s) = Some (2, reject 1 (join (ucast (b0 AND 0x1F)) b1))"
  by (simp add: utf8decode_Cons reject_def)

lemma utf8decode_3:
  "224 \<le> unat b0 \<Longrightarrow> unat b0 < 240 \<Longrightarrow> is_cont b1 \<Longrightarrow> is_cont b2 \<Longrightarrow>
   utf8decode (b0 # b1 # b2 # s) =
     Some (3, reject 2 (join (join (ucast (b0 AND 0x0F)) b1) b2))"
  by (simp add: utf8decode_Cons reject_def)

lemma utf8decode_4:
  "240 \<le> unat b0 \<Longrightarrow> unat b0 < 248 \<Longrightarrow> is_cont b1 \<Longrightarrow> is_cont b2 \<Longrightarrow> is_cont b3 \<Longrightarrow>
   utf8decode (b0 # b1 # b2 # b3 # s) =
     Some (4, reject 3 (join (join (join (ucast (b0 AND 0x07)) b1) b2) b3))"
  by (simp add: utf8decode_Cons reject_def)

lemma reject_id:
  "\<not> (0xD800 \<le> unat u \<and> unat u \<le> 0xDFFF) \<Longrightarrow> (n = 1 \<longrightarrow> 0x80 \<le> unat u) \<Longrightarrow> (n = 2 \<longrightarrow> 0x800 \<le> unat u)
   \<Longrightarrow> (n = 3 \<longrightarrow> 0x10000 \<le> unat u) \<Longrightarrow> reject n u = u"
  by (auto simp: reject_def word_less_nat_alt word_le_nat_alt)

lemma sint_small: "unat u < 2 ^ 62 \<Longrightarrow> sint (u :: 64 word) = int (unat u)"
proof -
  assume "unat u < 2 ^ 62"
  then have "int (unat u) < int (2 ^ 62)" using of_nat_less_iff by blast
  then have "uint u < 2 ^ 63" by simp
  moreover have "- (2 ^ 63) \<le> uint u" by (rule order_trans [of _ 0]) simp_all
  ultimately have "signed_take_bit 63 (uint u) = uint u"
    by (intro signed_take_bit_int_eq_self)
  then show ?thesis by (simp add: sint_uint)
qed

lemma utf8encode_cases:
  assumes "unat u \<le> 0x10FFFF"
  obtains
    (1) b0 where "utf8encode u = [b0]" "unat b0 = unat u" "unat u < 0x80"
  | (2) b0 b1 where "utf8encode u = [b0, b1]" "unat b0 = 192 + unat u div 64" "unat b1 = 128 + unat u mod 64"
      "0x80 \<le> unat u" "unat u < 0x800"
  | (3) b0 b1 b2 where "utf8encode u = [b0, b1, b2]" "unat b0 = 224 + unat u div 4096"
      "unat b1 = 128 + unat u div 64 mod 64" "unat b2 = 128 + unat u mod 64" "0x800 \<le> unat u" "unat u < 0x10000"
  | (4) b0 b1 b2 b3 where "utf8encode u = [b0, b1, b2, b3]" "unat b0 = 240 + unat u div 262144"
      "unat b1 = 128 + unat u div 4096 mod 64" "unat b2 = 128 + unat u div 64 mod 64"
      "unat b3 = 128 + unat u mod 64" "0x10000 \<le> unat u"
proof -
  have si: "sint u = int (unat u)" using assms by (intro sint_small) simp
  have lt: "sint u < 0x800 \<longleftrightarrow> unat u < 0x800" unfolding si by linarith
  have c0: "unat (ucast (u AND 0x3F) OR 0x80 :: byte) = 128 + unat u mod 64"
    using cont_byte [of 0 u] by simp
  consider "unat u < 0x80" | "0x80 \<le> unat u" "unat u < 0x800" | "0x800 \<le> unat u" "unat u < 0x10000"
    | "0x10000 \<le> unat u" by linarith
  then show thesis
  proof cases
    assume "unat u < 0x80"
    then show thesis
      using unat_byte_of_64 [of u] by (intro 1 [of "ucast u"]) (simp_all add: utf8encode_def word_less_nat_alt)
  next
    assume *: "0x80 \<le> unat u" "unat u < 0x800"
    then show thesis
      by (intro 2 [of "ucast (drop_bit 6 u) OR 0xC0" "ucast (u AND 0x3F) OR 0x80"]) (simp_all add: utf8encode_def word_less_nat_alt lt lead_byte c0)
  next
    assume *: "0x800 \<le> unat u" "unat u < 0x10000"
    then show thesis
      using cont_byte [of 6 u] by (intro 3 [of "ucast (drop_bit 12 u) OR 0xE0" "ucast (drop_bit 6 u AND 0x3F) OR 0x80" "ucast (u AND 0x3F) OR 0x80"]) (simp_all add: utf8encode_def word_less_nat_alt lt lead_byte c0)
  next
    assume *: "0x10000 \<le> unat u"
    then show thesis
      using cont_byte [of 6 u] cont_byte [of 12 u] assms
      by (intro 4 [of "ucast (drop_bit 18 u) OR 0xF0" "ucast (drop_bit 12 u AND 0x3F) OR 0x80" "ucast (drop_bit 6 u AND 0x3F) OR 0x80" "ucast (u AND 0x3F) OR 0x80"]) (simp_all add: utf8encode_def word_less_nat_alt word_le_nat_alt lt lead_byte c0)
  qed
qed

lemma strip_mark [simp]:
  fixes a :: nat
  shows "a < 32 \<Longrightarrow> (192 + a) mod 32 = a" and "a < 16 \<Longrightarrow> (224 + a) mod 16 = a"
    and "a < 8 \<Longrightarrow> (240 + a) mod 8 = a" and "a < 64 \<Longrightarrow> (128 + a) mod 64 = a"
  using mod_mult_self1 [of a 6 32] mod_mult_self1 [of a 14 16] mod_mult_self1 [of a 30 8]
    mod_mult_self1 [of a 2 64] by (simp_all add: add.commute)

lemma recompose:
  fixes n :: nat
  shows "n div 4096 * 4096 + n div 64 mod 64 * 64 + n mod 64 = n"
    and "n div 64 mod 64 + n div 4096 * 64 = n div 64"
    and "n div 4096 mod 64 + n div 262144 * 64 = n div 4096"
proof -
  have "n div 4096 = n div 64 div 64" "n div 262144 = n div 4096 div 64" by (simp_all add: div_mult2_eq [symmetric])
  then show "n div 64 mod 64 + n div 4096 * 64 = n div 64"
     "n div 4096 mod 64 + n div 262144 * 64 = n div 4096" by (metis add.commute div_mult_mod_eq)+
  then show "n div 4096 * 4096 + n div 64 mod 64 * 64 + n mod 64 = n"
    using div_mult_mod_eq [of n 64] by linarith
qed

lemma utf8_decode_encode:
  assumes "unat u \<le> 0x10FFFF" and "\<not> (0xD800 \<le> unat u \<and> unat u \<le> 0xDFFF)"
  shows "utf8decode (utf8encode u @ rest) = Some (length (utf8encode u), u)"
  using assms(1)
proof (cases u rule: utf8encode_cases)
  case (1 b0)
  then have "ucast b0 = u" by (simp add: word_unat_eq_iff)
  with 1 show ?thesis by (simp add: utf8decode_Cons)
next
  case (2 b0 b1)
  have "unat (join (ucast (b0 AND 0x1F)) b1) = unat u"
    using 2 by (simp add: unat_join less_mult_imp_div_less)
  then have "join (ucast (b0 AND 0x1F)) b1 = u" by (rule word_unat_eq_iff [THEN iffD2])
  with 2 assms show ?thesis
    by (simp add: utf8decode_2 reject_id less_mult_imp_div_less)
next
  case (3 b0 b1 b2)
  have "unat (join (join (ucast (b0 AND 0x0F)) b1) b2) = unat u"
    using 3 recompose(1) [of "unat u"] by (simp add: unat_join less_mult_imp_div_less)
  then have "join (join (ucast (b0 AND 0x0F)) b1) b2 = u" by (rule word_unat_eq_iff [THEN iffD2])
  with 3 assms show ?thesis
    by (simp add: utf8decode_3 reject_id less_mult_imp_div_less)
next
  case (4 b0 b1 b2 b3)
  have "unat (join (join (join (ucast (b0 AND 0x07)) b1) b2) b3) = unat u"
    using 4 recompose [of "unat u"] assms(1) by (simp add: unat_join less_mult_imp_div_less)
  then have "join (join (join (ucast (b0 AND 0x07)) b1) b2) b3 = u" by (rule word_unat_eq_iff [THEN iffD2])
  with 4 assms show ?thesis
    by (simp add: utf8decode_4 reject_id less_mult_imp_div_less)
qed

lemma utf8decode_loop_None:
  "utf8decode_loop n s u r = None \<longleftrightarrow> length s < n \<and> (\<forall>c \<in> set s. is_cont c)"
proof (induction n arbitrary: s u r)
  case (Suc n)
  then show ?case by (cases s) auto
qed simp

lemma utf8decode_loop_append:
  "utf8decode_loop n s u r = Some x \<Longrightarrow> utf8decode_loop n (s @ t) u r = Some x"
proof (induction n arbitrary: s u r)
  case (Suc n)
  then show ?case by (cases s) (fastforce split: if_splits)+
qed simp

lemma utf8decode_loop_consumed:
  "utf8decode_loop n s u r = Some (ok, v, r') \<Longrightarrow> r \<le> r' \<and> r' \<le> r + n \<and> r' \<le> r + length s"
proof (induction n arbitrary: s u r)
  case (Suc n)
  then show ?case by (cases s) (fastforce split: if_splits)+
qed simp

lemma utf8decode_loop_ok:
  "utf8decode_loop n s u r = Some (True, v, r') \<Longrightarrow>
   n \<le> length s \<and> (\<forall>c \<in> set (take n s). is_cont c)"
proof (induction n arbitrary: s u r)
  case (Suc n)
  then show ?case by (cases s) (fastforce split: if_splits)+
qed simp

definition tail_bytes :: "byte \<Rightarrow> nat" where
  "tail_bytes c = (if unat c < 192 then 0 else if unat c < 224 then 1 else if unat c < 240 then 2
     else if unat c < 248 then 3 else 0)"

lemma no_triple: "(\<forall>a b c. x \<noteq> Some (a, b, c)) \<longleftrightarrow> x = None"
  by (cases x) auto

lemma utf8decode_None:
  "utf8decode (c # s) = None \<longleftrightarrow> length s < tail_bytes c \<and> (\<forall>d \<in> set s. is_cont d)"
  by (auto simp: utf8decode_Cons Let_def bind_None_iff no_triple utf8decode_loop_None tail_bytes_def)

lemma isfullutf8_iff:
  assumes "b \<le> length s"
  shows "isfullutf8 s b \<longleftrightarrow> utf8decode (take b s) \<noteq> None"
proof (cases s)
  case Nil
  with assms show ?thesis by (simp add: isfullutf8_def utf8decode_def)
next
  case (Cons c s')
  consider "b = 0" | "b = 1" | "b = 2" | "b = 3" | "4 \<le> b" by linarith
  then show ?thesis
  proof cases
    case 5
    then have "\<not> length (take (b - 1) s') < tail_bytes c"
      using assms Cons by (auto simp: tail_bytes_def)
    with 5 Cons show ?thesis by (simp add: isfullutf8_def take_Cons' utf8decode_None)
  qed (use assms Cons in \<open>auto simp: isfullutf8_def utf8decode_None utf8decode_def [of "[]"] tail_bytes_def
          take_Cons' hd_conv_nth Suc_le_length_iff numeral_2_eq_2 numeral_3_eq_3\<close>)
qed

lemma utf8decode_append:
  "utf8decode s = Some r \<Longrightarrow> utf8decode (s @ t) = Some r"
  by (cases s) (auto simp: utf8decode_Cons Let_def utf8decode_def [of "[]"]
      dest: utf8decode_loop_append split: if_splits)

lemma utf8decode_consumed:
  "utf8decode s = Some (n, u) \<Longrightarrow> 1 \<le> n \<and> n \<le> 4 \<and> n \<le> length s"
  by (cases s) (auto simp: utf8decode_Cons Let_def utf8decode_def [of "[]"]
      dest!: utf8decode_loop_consumed split: if_splits)

lemma utf8decode_four: "4 \<le> length s \<Longrightarrow> utf8decode s \<noteq> None"
  by (cases s) (auto simp: utf8decode_None tail_bytes_def simp del: not_None_eq)

lemma utf8decode_accept:
  assumes "utf8decode s = Some (n, u)" and "u \<noteq> 0xFFFD"
  obtains
    (1) b0 t where "s = b0 # t" "n = 1" "unat b0 < 128" "u = ucast b0"
  | (2) b0 b1 t where "s = b0 # b1 # t" "n = 2" "192 \<le> unat b0" "unat b0 < 224" "is_cont b1"
      "u = reject 1 (join (ucast (b0 AND 0x1F)) b1)"
  | (3) b0 b1 b2 t where "s = b0 # b1 # b2 # t" "n = 3" "224 \<le> unat b0" "unat b0 < 240"
      "is_cont b1" "is_cont b2" "u = reject 2 (join (join (ucast (b0 AND 0x0F)) b1) b2)"
  | (4) b0 b1 b2 b3 t where "s = b0 # b1 # b2 # b3 # t" "n = 4" "240 \<le> unat b0" "unat b0 < 248"
      "is_cont b1" "is_cont b2" "is_cont b3"
      "u = reject 3 (join (join (join (ucast (b0 AND 0x07)) b1) b2) b3)"
proof (cases s)
  case Nil
  with assms show ?thesis by (simp add: utf8decode_def)
next
  case (Cons b0 t)
  consider "unat b0 < 128" | "128 \<le> unat b0" "unat b0 < 192 \<or> 248 \<le> unat b0"
    | "192 \<le> unat b0" "unat b0 < 224" | "224 \<le> unat b0" "unat b0 < 240" | "240 \<le> unat b0" "unat b0 < 248"
    by linarith
  then show ?thesis
  proof cases
    assume "unat b0 < 128"
    then show ?thesis using 1 [of b0 t] Cons assms by (simp add: utf8decode_Cons)
  next
    assume "128 \<le> unat b0" "unat b0 < 192 \<or> 248 \<le> unat b0"
    then show ?thesis using Cons assms by (auto simp: utf8decode_Cons)
  next
    assume *: "192 \<le> unat b0" "unat b0 < 224"
    with assms Cons have "utf8decode_loop 1 t (ucast (b0 AND 0x1F)) 1 = Some (True, v, r) \<or> True" for v r by simp
    from * assms Cons obtain v r where "utf8decode_loop 1 t (ucast (b0 AND 0x1F)) 1 = Some (True, v, r)"
      by (auto simp: utf8decode_Cons split: if_splits)
    then obtain b1 t' where "t = b1 # t'" "is_cont b1"
      by (auto dest!: utf8decode_loop_ok simp: Suc_le_length_iff)
    with * assms Cons show ?thesis using 2 [of b0 b1 t'] by (simp add: utf8decode_2)
  next
    assume *: "224 \<le> unat b0" "unat b0 < 240"
    from * assms Cons obtain v r where "utf8decode_loop 2 t (ucast (b0 AND 0x0F)) 1 = Some (True, v, r)"
      by (auto simp: utf8decode_Cons split: if_splits)
    then obtain b1 b2 t' where "t = b1 # b2 # t'" "is_cont b1" "is_cont b2"
      by (auto dest!: utf8decode_loop_ok simp: Suc_le_length_iff numeral_2_eq_2)
    with * assms Cons show ?thesis using 3 [of b0 b1 b2 t'] by (simp add: utf8decode_3)
  next
    assume *: "240 \<le> unat b0" "unat b0 < 248"
    from * assms Cons obtain v r where "utf8decode_loop 3 t (ucast (b0 AND 0x07)) 1 = Some (True, v, r)"
      by (auto simp: utf8decode_Cons split: if_splits)
    then obtain b1 b2 b3 t' where "t = b1 # b2 # b3 # t'" "is_cont b1" "is_cont b2" "is_cont b3"
      by (auto dest!: utf8decode_loop_ok simp: Suc_le_length_iff numeral_3_eq_3)
    with * assms Cons show ?thesis using 4 [of b0 b1 b2 b3 t'] by (simp add: utf8decode_4)
  qed
qed

lemma rejectD:
  assumes "reject n v \<noteq> 0xFFFD"
  shows "reject n v = v" "n = 1 \<Longrightarrow> 0x80 \<le> unat v" "n = 2 \<Longrightarrow> 0x800 \<le> unat v" "n = 3 \<Longrightarrow> 0x10000 \<le> unat v"
    "unat v < 0xD800 \<or> 0xDFFF < unat v"
  using assms by (auto simp: reject_def word_less_nat_alt word_le_nat_alt split: if_splits)

lemma unat_offset:
  assumes "m \<le> unat c" and "unat c < m + d"
  obtains k where "unat c = m + k" "k < d"
  using assms by (metis add_less_cancel_left le_Suc_ex)

lemma contE:
  assumes "is_cont c"
  obtains k where "unat c = 128 + k" "k < 64"
  using assms unat_offset [of 128 c 64] by auto

lemma base64_digits:
  fixes a :: nat
  assumes "b < 64" and "c < 64" and "d < 64"
  shows "(4096 * a + b * 64 + c) div 64 mod 64 = b" and "(4096 * a + b * 64 + c) mod 64 = c"
    and "(262144 * a + b * 4096 + c * 64 + d) div 4096 mod 64 = b"
    and "(262144 * a + b * 4096 + c * 64 + d) div 64 mod 64 = c"
    and "(262144 * a + b * 4096 + c * 64 + d) mod 64 = d"
proof -
  have p: "(64 * x + y) div 64 = x" "(64 * x + y) mod 64 = y" if "y < 64" for x y :: nat
    using that by simp_all
  have e: "4096 * a + b * 64 + c = 64 * (64 * a + b) + c"
    "262144 * a + b * 4096 + c * 64 + d = 64 * (64 * (64 * a + b) + c) + d" by simp_all
  have q: "n div 4096 = n div 64 div 64" for n :: nat by (simp add: div_mult2_eq [symmetric])
  show "(4096 * a + b * 64 + c) div 64 mod 64 = b" "(4096 * a + b * 64 + c) mod 64 = c"
    "(262144 * a + b * 4096 + c * 64 + d) div 4096 mod 64 = b"
    "(262144 * a + b * 4096 + c * 64 + d) div 64 mod 64 = c"
    "(262144 * a + b * 4096 + c * 64 + d) mod 64 = d"
    unfolding e q by (simp_all only: p assms)
qed

lemma utf8encode_bytes:
  assumes "unat u \<le> 0x10FFFF"
  shows "0x80 \<le> unat u \<Longrightarrow> unat u < 0x800 \<Longrightarrow> unat b0 = 192 + unat u div 64 \<Longrightarrow>
      unat b1 = 128 + unat u mod 64 \<Longrightarrow> utf8encode u = [b0, b1]"
    and "0x800 \<le> unat u \<Longrightarrow> unat u < 0x10000 \<Longrightarrow> unat b0 = 224 + unat u div 4096 \<Longrightarrow>
      unat b1 = 128 + unat u div 64 mod 64 \<Longrightarrow> unat b2 = 128 + unat u mod 64 \<Longrightarrow>
      utf8encode u = [b0, b1, b2]"
    and "0x10000 \<le> unat u \<Longrightarrow> unat b0 = 240 + unat u div 262144 \<Longrightarrow>
      unat b1 = 128 + unat u div 4096 mod 64 \<Longrightarrow> unat b2 = 128 + unat u div 64 mod 64 \<Longrightarrow>
      unat b3 = 128 + unat u mod 64 \<Longrightarrow> utf8encode u = [b0, b1, b2, b3]"
  using assms by (cases u rule: utf8encode_cases; simp add: word_unat_eq_iff)+

lemma utf8_encode_decode:
  assumes "utf8decode s = Some (n, u)" and "u \<noteq> 0xFFFD" and "u \<le> 0x10FFFF"
  shows "utf8encode u = take n s"
proof -
  have le: "unat u \<le> 0x10FFFF" using assms(3) by (simp add: word_le_nat_alt)
  from assms(1,2) show ?thesis
  proof (cases rule: utf8decode_accept)
    case (1 b0 t)
    then show ?thesis
      by (simp add: utf8encode_def word_less_nat_alt word_unat_eq_iff unat_byte_of_64)
  next
    case (2 b0 b1 t)
    let ?v = "join (ucast (b0 AND 0x1F)) b1"
    obtain k0 where k0: "unat b0 = 192 + k0" "k0 < 32" using 2 unat_offset [of 192 b0 32] by auto
    obtain k1 where k1: "unat b1 = 128 + k1" "k1 < 64" using \<open>is_cont b1\<close> by (rule contE)
    have v: "unat ?v = k0 * 64 + k1" using k0 k1 by (simp add: unat_join)
    have u: "u = ?v" "0x80 \<le> unat u" using rejectD [of 1 ?v] 2 assms(2) by auto
    have "utf8encode u = [b0, b1]"
      using u v k0 k1 by (intro utf8encode_bytes(1) le) simp_all
    with 2 show ?thesis by simp
  next
    case (3 b0 b1 b2 t)
    let ?v = "join (join (ucast (b0 AND 0x0F)) b1) b2"
    obtain k0 where k0: "unat b0 = 224 + k0" "k0 < 16" using 3 unat_offset [of 224 b0 16] by auto
    obtain k1 where k1: "unat b1 = 128 + k1" "k1 < 64" using \<open>is_cont b1\<close> by (rule contE)
    obtain k2 where k2: "unat b2 = 128 + k2" "k2 < 64" using \<open>is_cont b2\<close> by (rule contE)
    have v: "unat ?v = 4096 * k0 + k1 * 64 + k2" using k0 k1 k2 by (simp add: unat_join)
    have u: "u = ?v" "0x800 \<le> unat u" using rejectD [of 2 ?v] 3 assms(2) by auto
    have "utf8encode u = [b0, b1, b2]"
      using u v k0 k1 k2 base64_digits [of k1 k2 0 k0] by (intro utf8encode_bytes(2) le) simp_all
    with 3 show ?thesis by simp
  next
    case (4 b0 b1 b2 b3 t)
    let ?v = "join (join (join (ucast (b0 AND 0x07)) b1) b2) b3"
    obtain k0 where k0: "unat b0 = 240 + k0" "k0 < 8" using 4 unat_offset [of 240 b0 8] by auto
    obtain k1 where k1: "unat b1 = 128 + k1" "k1 < 64" using \<open>is_cont b1\<close> by (rule contE)
    obtain k2 where k2: "unat b2 = 128 + k2" "k2 < 64" using \<open>is_cont b2\<close> by (rule contE)
    obtain k3 where k3: "unat b3 = 128 + k3" "k3 < 64" using \<open>is_cont b3\<close> by (rule contE)
    have v: "unat ?v = 262144 * k0 + k1 * 4096 + k2 * 64 + k3" using k0 k1 k2 k3 by (simp add: unat_join)
    have u: "u = ?v" "0x10000 \<le> unat u" using rejectD [of 3 ?v] 4 assms(2) by auto
    have "utf8encode u = [b0, b1, b2, b3]"
      using u v k0 k1 k2 k3 base64_digits [of k1 k2 k3 k0] by (intro utf8encode_bytes(3) le) simp_all
    with 4 show ?thesis by simp
  qed
qed

section \<open>The interface of the input loop\<close>

text \<open>
  Cutting a byte sequence into characters: \<open>dec\<close> is applied again and again until the rest
  is not a complete character.
\<close>

function scan :: "(byte list \<Rightarrow> (nat \<times> 'u) option) \<Rightarrow> byte list \<Rightarrow> (nat \<times> 'u) list \<times> byte list" where
  "scan dec s =
     (case dec s of
        None \<Rightarrow> ([], s)
      | Some (n, u) \<Rightarrow>
          if n = 0 \<or> length s < n then ([], s)
          else (case scan dec (drop n s) of (xs, r) \<Rightarrow> ((n, u) # xs, r)))"
  by pat_completeness auto
termination
  by (relation "measure (\<lambda>(dec, s). length s)") auto

declare scan.simps [simp del]

text \<open>
  What the loop of \<open>ttyread\<close> needs from a codec: a character is decoded from its own bytes
  only, a decoded character is one to four bytes long, four bytes always hold one, and the
  test for a complete character agrees with the decoder.
\<close>

locale utf8_codec =
  fixes dec :: "byte list \<Rightarrow> (nat \<times> 'u) option"
    and enc :: "'u \<Rightarrow> byte list"
    and full :: "byte list \<Rightarrow> nat \<Rightarrow> bool"
    and valid :: "'u \<Rightarrow> bool"
  assumes full_iff: "b \<le> length s \<Longrightarrow> full s b \<longleftrightarrow> dec (take b s) \<noteq> None"
    and dec_append: "dec s = Some r \<Longrightarrow> dec (s @ t) = Some r"
    and dec_consumed: "dec s = Some (n, u) \<Longrightarrow> 1 \<le> n \<and> n \<le> 4 \<and> n \<le> length s"
    and dec_four: "4 \<le> length s \<Longrightarrow> dec s \<noteq> None"
    and dec_enc: "valid u \<Longrightarrow> dec (enc u @ t) = Some (length (enc u), u)"
begin

lemma scan_None: "dec s = None \<Longrightarrow> scan dec s = ([], s)"
  by (simp add: scan.simps)

lemma scan_Some:
  "dec s = Some (n, u) \<Longrightarrow>
   scan dec s = (case scan dec (drop n s) of (xs, r) \<Rightarrow> ((n, u) # xs, r))"
  using dec_consumed [of s n u] by (subst scan.simps) simp

lemma scan_rest: "dec (snd (scan dec s)) = None \<and> length (snd (scan dec s)) < 4"
proof (induction s rule: length_induct)
  case (1 s)
  show ?case
  proof (cases "dec s")
    case None
    then have "\<not> 4 \<le> length s" using dec_four by blast
    with None show ?thesis by (simp add: scan_None)
  next
    case (Some p)
    obtain n u where p: "p = (n, u)" by (cases p)
    with Some dec_consumed have "length (drop n s) < length s" by fastforce
    with 1 have "dec (snd (scan dec (drop n s))) = None \<and> length (snd (scan dec (drop n s))) < 4"
      by blast
    with Some p show ?thesis by (cases "scan dec (drop n s)") (simp add: scan_Some)
  qed
qed

text \<open>The characters found do not depend on how the input was cut into reads.\<close>

lemma scan_append:
  "scan dec (a @ b) =
     (case scan dec a of (xs, r) \<Rightarrow> case scan dec (r @ b) of (ys, r') \<Rightarrow> (xs @ ys, r'))"
proof (induction a rule: length_induct)
  case (1 a)
  show ?case
  proof (cases "dec a")
    case None
    then show ?thesis by (simp add: scan_None split: prod.splits)
  next
    case (Some p)
    obtain n u where p: "p = (n, u)" by (cases p)
    with Some have n: "1 \<le> n" "n \<le> length a" using dec_consumed by auto
    then have "length (drop n a) < length a" by simp
    with 1 have IH: "scan dec (drop n a @ b) =
      (case scan dec (drop n a) of (xs, r) \<Rightarrow> case scan dec (r @ b) of (ys, r') \<Rightarrow> (xs @ ys, r'))"
      by blast
    have "dec (a @ b) = Some (n, u)" using Some p dec_append by simp
    then show ?thesis
      using Some p n IH by (simp add: scan_Some split: prod.splits)
  qed
qed

lemma scan_text:
  "\<forall>u \<in> set us. valid u \<Longrightarrow>
   scan dec (concat (map enc us) @ t) =
     (case scan dec t of (xs, r) \<Rightarrow> (map (\<lambda>u. (length (enc u), u)) us @ xs, r))"
proof (induction us)
  case (Cons u us)
  then show ?case
    using dec_enc [of u "concat (map enc us) @ t"] by (simp add: scan_Some split: prod.splits)
qed (simp split: prod.splits)

end

definition scalar_value :: "64 word \<Rightarrow> bool" where
  "scalar_value u \<longleftrightarrow> unat u \<le> 0x10FFFF \<and> \<not> (0xD800 \<le> unat u \<and> unat u \<le> 0xDFFF)"

interpretation st_utf8: utf8_codec utf8decode utf8encode isfullutf8 scalar_value
  by unfold_locales
    (auto simp: isfullutf8_iff scalar_value_def
      dest: utf8decode_append utf8decode_consumed utf8decode_four utf8_decode_encode)

section \<open>Properties\<close>

text \<open>C21. Decoding what \<open>utf8encode\<close> wrote for a Unicode scalar value gives the value back and
  consumes exactly its bytes, whatever follows them.\<close>

theorem utf8_roundtrip:
  assumes "scalar_value u"
  shows "utf8decode (utf8encode u @ t) = Some (length (utf8encode u), u)"
  by (rule st_utf8.dec_enc [OF assms])

theorem utf8_roundtrip_witness:
  "utf8decode (utf8encode 0x20AC @ [0x41]) = Some (length (utf8encode 0x20AC), 0x20AC)"
  by (rule utf8_roundtrip) (simp add: scalar_value_def)

end
