(* ===== verification/Term_State.thy ===== *)
theory Term_State
  imports Utf8
begin

text \<open>
  The data of simple-terminal (src/package/simple-terminal/src/main.c and config.h): the
  flag constants, \<open>Glyph\<close>, \<open>TCursor\<close>, the escape-sequence buffers, \<open>Selection\<close>, \<open>Term\<close>, and
  the global variables of main.c gathered in one record \<open>st\<close>. The rows of the screen are
  lists, the C pointers to them are the positions in the outer list: the code only ever
  exchanges row pointers or whole screens, so no two positions share a row.

  The second half states when a terminal state is well formed.
\<close>

section \<open>Constants\<close>

abbreviation (input) ATTR_NULL :: byte where "ATTR_NULL \<equiv> 0"
abbreviation (input) ATTR_REVERSE :: byte where "ATTR_REVERSE \<equiv> 1"
abbreviation (input) ATTR_UNDERLINE :: byte where "ATTR_UNDERLINE \<equiv> 2"
abbreviation (input) ATTR_BOLD :: byte where "ATTR_BOLD \<equiv> 4"
abbreviation (input) ATTR_GFX :: byte where "ATTR_GFX \<equiv> 8"
abbreviation (input) ATTR_ITALIC :: byte where "ATTR_ITALIC \<equiv> 16"
abbreviation (input) ATTR_BLINK :: byte where "ATTR_BLINK \<equiv> 32"

datatype cursor_movement =
  CURSOR_UP | CURSOR_DOWN | CURSOR_LEFT | CURSOR_RIGHT | CURSOR_SAVE | CURSOR_LOAD

abbreviation (input) CURSOR_DEFAULT :: byte where "CURSOR_DEFAULT \<equiv> 0"
abbreviation (input) CURSOR_HIDE :: byte where "CURSOR_HIDE \<equiv> 1"
abbreviation (input) CURSOR_WRAPNEXT :: byte where "CURSOR_WRAPNEXT \<equiv> 2"

abbreviation (input) GLYPH_SET :: byte where "GLYPH_SET \<equiv> 1"

abbreviation (input) MODE_WRAP :: "32 word" where "MODE_WRAP \<equiv> 1"
abbreviation (input) MODE_INSERT :: "32 word" where "MODE_INSERT \<equiv> 2"
abbreviation (input) MODE_APPKEYPAD :: "32 word" where "MODE_APPKEYPAD \<equiv> 4"
abbreviation (input) MODE_ALTSCREEN :: "32 word" where "MODE_ALTSCREEN \<equiv> 8"
abbreviation (input) MODE_CRLF :: "32 word" where "MODE_CRLF \<equiv> 16"
abbreviation (input) MODE_MOUSEBTN :: "32 word" where "MODE_MOUSEBTN \<equiv> 32"
abbreviation (input) MODE_MOUSEMOTION :: "32 word" where "MODE_MOUSEMOTION \<equiv> 64"
abbreviation (input) MODE_MOUSE :: "32 word" where "MODE_MOUSE \<equiv> 96"
abbreviation (input) MODE_REVERSE :: "32 word" where "MODE_REVERSE \<equiv> 128"
abbreviation (input) MODE_KBDLOCK :: "32 word" where "MODE_KBDLOCK \<equiv> 256"

abbreviation (input) ESC_START :: "32 word" where "ESC_START \<equiv> 1"
abbreviation (input) ESC_CSI :: "32 word" where "ESC_CSI \<equiv> 2"
abbreviation (input) ESC_STR :: "32 word" where "ESC_STR \<equiv> 4"
abbreviation (input) ESC_ALTCHARSET :: "32 word" where "ESC_ALTCHARSET \<equiv> 8"
abbreviation (input) ESC_STR_END :: "32 word" where "ESC_STR_END \<equiv> 16"
abbreviation (input) ESC_TEST :: "32 word" where "ESC_TEST \<equiv> 32"

abbreviation (input) WIN_VISIBLE :: byte where "WIN_VISIBLE \<equiv> 1"
abbreviation (input) WIN_REDRAW :: byte where "WIN_REDRAW \<equiv> 2"
abbreviation (input) WIN_FOCUSED :: byte where "WIN_FOCUSED \<equiv> 4"

abbreviation (input) ESC_BUF_SIZ :: int where "ESC_BUF_SIZ \<equiv> 256"
abbreviation (input) ESC_ARG_SIZ :: int where "ESC_ARG_SIZ \<equiv> 16"
abbreviation (input) STR_BUF_SIZ :: int where "STR_BUF_SIZ \<equiv> 256"
abbreviation (input) UTF_SIZ :: nat where "UTF_SIZ \<equiv> 4"

text \<open>config.h\<close>

abbreviation (input) borderpx :: int where "borderpx \<equiv> 2"
abbreviation (input) tabspaces :: int where "tabspaces \<equiv> 4"
abbreviation (input) defaultfg :: "16 word" where "defaultfg \<equiv> 7"
abbreviation (input) defaultbg :: "16 word" where "defaultbg \<equiv> 0"
abbreviation (input) defaultcs :: "16 word" where "defaultcs \<equiv> 256"
abbreviation (input) defaultucs :: "16 word" where "defaultucs \<equiv> 257"
abbreviation (input) DRAW_BUF_SIZ :: nat where "DRAW_BUF_SIZ \<equiv> 20480"

text \<open>The character cell set by \<open>sdlloadfonts\<close>.\<close>

abbreviation (input) xw_cw :: int where "xw_cw \<equiv> 6"
abbreviation (input) xw_ch :: int where "xw_ch \<equiv> 8"

section \<open>Structures\<close>

record glyph =
  gc :: "byte list"
  gmode :: byte
  gfg :: "16 word"
  gbg :: "16 word"
  gstate :: byte

type_synonym line = "glyph list"

record tcursor =
  cattr :: glyph
  cx :: int
  cy :: int
  cstate :: byte

record csiescape =
  cbuf :: "byte list"
  clen :: int
  cpriv :: bool
  carg :: "int list"
  cnarg :: int
  cmode :: byte

text \<open>The members \<open>args\<close> and \<open>narg\<close> of STREscape are never used and left out.\<close>

record strescape =
  stype :: byte
  sbuf :: "byte list"
  slen :: int

text \<open>
  \<open>sel.b\<close> and \<open>sel.e\<close> are \<open>(selb_x, selb_y)\<close> and \<open>(sele_x, sele_y)\<close>; a time is a pair
  of seconds and microseconds; \<open>sel.clip\<close> is unused.
\<close>

type_synonym timeval = "int \<times> int"

record selection =
  selmode :: bool
  selbx :: int
  selby :: int
  selex :: int
  seley :: int
  selb_x :: int
  selb_y :: int
  sele_x :: int
  sele_y :: int
  selalt :: bool
  tclick1 :: timeval
  tclick2 :: timeval

record tterm =
  trow :: int
  tcol :: int
  tline :: "line list"
  talt :: "line list"
  tdirty :: "bool list"
  tcur :: tcursor
  ttop :: int
  tbot :: int
  tmode :: "32 word"
  tesc :: "32 word"
  ttabs :: "bool list"

text \<open>
  A call of the drawing library: a rectangle or a string of text, with a colour given by
  its red, green and blue bytes, or the presentation of the surface by \<open>xflip\<close>.
\<close>

type_synonym rgb = "byte \<times> byte \<times> byte"

datatype gfx =
  FillRect int int int int rgb
| DrawString "byte list" int int rgb
| Flip

text \<open>
  The global and static variables. \<open>mouse_ob\<close>, \<open>mouse_ox\<close> and \<open>mouse_oy\<close> are the statics of
  \<open>mousereport\<close>; \<open>saved\<close> is the static cursor of \<open>tcursor\<close>; \<open>ttyout\<close>
  holds the bytes written to the pseudo-terminal, \<open>iolog\<close> those written to the file of
  option \<open>-o\<close>, \<open>title\<close> the window captions set, \<open>frame\<close> the drawing calls issued, each the
  latest last; \<open>ttysize\<close> the sizes (rows, columns, pixels) told to the kernel; \<open>haswin\<close> says that \<open>xw.win\<close> is not NULL.
\<close>

record st = tterm +
  csi :: csiescape
  str :: strescape
  sel :: selection
  saved :: tcursor
  iofd :: int
  iolog :: "byte list"
  ttyout :: "byte list"
  title :: "byte list list"
  haswin :: bool
  xw_w :: int
  xw_h :: int
  xw_state :: byte
  oldx :: int
  oldy :: int
  palette :: "rgb list"
  frame :: "gfx list"
  usedfontsize :: int
  xw_tw :: int
  xw_th :: int
  mouse_ob :: int
  mouse_ox :: int
  mouse_oy :: int
  ttysize :: "(16 word \<times> 16 word \<times> 16 word \<times> 16 word) list"

section \<open>Well-formed states\<close>

text \<open>
  The largest number of rows or columns considered, far above any real window, so that sums
  of a position and a small parameter fit a C \<open>int\<close>.
\<close>

definition MAX_DIM :: int where "MAX_DIM = 1000000"

text \<open>
  A cell holds four bytes; once set, its colours are indices of the 258 colours of \<open>dc\<close>.
\<close>

definition ok_colors :: "glyph \<Rightarrow> bool" where
  "ok_colors g \<longleftrightarrow> unat (gfg g) < 258 \<and> unat (gbg g) < 258"

definition ok_glyph :: "glyph \<Rightarrow> bool" where
  "ok_glyph g \<longleftrightarrow> length (gc g) = 4 \<and> (flag (gstate g) GLYPH_SET \<longrightarrow> ok_colors g)"

definition wf_row :: "int \<Rightarrow> line \<Rightarrow> bool" where
  "wf_row c l \<longleftrightarrow> int (length l) = c \<and> (\<forall>g \<in> set l. ok_glyph g)"

definition wf_screen :: "int \<Rightarrow> int \<Rightarrow> line list \<Rightarrow> bool" where
  "wf_screen r c ls \<longleftrightarrow> int (length ls) = r \<and> (\<forall>l \<in> set ls. wf_row c l)"

definition wf_geo :: "st \<Rightarrow> bool" where
  "wf_geo s \<longleftrightarrow> 1 \<le> trow s \<and> trow s \<le> MAX_DIM \<and> 1 \<le> tcol s \<and> tcol s \<le> MAX_DIM
     \<and> wf_screen (trow s) (tcol s) (tline s) \<and> wf_screen (trow s) (tcol s) (talt s)
     \<and> int (length (tdirty s)) = trow s \<and> int (length (ttabs s)) = tcol s"

text \<open>The sizes alone, whatever the cells contain.\<close>

definition geo_shape :: "st \<Rightarrow> bool" where
  "geo_shape s \<longleftrightarrow> 1 \<le> trow s \<and> 1 \<le> tcol s \<and> int (length (tline s)) = trow s
     \<and> (\<forall>l \<in> set (tline s). int (length l) = tcol s)
     \<and> int (length (tdirty s)) = trow s \<and> int (length (ttabs s)) = tcol s"

definition wf_cursor :: "st \<Rightarrow> bool" where
  "wf_cursor s \<longleftrightarrow> 0 \<le> cx (tcur s) \<and> cx (tcur s) < tcol s \<and> 0 \<le> cy (tcur s) \<and> cy (tcur s) < trow s
     \<and> ok_colors (cattr (tcur s)) \<and> ok_colors (cattr (saved s))"

definition wf_scroll :: "st \<Rightarrow> bool" where
  "wf_scroll s \<longleftrightarrow> 0 \<le> ttop s \<and> ttop s \<le> tbot s \<and> tbot s < trow s"

text \<open>
  The screen part of the invariant: geometry, cursor, scrolling region, the 258 colours and
  a window whose cells fit the largest screen.
\<close>

definition wf_term :: "st \<Rightarrow> bool" where
  "wf_term s \<longleftrightarrow> wf_geo s \<and> wf_cursor s \<and> wf_scroll s \<and> length (palette s) = 258
     \<and> xw_w s \<le> MAX_DIM \<and> xw_h s \<le> MAX_DIM"

text \<open>
  The escape-sequence part: the parser flags take seven values only; the buffers have their
  declared sizes, the bytes past the length are zero, and there is room for the next byte
  whenever a byte may be appended.
\<close>

definition esc_states :: "(32 word) list" where
  "esc_states = [0, ESC_START, ESC_START OR ESC_CSI, ESC_START OR ESC_STR,
     ESC_START OR ESC_ALTCHARSET, ESC_START OR ESC_TEST, ESC_START OR ESC_STR_END]"

definition zero_from :: "byte list \<Rightarrow> int \<Rightarrow> bool" where
  "zero_from b n \<longleftrightarrow> (\<forall>i. n \<le> int i \<and> i < length b \<longrightarrow> b ! i = 0)"

text \<open>
  The digits of the source's \<open>isdigit\<close>; no run of more than nine of them, so that every
  parameter of the sequence fits a C \<open>int\<close>; the length of the run a text ends in.
\<close>

definition isdigit :: "byte \<Rightarrow> bool" where
  "isdigit b \<longleftrightarrow> 48 \<le> unat b \<and> unat b \<le> 57"

fun digit_runs_ok :: "nat \<Rightarrow> byte list \<Rightarrow> bool" where
  "digit_runs_ok k [] = True"
| "digit_runs_ok k (b # bs) = (if isdigit b then k < 9 \<and> digit_runs_ok (k + 1) bs else digit_runs_ok 0 bs)"

fun digit_run :: "nat \<Rightarrow> byte list \<Rightarrow> nat" where
  "digit_run k [] = k"
| "digit_run k (b # bs) = digit_run (if isdigit b then k + 1 else 0) bs"

definition wf_csi :: "csiescape \<Rightarrow> bool" where
  "wf_csi c \<longleftrightarrow> length (cbuf c) = 256 \<and> 0 \<le> clen c \<and> clen c < 256 \<and> zero_from (cbuf c) (clen c)
     \<and> digit_runs_ok 0 (take (nat (clen c)) (cbuf c)) \<and> carg c = replicate 16 0 \<and> \<not> cpriv c"

definition wf_str :: "strescape \<Rightarrow> bool" where
  "wf_str e \<longleftrightarrow> length (sbuf e) = 256 \<and> 0 \<le> slen e \<and> slen e < 255 \<and> zero_from (sbuf e) (slen e)"

definition wf_esc :: "st \<Rightarrow> bool" where
  "wf_esc s \<longleftrightarrow> tesc s \<in> set esc_states
     \<and> (flag (tesc s) ESC_CSI \<or> tesc s = ESC_START \<longrightarrow> wf_csi (csi s))
     \<and> (flag (tesc s) (ESC_STR OR ESC_STR_END) \<longrightarrow> wf_str (str s))"

definition wf_st :: "st \<Rightarrow> bool" where
  "wf_st s \<longleftrightarrow> wf_term s \<and> wf_esc s"

section \<open>Rows and cells\<close>

text \<open>What a cell shows: nothing, or the glyph set there.\<close>

definition shown :: "glyph \<Rightarrow> glyph option" where
  "shown g = (if flag (gstate g) GLYPH_SET then Some g else None)"

definition cell :: "st \<Rightarrow> int \<Rightarrow> int \<Rightarrow> glyph" where
  "cell s x y = tline s ! nat y ! nat x"

definition view :: "st \<Rightarrow> int \<Rightarrow> int \<Rightarrow> glyph option" where
  "view s x y = shown (cell s x y)"

lemma wf_rowD:
  "wf_row c l \<Longrightarrow> int (length l) = c" "wf_row c l \<Longrightarrow> 0 \<le> i \<Longrightarrow> i < c \<Longrightarrow> ok_glyph (l ! nat i)"
  by (auto simp: wf_row_def)

lemma wf_row_update: "wf_row c l \<Longrightarrow> ok_glyph g \<Longrightarrow> wf_row c (l[i := g])"
  by (auto simp: wf_row_def dest!: set_update_subset_insert [THEN subsetD])

lemma wf_row_map: "wf_row c l \<Longrightarrow> (\<And>g. ok_glyph g \<Longrightarrow> ok_glyph (f g)) \<Longrightarrow> wf_row c (map f l)"
  by (auto simp: wf_row_def)

lemma wf_row_upd_range:
  "wf_row c l \<Longrightarrow> (\<And>g. ok_glyph g \<Longrightarrow> ok_glyph (f g)) \<Longrightarrow> wf_row c (upd_range lo hi f l)"
  by (auto simp: wf_row_def dest!: set_upd_rangeD)

lemma wf_row_blit:
  assumes "wf_row c l" and "blit l dst src n = Some l'"
  shows "wf_row c l'"
proof -
  have "set l' \<subseteq> set l"
    using assms(2) by (auto simp: blit_def split: if_splits dest!: in_set_takeD in_set_dropD)
  with assms blit_length [OF assms(2)] show ?thesis by (auto simp: wf_row_def)
qed

lemma wf_screen_row:
  "wf_screen r c ls \<Longrightarrow> 0 \<le> y \<Longrightarrow> y < r \<Longrightarrow> wf_row c (ls ! nat y)"
  by (auto simp: wf_screen_def)

lemma wf_screen_update:
  "wf_screen r c ls \<Longrightarrow> wf_row c l \<Longrightarrow> wf_screen r c (ls[i := l])"
  by (auto simp: wf_screen_def dest!: set_update_subset_insert [THEN subsetD])

lemma wf_screen_upd_range:
  "wf_screen r c ls \<Longrightarrow> (\<And>l. wf_row c l \<Longrightarrow> wf_row c (f l)) \<Longrightarrow>
   wf_screen r c (upd_range lo hi f ls)"
  by (auto simp: wf_screen_def dest!: set_upd_rangeD)

lemma wf_geoD:
  assumes "wf_geo s"
  shows "1 \<le> trow s" "1 \<le> tcol s" "trow s \<le> MAX_DIM" "tcol s \<le> MAX_DIM"
    "wf_screen (trow s) (tcol s) (tline s)" "wf_screen (trow s) (tcol s) (talt s)"
    "int (length (tline s)) = trow s" "int (length (talt s)) = trow s"
    "int (length (tdirty s)) = trow s" "int (length (ttabs s)) = tcol s"
  using assms by (auto simp: wf_geo_def wf_screen_def)

lemma wf_geo_row: "wf_geo s \<Longrightarrow> 0 \<le> y \<Longrightarrow> y < trow s \<Longrightarrow> wf_row (tcol s) (tline s ! nat y)"
  using wf_screen_row wf_geoD(5) by blast

lemma wf_geo_row_length:
  "wf_geo s \<Longrightarrow> 0 \<le> y \<Longrightarrow> y < trow s \<Longrightarrow> int (length (tline s ! nat y)) = tcol s"
  using wf_geo_row wf_rowD(1) by blast

lemma wf_geo_shape: "wf_geo s \<Longrightarrow> geo_shape s"
  by (auto simp: wf_geo_def geo_shape_def wf_screen_def wf_row_def)

lemma geo_shapeD:
  assumes "geo_shape s"
  shows "1 \<le> trow s" "1 \<le> tcol s" "int (length (tline s)) = trow s"
    "int (length (tdirty s)) = trow s" "int (length (ttabs s)) = tcol s"
    "0 \<le> y \<Longrightarrow> y < trow s \<Longrightarrow> int (length (tline s ! nat y)) = tcol s"
  using assms by (auto simp: geo_shape_def)

lemma wf_termD:
  assumes "wf_term s"
  shows "wf_geo s" "0 \<le> cx (tcur s)" "cx (tcur s) < tcol s" "0 \<le> cy (tcur s)" "cy (tcur s) < trow s"
    "0 \<le> ttop s" "ttop s \<le> tbot s" "tbot s < trow s" "ok_colors (cattr (tcur s))" "ok_colors (cattr (saved s))"
    "length (palette s) = 258" "xw_w s \<le> MAX_DIM" "xw_h s \<le> MAX_DIM"
  using assms by (auto simp: wf_term_def wf_cursor_def wf_scroll_def)

lemma digit_runs_ok_append:
  "digit_runs_ok k (xs @ ys) \<longleftrightarrow> digit_runs_ok k xs \<and> digit_runs_ok (digit_run k xs) ys"
  by (induction k xs rule: digit_runs_ok.induct) auto

lemma digit_runs_ok_zeros: "\<forall>b \<in> set bs. b = 0 \<Longrightarrow> digit_runs_ok k bs"
  by (induction k bs rule: digit_runs_ok.induct) (auto simp: isdigit_def)

text \<open>A buffer with zeros after its length holds nothing but the text and the zeros.\<close>

lemma zero_from_drop: "zero_from b n \<Longrightarrow> 0 \<le> n \<Longrightarrow> \<forall>c \<in> set (drop (nat n) b). c = 0"
  by (auto simp: zero_from_def in_set_conv_nth)

lemma zero_from_update: "zero_from b n \<Longrightarrow> 0 \<le> n \<Longrightarrow> zero_from (b[nat n := c]) (n + 1)"
  by (auto simp: zero_from_def nth_list_update)

end
