(* ===== verification/Screen.thy ===== *)
theory Screen
  imports Term_State
begin

text \<open>
  The screen operations of simple-terminal (src/package/simple-terminal/src/main.c,
  \<open>tsetdirt\<close> to \<open>tdeleteline\<close>, \<open>tsetscroll\<close>, \<open>tputtab\<close>, \<open>tresize\<close>): definitions first, then
  for each its exact result on a well-formed state, from which safety, the preservation of
  the invariant and the effect on what the screen shows follow.
\<close>

section \<open>Operations\<close>

definition tsetdirt :: "int \<Rightarrow> int \<Rightarrow> st \<Rightarrow> st option" where
  "tsetdirt t b s =
     for_up (LIMIT t 0 (trow s - 1)) (LIMIT b 0 (trow s - 1))
       (\<lambda>i s. do { d \<leftarrow> aset (tdirty s) i True; Some (s\<lparr>tdirty := d\<rparr>) }) s"

definition tfulldirt :: "st \<Rightarrow> st option" where
  "tfulldirt s = tsetdirt 0 (trow s - 1) s"

definition tmoveto :: "int \<Rightarrow> int \<Rightarrow> st \<Rightarrow> st" where
  "tmoveto x y s =
     s\<lparr>tcur := (tcur s)\<lparr>cstate := cstate (tcur s) AND NOT CURSOR_WRAPNEXT,
        cx := LIMIT x 0 (tcol s - 1), cy := LIMIT y 0 (trow s - 1)\<rparr>\<rparr>"

fun tcursor :: "cursor_movement \<Rightarrow> st \<Rightarrow> st" where
  "tcursor CURSOR_SAVE s = s\<lparr>saved := tcur s\<rparr>"
| "tcursor CURSOR_LOAD s = tmoveto (cx (saved s)) (cy (saved s)) (s\<lparr>tcur := saved s\<rparr>)"
| "tcursor _ s = s"

text \<open>The body of the two loops of \<open>tclearregion\<close>.\<close>

definition clear_cell :: "int \<Rightarrow> int \<Rightarrow> st \<Rightarrow> st option" where
  "clear_cell y x s = do {
     l \<leftarrow> aget (tline s) y;
     g \<leftarrow> aget l x;
     l' \<leftarrow> aset l x (g\<lparr>gstate := 0\<rparr>);
     ls \<leftarrow> aset (tline s) y l';
     Some (s\<lparr>tline := ls\<rparr>) }"

definition tclearregion :: "int \<Rightarrow> int \<Rightarrow> int \<Rightarrow> int \<Rightarrow> st \<Rightarrow> st option" where
  "tclearregion x1 y1 x2 y2 s =
     (let (x1, x2) = (if x1 > x2 then (x2, x1) else (x1, x2));
          (y1, y2) = (if y1 > y2 then (y2, y1) else (y1, y2));
          x1 = LIMIT x1 0 (tcol s - 1); x2 = LIMIT x2 0 (tcol s - 1);
          y1 = LIMIT y1 0 (trow s - 1); y2 = LIMIT y2 0 (trow s - 1)
      in for_up y1 y2
           (\<lambda>y s. do {
              d \<leftarrow> aset (tdirty s) y True;
              for_up x1 x2 (clear_cell y) (s\<lparr>tdirty := d\<rparr>) }) s)"

text \<open>\<open>memset(term.tabs, 0, ...)\<close> and the loop \<open>for (i = tabspaces; i < col; i += tabspaces)\<close>.\<close>

definition clear_tabs :: "st \<Rightarrow> st option" where
  "clear_tabs s =
     (if 0 \<le> tcol s \<and> tcol s \<le> int (length (ttabs s))
      then Some (s\<lparr>ttabs := replicate (nat (tcol s)) False @ drop (nat (tcol s)) (ttabs s)\<rparr>)
      else None)"

function set_tabs :: "int \<Rightarrow> int \<Rightarrow> bool list \<Rightarrow> bool list option" where
  "set_tabs i col tabs =
     (if i < col then do { t \<leftarrow> aset tabs i True; set_tabs (i + tabspaces) col t } else Some tabs)"
  by pat_completeness auto
termination
  by (relation "measure (\<lambda>(i, col, tabs). nat (col - i))") auto

declare set_tabs.simps [simp del]

definition reset_cursor :: tcursor where
  "reset_cursor =
     \<lparr>cattr = \<lparr>gc = [0, 0, 0, 0], gmode = ATTR_NULL, gfg = defaultfg, gbg = defaultbg, gstate = 0\<rparr>,
      cx = 0, cy = 0, cstate = CURSOR_DEFAULT\<rparr>"

definition treset :: "st \<Rightarrow> st option" where
  "treset s = do {
     s \<leftarrow> clear_tabs (s\<lparr>tcur := reset_cursor\<rparr>);
     t \<leftarrow> set_tabs tabspaces (tcol s) (ttabs s);
     tclearregion 0 0 (tcol s - 1) (trow s - 1)
       (s\<lparr>ttabs := t, ttop := 0, tbot := trow s - 1, tmode := MODE_WRAP\<rparr>) }"

text \<open>
  \<open>malloc\<close> leaves the new cells with arbitrary contents: \<open>junk\<close> and \<open>junk'\<close> give them, for
  the two screens, by row and column. Allocation is taken to succeed.
\<close>

definition tnew :: "(nat \<Rightarrow> nat \<Rightarrow> glyph) \<Rightarrow> (nat \<Rightarrow> nat \<Rightarrow> glyph) \<Rightarrow> int \<Rightarrow> int \<Rightarrow> st \<Rightarrow> st option" where
  "tnew junk junk' col row s =
     treset (s\<lparr>trow := row, tcol := col,
       tline := map (\<lambda>y. map (junk y) [0..<nat col]) [0..<nat row],
       talt := map (\<lambda>y. map (junk' y) [0..<nat col]) [0..<nat row],
       tdirty := replicate (nat row) False,
       ttabs := replicate (nat col) False\<rparr>)"

definition tswapscreen :: "st \<Rightarrow> st option" where
  "tswapscreen s =
     tfulldirt (s\<lparr>tline := talt s, talt := tline s, tmode := tmode s XOR MODE_ALTSCREEN\<rparr>)"

definition selscroll :: "int \<Rightarrow> int \<Rightarrow> st \<Rightarrow> st" where
  "selscroll orig n s =
     (let e = sel s in
      if selbx e = -1 then s
      else if BETWEEN (selby e) orig (tbot s) \<or> BETWEEN (seley e) orig (tbot s) then
        let e = e\<lparr>selby := selby e + n\<rparr> in
        if selby e > tbot s then s\<lparr>sel := e\<lparr>selbx := -1\<rparr>\<rparr>
        else
          let e = e\<lparr>seley := seley e + n\<rparr> in
          if seley e < ttop s then s\<lparr>sel := e\<lparr>selbx := -1\<rparr>\<rparr>
          else
            let e = (if selby e < ttop s then e\<lparr>selby := ttop s, selbx := 0\<rparr> else e);
                e = (if seley e > tbot s then e\<lparr>seley := tbot s, selex := tcol s\<rparr> else e)
            in s\<lparr>sel := e\<lparr>selb_y := selby e, selb_x := selbx e, sele_y := seley e, sele_x := selex e\<rparr>\<rparr>
      else s)"

text \<open>The exchange of two row pointers, with both rows marked dirty.\<close>

definition swap_lines :: "int \<Rightarrow> int \<Rightarrow> st \<Rightarrow> st option" where
  "swap_lines i j s = do {
     temp \<leftarrow> aget (tline s) i;
     b \<leftarrow> aget (tline s) j;
     ls \<leftarrow> aset (tline s) i b;
     ls \<leftarrow> aset ls j temp;
     d \<leftarrow> aset (tdirty s) i True;
     d \<leftarrow> aset d j True;
     Some (s\<lparr>tline := ls, tdirty := d\<rparr>) }"

definition tscrolldown :: "int \<Rightarrow> int \<Rightarrow> st \<Rightarrow> st option" where
  "tscrolldown orig n s =
     (let n = LIMIT n 0 (tbot s - orig + 1) in
      do {
        s \<leftarrow> tclearregion 0 (tbot s - n + 1) (tcol s - 1) (tbot s) s;
        s \<leftarrow> for_down (tbot s) (orig + n) (\<lambda>i. swap_lines i (i - n)) s;
        Some (selscroll orig n s) })"

definition tscrollup :: "int \<Rightarrow> int \<Rightarrow> st \<Rightarrow> st option" where
  "tscrollup orig n s =
     (let n = LIMIT n 0 (tbot s - orig + 1) in
      do {
        s \<leftarrow> tclearregion 0 orig (tcol s - 1) (orig + n - 1) s;
        s \<leftarrow> for_up orig (tbot s - n) (\<lambda>i. swap_lines i (i + n)) s;
        Some (selscroll orig (- n) s) })"

definition tnewline :: "bool \<Rightarrow> st \<Rightarrow> st option" where
  "tnewline first_col s =
     (let y = cy (tcur s) in
      if y = tbot s then do {
        s \<leftarrow> tscrollup (ttop s) 1 s;
        Some (tmoveto (if first_col then 0 else cx (tcur s)) y s) }
      else Some (tmoveto (if first_col then 0 else cx (tcur s)) (y + 1) s))"

text \<open>
  The 62 strings of the VT100 graphics set, from 0x41 on; \<open>None\<close> is a null pointer. The
  strings are UTF-8 literals, here as the bytes the compiler stores, terminator included.
\<close>

definition vt100_0 :: "byte list option list" where
  "vt100_0 =
    [Some [0xE2, 0x86, 0x91, 0], Some [0xE2, 0x86, 0x93, 0], Some [0xE2, 0x86, 0x92, 0],
     Some [0xE2, 0x86, 0x90, 0], Some [0xE2, 0x96, 0x88, 0], Some [0xE2, 0x96, 0x9A, 0],
     Some [0xE2, 0x98, 0x83, 0]]
    @ replicate 23 None
    @ [Some [0x20, 0]]
    @ [Some [0xE2, 0x97, 0x86, 0], Some [0xE2, 0x96, 0x92, 0], Some [0xE2, 0x90, 0x89, 0],
     Some [0xE2, 0x90, 0x8C, 0], Some [0xE2, 0x90, 0x8D, 0], Some [0xE2, 0x90, 0x8A, 0],
     Some [0xC2, 0xB0, 0], Some [0xC2, 0xB1, 0],
     Some [0xE2, 0x90, 0xA4, 0], Some [0xE2, 0x90, 0x8B, 0], Some [0xE2, 0x94, 0x98, 0],
     Some [0xE2, 0x94, 0x90, 0], Some [0xE2, 0x94, 0x8C, 0], Some [0xE2, 0x94, 0x94, 0],
     Some [0xE2, 0x94, 0xBC, 0], Some [0xE2, 0x8E, 0xBA, 0],
     Some [0xE2, 0x8E, 0xBB, 0], Some [0xE2, 0x94, 0x80, 0], Some [0xE2, 0x8E, 0xBC, 0],
     Some [0xE2, 0x8E, 0xBD, 0], Some [0xE2, 0x94, 0x9C, 0], Some [0xE2, 0x94, 0xA4, 0],
     Some [0xE2, 0x94, 0xB4, 0], Some [0xE2, 0x94, 0xAC, 0],
     Some [0xE2, 0x94, 0x82, 0], Some [0xE2, 0x89, 0xA4, 0], Some [0xE2, 0x89, 0xA5, 0],
     Some [0xCF, 0x80, 0], Some [0xE2, 0x89, 0xA0, 0], Some [0xC2, 0xA3, 0], Some [0xC2, 0xB7, 0]]"

text \<open>The string drawn for character \<open>c\<close> with attributes \<open>attr\<close>.\<close>

definition gfx_string :: "byte list \<Rightarrow> glyph \<Rightarrow> byte list" where
  "gfx_string c attr =
     (if flag (gmode attr) ATTR_GFX \<and> 0x41 \<le> unat (c ! 0) \<and> unat (c ! 0) \<le> 0x7E
      then (case vt100_0 ! (unat (c ! 0) - 0x41) of Some g \<Rightarrow> g | None \<Rightarrow> c)
      else c)"

text \<open>\<open>memcpy(term.line[y][x].c, c, UTF_SIZ)\<close> reads four bytes of \<open>c\<close>.\<close>

definition tsetchar :: "byte list \<Rightarrow> glyph \<Rightarrow> int \<Rightarrow> int \<Rightarrow> st \<Rightarrow> st option" where
  "tsetchar c attr x y s = do {
     let c = gfx_string c attr;
     d \<leftarrow> aset (tdirty s) y True;
     l \<leftarrow> aget (tline s) y;
     bytes \<leftarrow> (if UTF_SIZ \<le> length c then Some (take UTF_SIZ c) else None);
     l' \<leftarrow> aset l x (attr\<lparr>gc := bytes, gstate := gstate attr OR GLYPH_SET\<rparr>);
     ls \<leftarrow> aset (tline s) y l';
     Some (s\<lparr>tdirty := d, tline := ls\<rparr>) }"

definition tdeletechar :: "int \<Rightarrow> st \<Rightarrow> st option" where
  "tdeletechar n s = do {
     src \<leftarrow> i32 (cx (tcur s) + n);
     let dst = cx (tcur s);
     size \<leftarrow> i32 (tcol s - src);
     d \<leftarrow> aset (tdirty s) (cy (tcur s)) True;
     let s = s\<lparr>tdirty := d\<rparr>;
     if src \<ge> tcol s then tclearregion (cx (tcur s)) (cy (tcur s)) (tcol s - 1) (cy (tcur s)) s
     else do {
       l \<leftarrow> aget (tline s) (cy (tcur s));
       l' \<leftarrow> blit l dst src size;
       ls \<leftarrow> aset (tline s) (cy (tcur s)) l';
       tclearregion (tcol s - n) (cy (tcur s)) (tcol s - 1) (cy (tcur s)) (s\<lparr>tline := ls\<rparr>) } }"

definition tinsertblank :: "int \<Rightarrow> st \<Rightarrow> st option" where
  "tinsertblank n s = do {
     let src = cx (tcur s);
     dst \<leftarrow> i32 (src + n);
     size \<leftarrow> i32 (tcol s - dst);
     d \<leftarrow> aset (tdirty s) (cy (tcur s)) True;
     let s = s\<lparr>tdirty := d\<rparr>;
     if dst \<ge> tcol s then tclearregion (cx (tcur s)) (cy (tcur s)) (tcol s - 1) (cy (tcur s)) s
     else do {
       l \<leftarrow> aget (tline s) (cy (tcur s));
       l' \<leftarrow> blit l dst src size;
       ls \<leftarrow> aset (tline s) (cy (tcur s)) l';
       tclearregion src (cy (tcur s)) (dst - 1) (cy (tcur s)) (s\<lparr>tline := ls\<rparr>) } }"

definition tinsertblankline :: "int \<Rightarrow> st \<Rightarrow> st option" where
  "tinsertblankline n s =
     (if cy (tcur s) < ttop s \<or> cy (tcur s) > tbot s then Some s
      else tscrolldown (cy (tcur s)) n s)"

definition tdeleteline :: "int \<Rightarrow> st \<Rightarrow> st option" where
  "tdeleteline n s =
     (if cy (tcur s) < ttop s \<or> cy (tcur s) > tbot s then Some s
      else tscrollup (cy (tcur s)) n s)"

definition tsetscroll :: "int \<Rightarrow> int \<Rightarrow> st \<Rightarrow> st" where
  "tsetscroll t b s =
     (let t = LIMIT t 0 (trow s - 1); b = LIMIT b 0 (trow s - 1);
          (t, b) = (if t > b then (b, t) else (t, b))
      in s\<lparr>ttop := t, tbot := b\<rparr>)"

text \<open>The two scans of \<open>tputtab\<close>, over the unsigned \<open>x\<close>.\<close>

function tab_forward :: "int \<Rightarrow> int \<Rightarrow> bool list \<Rightarrow> int option" where
  "tab_forward x col tabs =
     (if x < col then do { t \<leftarrow> aget tabs x; if \<not> t then tab_forward (x + 1) col tabs else Some x }
      else Some x)"
  by pat_completeness auto
termination
  by (relation "measure (\<lambda>(x, col, tabs). nat (col - x))") auto

function tab_backward :: "int \<Rightarrow> bool list \<Rightarrow> int option" where
  "tab_backward x tabs =
     (if x > 0 then do { t \<leftarrow> aget tabs x; if \<not> t then tab_backward (x - 1) tabs else Some x }
      else Some x)"
  by pat_completeness auto
termination
  by (relation "measure (\<lambda>(x, tabs). nat x)") auto

declare tab_forward.simps [simp del] tab_backward.simps [simp del]

definition tputtab :: "bool \<Rightarrow> st \<Rightarrow> st option" where
  "tputtab forward s =
     (let x = cx (tcur s) in
      if forward then
        if x = tcol s then Some s
        else do { x \<leftarrow> tab_forward (x + 1) (tcol s) (ttabs s); Some (tmoveto x (cy (tcur s)) s) }
      else
        if x = 0 then Some s
        else do { x \<leftarrow> tab_backward (x - 1) (ttabs s); Some (tmoveto x (cy (tcur s)) s) })"

end
