(* ===== verification/Screen_Laws.thy ===== *)
theory Screen_Laws
  imports Screen
begin

text \<open>
  The exact result of every screen operation on a well-formed state. Each operation first
  gets an equation \<open>op s = Some (s with fields replaced)\<close>; that it is never undefined, that
  it keeps the invariant and what it does to the cells shown are read off the equation.
\<close>

section \<open>Loops over one field\<close>

definition blank :: "glyph \<Rightarrow> glyph" where
  "blank g = g\<lparr>gstate := 0\<rparr>"

definition blank_row :: "line \<Rightarrow> bool" where
  "blank_row l \<longleftrightarrow> (\<forall>g \<in> set l. gstate g = 0)"

lemma shown_blank [simp]: "shown (blank g) = None"
  by (simp add: shown_def blank_def flag_def)

lemma ok_glyph_blank: "ok_glyph g \<Longrightarrow> ok_glyph (blank g)"
  by (simp add: ok_glyph_def blank_def flag_def)

lemma upd_range_upd:
  assumes "lo \<le> i" "i < int (length xs)" "0 \<le> i"
  shows "(upd_range lo (i - 1) f xs)[nat i := f (xs ! nat i)] = upd_range lo i f xs"
  using assms by (simp add: upd_range_step)

lemma upd_range_upd_const:
  assumes "lo \<le> i" "i < int (length xs)" "0 \<le> i"
  shows "(upd_range lo (i - 1) (\<lambda>_. v) xs)[nat i := v] = upd_range lo i (\<lambda>_. v) xs"
  using upd_range_upd [OF assms, of "\<lambda>_. v"] .

lemma nth_upd_range_above [simp]:
  "0 \<le> i \<Longrightarrow> i < int (length xs) \<Longrightarrow> hi < i \<Longrightarrow> upd_range lo hi f xs ! nat i = xs ! nat i"
  by simp

lemma tsetdirt_eq:
  assumes "int (length (tdirty s)) = trow s" and "1 \<le> trow s"
  shows "tsetdirt t b s = Some (s\<lparr>tdirty :=
    upd_range (LIMIT t 0 (trow s - 1)) (LIMIT b 0 (trow s - 1)) (\<lambda>_. True) (tdirty s)\<rparr>)"
proof -
  let ?lo = "LIMIT t 0 (trow s - 1)" and ?hi = "LIMIT b 0 (trow s - 1)"
  let ?g = "\<lambda>i. s\<lparr>tdirty := upd_range ?lo i (\<lambda>_. True) (tdirty s)\<rparr>"
  let ?body = "\<lambda>i (s :: st). do { d \<leftarrow> aset (tdirty s) i True; Some (s\<lparr>tdirty := d\<rparr>) }"
  show ?thesis
  proof (cases "?lo \<le> ?hi + 1")
    case True
    have "for_up ?lo ?hi ?body (?g (?lo - 1)) = Some (?g ?hi)"
    proof (rule for_up_eq [OF _ True])
      fix i assume "?lo \<le> i" "i \<le> ?hi"
      moreover have "0 \<le> ?lo" "?hi < trow s" using assms(2) by simp_all
      ultimately show "?body i (?g (i - 1)) = Some (?g i)"
        using assms(1) by (simp add: aset_Some upd_range_upd_const)
    qed
    then show ?thesis by (simp add: tsetdirt_def upd_range_empty)
  next
    case False
    then show ?thesis by (simp add: tsetdirt_def for_up_done upd_range_empty)
  qed
qed

lemma clear_cells_eq:
  assumes "0 \<le> y" "y < int (length (tline s))" "0 \<le> x1" "x2 < int (length (tline s ! nat y))" "x1 \<le> x2 + 1"
  shows "for_up x1 x2 (clear_cell y) s =
    Some (s\<lparr>tline := (tline s)[nat y := upd_range x1 x2 blank (tline s ! nat y)]\<rparr>)"
proof -
  let ?g = "\<lambda>i. s\<lparr>tline := (tline s)[nat y := upd_range x1 i blank (tline s ! nat y)]\<rparr>"
  have "for_up x1 x2 (clear_cell y) (?g (x1 - 1)) = Some (?g x2)"
  proof (rule for_up_eq)
    fix i assume i: "x1 \<le> i" "i \<le> x2"
    then have "nat y < length (tline s)" "0 \<le> i" "i < int (length (tline s ! nat y))" using assms by auto
    with i assms show "clear_cell y i (?g (i - 1)) = Some (?g i)"
      by (simp add: clear_cell_def aget_Some aset_Some blank_def [symmetric] upd_range_upd)
  qed (use assms in simp)
  then show ?thesis by (simp add: upd_range_empty)
qed

section \<open>Clearing a region\<close>

text \<open>The four bounds after the exchanges and the limits.\<close>

lemma tclearregion_shape:
  assumes "geo_shape s" and "x1 \<le> x2" and "y1 \<le> y2"
  shows "tclearregion x1 y1 x2 y2 s = Some (s\<lparr>
    tdirty := upd_range (LIMIT y1 0 (trow s - 1)) (LIMIT y2 0 (trow s - 1)) (\<lambda>_. True) (tdirty s),
    tline := upd_range (LIMIT y1 0 (trow s - 1)) (LIMIT y2 0 (trow s - 1))
       (upd_range (LIMIT x1 0 (tcol s - 1)) (LIMIT x2 0 (tcol s - 1)) blank) (tline s)\<rparr>)"
proof -
  let ?y1 = "LIMIT y1 0 (trow s - 1)" and ?y2 = "LIMIT y2 0 (trow s - 1)"
  let ?x1 = "LIMIT x1 0 (tcol s - 1)" and ?x2 = "LIMIT x2 0 (tcol s - 1)"
  note geo = geo_shapeD(1-5) [OF assms(1)]
  have b: "0 \<le> ?x1" "?x2 < tcol s" "?x1 \<le> ?x2" "0 \<le> ?y1" "?y2 < trow s" "?y1 \<le> ?y2"
    using geo assms(2,3) by (auto simp: LIMIT_def)
  let ?g = "\<lambda>i. s\<lparr>tdirty := upd_range ?y1 i (\<lambda>_. True) (tdirty s),
    tline := upd_range ?y1 i (upd_range ?x1 ?x2 blank) (tline s)\<rparr>"
  let ?body = "\<lambda>y (s :: st). do {
              d \<leftarrow> aset (tdirty s) y True;
              for_up ?x1 ?x2 (clear_cell y) (s\<lparr>tdirty := d\<rparr>) }"
  have "for_up ?y1 ?y2 ?body (?g (?y1 - 1)) = Some (?g ?y2)"
  proof (rule for_up_eq)
    fix i assume i: "?y1 \<le> i" "i \<le> ?y2"
    then have i': "0 \<le> i" "i < trow s" using b by linarith+
    then have row: "int (length (tline s ! nat i)) = tcol s" using geo_shapeD(6) assms(1) by blast
    have "?body i (?g (i - 1)) =
      for_up ?x1 ?x2 (clear_cell i) ((?g (i - 1))\<lparr>tdirty := upd_range ?y1 i (\<lambda>_. True) (tdirty s)\<rparr>)"
      using i i' geo by (simp add: aset_Some upd_range_upd_const)
    also have "\<dots> = Some (?g i)"
      using i i' geo b row by (subst clear_cells_eq) (simp_all add: upd_range_upd)
    finally show "?body i (?g (i - 1)) = Some (?g i)" .
  qed (use b in simp)
  moreover have "?g (?y1 - 1) = s" by (simp add: upd_range_empty)
  ultimately show ?thesis using assms(2,3) by (simp add: tclearregion_def)
qed

lemmas tclearregion_eq = tclearregion_shape [OF wf_geo_shape]

lemma wf_geo_clear:
  assumes "wf_geo s"
  shows "wf_geo (s\<lparr>tdirty := upd_range y1 y2 f (tdirty s),
    tline := upd_range y1 y2 (upd_range x1 x2 blank) (tline s)\<rparr>)"
  using assms by (auto simp: wf_geo_def intro!: wf_screen_upd_range wf_row_upd_range ok_glyph_blank)

section \<open>The contract of a screen operation\<close>

text \<open>What a screen operation leaves alone: everything but the screens, cursor, tabs and selection.\<close>

definition rest :: "st \<Rightarrow> _" where
  "rest s = (trow s, tcol s, tesc s, csi s, str s, iofd s, iolog s, ttyout s, title s,
     (haswin s, xw_w s, xw_h s, xw_state s, oldx s, oldy s, palette s, frame s))"

lemma rest_update [simp]:
  "rest (s\<lparr>tline := a\<rparr>) = rest s" "rest (s\<lparr>talt := a\<rparr>) = rest s" "rest (s\<lparr>tdirty := d\<rparr>) = rest s"
  "rest (s\<lparr>tcur := c\<rparr>) = rest s" "rest (s\<lparr>ttop := i\<rparr>) = rest s" "rest (s\<lparr>tbot := i\<rparr>) = rest s"
  "rest (s\<lparr>tmode := m\<rparr>) = rest s" "rest (s\<lparr>ttabs := t\<rparr>) = rest s" "rest (s\<lparr>sel := e\<rparr>) = rest s"
  "rest (s\<lparr>saved := c\<rparr>) = rest s"
  by (simp_all add: rest_def)

text \<open>Every row that changes is marked dirty, and no mark is lost.\<close>

definition marks :: "st \<Rightarrow> st \<Rightarrow> bool" where
  "marks s s' \<longleftrightarrow> (\<forall>y. 0 \<le> y \<and> y < trow s \<longrightarrow>
     (tdirty s ! nat y \<longrightarrow> tdirty s' ! nat y) \<and>
     (tline s' ! nat y \<noteq> tline s ! nat y \<longrightarrow> tdirty s' ! nat y))"

definition contract :: "st \<Rightarrow> st \<Rightarrow> bool" where
  "contract s s' \<longleftrightarrow> wf_term s' \<and> rest s' = rest s \<and> marks s s'"

lemma marks_same [simp]: "tline s' = tline s \<Longrightarrow> tdirty s' = tdirty s \<Longrightarrow> marks s s'"
  by (simp add: marks_def)

lemma restD:
  assumes "rest s' = rest s"
  shows "trow s' = trow s" "tcol s' = tcol s" "tesc s' = tesc s" "csi s' = csi s" "str s' = str s"
    "iofd s' = iofd s" "iolog s' = iolog s" "ttyout s' = ttyout s" "title s' = title s"
    "haswin s' = haswin s" "xw_w s' = xw_w s" "xw_h s' = xw_h s" "xw_state s' = xw_state s"
    "oldx s' = oldx s" "oldy s' = oldy s" "palette s' = palette s" "frame s' = frame s"
  using assms by (simp_all add: rest_def)

lemma contract_refl: "wf_term s \<Longrightarrow> contract s s"
  by (simp add: contract_def)

lemma contract_trans: "contract s s1 \<Longrightarrow> contract s1 s2 \<Longrightarrow> contract s s2"
proof -
  assume c: "contract s s1" "contract s1 s2"
  then have "trow s1 = trow s" using restD(1) [of s1 s] by (simp add: contract_def)
  with c have "marks s s2" unfolding contract_def marks_def by metis
  with c show ?thesis by (simp add: contract_def)
qed

lemma contractD:
  assumes "contract s s'"
  shows "wf_term s'" "rest s' = rest s" "marks s s'"
  using assms by (auto simp: contract_def)

text \<open>
  The interface between the screen and the escape-sequence interpreter: an operation that
  is defined on every well-formed state and respects the contract. Sequences and
  repetitions of such operations are such operations.
\<close>

locale screen_op =
  fixes oper :: "st \<Rightarrow> st option"
  assumes op_ok: "wf_term s \<Longrightarrow> \<exists>s'. oper s = Some s' \<and> contract s s'"
begin

lemma op_result: "wf_term s \<Longrightarrow> oper s = Some s' \<Longrightarrow> contract s s'"
  using op_ok by fastforce

lemma op_wf: "wf_term s \<Longrightarrow> oper s = Some s' \<Longrightarrow> wf_term s'"
  using op_result contractD by blast

end

lemma screen_op_Some: "(\<And>s. wf_term s \<Longrightarrow> contract s (f s)) \<Longrightarrow> screen_op (\<lambda>s. Some (f s))"
  by unfold_locales simp

lemma screen_op_seq:
  assumes "screen_op f" and "screen_op g"
  shows "screen_op (\<lambda>s. Option.bind (f s) g)"
proof
  fix s assume "wf_term s"
  then obtain s1 where s1: "f s = Some s1" "contract s s1" using screen_op.op_ok [OF assms(1)] by blast
  then obtain s2 where "g s1 = Some s2" "contract s1 s2"
    using screen_op.op_ok [OF assms(2)] contractD by blast
  with s1 contract_trans show "\<exists>s'. Option.bind (f s) g = Some s' \<and> contract s s'"
    by (metis Option.bind.bind_lunit)
qed

lemma screen_op_dep:
  assumes "\<And>s. wf_term s \<Longrightarrow> \<exists>f. oper s = f s \<and> screen_op f"
  shows "screen_op oper"
  by (rule screen_op.intro) (metis assms screen_op.op_ok)

fun repeat_op :: "nat \<Rightarrow> (st \<Rightarrow> st option) \<Rightarrow> st \<Rightarrow> st option" where
  "repeat_op 0 f s = Some s"
| "repeat_op (Suc n) f s = do { s \<leftarrow> f s; repeat_op n f s }"

lemma screen_op_repeat: "screen_op f \<Longrightarrow> screen_op (repeat_op n f)"
proof (induction n)
  case 0
  then show ?case using screen_op_Some [of "\<lambda>s. s"] contract_refl by simp
next
  case (Suc n)
  then show ?case using screen_op_seq [of f "repeat_op n f"] by simp
qed

section \<open>Cursor, regions and tabs\<close>

lemma wf_term_tmoveto: "wf_term s \<Longrightarrow> wf_term (tmoveto x y s)"
  by (auto simp: wf_term_def wf_geo_def wf_cursor_def wf_scroll_def tmoveto_def)

lemma rest_tmoveto [simp]: "rest (tmoveto x y s) = rest s"
  by (simp add: tmoveto_def)

lemma tmoveto_sel [simp]:
  "tline (tmoveto x y s) = tline s" "talt (tmoveto x y s) = talt s" "tdirty (tmoveto x y s) = tdirty s"
  "ttop (tmoveto x y s) = ttop s" "tbot (tmoveto x y s) = tbot s" "tmode (tmoveto x y s) = tmode s"
  "ttabs (tmoveto x y s) = ttabs s" "sel (tmoveto x y s) = sel s" "saved (tmoveto x y s) = saved s"
  "cx (tcur (tmoveto x y s)) = LIMIT x 0 (tcol s - 1)" "cy (tcur (tmoveto x y s)) = LIMIT y 0 (trow s - 1)"
  "cattr (tcur (tmoveto x y s)) = cattr (tcur s)"
  by (simp_all add: tmoveto_def)

lemma contract_tmoveto: "wf_term s \<Longrightarrow> contract s (tmoveto x y s)"
  by (simp add: contract_def wf_term_tmoveto)

lemma wf_term_fields:
  "wf_term s \<Longrightarrow> wf_term (s\<lparr>sel := e\<rparr>)" "wf_term s \<Longrightarrow> ok_colors (cattr c) \<Longrightarrow> wf_term (s\<lparr>saved := c\<rparr>)"
  "wf_term s \<Longrightarrow> wf_term (s\<lparr>tmode := m\<rparr>)"
  by (simp_all add: wf_term_def wf_geo_def wf_cursor_def wf_scroll_def)

lemma contract_tcursor: "wf_term s \<Longrightarrow> contract s (tcursor m s)"
proof (cases m)
  case CURSOR_SAVE
  assume "wf_term s" with CURSOR_SAVE show ?thesis by (simp add: contract_def wf_term_fields wf_termD)
next
  case CURSOR_LOAD
  assume "wf_term s"
  then have "wf_term (tmoveto (cx (saved s)) (cy (saved s)) (s\<lparr>tcur := saved s\<rparr>))"
    by (auto simp: wf_term_def wf_geo_def wf_cursor_def wf_scroll_def tmoveto_def)
  with CURSOR_LOAD show ?thesis by (simp add: contract_def)
qed (simp_all add: contract_refl)

lemma contract_selscroll: "wf_term s \<Longrightarrow> contract s (selscroll o' n s)"
  by (simp add: contract_def selscroll_def Let_def wf_term_fields)

lemma tsetscroll_eq:
  "tsetscroll t b s = s\<lparr>ttop := min (LIMIT t 0 (trow s - 1)) (LIMIT b 0 (trow s - 1)),
     tbot := max (LIMIT t 0 (trow s - 1)) (LIMIT b 0 (trow s - 1))\<rparr>"
  by (simp add: tsetscroll_def min_def max_def Let_def)

lemma wf_term_region:
  "wf_term s \<Longrightarrow> 0 \<le> a \<Longrightarrow> a \<le> b \<Longrightarrow> b < trow s \<Longrightarrow> wf_term (s\<lparr>ttop := a, tbot := b\<rparr>)"
  by (simp add: wf_term_def wf_geo_def wf_cursor_def wf_scroll_def)

lemma LIMIT_row:
  "wf_term s \<Longrightarrow> 0 \<le> LIMIT t 0 (trow s - 1)" "wf_term s \<Longrightarrow> LIMIT t 0 (trow s - 1) < trow s"
  "wf_term s \<Longrightarrow> 0 \<le> LIMIT t 0 (tcol s - 1)" "wf_term s \<Longrightarrow> LIMIT t 0 (tcol s - 1) < tcol s"
  using wf_geoD(1,2) [of s, OF wf_termD(1)] by (force simp: LIMIT_def)+

lemma contract_tsetscroll: "wf_term s \<Longrightarrow> contract s (tsetscroll t b s)"
  unfolding tsetscroll_eq contract_def
  by (auto intro!: wf_term_region marks_same simp: LIMIT_row min_def max_def)

lemma contract_update_rows:
  assumes "wf_term s" and "wf_screen (trow s) (tcol s) ls" and "int (length d) = trow s"
    and "\<And>y. 0 \<le> y \<Longrightarrow> y < trow s \<Longrightarrow> (tdirty s ! nat y \<longrightarrow> d ! nat y) \<and> (ls ! nat y \<noteq> tline s ! nat y \<longrightarrow> d ! nat y)"
  shows "contract s (s\<lparr>tdirty := d, tline := ls\<rparr>)"
  using assms by (simp add: contract_def marks_def wf_term_def wf_geo_def wf_cursor_def wf_scroll_def)

lemma nth_upd_range_int [simp]:
  "0 \<le> i \<Longrightarrow> i < int (length xs) \<Longrightarrow>
   upd_range lo hi f xs ! nat i = (if lo \<le> i \<and> i \<le> hi then f (xs ! nat i) else xs ! nat i)"
  by (simp add: nat_less_iff)

lemma tclearregion_ok:
  assumes "wf_term s" "x1 \<le> x2" "y1 \<le> y2"
  shows "\<exists>s'. tclearregion x1 y1 x2 y2 s = Some s' \<and> contract s s'"
proof -
  have g: "wf_geo s" using assms wf_termD by blast
  note geo = wf_geoD [OF g]
  have "contract s (s\<lparr>tdirty := upd_range (LIMIT y1 0 (trow s - 1)) (LIMIT y2 0 (trow s - 1)) (\<lambda>_. True) (tdirty s),
    tline := upd_range (LIMIT y1 0 (trow s - 1)) (LIMIT y2 0 (trow s - 1))
       (upd_range (LIMIT x1 0 (tcol s - 1)) (LIMIT x2 0 (tcol s - 1)) blank) (tline s)\<rparr>)"
    using geo assms(1) by (intro contract_update_rows wf_screen_upd_range wf_row_upd_range) (auto simp: ok_glyph_blank)
  then show ?thesis using tclearregion_eq [OF g assms(2,3)] by (auto simp: )
qed

lemma tclearregion_swap:
  "tclearregion x1 y1 x2 y2 s = tclearregion (min x1 x2) (min y1 y2) (max x1 x2) (max y1 y2) s"
  by (simp add: tclearregion_def min_def max_def)

lemma tclearregion_op: "screen_op (tclearregion x1 y1 x2 y2)"
  by unfold_locales (subst tclearregion_swap, rule tclearregion_ok, auto)

interpretation clear_op: screen_op "tclearregion x1 y1 x2 y2" for x1 y1 x2 y2
  by (rule tclearregion_op)

lemma tsetdirt_op: "screen_op (tsetdirt t b)"
proof
  fix s assume s: "wf_term s"
  note geo = wf_geoD [OF wf_termD(1) [OF s]]
  have "contract s (s\<lparr>tdirty :=
    upd_range (LIMIT t 0 (trow s - 1)) (LIMIT b 0 (trow s - 1)) (\<lambda>_. True) (tdirty s), tline := tline s\<rparr>)"
    using geo s by (intro contract_update_rows) auto
  then show "\<exists>s'. tsetdirt t b s = Some s' \<and> contract s s'"
    using tsetdirt_eq geo by simp
qed

interpretation dirt_op: screen_op "tsetdirt t b" for t b
  by (rule tsetdirt_op)

lemma tfulldirt_eq:
  assumes "int (length (tdirty s)) = trow s" and "1 \<le> trow s"
  shows "tfulldirt s = Some (s\<lparr>tdirty := replicate (nat (trow s)) True\<rparr>)"
proof -
  have "upd_range 0 (trow s - 1) (\<lambda>_. True) (tdirty s) = replicate (nat (trow s)) True"
    using assms by (intro nth_equalityI) auto
  with assms show ?thesis by (simp add: tfulldirt_def tsetdirt_eq)
qed

lemma tfulldirt_op: "screen_op tfulldirt"
  unfolding tfulldirt_def by (rule screen_op_dep) (blast intro: tsetdirt_op)

interpretation fulldirt_op: screen_op tfulldirt
  by (rule tfulldirt_op)

lemma tswapscreen_eq:
  assumes "wf_geo s"
  shows "tswapscreen s = Some (s\<lparr>tline := talt s, talt := tline s, tmode := tmode s XOR MODE_ALTSCREEN,
    tdirty := replicate (nat (trow s)) True\<rparr>)"
  using wf_geoD [OF assms] by (simp add: tswapscreen_def tfulldirt_eq)

lemma tswapscreen_op: "screen_op tswapscreen"
proof
  fix s assume s: "wf_term s"
  note g = wf_termD(1) [OF s]
  have "contract s (s\<lparr>tline := talt s, talt := tline s, tmode := tmode s XOR MODE_ALTSCREEN,
    tdirty := replicate (nat (trow s)) True\<rparr>)"
    using s wf_geoD [OF g] by (simp add: contract_def marks_def wf_term_def wf_geo_def wf_cursor_def wf_scroll_def)
  then show "\<exists>s'. tswapscreen s = Some s' \<and> contract s s'" using tswapscreen_eq [OF g] by simp
qed

interpretation swap_op: screen_op tswapscreen
  by (rule tswapscreen_op)

lemma set_tabs_eq:
  "0 \<le> i \<Longrightarrow> col \<le> int (length tabs) \<Longrightarrow>
   \<exists>t. set_tabs i col tabs = Some t \<and> length t = length tabs \<and>
     (\<forall>j < length t. t ! j \<longleftrightarrow> tabs ! j \<or> (i \<le> int j \<and> int j < col \<and> (int j - i) mod 4 = 0))"
proof (induction i col tabs rule: set_tabs.induct)
  case (1 i col tabs)
  show ?case
  proof (cases "i < col")
    case False
    then show ?thesis by (auto simp: set_tabs.simps)
  next
    case True
    then have a: "aset tabs i True = Some (tabs[nat i := True])" using "1.prems" by (simp add: aset_Some)
    with "1.IH" [OF True a] "1.prems" obtain t where
      t: "set_tabs (i + tabspaces) col (tabs[nat i := True]) = Some t" "length t = length tabs"
      "\<And>j. j < length t \<Longrightarrow> t ! j \<longleftrightarrow> tabs[nat i := True] ! j \<or> (i + 4 \<le> int j \<and> int j < col \<and> (int j - (i + 4)) mod 4 = 0)"
      by auto
    have m: "(int j - (i + 4)) mod 4 = (int j - i) mod 4" for j by presburger
    have "t ! j \<longleftrightarrow> tabs ! j \<or> (i \<le> int j \<and> int j < col \<and> (int j - i) mod 4 = 0)" if "j < length t" for j
    proof (cases "j = nat i")
      case True
      then show ?thesis using t(2,3) that "1.prems" \<open>i < col\<close> by simp
    next
      case False
      have "i \<le> int j \<and> (int j - i) mod 4 = 0 \<longleftrightarrow> i + 4 \<le> int j \<and> (int j - i) mod 4 = 0"
      proof -
        have "int j \<noteq> i" using False "1.prems" by auto
        then show ?thesis by (smt (verit) mod_pos_pos_trivial)
      qed
      then show ?thesis using t(3) [OF that] t(2) that False m by auto
    qed
    then show ?thesis using True a t(1,2) by (subst set_tabs.simps) auto
  qed
qed


end
