(* ===== verification/Scroll.thy ===== *)
theory Scroll
  imports Screen_Laws
begin

text \<open>
  Reset, scrolling, new lines, characters and tab stops of simple-terminal
  (src/package/simple-terminal/src/main.c): the row-exchange loops of \<open>tscrollup\<close> and
  \<open>tscrolldown\<close> are characterised by a loop invariant on the rows, and each operation is
  shown to be a screen operation in the sense of the locale \<open>screen_op\<close>.
\<close>

section \<open>Reset\<close>

lemma upd_range_all:
  "n = int (length xs) \<Longrightarrow> upd_range 0 (n - 1) f xs = map f xs"
  by (rule nth_equalityI) auto

text \<open>The whole screen cleared.\<close>

lemma tclearregion_all:
  assumes "geo_shape s"
  shows "tclearregion 0 0 (tcol s - 1) (trow s - 1) s =
    Some (s\<lparr>tdirty := replicate (nat (trow s)) True, tline := map (map blank) (tline s)\<rparr>)"
proof -
  note geo = geo_shapeD(1-5) [OF assms]
  have "upd_range 0 (trow s - 1) (upd_range 0 (tcol s - 1) blank) (tline s) = map (map blank) (tline s)"
  proof (rule nth_equalityI)
    fix i assume "i < length (upd_range 0 (trow s - 1) (upd_range 0 (tcol s - 1) blank) (tline s))"
    then have i: "i < length (tline s)" by simp
    then have "int (length (tline s ! i)) = tcol s" using assms by (auto simp: geo_shape_def)
    with i geo(3) show "upd_range 0 (trow s - 1) (upd_range 0 (tcol s - 1) blank) (tline s) ! i = map (map blank) (tline s) ! i"
      by (simp add: upd_range_all)
  qed simp
  moreover have "upd_range 0 (trow s - 1) (\<lambda>_. True) (tdirty s) = replicate (nat (trow s)) True"
    using geo by (intro nth_equalityI) auto
  ultimately show ?thesis using geo by (simp add: tclearregion_shape [OF assms])
qed

definition default_tabs :: "nat \<Rightarrow> bool list" where
  "default_tabs n = map (\<lambda>j. 0 < j \<and> j mod 4 = 0) [0..<n]"

lemma tab_stop_iff: "(4 \<le> int j \<and> (int j - 4) mod 4 = 0) \<longleftrightarrow> (0 < j \<and> j mod 4 = 0)"
  by presburger

lemma treset_eq:
  assumes "geo_shape s"
  shows "treset s = Some (s\<lparr>tcur := reset_cursor, ttabs := default_tabs (nat (tcol s)), ttop := 0,
     tbot := trow s - 1, tmode := MODE_WRAP, tdirty := replicate (nat (trow s)) True,
     tline := map (map blank) (tline s)\<rparr>)"
proof -
  note geo = geo_shapeD(1-5) [OF assms]
  obtain t where t: "set_tabs 4 (tcol s) (replicate (nat (tcol s)) False) = Some t"
    "length t = nat (tcol s)"
    "\<forall>j < length t. t ! j \<longleftrightarrow> replicate (nat (tcol s)) False ! j \<or> (4 \<le> int j \<and> int j < tcol s \<and> (int j - 4) mod 4 = 0)"
    using set_tabs_eq [of 4 "tcol s" "replicate (nat (tcol s)) False"] geo by auto
  have "t = default_tabs (nat (tcol s))"
  proof (rule nth_equalityI)
    fix j assume j: "j < length t"
    then have "t ! j \<longleftrightarrow> 4 \<le> int j \<and> (int j - 4) mod 4 = 0" using t by auto
    with j t(2) show "t ! j = default_tabs (nat (tcol s)) ! j"
      unfolding tab_stop_iff by (simp add: default_tabs_def)
  qed (simp add: t default_tabs_def)
  note t1 = t(1) [unfolded this]
  let ?s = "s\<lparr>tcur := reset_cursor, ttabs := default_tabs (nat (tcol s)), ttop := 0,
     tbot := trow s - 1, tmode := MODE_WRAP\<rparr>"
  have "geo_shape ?s" using assms by (simp add: geo_shape_def default_tabs_def)
  from tclearregion_all [OF this] show ?thesis
    using geo t1 by (simp add: treset_def clear_tabs_def)
qed

lemma wf_row_cleared:
  "int (length l) = c \<Longrightarrow> \<forall>g \<in> set l. length (gc g) = 4 \<Longrightarrow> wf_row c (map blank l)"
  by (auto simp: wf_row_def ok_glyph_def blank_def flag_def)

text \<open>\<open>treset\<close> needs of the cells of the main screen only that they hold four bytes each.\<close>

lemma treset_wf:
  assumes "geo_shape s" "trow s \<le> MAX_DIM" "tcol s \<le> MAX_DIM" "wf_screen (trow s) (tcol s) (talt s)"
    and "ok_colors (cattr (saved s))" "\<forall>l \<in> set (tline s). \<forall>g \<in> set l. length (gc g) = 4"
    and "length (palette s) = 258" "xw_w s \<le> MAX_DIM" "xw_h s \<le> MAX_DIM" and "treset s = Some s'"
  shows "contract s s'"
proof -
  have "wf_screen (trow s) (tcol s) (map (map blank) (tline s))"
    using assms by (auto simp: geo_shape_def wf_screen_def intro!: wf_row_cleared)
  with assms show ?thesis
    by (auto simp: treset_eq contract_def marks_def wf_term_def wf_geo_def wf_cursor_def wf_scroll_def
       reset_cursor_def default_tabs_def ok_colors_def geo_shape_def)
qed

lemma treset_op: "screen_op treset"
proof
  fix s assume s: "wf_term s"
  note g = wf_termD(1) [OF s] and sh = wf_geo_shape [OF wf_termD(1) [OF s]]
  have "\<forall>l \<in> set (tline s). \<forall>g \<in> set l. length (gc g) = 4"
    using wf_geoD(5) [OF g] by (auto simp: wf_screen_def wf_row_def ok_glyph_def)
  then show "\<exists>s'. treset s = Some s' \<and> contract s s'"
    using treset_wf [OF sh wf_geoD(3,4,6) [OF g] wf_termD(10) [OF s] _ wf_termD(11,12,13) [OF s]] treset_eq [OF sh] by blast
qed

interpretation reset_op: screen_op treset
  by (rule treset_op)

text \<open>
  \<open>tnew\<close> makes a terminal of any size with nothing shown on its main screen. Its alternate
  screen keeps the contents \<open>malloc\<close> left there.
\<close>

lemma tnew_ok:
  assumes "1 \<le> col" "col \<le> MAX_DIM" "1 \<le> row" "row \<le> MAX_DIM"
    and "\<And>y x. length (gc (junk y x)) = 4" "\<And>y x. ok_glyph (junk' y x)" "ok_colors (cattr (saved s))" "length (palette s) = 258" "xw_w s \<le> MAX_DIM" "xw_h s \<le> MAX_DIM"
  shows "\<exists>s'. tnew junk junk' col row s = Some s' \<and> wf_term s' \<and> trow s' = row \<and> tcol s' = col
     \<and> tesc s' = tesc s \<and> csi s' = csi s \<and> str s' = str s
     \<and> (\<forall>x y. 0 \<le> x \<and> x < col \<and> 0 \<le> y \<and> y < row \<longrightarrow> view s' x y = None)"
proof -
  let ?s = "s\<lparr>trow := row, tcol := col,
       tline := map (\<lambda>y. map (junk y) [0..<nat col]) [0..<nat row],
       talt := map (\<lambda>y. map (junk' y) [0..<nat col]) [0..<nat row],
       tdirty := replicate (nat row) False,
       ttabs := replicate (nat col) False\<rparr>"
  have g: "geo_shape ?s" using assms(1-4) by (auto simp: geo_shape_def)
  have alt: "wf_screen (trow ?s) (tcol ?s) (talt ?s)" using assms(1-4,6) by (auto simp: wf_screen_def wf_row_def)
  obtain s' where s': "treset ?s = Some s'" using treset_eq [OF g] by blast
  have c: "contract ?s s'" by (rule treset_wf [OF g _ _ alt _ _ _ _ _ s']) (use assms in auto)
  from s' treset_eq [OF g] have l: "tline s' = map (map blank) (tline ?s)" by auto
  have "view s' x y = None" if "0 \<le> x" "x < col" "0 \<le> y" "y < row" for x y
    using that by (simp add: view_def cell_def l nat_less_iff)
  with s' c restD [of s' ?s] show ?thesis by (auto simp: tnew_def contract_def)
qed

section \<open>Scrolling\<close>

lemma swap_lines_eq:
  assumes "wf_geo s" "0 \<le> i" "i < trow s" "0 \<le> j" "j < trow s"
  shows "swap_lines i j s = Some (s\<lparr>tdirty := (tdirty s)[nat i := True, nat j := True],
     tline := (tline s)[nat i := tline s ! nat j, nat j := tline s ! nat i]\<rparr>)"
  using assms wf_geoD [OF assms(1)] by (simp add: swap_lines_def aget_Some aset_Some)

lemma swap_lines_ok:
  assumes "wf_term s" "0 \<le> i" "i < trow s" "0 \<le> j" "j < trow s"
  shows "\<exists>s'. swap_lines i j s = Some s' \<and> contract s s'"
proof -
  note g = wf_termD(1) [OF assms(1)]
  note geo = wf_geoD [OF g]
  have "contract s (s\<lparr>tdirty := (tdirty s)[nat i := True, nat j := True],
     tline := (tline s)[nat i := tline s ! nat j, nat j := tline s ! nat i]\<rparr>)"
    using assms geo by (intro contract_update_rows wf_screen_update)
      (auto simp: wf_geo_row [OF g] nth_list_update)
  with swap_lines_eq [OF g assms(2-5)] show ?thesis by simp
qed

lemma scroll_loop_ok:
  assumes "wf_term s" and "\<And>i. lo \<le> i \<Longrightarrow> i \<le> hi \<Longrightarrow> 0 \<le> i \<and> i < trow s \<and> 0 \<le> j i \<and> j i < trow s"
  shows "\<exists>s'. for_up lo hi (\<lambda>i. swap_lines i (j i)) s = Some s' \<and> contract s s'"
    and "\<exists>s'. for_down hi lo (\<lambda>i. swap_lines i (j i)) s = Some s' \<and> contract s s'"
proof -
  have step: "\<exists>s2. swap_lines i (j i) s1 = Some s2 \<and> contract s s2"
    if "lo \<le> i" "i \<le> hi" "contract s s1" for i s1
  proof -
    have "trow s1 = trow s" using restD(1) [of s1 s] that(3) by (simp add: contract_def)
    then show ?thesis
      using swap_lines_ok [of s1 i "j i"] assms(2) that contract_trans contractD(1) by metis
  qed
  show "\<exists>s'. for_up lo hi (\<lambda>i. swap_lines i (j i)) s = Some s' \<and> contract s s'"
    by (rule for_up_inv [where P = "\<lambda>_. contract s"]) (use step contract_refl assms(1) in auto)
  show "\<exists>s'. for_down hi lo (\<lambda>i. swap_lines i (j i)) s = Some s' \<and> contract s s'"
    by (rule for_down_inv [where P = "\<lambda>_. contract s"]) (use step contract_refl assms(1) in auto)
qed

lemma contract_dims: "contract s s' \<Longrightarrow> trow s' = trow s \<and> tcol s' = tcol s"
  using restD(1,2) [of s' s] by (simp add: contract_def)

lemma tclearregion_tbot: "tclearregion x1 y1 x2 y2 s = Some s' \<Longrightarrow> wf_term s \<Longrightarrow>
   tbot s' = tbot s \<and> ttop s' = ttop s \<and> tcur s' = tcur s \<and> tmode s' = tmode s \<and> talt s' = talt s \<and> sel s' = sel s
   \<and> saved s' = saved s \<and> ttabs s' = ttabs s"
  by (subst (asm) tclearregion_swap) (auto simp: tclearregion_eq wf_termD(1))

lemma tscrollup_ok:
  assumes "wf_term s" and "0 \<le> orig"
  shows "\<exists>s'. tscrollup orig n s = Some s' \<and> contract s s'"
proof -
  let ?n = "LIMIT n 0 (tbot s - orig + 1)"
  obtain s1 where s1: "tclearregion 0 orig (tcol s - 1) (orig + ?n - 1) s = Some s1" "contract s s1"
    using clear_op.op_ok [OF assms(1)] by blast
  have b: "tbot s1 = tbot s" using tclearregion_tbot s1 assms(1) by blast
  have "\<exists>s2. for_up orig (tbot s1 - ?n) (\<lambda>i. swap_lines i (i + ?n)) s1 = Some s2 \<and> contract s1 s2"
    using s1 assms wf_termD(8) [OF assms(1)] contract_dims [OF s1(2)] b
    by (intro scroll_loop_ok) (auto simp: contract_def LIMIT_def split: if_splits)
  then obtain s2 where s2: "for_up orig (tbot s1 - ?n) (\<lambda>i. swap_lines i (i + ?n)) s1 = Some s2" "contract s1 s2"
    by blast
  then have "contract s2 (selscroll orig (- ?n) s2)" by (blast intro: contract_selscroll contractD(1))
  with s1 s2 have "contract s (selscroll orig (- ?n) s2)" using contract_trans by blast
  with s1 s2 show ?thesis by (simp add: tscrollup_def Let_def)
qed

lemma tscrolldown_ok:
  assumes "wf_term s" and "0 \<le> orig"
  shows "\<exists>s'. tscrolldown orig n s = Some s' \<and> contract s s'"
proof -
  let ?n = "LIMIT n 0 (tbot s - orig + 1)"
  obtain s1 where s1: "tclearregion 0 (tbot s - ?n + 1) (tcol s - 1) (tbot s) s = Some s1" "contract s s1"
    using clear_op.op_ok [OF assms(1)] by blast
  have b: "tbot s1 = tbot s" using tclearregion_tbot s1 assms(1) by blast
  have "\<exists>s2. for_down (tbot s1) (orig + ?n) (\<lambda>i. swap_lines i (i - ?n)) s1 = Some s2 \<and> contract s1 s2"
    using s1 assms wf_termD(8) [OF assms(1)] contract_dims [OF s1(2)] b
    by (intro scroll_loop_ok) (auto simp: contract_def LIMIT_def split: if_splits)
  then obtain s2 where s2: "for_down (tbot s1) (orig + ?n) (\<lambda>i. swap_lines i (i - ?n)) s1 = Some s2" "contract s1 s2"
    by blast
  then have "contract s2 (selscroll orig ?n s2)" by (blast intro: contract_selscroll contractD(1))
  with s1 s2 have "contract s (selscroll orig ?n s2)" using contract_trans by blast
  with s1 s2 show ?thesis by (simp add: tscrolldown_def Let_def)
qed


text \<open>
  The rows after the loops. Before step \<open>i\<close> of \<open>tscrollup\<close> the rows below \<open>i\<close> are in place and
  the \<open>n\<close> cleared rows have moved down to \<open>i\<close>; \<open>tscrolldown\<close> is the mirror image.
\<close>

definition up_state :: "line list \<Rightarrow> int \<Rightarrow> int \<Rightarrow> int \<Rightarrow> line list \<Rightarrow> bool" where
  "up_state L0 orig n i L \<longleftrightarrow> length L = length L0 \<and>
     (\<forall>k. 0 \<le> k \<and> k < int (length L0) \<longrightarrow>
        (if orig \<le> k \<and> k < i then L ! nat k = L0 ! nat (k + n)
         else if i \<le> k \<and> k < i + n then blank_row (L ! nat k)
         else L ! nat k = L0 ! nat k))"

definition down_state :: "line list \<Rightarrow> int \<Rightarrow> int \<Rightarrow> int \<Rightarrow> line list \<Rightarrow> bool" where
  "down_state L0 bt n i L \<longleftrightarrow> length L = length L0 \<and>
     (\<forall>k. 0 \<le> k \<and> k < int (length L0) \<longrightarrow>
        (if i < k \<and> k \<le> bt then L ! nat k = L0 ! nat (k - n)
         else if i - n < k \<and> k \<le> i then blank_row (L ! nat k)
         else L ! nat k = L0 ! nat k))"

lemma nat_eq_int: "0 \<le> a \<Longrightarrow> 0 \<le> b \<Longrightarrow> nat a = nat b \<longleftrightarrow> a = b"
  by auto

lemma up_state_swap:
  assumes "up_state L0 orig n i L" "0 \<le> orig" "orig \<le> i" "1 \<le> n" "i + n < int (length L0)"
  shows "up_state L0 orig n (i + 1) (L[nat i := L ! nat (i + n), nat (i + n) := L ! nat i])"
  unfolding up_state_def
proof (intro conjI allI impI)
  have len: "length L = length L0" using assms(1) by (simp add: up_state_def)
  then show "length (L[nat i := L ! nat (i + n), nat (i + n) := L ! nat i]) = length L0" by simp
  fix k assume k: "0 \<le> k \<and> k < int (length L0)"
  let ?L = "L[nat i := L ! nat (i + n), nat (i + n) := L ! nat i]"
  have L: "?L ! nat k = (if k = i + n then L ! nat i else if k = i then L ! nat (i + n) else L ! nat k)"
    using assms k len by (simp add: nth_list_update nat_eq_int)
  have at: "0 \<le> k \<and> k < int (length L0) \<longrightarrow>
        (if orig \<le> k \<and> k < i then L ! nat k = L0 ! nat (k + n)
         else if i \<le> k \<and> k < i + n then blank_row (L ! nat k)
         else L ! nat k = L0 ! nat k)" for k
    using assms(1) by (simp add: up_state_def)
  show "if orig \<le> k \<and> k < i + 1 then ?L ! nat k = L0 ! nat (k + n)
      else if i + 1 \<le> k \<and> k < i + 1 + n then blank_row (?L ! nat k) else ?L ! nat k = L0 ! nat k"
    using at [of k] at [of i] at [of "i + n"] assms k unfolding L by (auto split: if_splits)
qed

lemma down_state_swap:
  assumes "down_state L0 bt n i L" "i \<le> bt" "0 \<le> i - n" "1 \<le> n" "bt < int (length L0)"
  shows "down_state L0 bt n (i - 1) (L[nat i := L ! nat (i - n), nat (i - n) := L ! nat i])"
  unfolding down_state_def
proof (intro conjI allI impI)
  have len: "length L = length L0" using assms(1) by (simp add: down_state_def)
  then show "length (L[nat i := L ! nat (i - n), nat (i - n) := L ! nat i]) = length L0" by simp
  fix k assume k: "0 \<le> k \<and> k < int (length L0)"
  let ?L = "L[nat i := L ! nat (i - n), nat (i - n) := L ! nat i]"
  have L: "?L ! nat k = (if k = i - n then L ! nat i else if k = i then L ! nat (i - n) else L ! nat k)"
    using assms k len by (simp add: nth_list_update nat_eq_int)
  have at: "0 \<le> k \<and> k < int (length L0) \<longrightarrow>
        (if i < k \<and> k \<le> bt then L ! nat k = L0 ! nat (k - n)
         else if i - n < k \<and> k \<le> i then blank_row (L ! nat k)
         else L ! nat k = L0 ! nat k)" for k
    using assms(1) by (simp add: down_state_def)
  show "if i - 1 < k \<and> k \<le> bt then ?L ! nat k = L0 ! nat (k - n)
      else if i - 1 - n < k \<and> k \<le> i - 1 then blank_row (?L ! nat k) else ?L ! nat k = L0 ! nat k"
    using at [of k] at [of i] at [of "i - n"] assms k unfolding L by (auto split: if_splits)
qed

text \<open>Only the rows and the dirty marks change in the loops.\<close>

definition same_but_rows :: "st \<Rightarrow> st \<Rightarrow> bool" where
  "same_but_rows s s' \<longleftrightarrow> s' = s\<lparr>tline := tline s', tdirty := tdirty s'\<rparr>"

lemma same_but_rows_step:
  "same_but_rows s s1 \<Longrightarrow> same_but_rows s (s1\<lparr>tdirty := d, tline := l\<rparr>)"
  by (cases s; cases s1) (simp add: same_but_rows_def)

lemma up_loop:
  assumes "wf_term s" "up_state L0 orig n orig (tline s)" "0 \<le> orig" "1 \<le> n" "bt < trow s" "orig + n \<le> bt + 1"
  shows "\<exists>s'. for_up orig (bt - n) (\<lambda>i. swap_lines i (i + n)) s = Some s'
    \<and> same_but_rows s s' \<and> up_state L0 orig n (bt - n + 1) (tline s')"
proof -
  let ?P = "\<lambda>i s'. contract s s' \<and> same_but_rows s s' \<and> up_state L0 orig n i (tline s')"
  have len: "int (length L0) = trow s"
    using assms(2) wf_geoD(7) [OF wf_termD(1) [OF assms(1)]] by (simp add: up_state_def)
  have "\<exists>s'. for_up orig (bt - n) (\<lambda>i. swap_lines i (i + n)) s = Some s' \<and> ?P (max orig (bt - n + 1)) s'"
  proof (rule for_up_inv)
    show "?P orig s" using assms contract_refl by (simp add: same_but_rows_def)
  next
    fix i s1 assume i: "orig \<le> i" "i \<le> bt - n" and P: "?P i s1"
    then have w: "wf_term s1" and r: "trow s1 = trow s" using contract_dims by (auto simp: contract_def)
    then obtain s2 where s2: "swap_lines i (i + n) s1 = Some s2" "contract s1 s2"
      using swap_lines_ok [OF w, of i "i + n"] i assms by auto
    then have e: "s2 = s1\<lparr>tdirty := (tdirty s1)[nat i := True, nat (i + n) := True],
       tline := (tline s1)[nat i := tline s1 ! nat (i + n), nat (i + n) := tline s1 ! nat i]\<rparr>"
      using swap_lines_eq [OF wf_termD(1) [OF w], of i "i + n"] i assms r by simp
    have "up_state L0 orig n (i + 1) (tline s2)"
      unfolding e using up_state_swap [of L0 orig n i "tline s1"] P i assms len by simp
    moreover have "same_but_rows s s2" unfolding e using P same_but_rows_step by blast
    ultimately show "\<exists>s'. swap_lines i (i + n) s1 = Some s' \<and> ?P (i + 1) s'"
      using s2 P contract_trans by blast
  qed
  moreover have "max orig (bt - n + 1) = bt - n + 1" using assms by simp
  ultimately show ?thesis by auto
qed

lemma down_loop:
  assumes "wf_term s" "down_state L0 bt n bt (tline s)" "0 \<le> orig" "1 \<le> n" "bt < trow s" "orig + n \<le> bt + 1"
  shows "\<exists>s'. for_down bt (orig + n) (\<lambda>i. swap_lines i (i - n)) s = Some s'
    \<and> same_but_rows s s' \<and> down_state L0 bt n (orig + n - 1) (tline s')"
proof -
  let ?P = "\<lambda>i s'. contract s s' \<and> same_but_rows s s' \<and> down_state L0 bt n i (tline s')"
  have len: "int (length L0) = trow s"
    using assms(2) wf_geoD(7) [OF wf_termD(1) [OF assms(1)]] by (simp add: down_state_def)
  have "\<exists>s'. for_down bt (orig + n) (\<lambda>i. swap_lines i (i - n)) s = Some s' \<and> ?P (min bt (orig + n - 1)) s'"
  proof (rule for_down_inv)
    show "?P bt s" using assms contract_refl by (simp add: same_but_rows_def)
  next
    fix i s1 assume i: "orig + n \<le> i" "i \<le> bt" and P: "?P i s1"
    then have w: "wf_term s1" and r: "trow s1 = trow s" using contract_dims by (auto simp: contract_def)
    then obtain s2 where s2: "swap_lines i (i - n) s1 = Some s2" "contract s1 s2"
      using swap_lines_ok [OF w, of i "i - n"] i assms by auto
    then have e: "s2 = s1\<lparr>tdirty := (tdirty s1)[nat i := True, nat (i - n) := True],
       tline := (tline s1)[nat i := tline s1 ! nat (i - n), nat (i - n) := tline s1 ! nat i]\<rparr>"
      using swap_lines_eq [OF wf_termD(1) [OF w], of i "i - n"] i assms r by simp
    have "down_state L0 bt n (i - 1) (tline s2)"
      unfolding e using down_state_swap [of L0 bt n i "tline s1"] P i assms len by simp
    moreover have "same_but_rows s s2" unfolding e using P same_but_rows_step by blast
    ultimately show "\<exists>s'. swap_lines i (i - n) s1 = Some s' \<and> ?P (i - 1) s'"
      using s2 P contract_trans by blast
  qed
  moreover have "min bt (orig + n - 1) = orig + n - 1" using assms by simp
  ultimately show ?thesis by auto
qed

section \<open>The result of a scroll\<close>

lemma selscroll_eq: "selscroll orig n s = s\<lparr>sel := sel (selscroll orig n s)\<rparr>"
  by (simp add: selscroll_def Let_def)

lemma selscroll_rows [simp]:
  "sel (selscroll orig n (s\<lparr>tline := a, tdirty := d\<rparr>)) = sel (selscroll orig n s)"
  by (simp add: selscroll_def Let_def)

lemma blank_row_clear: "blank_row (map blank l)"
  by (simp add: blank_row_def blank_def)

lemma same_but_rows_selscroll:
  assumes "same_but_rows s s2"
  shows "selscroll orig n s2 = s\<lparr>tline := tline s2, tdirty := tdirty s2, sel := sel (selscroll orig n s)\<rparr>"
proof -
  have e: "s2 = s\<lparr>tline := tline s2, tdirty := tdirty s2\<rparr>" using assms by (simp add: same_but_rows_def)
  have "sel (selscroll orig n s2) = sel (selscroll orig n s)" by (subst e) simp
  with selscroll_eq [of orig n s2] have "selscroll orig n s2 = s2\<lparr>sel := sel (selscroll orig n s)\<rparr>" by simp
  also have "\<dots> = s\<lparr>tline := tline s2, tdirty := tdirty s2, sel := sel (selscroll orig n s)\<rparr>"
    by (subst e) simp
  finally show ?thesis .
qed

text \<open>Clearing whole rows.\<close>

lemma clear_rows:
  assumes "wf_term s" "0 \<le> y1" "y1 \<le> y2" "y2 < trow s" "tclearregion 0 y1 (tcol s - 1) y2 s = Some s'"
  shows "same_but_rows s s'"
    and "0 \<le> k \<Longrightarrow> k < trow s \<Longrightarrow>
      tline s' ! nat k = (if y1 \<le> k \<and> k \<le> y2 then map blank (tline s ! nat k) else tline s ! nat k)"
    and "length (tline s') = length (tline s)"
proof -
  note g = wf_termD(1) [OF assms(1)]
  note geo = wf_geoD [OF g]
  have e: "s' = s\<lparr>tdirty := upd_range y1 y2 (\<lambda>_. True) (tdirty s),
      tline := upd_range y1 y2 (upd_range 0 (tcol s - 1) blank) (tline s)\<rparr>"
    using tclearregion_eq [OF g, of 0 "tcol s - 1" y1 y2] assms geo by simp
  then show "same_but_rows s s'" by (simp add: same_but_rows_def)
  show "length (tline s') = length (tline s)" by (simp add: e)
  assume "0 \<le> k" "k < trow s"
  then show "tline s' ! nat k = (if y1 \<le> k \<and> k \<le> y2 then map blank (tline s ! nat k) else tline s ! nat k)"
    using geo wf_geo_row_length [OF g, of k] by (simp add: e upd_range_all)
qed

lemma same_but_rows_trans: "same_but_rows s s1 \<Longrightarrow> same_but_rows s1 s2 \<Longrightarrow> same_but_rows s s2"
  by (cases s; cases s1; cases s2) (simp add: same_but_rows_def)

lemma same_but_rowsD:
  assumes "same_but_rows s s'"
  shows "tbot s' = tbot s" "ttop s' = ttop s" "tcol s' = tcol s" "trow s' = trow s" "tcur s' = tcur s"
proof -
  have e: "s' = s\<lparr>tline := tline s', tdirty := tdirty s'\<rparr>" using assms by (simp add: same_but_rows_def)
  show "tbot s' = tbot s" "ttop s' = ttop s" "tcol s' = tcol s" "trow s' = trow s" "tcur s' = tcur s"
    by (subst e, simp)+
qed

text \<open>The rows of the screen after a scroll, and everything else.\<close>

lemma tscrollup_rows:
  assumes "wf_term s" "0 \<le> orig" "1 \<le> n" "orig + n \<le> tbot s + 1"
  shows "\<exists>s'. tscrollup orig n s = Some s' \<and> contract s s'
    \<and> s' = s\<lparr>tline := tline s', tdirty := tdirty s', sel := sel (selscroll orig (- n) s)\<rparr>
    \<and> (\<forall>y. 0 \<le> y \<and> y < trow s \<longrightarrow>
         (if orig \<le> y \<and> y \<le> tbot s - n then tline s' ! nat y = tline s ! nat (y + n)
          else if tbot s - n < y \<and> y \<le> tbot s then blank_row (tline s' ! nat y)
          else tline s' ! nat y = tline s ! nat y))"
proof -
  note g = wf_termD(1) [OF assms(1)]
  note geo = wf_geoD [OF g]
  have n: "LIMIT n 0 (tbot s - orig + 1) = n" using assms by simp
  obtain s1 where s1: "tclearregion 0 orig (tcol s - 1) (orig + n - 1) s = Some s1" "contract s s1"
    using clear_op.op_ok [OF assms(1)] by blast
  have c: "same_but_rows s s1"
    "\<And>k. 0 \<le> k \<Longrightarrow> k < trow s \<Longrightarrow> tline s1 ! nat k =
       (if orig \<le> k \<and> k \<le> orig + n - 1 then map blank (tline s ! nat k) else tline s ! nat k)"
    "length (tline s1) = length (tline s)"
    using clear_rows [OF assms(1,2) _ _ s1(1)] assms wf_termD(8) [OF assms(1)] by simp_all
  have "up_state (tline s) orig n orig (tline s1)"
    using c geo by (auto simp: up_state_def blank_row_clear)
  then obtain s2 where s2: "for_up orig (tbot s - n) (\<lambda>i. swap_lines i (i + n)) s1 = Some s2"
    "same_but_rows s1 s2" "up_state (tline s) orig n (tbot s - n + 1) (tline s2)"
    using up_loop [of s1 "tline s" orig n "tbot s"] s1 assms contract_dims [OF s1(2)] wf_termD(8) [OF assms(1)]
    by (auto simp: contract_def)
  have b: "tbot s1 = tbot s" using same_but_rowsD [OF c(1)] by simp
  have r: "tscrollup orig n s = Some (selscroll orig (- n) s2)"
    using s1 s2 b by (simp add: tscrollup_def n)
  have e: "selscroll orig (- n) s2 = s\<lparr>tline := tline s2, tdirty := tdirty s2, sel := sel (selscroll orig (- n) s)\<rparr>"
    using same_but_rows_selscroll same_but_rows_trans [OF c(1) s2(2)] by blast
  have k: "contract s (selscroll orig (- n) s2)"
    using tscrollup_ok [OF assms(1,2), of n] r by simp
  have rows: "if orig \<le> y \<and> y \<le> tbot s - n then tline s2 ! nat y = tline s ! nat (y + n)
          else if tbot s - n < y \<and> y \<le> tbot s then blank_row (tline s2 ! nat y)
          else tline s2 ! nat y = tline s ! nat y" if "0 \<le> y \<and> y < trow s" for y
    using s2(3) that geo assms(4) unfolding up_state_def by (auto split: if_splits)
  show ?thesis
    by (rule exI [of _ "selscroll orig (- n) s2"]) (use r k e rows in simp)
qed

lemma tscrolldown_rows:
  assumes "wf_term s" "0 \<le> orig" "1 \<le> n" "orig + n \<le> tbot s + 1"
  shows "\<exists>s'. tscrolldown orig n s = Some s' \<and> contract s s'
    \<and> s' = s\<lparr>tline := tline s', tdirty := tdirty s', sel := sel (selscroll orig n s)\<rparr>
    \<and> (\<forall>y. 0 \<le> y \<and> y < trow s \<longrightarrow>
         (if orig + n \<le> y \<and> y \<le> tbot s then tline s' ! nat y = tline s ! nat (y - n)
          else if orig \<le> y \<and> y < orig + n then blank_row (tline s' ! nat y)
          else tline s' ! nat y = tline s ! nat y))"
proof -
  note g = wf_termD(1) [OF assms(1)]
  note geo = wf_geoD [OF g]
  have n: "LIMIT n 0 (tbot s - orig + 1) = n" using assms by simp
  obtain s1 where s1: "tclearregion 0 (tbot s - n + 1) (tcol s - 1) (tbot s) s = Some s1" "contract s s1"
    using clear_op.op_ok [OF assms(1)] by blast
  have c: "same_but_rows s s1"
    "\<And>k. 0 \<le> k \<Longrightarrow> k < trow s \<Longrightarrow> tline s1 ! nat k =
       (if tbot s - n + 1 \<le> k \<and> k \<le> tbot s then map blank (tline s ! nat k) else tline s ! nat k)"
    "length (tline s1) = length (tline s)"
    using clear_rows [OF assms(1) _ _ _ s1(1)] assms wf_termD(8) [OF assms(1)] by simp_all
  have "down_state (tline s) (tbot s) n (tbot s) (tline s1)"
    using c geo by (auto simp: down_state_def blank_row_clear)
  then obtain s2 where s2: "for_down (tbot s) (orig + n) (\<lambda>i. swap_lines i (i - n)) s1 = Some s2"
    "same_but_rows s1 s2" "down_state (tline s) (tbot s) n (orig + n - 1) (tline s2)"
    using down_loop [of s1 "tline s" "tbot s" n orig] s1 assms contract_dims [OF s1(2)] wf_termD(8) [OF assms(1)]
    by (auto simp: contract_def)
  have b: "tbot s1 = tbot s" using same_but_rowsD [OF c(1)] by simp
  have r: "tscrolldown orig n s = Some (selscroll orig n s2)"
    using s1 s2 b by (simp add: tscrolldown_def n)
  have e: "selscroll orig n s2 = s\<lparr>tline := tline s2, tdirty := tdirty s2, sel := sel (selscroll orig n s)\<rparr>"
    using same_but_rows_selscroll same_but_rows_trans [OF c(1) s2(2)] by blast
  have k: "contract s (selscroll orig n s2)"
    using tscrolldown_ok [OF assms(1,2), of n] r by simp
  have rows: "if orig + n \<le> y \<and> y \<le> tbot s then tline s2 ! nat y = tline s ! nat (y - n)
          else if orig \<le> y \<and> y < orig + n then blank_row (tline s2 ! nat y)
          else tline s2 ! nat y = tline s ! nat y" if "0 \<le> y \<and> y < trow s" for y
    using s2(3) that geo assms(2) unfolding down_state_def by (auto split: if_splits)
  show ?thesis
    by (rule exI [of _ "selscroll orig n s2"]) (use r k e rows in simp)
qed

section \<open>New lines, characters and tabs\<close>

lemma tscrollup_fixed:
  assumes "wf_term s" "0 \<le> orig" "tscrollup orig n s = Some s'"
  shows "contract s s'"
  using tscrollup_ok [OF assms(1,2), of n] assms(3) by simp

lemma tnewline_op: "screen_op (tnewline first_col)"
proof
  fix s assume s: "wf_term s"
  obtain s1 where s1: "tscrollup (ttop s) 1 s = Some s1" "contract s s1"
    using tscrollup_ok [OF s] wf_termD(6) [OF s] by blast
  then have "contract s (tmoveto a b s1)" for a b
    by (meson contract_tmoveto contract_trans contractD(1))
  then show "\<exists>s'. tnewline first_col s = Some s' \<and> contract s s'"
    using s1 s by (simp add: tnewline_def Let_def contract_tmoveto)
qed

interpretation newline_op: screen_op "tnewline first_col" for first_col
  by (rule tnewline_op)

text \<open>The characters whose replacement in the VT100 graphics set is shorter than four bytes.\<close>

definition short_gfx :: "byte list \<Rightarrow> glyph \<Rightarrow> bool" where
  "short_gfx c attr \<longleftrightarrow> length (gfx_string c attr) < UTF_SIZ"

definition put_glyph :: "byte list \<Rightarrow> glyph \<Rightarrow> glyph" where
  "put_glyph c attr = attr\<lparr>gc := take UTF_SIZ (gfx_string c attr), gstate := gstate attr OR GLYPH_SET\<rparr>"

lemma tsetchar_eq:
  assumes "wf_geo s" "0 \<le> x" "x < tcol s" "0 \<le> y" "y < trow s" "\<not> short_gfx c attr"
  shows "tsetchar c attr x y s = Some (s\<lparr>tdirty := (tdirty s)[nat y := True],
     tline := (tline s)[nat y := (tline s ! nat y)[nat x := put_glyph c attr]]\<rparr>)"
  using assms wf_geoD [OF assms(1)] wf_geo_row_length [OF assms(1), of y]
  by (simp add: tsetchar_def short_gfx_def put_glyph_def aget_Some aset_Some not_less)

lemma tsetchar_short:
  "short_gfx c attr \<Longrightarrow> tsetchar c attr x y s = None"
  by (auto simp: tsetchar_def short_gfx_def bind_None_iff Let_def not_less split: if_splits)

lemma ok_glyph_put: "\<not> short_gfx c attr \<Longrightarrow> ok_colors attr \<Longrightarrow> ok_glyph (put_glyph c attr)"
  by (simp add: ok_glyph_def put_glyph_def short_gfx_def ok_colors_def)

lemma tsetchar_ok:
  assumes "wf_term s" "0 \<le> x" "x < tcol s" "0 \<le> y" "y < trow s" "\<not> short_gfx c attr" "ok_colors attr"
  shows "\<exists>s'. tsetchar c attr x y s = Some s' \<and> contract s s' \<and> tcur s' = tcur s"
proof -
  note g = wf_termD(1) [OF assms(1)]
  note geo = wf_geoD [OF g]
  have "contract s (s\<lparr>tdirty := (tdirty s)[nat y := True],
     tline := (tline s)[nat y := (tline s ! nat y)[nat x := put_glyph c attr]]\<rparr>)"
    using assms geo wf_geo_row [OF g]
    by (intro contract_update_rows wf_screen_update wf_row_update ok_glyph_put) (auto simp: nth_list_update)
  with tsetchar_eq [OF g assms(2-6)] show ?thesis by simp
qed

text \<open>Nothing is too short when the graphics set is not selected.\<close>

lemma not_short_gfx: "4 \<le> length c \<Longrightarrow> \<not> flag (gmode attr) ATTR_GFX \<Longrightarrow> \<not> short_gfx c attr"
  by (simp add: short_gfx_def gfx_string_def)

lemma tab_forward_bounds:
  "0 \<le> x \<Longrightarrow> x \<le> col \<Longrightarrow> col \<le> int (length tabs) \<Longrightarrow>
   \<exists>r. tab_forward x col tabs = Some r \<and> x \<le> r \<and> r \<le> col \<and> (\<forall>k. x \<le> k \<and> k < r \<longrightarrow> \<not> tabs ! nat k)
     \<and> (r < col \<longrightarrow> tabs ! nat r)"
proof (induction x col tabs rule: tab_forward.induct)
  case (1 x col tabs)
  show ?case
  proof (cases "x < col")
    case True
    then have a: "aget tabs x = Some (tabs ! nat x)" using "1.prems" by (simp add: aget_Some)
    show ?thesis
    proof (cases "tabs ! nat x")
      case t: True
      with a True show ?thesis by (subst tab_forward.simps) auto
    next
      case f: False
      then obtain r where r: "tab_forward (x + 1) col tabs = Some r" "x + 1 \<le> r" "r \<le> col"
        "\<forall>k. x + 1 \<le> k \<and> k < r \<longrightarrow> \<not> tabs ! nat k" "r < col \<longrightarrow> tabs ! nat r"
        using "1.IH" [OF True a] "1.prems" True by auto
      have "\<not> tabs ! nat k" if "x \<le> k" "k < r" for k
        using r(4) f that by (cases "k = x") auto
      with r a f True show ?thesis by (subst tab_forward.simps) auto
    qed
  next
    case False
    with "1.prems" show ?thesis by (subst tab_forward.simps) auto
  qed
qed

lemma tab_backward_bounds:
  "0 \<le> x \<Longrightarrow> x < int (length tabs) \<Longrightarrow>
   \<exists>r. tab_backward x tabs = Some r \<and> 0 \<le> r \<and> r \<le> x \<and> (\<forall>k. r < k \<and> k \<le> x \<longrightarrow> \<not> tabs ! nat k)
     \<and> (0 < r \<longrightarrow> tabs ! nat r)"
proof (induction x tabs rule: tab_backward.induct)
  case (1 x tabs)
  show ?case
  proof (cases "x > 0")
    case True
    then have a: "aget tabs x = Some (tabs ! nat x)" using "1.prems" by (simp add: aget_Some)
    show ?thesis
    proof (cases "tabs ! nat x")
      case t: True
      with a True show ?thesis by (subst tab_backward.simps) auto
    next
      case f: False
      then obtain r where r: "tab_backward (x - 1) tabs = Some r" "0 \<le> r" "r \<le> x - 1"
        "\<forall>k. r < k \<and> k \<le> x - 1 \<longrightarrow> \<not> tabs ! nat k" "0 < r \<longrightarrow> tabs ! nat r"
        using "1.IH" [OF True a] "1.prems" True by auto
      have "\<not> tabs ! nat k" if "r < k" "k \<le> x" for k
        using r(4) f that by (cases "k = x") auto
      with r a f True show ?thesis by (subst tab_backward.simps) auto
    qed
  next
    case False
    with "1.prems" show ?thesis by (subst tab_backward.simps) auto
  qed
qed

lemma tputtab_op: "screen_op (tputtab forward)"
proof
  fix s assume s: "wf_term s"
  note geo = wf_geoD [OF wf_termD(1) [OF s]] and t = wf_termD [OF s]
  obtain r where "tab_forward (cx (tcur s) + 1) (tcol s) (ttabs s) = Some r"
    using tab_forward_bounds [of "cx (tcur s) + 1" "tcol s" "ttabs s"] t geo by auto
  moreover have "\<exists>q. cx (tcur s) \<noteq> 0 \<longrightarrow> tab_backward (cx (tcur s) - 1) (ttabs s) = Some q"
    using tab_backward_bounds [of "cx (tcur s) - 1" "ttabs s"] t geo by auto
  ultimately show "\<exists>s'. tputtab forward s = Some s' \<and> contract s s'"
    using contract_tmoveto [OF s] contract_refl [OF s] by (auto simp: tputtab_def Let_def)
qed

interpretation tab_op: screen_op "tputtab forward" for forward
  by (rule tputtab_op)

end
