(* ===== verification/Rows.thy ===== *)
theory Rows
  imports Scroll
begin

text \<open>
  Insertion and deletion of characters and lines at the cursor (\<open>tdeletechar\<close>,
  \<open>tinsertblank\<close>, \<open>tinsertblankline\<close>, \<open>tdeleteline\<close> of main.c): what every cell shows
  afterwards, for the parameters an escape sequence can give them.
\<close>

section \<open>Insertion and deletion within a row\<close>

lemma nth_blit:
  assumes "blit xs dst src n = Some ys" and "0 \<le> i" and "i < int (length xs)"
  shows "ys ! nat i = (if dst \<le> i \<and> i < dst + n then xs ! nat (i - dst + src) else xs ! nat i)"
proof -
  have b: "0 \<le> dst" "0 \<le> src" "0 \<le> n" "dst + n \<le> int (length xs)" "src + n \<le> int (length xs)"
    and ys: "ys = take (nat dst) xs @ take (nat n) (drop (nat src) xs) @ drop (nat (dst + n)) xs"
    using assms(1) by (auto simp: blit_def split: if_splits)
  have l: "length (take (nat dst) xs) = nat dst" "length (take (nat n) (drop (nat src) xs)) = nat n" using b by auto
  consider "i < dst" | "dst \<le> i" "i < dst + n" | "dst + n \<le> i" by linarith
  then show ?thesis
  proof cases
    case 1
    then show ?thesis using b l assms by (simp add: ys nth_append)
  next
    case 2
    then have "nat i - nat dst < nat n" "\<not> nat i < nat dst" using b by auto
    moreover have "nat src + (nat i - nat dst) = nat (i - dst + src)" using 2 b by simp
    moreover have "drop (nat src) xs ! (nat i - nat dst) = xs ! (nat src + (nat i - nat dst))"
      using b by (intro nth_drop) linarith
    ultimately show ?thesis using 2 b l by (simp add: ys nth_append)
  next
    case 3
    then have "\<not> nat i - nat dst < nat n" "\<not> nat i < nat dst" using b by auto
    moreover have "nat (dst + n) + (nat i - nat dst - nat n) = nat i" using 3 b by linarith
    moreover have "nat (dst + n) \<le> length xs" using b by linarith
    ultimately show ?thesis using 3 b l assms by (simp add: ys nth_append)
  qed
qed

text \<open>A range of one row replaced by cleared cells.\<close>

lemma clear_in_row:
  assumes "wf_term s" "0 \<le> x1" "x1 \<le> x2" "x2 < tcol s" "0 \<le> y" "y < trow s"
  shows "\<exists>s'. tclearregion x1 y x2 y s = Some s' \<and> contract s s' \<and> tcur s' = tcur s
    \<and> (\<forall>i j. 0 \<le> i \<and> i < tcol s \<and> 0 \<le> j \<and> j < trow s \<longrightarrow>
        view s' i j = (if j = y \<and> x1 \<le> i \<and> i \<le> x2 then None else view s i j))"
proof -
  note g = wf_termD(1) [OF assms(1)]
  note geo = wf_geoD [OF g]
  have e: "tclearregion x1 y x2 y s = Some (s\<lparr>tdirty := upd_range y y (\<lambda>_. True) (tdirty s),
      tline := upd_range y y (upd_range x1 x2 blank) (tline s)\<rparr>)"
    using tclearregion_eq [OF g, of x1 x2 y y] assms by simp
  show ?thesis
    using clear_op.op_ok [OF assms(1), of x1 y x2 y] geo wf_geo_row_length [OF g]
    by (auto simp: e view_def cell_def)
qed

lemma clear_dirty_row:
  assumes "wf_term s" "0 \<le> y" "y < trow s" "wf_row (tcol s) l"
  shows "contract s (s\<lparr>tdirty := (tdirty s)[nat y := True], tline := (tline s)[nat y := l]\<rparr>)"
  using assms wf_geoD [OF wf_termD(1) [OF assms(1)]]
  by (intro contract_update_rows wf_screen_update) (auto simp: nth_list_update)

lemma view_row_update:
  assumes "wf_geo s" "0 \<le> y" "y < trow s" "0 \<le> j"
  shows "view (s\<lparr>tdirty := d, tline := (tline s)[nat y := l]\<rparr>) i j = (if j = y then shown (l ! nat i) else view s i j)"
  using assms wf_geoD [OF assms(1)] by (auto simp: view_def cell_def nth_list_update nat_eq_int)

definition wf_arg :: "int \<Rightarrow> bool" where
  "wf_arg n \<longleftrightarrow> 1 \<le> n \<and> n \<le> INT_MAX - MAX_DIM"

lemma wf_arg_i32:
  "wf_arg n \<Longrightarrow> 0 \<le> x \<Longrightarrow> x \<le> MAX_DIM \<Longrightarrow> i32 (x + n) = Some (x + n)"
  "wf_arg n \<Longrightarrow> 0 \<le> x \<Longrightarrow> x \<le> MAX_DIM \<Longrightarrow> 0 \<le> y \<Longrightarrow> y \<le> MAX_DIM \<Longrightarrow> i32 (y - (x + n)) = Some (y - (x + n))"
  by (auto simp: wf_arg_def INT_MAX_def INT_MIN_def MAX_DIM_def)

lemma tdeletechar_view:
  assumes "wf_term s" "wf_arg n"
  shows "\<exists>s'. tdeletechar n s = Some s' \<and> contract s s' \<and> tcur s' = tcur s
    \<and> (\<forall>x y. 0 \<le> x \<and> x < tcol s \<and> 0 \<le> y \<and> y < trow s \<longrightarrow> view s' x y =
        (if y \<noteq> cy (tcur s) \<or> x < cx (tcur s) then view s x y
         else if x + n < tcol s then view s (x + n) y else None))"
proof -
  note g = wf_termD(1) [OF assms(1)] and t = wf_termD [OF assms(1)]
  note geo = wf_geoD [OF g]
  let ?x = "cx (tcur s)" and ?y = "cy (tcur s)"
  let ?d = "(tdirty s)[nat ?y := True]"
  have n: "1 \<le> n" using assms(2) by (simp add: wf_arg_def)
  have i: "i32 (?x + n) = Some (?x + n)" "i32 (tcol s - (?x + n)) = Some (tcol s - (?x + n))"
    using wf_arg_i32 [OF assms(2), of ?x] wf_arg_i32(2) [OF assms(2), of ?x "tcol s"] t geo by auto
  have wr: "wf_row (tcol s) (tline s ! nat ?y)" using wf_geo_row [OF g] t by blast
  note row = wf_rowD(1) [OF wr]
  have d: "aset (tdirty s) ?y True = Some ?d" using t geo by (simp add: aset_Some)
  show ?thesis
  proof (cases "tcol s \<le> ?x + n")
    case True
    let ?s = "s\<lparr>tdirty := ?d, tline := (tline s)[nat ?y := tline s ! nat ?y]\<rparr>"
    have c: "contract s ?s" using clear_dirty_row [OF assms(1) _ _ wr] t by blast
    then obtain s' where s': "tclearregion ?x ?y (tcol s - 1) ?y ?s = Some s'" "contract ?s s'" "tcur s' = tcur s"
      "\<forall>i j. 0 \<le> i \<and> i < tcol s \<and> 0 \<le> j \<and> j < trow s \<longrightarrow>
        view s' i j = (if j = ?y \<and> ?x \<le> i \<and> i \<le> tcol s - 1 then None else view ?s i j)"
      using clear_in_row [of ?s ?x "tcol s - 1" ?y] t by (auto simp: contract_def)
    have "tdeletechar n s = Some s'" using True i d s'(1) by (simp add: tdeletechar_def Let_def)
    moreover have "view ?s i j = view s i j" for i j by (simp add: view_def cell_def)
    ultimately show ?thesis using s' c contract_trans True n by fastforce
  next
    case False
    obtain l where l: "blit (tline s ! nat ?y) ?x (?x + n) (tcol s - (?x + n)) = Some l"
      using False row t n by (simp add: blit_def)
    note nl = nth_blit [OF l]
    have ll: "wf_row (tcol s) l" using wf_row_blit [OF wr l] .
    let ?s = "s\<lparr>tdirty := ?d, tline := (tline s)[nat ?y := l]\<rparr>"
    have c: "contract s ?s" using clear_dirty_row [OF assms(1) _ _ ll] t by blast
    then obtain s' where s': "tclearregion (tcol s - n) ?y (tcol s - 1) ?y ?s = Some s'" "contract ?s s'" "tcur s' = tcur s"
      "\<forall>i j. 0 \<le> i \<and> i < tcol s \<and> 0 \<le> j \<and> j < trow s \<longrightarrow>
        view s' i j = (if j = ?y \<and> tcol s - n \<le> i \<and> i \<le> tcol s - 1 then None else view ?s i j)"
      using clear_in_row [of ?s "tcol s - n" "tcol s - 1" ?y] t False n by (auto simp: contract_def)
    have "tdeletechar n s = Some s'" using False i d s'(1) l t geo by (simp add: tdeletechar_def Let_def aget_Some aset_Some)
    moreover have "view s' x y = (if y \<noteq> ?y \<or> x < ?x then view s x y
         else if x + n < tcol s then view s (x + n) y else None)"
      if "0 \<le> x \<and> x < tcol s \<and> 0 \<le> y \<and> y < trow s" for x y
      using s'(4) that view_row_update [OF g, of ?y y l ?d x] nl [of x] t n False row
      by (auto simp: view_def [of s] cell_def algebra_simps)
    ultimately show ?thesis using s'(2,3) c contract_trans by blast
  qed
qed

lemma tinsertblank_view:
  assumes "wf_term s" "wf_arg n"
  shows "\<exists>s'. tinsertblank n s = Some s' \<and> contract s s' \<and> tcur s' = tcur s
    \<and> (\<forall>x y. 0 \<le> x \<and> x < tcol s \<and> 0 \<le> y \<and> y < trow s \<longrightarrow> view s' x y =
        (if y \<noteq> cy (tcur s) \<or> x < cx (tcur s) then view s x y
         else if cx (tcur s) + n \<le> x then view s (x - n) y else None))"
proof -
  note g = wf_termD(1) [OF assms(1)] and t = wf_termD [OF assms(1)]
  note geo = wf_geoD [OF g]
  let ?x = "cx (tcur s)" and ?y = "cy (tcur s)"
  let ?d = "(tdirty s)[nat ?y := True]"
  have n: "1 \<le> n" using assms(2) by (simp add: wf_arg_def)
  have i: "i32 (?x + n) = Some (?x + n)" "i32 (tcol s - (?x + n)) = Some (tcol s - (?x + n))"
    using wf_arg_i32 [OF assms(2), of ?x] wf_arg_i32(2) [OF assms(2), of ?x "tcol s"] t geo by auto
  have wr: "wf_row (tcol s) (tline s ! nat ?y)" using wf_geo_row [OF g] t by blast
  note row = wf_rowD(1) [OF wr]
  have d: "aset (tdirty s) ?y True = Some ?d" using t geo by (simp add: aset_Some)
  show ?thesis
  proof (cases "tcol s \<le> ?x + n")
    case True
    let ?s = "s\<lparr>tdirty := ?d, tline := (tline s)[nat ?y := tline s ! nat ?y]\<rparr>"
    have c: "contract s ?s" using clear_dirty_row [OF assms(1) _ _ wr] t by blast
    then obtain s' where s': "tclearregion ?x ?y (tcol s - 1) ?y ?s = Some s'" "contract ?s s'" "tcur s' = tcur s"
      "\<forall>i j. 0 \<le> i \<and> i < tcol s \<and> 0 \<le> j \<and> j < trow s \<longrightarrow>
        view s' i j = (if j = ?y \<and> ?x \<le> i \<and> i \<le> tcol s - 1 then None else view ?s i j)"
      using clear_in_row [of ?s ?x "tcol s - 1" ?y] t by (auto simp: contract_def)
    have "tinsertblank n s = Some s'" using True i d s'(1) by (simp add: tinsertblank_def Let_def)
    moreover have "view ?s i j = view s i j" for i j by (simp add: view_def cell_def)
    ultimately show ?thesis using s' c contract_trans True n by fastforce
  next
    case False
    obtain l where l: "blit (tline s ! nat ?y) (?x + n) ?x (tcol s - (?x + n)) = Some l"
      using False row t n by (simp add: blit_def)
    note nl = nth_blit [OF l]
    have ll: "wf_row (tcol s) l" using wf_row_blit [OF wr l] .
    let ?s = "s\<lparr>tdirty := ?d, tline := (tline s)[nat ?y := l]\<rparr>"
    have c: "contract s ?s" using clear_dirty_row [OF assms(1) _ _ ll] t by blast
    then obtain s' where s': "tclearregion ?x ?y (?x + n - 1) ?y ?s = Some s'" "contract ?s s'" "tcur s' = tcur s"
      "\<forall>i j. 0 \<le> i \<and> i < tcol s \<and> 0 \<le> j \<and> j < trow s \<longrightarrow>
        view s' i j = (if j = ?y \<and> ?x \<le> i \<and> i \<le> ?x + n - 1 then None else view ?s i j)"
      using clear_in_row [of ?s ?x "?x + n - 1" ?y] t False n by (auto simp: contract_def)
    have "tinsertblank n s = Some s'" using False i d s'(1) l t geo by (simp add: tinsertblank_def Let_def aget_Some aset_Some)
    moreover have "view s' x y = (if y \<noteq> ?y \<or> x < ?x then view s x y
         else if ?x + n \<le> x then view s (x - n) y else None)"
      if "0 \<le> x \<and> x < tcol s \<and> 0 \<le> y \<and> y < trow s" for x y
      using s'(4) that view_row_update [OF g, of ?y y l ?d x] nl [of x] t n False row
      by (auto simp: view_def [of s] cell_def algebra_simps)
    ultimately show ?thesis using s'(2,3) c contract_trans by blast
  qed
qed

lemma tdeletechar_op: "wf_arg n \<Longrightarrow> screen_op (tdeletechar n)"
  by unfold_locales (use tdeletechar_view in blast)

lemma tinsertblank_op: "wf_arg n \<Longrightarrow> screen_op (tinsertblank n)"
  by unfold_locales (use tinsertblank_view in blast)

lemma tinsertblankline_op: "screen_op (tinsertblankline n)"
  by unfold_locales (use tscrolldown_ok contract_refl wf_termD(4) in \<open>auto simp: tinsertblankline_def\<close>)

interpretation insertline_op: screen_op "tinsertblankline n" for n
  by (rule tinsertblankline_op)

lemma tdeleteline_op: "screen_op (tdeleteline n)"
  by unfold_locales (use tscrollup_ok contract_refl wf_termD(4) in \<open>auto simp: tdeleteline_def\<close>)

interpretation deleteline_op: screen_op "tdeleteline n" for n
  by (rule tdeleteline_op)

end
