(* ===== verification/Draw.thy ===== *)
theory Draw
  imports Rows
begin

text \<open>
  Drawing in simple-terminal (src/package/simple-terminal/src/main.c): the colours of
  \<open>initcolormap\<close>, \<open>xdraws\<close>, \<open>xdrawcursor\<close>, \<open>drawregion\<close> and what they call, and the window events
  that decide whether anything is drawn. The calls of the drawing library are recorded in
  the field \<open>frame\<close> with the integer coordinates the code passes; nothing is recorded while
  \<open>xw.win\<close> is NULL.
\<close>

section \<open>Colours\<close>

text \<open>The table \<open>colormap\<close> of config.h; the entries 16 to 255 are zero.\<close>

definition colormap :: "rgb list" where
  "colormap =
     [(0, 0, 0), (128, 0, 0), (0, 128, 0), (128, 128, 0),
      (0, 0, 128), (128, 0, 128), (0, 128, 128), (192, 192, 192),
      (128, 128, 128), (255, 0, 0), (0, 255, 0), (255, 255, 0),
      (0, 0, 255), (255, 0, 255), (0, 255, 255), (255, 255, 255)]
     @ replicate 240 (0, 0, 0)
     @ [(204, 204, 204), (51, 51, 51)]"

text \<open>One channel of the colour cube, cut to the 8 bits of SDL_Color.\<close>

definition cube_level :: "int \<Rightarrow> byte" where
  "cube_level r = (if r = 0 then 0 else word_of_int (0x3737 + 0x2828 * r))"

text \<open>The three nested loops, on the index \<open>i\<close> and the colours, and the loop over the greys.\<close>

definition initcolormap :: "rgb list option" where
  "initcolormap = do {
     (i, cs) \<leftarrow> for_up 0 5 (\<lambda>r. for_up 0 5 (\<lambda>g. for_up 0 5 (\<lambda>b (i, cs). do {
         cs \<leftarrow> aset cs i (cube_level r, cube_level g, cube_level b);
         Some (i + 1, cs) }))) (16, colormap);
     (i, cs) \<leftarrow> for_up 0 23 (\<lambda>r (i, cs). do {
         let b = word_of_int (0x0808 + 0x0a0a * r);
         cs \<leftarrow> aset cs i (b, b, b);
         Some (i + 1, cs) }) (i, cs);
     Some cs }"

text \<open>The complement of the three bytes, as in reverse video.\<close>

definition rgb_not :: "rgb \<Rightarrow> rgb" where
  "rgb_not c = (case c of (r, g, b) \<Rightarrow> (NOT r, NOT g, NOT b))"

section \<open>Rectangles and strings\<close>

definition emit :: "gfx \<Rightarrow> st \<Rightarrow> st" where
  "emit g s = (if haswin s then s\<lparr>frame := frame s @ [g]\<rparr> else s)"

definition background :: "st \<Rightarrow> rgb option" where
  "background s =
     aget (palette s) (uint (if flag (tmode s) MODE_REVERSE then defaultfg else defaultbg))"

definition sdltermclear :: "int \<Rightarrow> int \<Rightarrow> int \<Rightarrow> int \<Rightarrow> st \<Rightarrow> st option" where
  "sdltermclear col1 row1 col2 row2 s =
     (if \<not> haswin s then Some s
      else do {
        c \<leftarrow> background s;
        Some (emit (FillRect (borderpx + col1 * xw_cw) (borderpx + row1 * xw_ch)
           ((col2 - col1 + 1) * xw_cw) ((row2 - row1 + 1) * xw_ch) c) s) })"

definition xclear :: "int \<Rightarrow> int \<Rightarrow> int \<Rightarrow> int \<Rightarrow> st \<Rightarrow> st option" where
  "xclear x1 y1 x2 y2 s =
     (if \<not> haswin s then Some s
      else do {
        c \<leftarrow> background s;
        Some (emit (FillRect x1 y1 (x2 - x1) (y2 - y1) c) s) })"

text \<open>The index of the foreground colour, brighter when bold.\<close>

definition bold_index :: "glyph \<Rightarrow> int" where
  "bold_index base =
     (let fg = uint (gfg base) in
      if flag (gmode base) ATTR_BOLD then
        if BETWEEN fg 0 7 then fg + 8
        else if BETWEEN fg 16 195 then fg + 36
        else if BETWEEN fg 232 251 then fg + 4
        else fg
      else fg)"

text \<open>The colours \<open>*fg\<close> and \<open>*bg\<close> of \<open>xdraws\<close>, from which the string and its box are drawn.\<close>

definition xdraws_colors :: "glyph \<Rightarrow> st \<Rightarrow> (rgb \<times> rgb) option" where
  "xdraws_colors base s = do {
     let fgi = bold_index base;
     let bgi = uint (gbg base);
     fg \<leftarrow> aget (palette s) fgi;
     bg \<leftarrow> aget (palette s) bgi;
     dfg \<leftarrow> aget (palette s) (uint defaultfg);
     dbg \<leftarrow> aget (palette s) (uint defaultbg);
     let rev = flag (tmode s) MODE_REVERSE;
     let fg = (if rev then if fgi = uint defaultfg then dbg else rgb_not fg else fg);
     let bg = (if rev then if bgi = uint defaultbg then dfg else rgb_not bg else bg);
     Some (if flag (gmode base) ATTR_REVERSE then (bg, fg) else (fg, bg)) }"

text \<open>
  \<open>xdraws(s, base, x, y, charlen, bytelen)\<close>, where \<open>txt\<close> holds the first \<open>bytelen\<close> bytes of
  \<open>s\<close> and \<open>cap\<close> bytes may be written at \<open>s\<close>. The terminator is stored at \<open>s[bytelen]\<close>; the
  string drawn ends at the first zero byte.
\<close>

definition xdraws :: "nat \<Rightarrow> byte list \<Rightarrow> glyph \<Rightarrow> int \<Rightarrow> int \<Rightarrow> int \<Rightarrow> st \<Rightarrow> st option" where
  "xdraws cap txt base x y charlen s = do {
     let winx = borderpx + x * xw_cw;
     let winy = borderpx + y * xw_ch;
     let width = charlen * xw_cw;
     _ \<leftarrow> (if length txt < cap then Some () else None);
     (fg, bg) \<leftarrow> xdraws_colors base s;
     s \<leftarrow> (if x = 0
          then xclear 0 (if y = 0 then 0 else winy) borderpx
                 (if winy + xw_ch + of_bool (y = trow s - 1) \<noteq> 0 then xw_h s else 0) s
          else Some s);
     s \<leftarrow> (if x + charlen \<ge> tcol s - 1
          then xclear (winx + width) (if y = 0 then 0 else winy) (xw_w s)
                 (if y = trow s - 1 then xw_h s else winy + xw_ch) s
          else Some s);
     s \<leftarrow> (if y = 0 then xclear winx 0 (winx + width) borderpx s else Some s);
     s \<leftarrow> (if y = trow s - 1 then xclear winx (winy + xw_ch) (winx + width) (xw_h s) s else Some s);
     let s = emit (FillRect winx winy width xw_ch bg) s;
     let s = emit (DrawString (takeWhile (\<lambda>b. b \<noteq> 0) txt) winx (winy + 1) fg) s;
     Some (if flag (gmode base) ATTR_UNDERLINE then emit (FillRect winx (winy + xw_ch) width 1 fg) s else s) }"

section \<open>The cursor\<close>

text \<open>
  The terminator \<open>xdraws\<close> stores after the \<open>sl\<close> bytes of a character of the screen. A
  character has room for four bytes; after a four-byte character the store falls on the
  member that follows \<open>c\<close> in the structure, \<open>mode\<close>.
\<close>

definition terminate_char :: "nat \<Rightarrow> glyph \<Rightarrow> glyph" where
  "terminate_char sl g = (if sl < UTF_SIZ then g\<lparr>gc := (gc g)[sl := 0]\<rparr> else g\<lparr>gmode := 0\<rparr>)"

definition store_terminator :: "nat \<Rightarrow> int \<Rightarrow> int \<Rightarrow> st \<Rightarrow> st option" where
  "store_terminator sl x y s = do {
     l \<leftarrow> aget (tline s) y;
     g \<leftarrow> aget l x;
     l \<leftarrow> aset l x (terminate_char sl g);
     ls \<leftarrow> aset (tline s) y l;
     Some (s\<lparr>tline := ls\<rparr>) }"

text \<open>The glyph of the new cursor, for the four bytes it shows.\<close>

definition cursor_glyph :: "byte list \<Rightarrow> st \<Rightarrow> glyph" where
  "cursor_glyph c s =
     (let g = \<lparr>gc = c, gmode = ATTR_NULL, gfg = defaultbg, gbg = defaultcs, gstate = 0\<rparr>;
          g = (if \<not> flag (xw_state s) WIN_FOCUSED then g\<lparr>gbg := defaultucs\<rparr> else g)
      in if flag (tmode s) MODE_REVERSE
         then g\<lparr>gmode := gmode g OR ATTR_REVERSE, gfg := defaultcs, gbg := defaultfg\<rparr> else g)"

definition xdrawcursor :: "st \<Rightarrow> st option" where
  "xdrawcursor s = do {
     let s = s\<lparr>oldx := LIMIT (oldx s) 0 (tcol s - 1), oldy := LIMIT (oldy s) 0 (trow s - 1)\<rparr>;
     l \<leftarrow> aget (tline s) (cy (tcur s));
     cur \<leftarrow> aget l (cx (tcur s));
     let c = (if flag (gstate cur) GLYPH_SET then gc cur else [0x20, 0, 0, 0]);
     l \<leftarrow> aget (tline s) (oldy s);
     old \<leftarrow> aget l (oldx s);
     s \<leftarrow> (if flag (gstate old) GLYPH_SET then do {
             lead \<leftarrow> aget (gc old) 0;
             let sl = utf8size lead;
             s1 \<leftarrow> store_terminator sl (oldx s) (oldy s) s;
             xdraws 5 (take sl (gc old)) old (oldx s) (oldy s) 1 s1 }
           else sdltermclear (oldx s) (oldy s) (oldx s) (oldy s) s);
     if \<not> flag (cstate (tcur s)) CURSOR_HIDE then do {
       lead \<leftarrow> aget c 0;
       s \<leftarrow> xdraws 5 (take (utf8size lead) c) (cursor_glyph c s) (cx (tcur s)) (cy (tcur s)) 1 s;
       Some (s\<lparr>oldx := cx (tcur s), oldy := cy (tcur s)\<rparr>) }
     else Some s }"

section \<open>The screen\<close>

definition selected :: "int \<Rightarrow> int \<Rightarrow> st \<Rightarrow> bool" where
  "selected x y s =
     (let e = sel s in
      if seley e = y \<and> selby e = y then BETWEEN x (min (selbx e) (selex e)) (max (selbx e) (selex e))
      else ((selb_y e < y \<and> y < sele_y e) \<or> (y = sele_y e \<and> x \<le> sele_x e))
         \<or> (y = selb_y e \<and> x \<ge> selb_x e \<and> (x \<le> sele_x e \<or> selb_y e \<noteq> sele_y e)))"

definition ATTRCMP :: "glyph \<Rightarrow> glyph \<Rightarrow> bool" where
  "ATTRCMP a b \<longleftrightarrow> gmode a \<noteq> gmode b \<or> gfg a \<noteq> gfg b \<or> gbg a \<noteq> gbg b"

text \<open>
  The local variables of the loop of \<open>drawregion\<close>: \<open>base\<close>, the first \<open>ib\<close> bytes of \<open>buf\<close>,
  \<open>ic\<close> and \<open>ox\<close>.
\<close>

record pen =
  pbase :: glyph
  pbuf :: "byte list"
  pic :: int
  pox :: int

definition flush :: "int \<Rightarrow> pen \<Rightarrow> st \<Rightarrow> st option" where
  "flush y p s = xdraws DRAW_BUF_SIZ (pbuf p) (pbase p) (pox p) y (pic p) s"

definition draw_cell :: "bool \<Rightarrow> int \<Rightarrow> int \<Rightarrow> pen \<times> st \<Rightarrow> (pen \<times> st) option" where
  "draw_cell ena_sel y x ps = (case ps of (p, s) \<Rightarrow> do {
     l \<leftarrow> aget (tline s) y;
     new \<leftarrow> aget l x;
     lead \<leftarrow> aget (gc new) 0;
     let new = (if ena_sel \<and> lead \<noteq> 0 \<and> selected x y s then new\<lparr>gmode := gmode new XOR ATTR_REVERSE\<rparr> else new);
     (p, s) \<leftarrow> (if 0 < length (pbuf p)
                   \<and> (\<not> flag (gstate new) GLYPH_SET \<or> ATTRCMP (pbase p) new
                      \<or> length (pbuf p) \<ge> DRAW_BUF_SIZ - UTF_SIZ)
                then do { s \<leftarrow> flush y p s; Some (p\<lparr>pbuf := [], pic := 0\<rparr>, s) }
                else Some (p, s));
     if flag (gstate new) GLYPH_SET then do {
       let p = (if length (pbuf p) = 0 then p\<lparr>pox := x, pbase := new\<rparr> else p);
       let sl = utf8size lead;
       if length (pbuf p) + sl \<le> DRAW_BUF_SIZ
       then Some (p\<lparr>pbuf := pbuf p @ take sl (gc new), pic := pic p + 1\<rparr>, s)
       else None }
     else Some (p, s) })"

definition draw_row :: "bool \<Rightarrow> int \<Rightarrow> int \<Rightarrow> int \<Rightarrow> st \<Rightarrow> st option" where
  "draw_row ena_sel x1 x2 y s = do {
     dirty \<leftarrow> aget (tdirty s) y;
     if \<not> dirty then Some s
     else do {
       s \<leftarrow> sdltermclear 0 y (tcol s) y s;
       d \<leftarrow> aset (tdirty s) y False;
       let s = s\<lparr>tdirty := d\<rparr>;
       l \<leftarrow> aget (tline s) y;
       base \<leftarrow> aget l 0;
       (p, s) \<leftarrow> for_up x1 (x2 - 1) (draw_cell ena_sel y) (\<lparr>pbase = base, pbuf = [], pic = 0, pox = 0\<rparr>, s);
       if 0 < length (pbuf p) then flush y p s else Some s } }"

definition drawregion :: "int \<Rightarrow> int \<Rightarrow> int \<Rightarrow> int \<Rightarrow> st \<Rightarrow> st option" where
  "drawregion x1 y1 x2 y2 s =
     (let alt = flag (tmode s) MODE_ALTSCREEN;
          ena_sel = (selbx (sel s) \<noteq> -1);
          ena_sel = (if (selalt (sel s) \<and> \<not> alt) \<or> (\<not> selalt (sel s) \<and> alt) then False else ena_sel)
      in if \<not> flag (xw_state s) WIN_VISIBLE then Some s
         else do {
           s \<leftarrow> for_up y1 (y2 - 1) (draw_row ena_sel x1 x2) s;
           xdrawcursor s })"

text \<open>\<open>xflip\<close>, as the presentation of the drawn surface.\<close>

definition xflip :: "st \<Rightarrow> st" where
  "xflip s = emit Flip s"

definition draw :: "st \<Rightarrow> st option" where
  "draw s = do { s \<leftarrow> drawregion 0 0 (tcol s) (trow s) s; Some (xflip s) }"

definition redraw :: "st \<Rightarrow> st option" where
  "redraw s = do { s \<leftarrow> tfulldirt s; draw s }"

section \<open>Window events\<close>

definition expose :: "st \<Rightarrow> st" where
  "expose s = s\<lparr>xw_state := xw_state s OR (WIN_VISIBLE OR WIN_REDRAW)\<rparr>"

definition visibility :: "bool \<Rightarrow> st \<Rightarrow> st" where
  "visibility gain s =
     (if \<not> gain then s\<lparr>xw_state := xw_state s AND NOT WIN_VISIBLE\<rparr>
      else if \<not> flag (xw_state s) WIN_VISIBLE
      then s\<lparr>xw_state := xw_state s OR (WIN_VISIBLE OR WIN_REDRAW)\<rparr>
      else s)"

definition unmap :: "st \<Rightarrow> st" where
  "unmap s = s\<lparr>xw_state := xw_state s AND NOT WIN_VISIBLE\<rparr>"

definition focus :: "bool \<Rightarrow> st \<Rightarrow> st" where
  "focus gain s =
     (if gain then s\<lparr>xw_state := xw_state s OR WIN_FOCUSED\<rparr>
      else s\<lparr>xw_state := xw_state s AND NOT WIN_FOCUSED\<rparr>)"

text \<open>
  \<open>activeEvent\<close> switches on \<open>ev->active.type\<close>, with the SDL constants SDL_APPACTIVE (4),
  SDL_APPMOUSEFOCUS (1) and SDL_APPINPUTFOCUS (2) as cases.
\<close>

definition activeEvent :: "nat \<Rightarrow> bool \<Rightarrow> st \<Rightarrow> st" where
  "activeEvent etype gain s =
     (if etype = 4 then (let s = visibility gain s in if \<not> gain then unmap s else s)
      else if etype = 1 \<or> etype = 2 then focus gain s
      else s)"

end
