(* ===== verification/Draw_Laws.thy ===== *)
theory Draw_Laws
  imports Draw
begin

text \<open>
  Drawing never leaves the surface's colours, the screen or the text buffer of \<open>drawregion\<close>:
  each function is shown to be defined on every well-formed state and to change the record
  of drawing calls only, except that \<open>drawregion\<close> clears the dirty marks and \<open>xdrawcursor\<close>
  moves the old cursor and terminates the character it repaints.
\<close>

section \<open>Operations that keep the parser's state\<close>

text \<open>
  What no operation called from the escape-sequence interpreter changes. The CSI buffer is
  not part of it: its handler stores the defaults of missing parameters there, and the
  buffer is cleared before the next sequence.
\<close>

definition core :: "st \<Rightarrow> _" where
  "core s = (trow s, tcol s, tesc s, str s, iofd s, iolog s,
     (haswin s, xw_w s, xw_h s, xw_state s, palette s))"

definition keeps :: "st \<Rightarrow> st \<Rightarrow> bool" where
  "keeps s s' \<longleftrightarrow> wf_term s' \<and> core s' = core s"

lemma keeps_trans: "keeps s s1 \<Longrightarrow> keeps s1 s2 \<Longrightarrow> keeps s s2"
  by (simp add: keeps_def)

lemma keeps_refl: "wf_term s \<Longrightarrow> keeps s s"
  by (simp add: keeps_def)

lemma contract_keeps: "contract s s' \<Longrightarrow> keeps s s'"
  by (simp add: contract_def keeps_def rest_def core_def)

lemma core_update [simp]:
  "core (s\<lparr>tline := a\<rparr>) = core s" "core (s\<lparr>talt := a\<rparr>) = core s" "core (s\<lparr>tdirty := d\<rparr>) = core s"
  "core (s\<lparr>tcur := c\<rparr>) = core s" "core (s\<lparr>ttop := i\<rparr>) = core s" "core (s\<lparr>tbot := i\<rparr>) = core s"
  "core (s\<lparr>tmode := m\<rparr>) = core s" "core (s\<lparr>ttabs := t\<rparr>) = core s" "core (s\<lparr>sel := e\<rparr>) = core s"
  "core (s\<lparr>saved := c\<rparr>) = core s" "core (s\<lparr>frame := f\<rparr>) = core s" "core (s\<lparr>oldx := i\<rparr>) = core s"
  "core (s\<lparr>oldy := i\<rparr>) = core s" "core (s\<lparr>csi := k\<rparr>) = core s" "core (s\<lparr>ttyout := o'\<rparr>) = core s" "core (s\<lparr>title := t'\<rparr>) = core s"
  by (simp_all add: core_def)

lemma wf_term_other [simp]:
  "wf_term (s\<lparr>frame := f\<rparr>) = wf_term s" "wf_term (s\<lparr>oldx := i\<rparr>) = wf_term s"
  "wf_term (s\<lparr>oldy := i\<rparr>) = wf_term s" "wf_term (s\<lparr>ttyout := o'\<rparr>) = wf_term s"
  "wf_term (s\<lparr>title := t'\<rparr>) = wf_term s" "wf_term (s\<lparr>tmode := m\<rparr>) = wf_term s"
  "wf_term (s\<lparr>sel := e\<rparr>) = wf_term s" "wf_term (s\<lparr>csi := k\<rparr>) = wf_term s"
  "wf_term (s\<lparr>str := e'\<rparr>) = wf_term s" "wf_term (s\<lparr>tesc := n\<rparr>) = wf_term s"
  "wf_term (s\<lparr>iolog := l\<rparr>) = wf_term s" "wf_term (s\<lparr>iofd := j\<rparr>) = wf_term s"
  "wf_term (s\<lparr>xw_state := w\<rparr>) = wf_term s"
  by (simp_all add: wf_term_def wf_geo_def wf_cursor_def wf_scroll_def)

text \<open>
  The interface the interpreter of escape sequences relies on: defined on every well-formed
  state, with the parser's state untouched. Every screen operation is one.
\<close>

locale safe_op =
  fixes oper :: "st \<Rightarrow> st option"
  assumes safe: "wf_term s \<Longrightarrow> \<exists>s'. oper s = Some s' \<and> keeps s s'"
begin

lemma safe_result: "wf_term s \<Longrightarrow> oper s = Some s' \<Longrightarrow> keeps s s'"
  using safe by fastforce

end

sublocale screen_op \<subseteq> safely: safe_op oper
  by unfold_locales (use op_ok contract_keeps in blast)

lemma screen_op_safe: "screen_op f \<Longrightarrow> safe_op f"
  by (simp add: safe_op_def screen_op_def) (meson contract_keeps)

lemma safe_op_Some: "(\<And>s. wf_term s \<Longrightarrow> keeps s (f s)) \<Longrightarrow> safe_op (\<lambda>s. Some (f s))"
  by unfold_locales simp

lemma safe_op_id: "safe_op Some"
  by unfold_locales (simp add: keeps_refl)

lemma safe_op_seq:
  assumes "safe_op f" and "safe_op g"
  shows "safe_op (\<lambda>s. Option.bind (f s) g)"
proof
  fix s assume "wf_term s"
  then obtain s1 where s1: "f s = Some s1" "keeps s s1" using safe_op.safe [OF assms(1)] by blast
  then obtain s2 where "g s1 = Some s2" "keeps s1 s2"
    using safe_op.safe [OF assms(2)] keeps_def by blast
  with s1 keeps_trans show "\<exists>s'. Option.bind (f s) g = Some s' \<and> keeps s s'"
    by (metis Option.bind.bind_lunit)
qed

lemma safe_op_dep:
  assumes "\<And>s. wf_term s \<Longrightarrow> \<exists>f. oper s = f s \<and> safe_op f"
  shows "safe_op oper"
  by (rule safe_op.intro) (metis assms safe_op.safe)

lemma safe_op_for_up: 
  assumes "\<And>i. lo \<le> i \<Longrightarrow> i \<le> hi \<Longrightarrow> safe_op (body i)"
  shows "safe_op (for_up lo hi body)"
proof
  fix s assume s: "wf_term s"
  show "\<exists>s'. for_up lo hi body s = Some s' \<and> keeps s s'"
  proof (rule for_up_inv)
    show "keeps s s" using s by (rule keeps_refl)
    fix i s1 assume "lo \<le> i" "i \<le> hi" "keeps s s1"
    then show "\<exists>s'. body i s1 = Some s' \<and> keeps s s'"
      using safe_op.safe [OF assms] keeps_trans by (metis keeps_def)
  qed
qed

section \<open>Drawing calls\<close>

definition only_frame :: "st \<Rightarrow> st \<Rightarrow> bool" where
  "only_frame s s' \<longleftrightarrow> s' = s\<lparr>frame := frame s'\<rparr>"

lemma only_frame_refl [simp]: "only_frame s s"
  by (simp add: only_frame_def)

lemma only_frame_emit [simp]: "only_frame s (emit g s)"
  by (simp add: only_frame_def emit_def)

lemma only_frame_trans: "only_frame s s1 \<Longrightarrow> only_frame s1 s2 \<Longrightarrow> only_frame s s2"
  by (cases s; cases s1; cases s2) (simp add: only_frame_def)

lemma only_frameD:
  assumes "only_frame s s'"
  shows "tline s' = tline s" "tdirty s' = tdirty s" "trow s' = trow s" "tcol s' = tcol s" "tcur s' = tcur s"
    "palette s' = palette s" "xw_state s' = xw_state s" "tmode s' = tmode s" "sel s' = sel s"
    "oldx s' = oldx s" "oldy s' = oldy s" "wf_term s' = wf_term s" "core s' = core s"
proof -
  have e: "s' = s\<lparr>frame := frame s'\<rparr>" using assms by (simp add: only_frame_def)
  show "tline s' = tline s" "tdirty s' = tdirty s" "trow s' = trow s" "tcol s' = tcol s" "tcur s' = tcur s"
    "palette s' = palette s" "xw_state s' = xw_state s" "tmode s' = tmode s" "sel s' = sel s"
    "oldx s' = oldx s" "oldy s' = oldy s" "wf_term s' = wf_term s" "core s' = core s"
    by (subst e, simp)+
qed

lemma background_Some: "length (palette s) = 258 \<Longrightarrow> \<exists>c. background s = Some c"
  by (simp add: background_def aget_def del: split_paired_Ex)

lemma xclear_ok: "length (palette s) = 258 \<Longrightarrow> \<exists>s'. xclear x1 y1 x2 y2 s = Some s' \<and> only_frame s s'"
  using background_Some [of s] by (auto simp: xclear_def simp del: split_paired_Ex)

lemma sdltermclear_ok:
  "length (palette s) = 258 \<Longrightarrow> \<exists>s'. sdltermclear x1 y1 x2 y2 s = Some s' \<and> only_frame s s'"
  using background_Some [of s] by (auto simp: sdltermclear_def simp del: split_paired_Ex)

lemma ok_colors_uint: "ok_colors g \<Longrightarrow> uint (gfg g) < 258 \<and> uint (gbg g) < 258"
  using of_nat_less_iff [of "unat (gfg g)" 258, where 'a = int] of_nat_less_iff [of "unat (gbg g)" 258, where 'a = int]
  by (simp add: ok_colors_def)

lemma bold_index_range: "ok_colors g \<Longrightarrow> 0 \<le> bold_index g \<and> bold_index g < 258"
  using ok_colors_uint [of g] by (auto simp: bold_index_def BETWEEN_def Let_def)

lemma xdraws_colors_Some:
  "length (palette s) = 258 \<Longrightarrow> ok_colors g \<Longrightarrow> \<exists>c. xdraws_colors g s = Some c"
  using bold_index_range [of g] ok_colors_uint [of g] by (simp add: xdraws_colors_def aget_Some Let_def del: split_paired_Ex)

lemma xdraws_ok:
  assumes "length (palette s) = 258" "length txt < cap" "ok_colors base"
  shows "\<exists>s'. xdraws cap txt base x y n s = Some s' \<and> only_frame s s'"
proof -
  have step: "\<exists>s2. (if b then xclear x1 y1 x2 y2 s1 else Some s1) = Some s2 \<and> only_frame s s2"
    if "only_frame s s1" for b x1 y1 x2 y2 s1
    using xclear_ok [of s1 x1 y1 x2 y2] only_frameD(6) [OF that] assms(1) that only_frame_trans by auto
  obtain fg bg where c: "xdraws_colors base s = Some (fg, bg)"
    using xdraws_colors_Some [OF assms(1,3)] by (metis surj_pair)
  let ?winx = "2 + x * 6" and ?winy = "2 + y * 8" and ?w = "n * 6"
  obtain s1 where s1: "(if x = 0 then xclear 0 (if y = 0 then 0 else ?winy) 2
      (if ?winy + 8 + of_bool (y = trow s - 1) \<noteq> 0 then xw_h s else 0) s else Some s) = Some s1" "only_frame s s1"
    using step [OF only_frame_refl] by blast
  obtain s2 where s2: "(if x + n \<ge> tcol s1 - 1 then xclear (?winx + ?w) (if y = 0 then 0 else ?winy) (xw_w s1)
                 (if y = trow s1 - 1 then xw_h s1 else ?winy + 8) s1 else Some s1) = Some s2" "only_frame s s2"
    using step [OF s1(2)] by blast
  obtain s3 where s3: "(if y = 0 then xclear ?winx 0 (?winx + ?w) 2 s2 else Some s2) = Some s3" "only_frame s s3"
    using step [OF s2(2)] by blast
  obtain s4 where s4: "(if y = trow s3 - 1 then xclear ?winx (?winy + 8) (?winx + ?w) (xw_h s3) s3 else Some s3) = Some s4" "only_frame s s4"
    using step [OF s3(2)] by blast
  have e: "only_frame s (emit g3 (emit g2 (emit g1 s4)))" "only_frame s (emit g2 (emit g1 s4))" for g1 g2 g3
    using s4(2) only_frame_trans only_frame_emit by blast+
  show ?thesis
    using assms(2) c s1(1) s2(1) s3(1) s4(1) e by (auto simp: xdraws_def Let_def)
qed

section \<open>Rows\<close>

lemma utf8size_bounds: "1 \<le> utf8size c \<and> utf8size c \<le> 4"
  by (simp add: utf8size_def)

text \<open>The loop invariant of \<open>drawregion\<close>: the text collected fits \<open>buf\<close> with its terminator.\<close>

definition pen_ok :: "pen \<Rightarrow> bool" where
  "pen_ok p \<longleftrightarrow> length (pbuf p) < DRAW_BUF_SIZ \<and> (pbuf p \<noteq> [] \<longrightarrow> ok_colors (pbase p))"

lemma flush_ok:
  "length (palette s) = 258 \<Longrightarrow> pen_ok p \<Longrightarrow> pbuf p \<noteq> [] \<Longrightarrow> \<exists>s'. flush y p s = Some s' \<and> only_frame s s'"
  unfolding flush_def by (rule xdraws_ok) (auto simp: pen_ok_def)

lemma draw_cell_ok:
  assumes "wf_term s" "0 \<le> x" "x < tcol s" "0 \<le> y" "y < trow s" "pen_ok p"
  shows "\<exists>p' s'. draw_cell ena y x (p, s) = Some (p', s') \<and> pen_ok p' \<and> only_frame s s'"
proof -
  note g = wf_termD(1) [OF assms(1)] and pal = wf_termD(11) [OF assms(1)]
  let ?l = "tline s ! nat y"
  let ?g = "?l ! nat x"
  have row: "wf_row (tcol s) ?l" using wf_geo_row [OF g] assms by blast
  have gl: "ok_glyph ?g" using wf_rowD(2) [OF row assms(2,3)] .
  then have len: "length (gc ?g) = 4" by (simp add: ok_glyph_def)
  define lead where "lead = gc ?g ! 0"
  have l: "aget (tline s) y = Some ?l" "aget ?l x = Some ?g" "aget (gc ?g) 0 = Some lead"
    using assms wf_geoD(7) [OF g] wf_rowD(1) [OF row] len by (simp_all add: aget_Some lead_def)
  define new where "new = (if ena \<and> lead \<noteq> 0 \<and> selected x y s then ?g\<lparr>gmode := gmode ?g XOR 1\<rparr> else ?g)"
  have new: "length (gc new) = 4" "flag (gstate new) 1 \<Longrightarrow> ok_colors new"
    using gl by (auto simp: new_def ok_glyph_def ok_colors_def)
  define full where "full \<longleftrightarrow> 0 < length (pbuf p) \<and> (\<not> flag (gstate new) GLYPH_SET \<or> ATTRCMP (pbase p) new
                      \<or> length (pbuf p) \<ge> DRAW_BUF_SIZ - UTF_SIZ)"
  obtain p1 s1 where f: "(if full then do { s \<leftarrow> flush y p s; Some (p\<lparr>pbuf := [], pic := 0\<rparr>, s) }
                else Some (p, s)) = Some (p1, s1)" "only_frame s s1" "pen_ok p1" "length (pbuf p1) < DRAW_BUF_SIZ - UTF_SIZ \<or> \<not> flag (gstate new) GLYPH_SET"
  proof (cases full)
    case True
    then have "pbuf p \<noteq> []" by (auto simp: full_def)
    from flush_ok [OF pal assms(6) this] obtain s1 where "flush y p s = Some s1" "only_frame s s1" by blast
    with True show ?thesis using that [of "p\<lparr>pbuf := [], pic := 0\<rparr>" s1] by (simp add: pen_ok_def)
  next
    case False
    then show ?thesis using that [of p s] assms(6) by (auto simp: full_def pen_ok_def)
  qed
  have e: "draw_cell ena y x (p, s) = (if flag (gstate new) GLYPH_SET then
       (let p = (if length (pbuf p1) = 0 then p1\<lparr>pox := x, pbase := new\<rparr> else p1)
       in if length (pbuf p) + utf8size lead \<le> DRAW_BUF_SIZ
       then Some (p\<lparr>pbuf := pbuf p @ take (utf8size lead) (gc new), pic := pic p + 1\<rparr>, s1)
       else None)
     else Some (p1, s1))"
    unfolding draw_cell_def prod.case l Option.bind.bind_lunit Let_def
    unfolding new_def [symmetric] full_def [symmetric] f(1) Option.bind.bind_lunit prod.case ..
  show ?thesis
    using f(2-4) new utf8size_bounds [of lead] unfolding e by (auto simp: pen_ok_def Let_def)
qed

lemma draw_row_ok:
  assumes "wf_term s" "0 \<le> x1" "x2 \<le> tcol s" "0 \<le> y" "y < trow s"
  shows "\<exists>s'. draw_row ena x1 x2 y s = Some s' \<and> s' = s\<lparr>tdirty := (tdirty s)[nat y := False], frame := frame s'\<rparr>"
proof (cases "tdirty s ! nat y")
  case False
  then have "(tdirty s)[nat y := False] = tdirty s" by (metis list_update_id)
  moreover have "aget (tdirty s) y = Some False"
    using assms wf_geoD(9) [OF wf_termD(1) [OF assms(1)]] False by (simp add: aget_Some)
  ultimately show ?thesis by (simp add: draw_row_def)
next
  case True
  note g = wf_termD(1) [OF assms(1)] and pal = wf_termD(11) [OF assms(1)]
  note geo = wf_geoD [OF g]
  have row: "wf_row (tcol s) (tline s ! nat y)" using wf_geo_row [OF g] assms by blast
  obtain s1 where s1: "sdltermclear 0 y (tcol s) y s = Some s1" "only_frame s s1"
    using sdltermclear_ok [OF pal] by blast
  let ?s = "s1\<lparr>tdirty := (tdirty s)[nat y := False]\<rparr>"
  have w: "wf_term ?s" using assms(1) only_frameD [OF s1(2)] geo
    by (simp add: wf_term_def wf_geo_def wf_cursor_def wf_scroll_def only_frame_def)
  let ?p = "\<lparr>pbase = tline s ! nat y ! 0, pbuf = [], pic = 0, pox = 0\<rparr>"
  let ?P = "\<lambda>_ (p, s'). pen_ok p \<and> only_frame ?s s'"
  have "\<exists>ps. for_up x1 (x2 - 1) (draw_cell ena y) (?p, ?s) = Some ps \<and> ?P (max x1 (x2 - 1 + 1)) ps"
  proof (rule for_up_inv)
    show "?P x1 (?p, ?s)" by (simp add: pen_ok_def)
    fix i ps assume i: "x1 \<le> i" "i \<le> x2 - 1" and P: "?P i ps"
    obtain p' s' where ps: "ps = (p', s')" by (cases ps)
    from P ps have "wf_term s'" "tcol s' = tcol s" "trow s' = trow s"
      using only_frameD [of ?s s'] only_frameD [OF s1(2)] w by auto
    then obtain p2 s2 where "draw_cell ena y i (p', s') = Some (p2, s2)" "pen_ok p2" "only_frame s' s2"
      using draw_cell_ok [of s' i y p' ena] i assms P ps by auto
    then show "\<exists>ps'. draw_cell ena y i ps = Some ps' \<and> ?P (i + 1) ps'"
      using ps P only_frame_trans by auto
  qed
  then obtain p2 s2 where l: "for_up x1 (x2 - 1) (draw_cell ena y) (?p, ?s) = Some (p2, s2)"
    "pen_ok p2" "only_frame ?s s2" by auto
  have pal2: "length (palette s2) = 258"
    using only_frameD(6) [OF l(3)] only_frameD(6) [OF s1(2)] pal by simp
  obtain s3 where s3: "(if 0 < length (pbuf p2) then flush y p2 s2 else Some s2) = Some s3" "only_frame ?s s3"
  proof (cases "pbuf p2 = []")
    case True
    with l show ?thesis using that by simp
  next
    case False
    from flush_ok [OF pal2 l(2) False] obtain s3 where "flush y p2 s2 = Some s3" "only_frame s2 s3" by blast
    with l False show ?thesis using that only_frame_trans by simp
  qed
  have b: "aget (tline s) y = Some (tline s ! nat y)" "aget (tline s ! nat y) 0 = Some (tline s ! nat y ! 0)"
    "aget (tdirty s) y = Some True" "aset (tdirty s) y False = Some ((tdirty s)[nat y := False])"
    using assms geo True wf_rowD(1) [OF row] by (simp_all add: aget_Some aset_Some)
  have "draw_row ena x1 x2 y s = Some s3"
    unfolding draw_row_def using b s1 l(1) s3(1) only_frameD [OF s1(2)] by (simp add: Let_def)
  moreover have "s3 = s\<lparr>tdirty := (tdirty s)[nat y := False], frame := frame s3\<rparr>"
  proof -
    have "s3 = ?s\<lparr>frame := frame s3\<rparr>" using s3(2) by (simp add: only_frame_def)
    also have "\<dots> = s\<lparr>frame := frame s1, tdirty := (tdirty s)[nat y := False], frame := frame s3\<rparr>"
      using s1(2) unfolding only_frame_def by (cases s; cases s1) simp
    finally show ?thesis by simp
  qed
  ultimately show ?thesis by blast
qed


section \<open>The cursor and the whole screen\<close>

lemma ok_glyph_terminate: "ok_glyph g \<Longrightarrow> ok_glyph (terminate_char sl g)"
  by (simp add: ok_glyph_def terminate_char_def ok_colors_def)

lemma store_terminator_ok:
  assumes "wf_term s" "0 \<le> x" "x < tcol s" "0 \<le> y" "y < trow s"
  shows "\<exists>s'. store_terminator sl x y s = Some s' \<and> wf_term s'
    \<and> s' = s\<lparr>tline := (tline s)[nat y := (tline s ! nat y)[nat x := terminate_char sl (cell s x y)]]\<rparr>"
proof -
  note g = wf_termD(1) [OF assms(1)]
  have row: "wf_row (tcol s) (tline s ! nat y)" using wf_geo_row [OF g] assms by blast
  then have "wf_row (tcol s) ((tline s ! nat y)[nat x := terminate_char sl (cell s x y)])"
    using wf_rowD(2) [OF row assms(2,3)] by (intro wf_row_update ok_glyph_terminate) (simp_all add: cell_def)
  then have "wf_screen (trow s) (tcol s) ((tline s)[nat y := (tline s ! nat y)[nat x := terminate_char sl (cell s x y)]])"
    using wf_geoD(5) [OF g] wf_screen_update by blast
  then have "wf_term (s\<lparr>tline := (tline s)[nat y := (tline s ! nat y)[nat x := terminate_char sl (cell s x y)]]\<rparr>)"
    using assms(1) by (simp add: wf_term_def wf_geo_def wf_cursor_def wf_scroll_def)
  then show ?thesis
    using assms wf_geoD(7) [OF g] wf_rowD(1) [OF row]
    by (simp add: store_terminator_def aget_Some aset_Some cell_def)
qed

lemma cursor_glyph_colors: "ok_colors (cursor_glyph c s)"
  by (simp add: cursor_glyph_def ok_colors_def Let_def)

lemma xdrawcursor_ok:
  assumes "wf_term s"
  shows "\<exists>s'. xdrawcursor s = Some s' \<and> keeps s s' \<and> tdirty s' = tdirty s"
proof -
  define s0 where "s0 = s\<lparr>oldx := LIMIT (oldx s) 0 (tcol s - 1), oldy := LIMIT (oldy s) 0 (trow s - 1)\<rparr>"
  have w0: "wf_term s0" "core s0 = core s" "tdirty s0 = tdirty s" using assms by (simp_all add: s0_def)
  note g0 = wf_termD(1) [OF w0(1)] and t = wf_termD [OF w0(1)]
  have b: "0 \<le> oldx s0" "oldx s0 < tcol s0" "0 \<le> oldy s0" "oldy s0 < trow s0"
    using LIMIT_row [OF assms] by (simp_all add: s0_def)
  let ?cur = "cell s0 (cx (tcur s0)) (cy (tcur s0))" and ?old = "cell s0 (oldx s0) (oldy s0)"
  have get: "aget (tline s0) y = Some (tline s0 ! nat y)" "aget (tline s0 ! nat y) x = Some (cell s0 x y)"
    "ok_glyph (cell s0 x y)" if "0 \<le> x" "x < tcol s0" "0 \<le> y" "y < trow s0" for x y
    using that wf_geoD(7) [OF g0] wf_geo_row [OF g0, of y] wf_rowD [of "tcol s0" "tline s0 ! nat y"]
    by (auto simp: aget_Some cell_def)
  define c where "c = (if flag (gstate ?cur) GLYPH_SET then gc ?cur else [0x20, 0, 0, 0])"
  have c: "length c = 4" using get(3) [of "cx (tcur s0)" "cy (tcur s0)"] t by (simp add: c_def ok_glyph_def)
  obtain s1 where s1: "(if flag (gstate ?old) GLYPH_SET then do {
             lead \<leftarrow> aget (gc ?old) 0;
             let sl = utf8size lead;
             s1 \<leftarrow> store_terminator sl (oldx s0) (oldy s0) s0;
             xdraws 5 (take sl (gc ?old)) ?old (oldx s0) (oldy s0) 1 s1 }
           else sdltermclear (oldx s0) (oldy s0) (oldx s0) (oldy s0) s0) = Some s1" "keeps s0 s1" "tdirty s1 = tdirty s0"
  proof (cases "flag (gstate ?old) GLYPH_SET")
    case True
    let ?lead = "gc ?old ! 0"
    have o: "length (gc ?old) = 4" "ok_colors ?old" using get(3) [OF b] True by (auto simp: ok_glyph_def)
    obtain s2 where s2: "store_terminator (utf8size ?lead) (oldx s0) (oldy s0) s0 = Some s2" "wf_term s2"
      "core s2 = core s0" "tdirty s2 = tdirty s0"
      using store_terminator_ok [OF w0(1) b, of "utf8size ?lead"] by auto
    have "length (take (utf8size ?lead) (gc ?old)) < 5" using o(1) by (simp add: min_def)
    then obtain s3 where s3: "xdraws 5 (take (utf8size ?lead) (gc ?old)) ?old (oldx s0) (oldy s0) 1 s2 = Some s3" "only_frame s2 s3"
      using xdraws_ok [OF wf_termD(11) [OF s2(2)] _ o(2)] by blast
    have "aget (gc ?old) 0 = Some ?lead" using o(1) by (simp add: aget_def)
    with True s2 s3 show ?thesis using that [of s3] only_frameD [OF s3(2)] by (simp add: keeps_def Let_def)
  next
    case False
    with sdltermclear_ok [OF t(11)] obtain s2 where "sdltermclear (oldx s0) (oldy s0) (oldx s0) (oldy s0) s0 = Some s2" "only_frame s0 s2"
      by blast
    with False w0 show ?thesis using that [of s2] only_frameD [of s0 s2] by (simp add: keeps_def)
  qed
  let ?lead = "c ! 0"
  have "length (take (utf8size ?lead) c) < 5" using c by (simp add: min_def)
  then obtain s2 where s2: "xdraws 5 (take (utf8size ?lead) c) (cursor_glyph c s1) (cx (tcur s1)) (cy (tcur s1)) 1 s1 = Some s2" "only_frame s1 s2"
    using xdraws_ok [OF wf_termD(11) _ cursor_glyph_colors] s1(2) unfolding keeps_def by blast
  have a: "aget c 0 = Some ?lead" using c by (simp add: aget_def)
  have e: "xdrawcursor s = (if \<not> flag (cstate (tcur s1)) CURSOR_HIDE then do {
       lead \<leftarrow> aget c 0;
       s \<leftarrow> xdraws 5 (take (utf8size lead) c) (cursor_glyph c s1) (cx (tcur s1)) (cy (tcur s1)) 1 s1;
       Some (s\<lparr>oldx := cx (tcur s), oldy := cy (tcur s)\<rparr>) } else Some s1)"
    unfolding xdrawcursor_def Let_def s0_def [symmetric]
    unfolding get(1,2) [OF b] get(1,2) [OF t(2-5)] Option.bind.bind_lunit c_def [symmetric]
      s1(1) [unfolded Let_def] ..
  show ?thesis
    using s1 s2 w0 a only_frameD [OF s2(2)] unfolding e by (auto simp: keeps_def)
qed

text \<open>
  \<open>drawregion\<close> over the whole screen draws every dirty row, and no row is dirty afterwards,
  unless the window is not visible: then nothing changes.
\<close>

lemma drawregion_ok:
  assumes "wf_term s"
  shows "\<exists>s'. drawregion 0 0 (tcol s) (trow s) s = Some s' \<and> keeps s s'
    \<and> (if flag (xw_state s) WIN_VISIBLE then tdirty s' = replicate (nat (trow s)) False else s' = s)"
proof (cases "flag (xw_state s) WIN_VISIBLE")
  case False
  then show ?thesis using assms by (simp add: drawregion_def Let_def keeps_refl)
next
  case True
  note g = wf_termD(1) [OF assms] note geo = wf_geoD [OF g]
  let ?P = "\<lambda>y s1. keeps s s1 \<and> (\<forall>k. 0 \<le> k \<and> k < y \<longrightarrow> \<not> tdirty s1 ! nat k)"
  have loop: "\<exists>s1. for_up 0 (trow s - 1) (draw_row ena 0 (tcol s)) s = Some s1 \<and> ?P (max 0 (trow s - 1 + 1)) s1" for ena
  proof (rule for_up_inv)
    show "?P 0 s" using assms keeps_refl by auto
    fix y s1 assume y: "0 \<le> y" "y \<le> trow s - 1" and P: "?P y s1"
    have d: "wf_term s1" "trow s1 = trow s" "tcol s1 = tcol s" using P by (auto simp: keeps_def core_def)
    obtain s2 where s2: "draw_row ena 0 (tcol s) y s1 = Some s2"
      "s2 = s1\<lparr>tdirty := (tdirty s1)[nat y := False], frame := frame s2\<rparr>"
      using draw_row_ok [OF d(1), of 0 "tcol s" y ena] d y by auto
    have l: "int (length (tdirty s1)) = trow s" using wf_geoD(9) [OF wf_termD(1) [OF d(1)]] d by simp
    have "wf_term (s1\<lparr>tdirty := (tdirty s1)[nat y := False]\<rparr>)"
      using d(1) by (simp add: wf_term_def wf_geo_def wf_cursor_def wf_scroll_def)
    then have w: "wf_term s2" "core s2 = core s1" "tdirty s2 = (tdirty s1)[nat y := False]"
      by (subst s2(2), simp)+
    have "\<not> tdirty s2 ! nat k" if "0 \<le> k" "k < y + 1" for k
      using that P y l by (cases "k = y") (auto simp: w(3) nth_list_update nat_eq_int)
    with s2 w P show "\<exists>s'. draw_row ena 0 (tcol s) y s1 = Some s' \<and> ?P (y + 1) s'" by (auto simp: keeps_def)
  qed
  define ena where "ena = (if (selalt (sel s) \<and> \<not> flag (tmode s) MODE_ALTSCREEN) \<or> (\<not> selalt (sel s) \<and> flag (tmode s) MODE_ALTSCREEN) then False else selbx (sel s) \<noteq> -1)"
  obtain s1 where s1: "for_up 0 (trow s - 1) (draw_row ena 0 (tcol s)) s = Some s1" "keeps s s1"
    "\<forall>k. 0 \<le> k \<and> k < trow s \<longrightarrow> \<not> tdirty s1 ! nat k" using loop [of ena] geo(1) by auto
  have w1: "wf_term s1" "trow s1 = trow s" using s1(2) by (auto simp: keeps_def core_def)
  obtain s2 where s2: "xdrawcursor s1 = Some s2" "keeps s1 s2" "tdirty s2 = tdirty s1"
    using xdrawcursor_ok [OF w1(1)] by blast
  have "tdirty s1 = replicate (nat (trow s)) False"
  proof (rule nth_equalityI)
    show len: "length (tdirty s1) = length (replicate (nat (trow s)) False)"
      using wf_geoD(9) [OF wf_termD(1) [OF w1(1)]] w1(2) by simp
    fix i assume "i < length (tdirty s1)"
    then show "tdirty s1 ! i = replicate (nat (trow s)) False ! i"
      using s1(3) [rule_format, of "int i"] len by simp
  qed
  with s1 s2 True keeps_trans show ?thesis
    unfolding drawregion_def by (auto simp: Let_def ena_def [symmetric])
qed

lemma wf_term_emit [simp]: "wf_term (emit g s) = wf_term s" "core (emit g s) = core s" "tdirty (emit g s) = tdirty s"
  by (simp_all add: emit_def)

lemma draw_ok:
  assumes "wf_term s"
  shows "\<exists>s'. draw s = Some s' \<and> keeps s s'
    \<and> tdirty s' = (if flag (xw_state s) WIN_VISIBLE then replicate (nat (trow s)) False else tdirty s)"
  using drawregion_ok [OF assms] by (auto simp: draw_def xflip_def keeps_def split: if_splits)

lemma draw_op: "safe_op draw"
  by unfold_locales (use draw_ok in blast)

interpretation draw_safe: safe_op draw
  by (rule draw_op)

lemma redraw_op: "safe_op redraw"
  unfolding redraw_def by (rule safe_op_seq [OF screen_op_safe [OF tfulldirt_op] draw_op])

interpretation redraw_safe: safe_op redraw
  by (rule redraw_op)

end
