(* ===== verification/Csi.thy ===== *)
theory Csi
  imports Draw_Laws
begin

text \<open>
  Control sequences in simple-terminal (src/package/simple-terminal/src/main.c): the parser
  \<open>csiparse\<close>, the interpreter \<open>csihandle\<close> with \<open>tsetattr\<close> and \<open>tsetmode\<close>, and the string
  sequences of \<open>strhandle\<close>. What the code prints on the standard streams (\<open>csidump\<close>,
  \<open>strdump\<close> and the error messages) is not part of the state.
\<close>

section \<open>Characters and parameters\<close>

text \<open>A character constant of the source, as a byte.\<close>

definition chr :: "char \<Rightarrow> byte" where
  "chr c = of_char c"

text \<open>The inner loop of \<open>csiparse\<close>: the digits from \<open>p\<close> on, added to the parameter \<open>a\<close>.\<close>

function csi_digits :: "byte list \<Rightarrow> int \<Rightarrow> int \<Rightarrow> (int \<times> int) option" where
  "csi_digits buf p a = do {
     b \<leftarrow> aget buf p;
     if isdigit b then do {
       a \<leftarrow> i32 (a * 10);
       a \<leftarrow> i32 (a + (uint b - 48));
       csi_digits buf (p + 1) a }
     else Some (p, a) }"
  by pat_completeness auto
termination
  by (relation "measure (\<lambda>(buf, p, a). nat (int (length buf) - p))") (auto dest!: aget_SomeD)

declare csi_digits.simps [simp del]

text \<open>The outer loop: the parameters, their number, and the final byte when one is reached.\<close>

function csi_params :: "byte list \<Rightarrow> int \<Rightarrow> int \<Rightarrow> int \<Rightarrow> int list \<Rightarrow> (int list \<times> int \<times> byte option) option" where
  "csi_params buf len p narg args =
     (if p < len then do {
        a \<leftarrow> aget args narg;
        (p, a) \<leftarrow> csi_digits buf p a;
        args \<leftarrow> aset args narg a;
        b \<leftarrow> aget buf p;
        if b = chr CHR '';'' \<and> narg + 1 < ESC_ARG_SIZ
        then csi_params buf len (p + 1) (narg + 1) args
        else Some (args, narg + 1, Some b) }
      else Some (args, narg, None))"
  by pat_completeness auto
termination
  by (relation "measure (\<lambda>(buf, len, p, narg, args). nat (ESC_ARG_SIZ - narg))") auto

declare csi_params.simps [simp del]

definition csiparse :: "csiescape \<Rightarrow> csiescape option" where
  "csiparse c = do {
     b \<leftarrow> aget (cbuf c) 0;
     let q = (b = chr CHR ''?'');
     (args, narg, m) \<leftarrow> csi_params (cbuf c) (clen c) (if q then 1 else 0) 0 (carg c);
     Some (c\<lparr>cpriv := cpriv c \<or> q, carg := args, cnarg := narg,
        cmode := (case m of Some b \<Rightarrow> b | None \<Rightarrow> cmode c)\<rparr>) }"

definition csireset :: "st \<Rightarrow> st" where
  "csireset s = s\<lparr>csi := \<lparr>cbuf = replicate 256 0, clen = 0, cpriv = False,
     carg = replicate 16 0, cnarg = 0, cmode = 0\<rparr>\<rparr>"

section \<open>Attributes\<close>

text \<open>The cases of \<open>tsetattr\<close> that look at one parameter only.\<close>

definition sgr1 :: "int \<Rightarrow> glyph \<Rightarrow> glyph" where
  "sgr1 a g =
     (if a = 0 then g\<lparr>gmode := gmode g AND NOT (ATTR_REVERSE OR ATTR_UNDERLINE OR ATTR_BOLD OR ATTR_ITALIC OR ATTR_BLINK),
          gfg := defaultfg, gbg := defaultbg\<rparr>
      else if a = 1 then g\<lparr>gmode := gmode g OR ATTR_BOLD\<rparr>
      else if a = 3 then g\<lparr>gmode := gmode g OR ATTR_ITALIC\<rparr>
      else if a = 4 then g\<lparr>gmode := gmode g OR ATTR_UNDERLINE\<rparr>
      else if a = 5 then g\<lparr>gmode := gmode g OR ATTR_BLINK\<rparr>
      else if a = 7 then g\<lparr>gmode := gmode g OR ATTR_REVERSE\<rparr>
      else if a = 21 \<or> a = 22 then g\<lparr>gmode := gmode g AND NOT ATTR_BOLD\<rparr>
      else if a = 23 then g\<lparr>gmode := gmode g AND NOT ATTR_ITALIC\<rparr>
      else if a = 24 then g\<lparr>gmode := gmode g AND NOT ATTR_UNDERLINE\<rparr>
      else if a = 25 then g\<lparr>gmode := gmode g AND NOT ATTR_BLINK\<rparr>
      else if a = 27 then g\<lparr>gmode := gmode g AND NOT ATTR_REVERSE\<rparr>
      else if a = 39 then g\<lparr>gfg := defaultfg\<rparr>
      else if a = 49 then g\<lparr>gbg := defaultbg\<rparr>
      else if BETWEEN a 30 37 then g\<lparr>gfg := word_of_int (a - 30)\<rparr>
      else if BETWEEN a 40 47 then g\<lparr>gbg := word_of_int (a - 40)\<rparr>
      else if BETWEEN a 90 97 then g\<lparr>gfg := word_of_int (a - 90 + 8)\<rparr>
      else if BETWEEN a 100 107 then g\<lparr>gbg := word_of_int (a - 100 + 8)\<rparr>
      else g)"

function sgr_loop :: "int \<Rightarrow> int \<Rightarrow> int list \<Rightarrow> glyph \<Rightarrow> glyph option" where
  "sgr_loop i l attr g =
     (if i < l then do {
        a \<leftarrow> aget attr i;
        if a = 38 \<or> a = 48 then do {
          b \<leftarrow> (if i + 2 < l then aget attr (i + 1) else Some 0);
          if i + 2 < l \<and> b = 5 then do {
            v \<leftarrow> aget attr (i + 2);
            sgr_loop (i + 3) l attr
              (if BETWEEN v 0 255
               then if a = 38 then g\<lparr>gfg := word_of_int v\<rparr> else g\<lparr>gbg := word_of_int v\<rparr>
               else g) }
          else sgr_loop (i + 1) l attr g }
        else sgr_loop (i + 1) l attr (sgr1 a g) }
      else Some g)"
  by pat_completeness auto
termination
  by (relation "measure (\<lambda>(i, l, attr, g). nat (l - i))") auto

declare sgr_loop.simps [simp del]

definition tsetattr :: "int list \<Rightarrow> int \<Rightarrow> st \<Rightarrow> st option" where
  "tsetattr attr l s = do {
     g \<leftarrow> sgr_loop 0 l attr (cattr (tcur s));
     Some (s\<lparr>tcur := (tcur s)\<lparr>cattr := g\<rparr>\<rparr>) }"

section \<open>Modes\<close>

definition set_mode :: "bool \<Rightarrow> 32 word \<Rightarrow> st \<Rightarrow> st" where
  "set_mode on b s = s\<lparr>tmode := MODBIT (tmode s) on b\<rparr>"

text \<open>The cases 1047, 47 and the first half of 1049: the alternate screen.\<close>

definition set_altscreen :: "bool \<Rightarrow> st \<Rightarrow> st option" where
  "set_altscreen on s = do {
     s \<leftarrow> (if flag (tmode s) MODE_ALTSCREEN then tclearregion 0 0 (tcol s - 1) (trow s - 1) s else Some s);
     if (on \<and> \<not> flag (tmode s) MODE_ALTSCREEN) \<or> (\<not> on \<and> flag (tmode s) MODE_ALTSCREEN)
     then tswapscreen s else Some s }"

text \<open>One round of the loop of \<open>tsetmode\<close>.\<close>

definition tsetmode1 :: "bool \<Rightarrow> bool \<Rightarrow> int \<Rightarrow> st \<Rightarrow> st option" where
  "tsetmode1 priv on a s =
     (if priv then
        if a = 1 then Some (set_mode on MODE_APPKEYPAD s)
        else if a = 5 then
          let s' = set_mode on MODE_REVERSE s in
          if tmode s \<noteq> tmode s' then redraw s' else Some s'
        else if a = 7 then Some (set_mode on MODE_WRAP s)
        else if a = 25 then Some (s\<lparr>tcur := (tcur s)\<lparr>cstate := MODBIT (cstate (tcur s)) (\<not> on) CURSOR_HIDE\<rparr>\<rparr>)
        else if a = 1000 then Some (set_mode on MODE_MOUSEBTN s)
        else if a = 1002 then Some (set_mode on MODE_MOUSEMOTION s)
        else if a = 1049 then do {
          s \<leftarrow> set_altscreen on s;
          Some (tcursor (if on then CURSOR_SAVE else CURSOR_LOAD) s) }
        else if a = 47 \<or> a = 1047 then set_altscreen on s
        else if a = 1048 then Some (tcursor (if on then CURSOR_SAVE else CURSOR_LOAD) s)
        else Some s
      else
        if a = 2 then Some (set_mode on MODE_KBDLOCK s)
        else if a = 4 then Some (set_mode on MODE_INSERT s)
        else if a = 20 then Some (set_mode on MODE_CRLF s)
        else Some s)"

definition tsetmode :: "bool \<Rightarrow> bool \<Rightarrow> int list \<Rightarrow> int \<Rightarrow> st \<Rightarrow> st option" where
  "tsetmode priv on args narg s =
     for_up 0 (narg - 1) (\<lambda>i s. do { a \<leftarrow> aget args i; tsetmode1 priv on a s }) s"

section \<open>The interpreter\<close>

definition VT102ID :: "byte list" where
  "VT102ID = [0x1B, chr CHR ''['', chr CHR ''?'', chr CHR ''6'', chr CHR ''c'']"

text \<open>The bytes handed to the pseudo-terminal.\<close>

definition ttywrite :: "byte list \<Rightarrow> st \<Rightarrow> st" where
  "ttywrite bs s = s\<lparr>ttyout := ttyout s @ bs\<rparr>"

definition csi_arg :: "nat \<Rightarrow> st \<Rightarrow> int" where
  "csi_arg i s = carg (csi s) ! i"

definition set_arg :: "nat \<Rightarrow> int \<Rightarrow> st \<Rightarrow> st" where
  "set_arg i v s = s\<lparr>csi := (csi s)\<lparr>carg := (carg (csi s))[i := v]\<rparr>\<rparr>"

text \<open>The macro DEFAULT on a parameter.\<close>

definition DEFAULT :: "nat \<Rightarrow> int \<Rightarrow> st \<Rightarrow> st" where
  "DEFAULT i v s = set_arg i (if csi_arg i s \<noteq> 0 then csi_arg i s else v) s"

text \<open>A cursor position with its \<open>int\<close> arithmetic checked.\<close>

definition move_checked :: "int \<Rightarrow> int \<Rightarrow> st \<Rightarrow> st option" where
  "move_checked x y s = do { x \<leftarrow> i32 x; y \<leftarrow> i32 y; Some (tmoveto x y s) }"

text \<open>\<open>while (arg[0]--) tputtab(forward)\<close>; from a negative parameter the decrement overflows.\<close>

definition tab_stops :: "bool \<Rightarrow> st \<Rightarrow> st option" where
  "tab_stops forward s =
     (let n = csi_arg 0 s in
      if n < 0 then None else do { s \<leftarrow> repeat_op (nat n) (tputtab forward) s; Some (set_arg 0 (-1) s) })"

definition csi_tbc :: "st \<Rightarrow> st option" where
  "csi_tbc s =
     (if csi_arg 0 s = 0 then do { t \<leftarrow> aset (ttabs s) (cx (tcur s)) False; Some (s\<lparr>ttabs := t\<rparr>) }
      else if csi_arg 0 s = 3 then clear_tabs s
      else Some s)"

definition csi_ed :: "st \<Rightarrow> st option" where
  "csi_ed s =
     (let s = s\<lparr>sel := (sel s)\<lparr>selbx := -1\<rparr>\<rparr>; a = csi_arg 0 s; x = cx (tcur s); y = cy (tcur s) in
      if a = 0 then do {
        s \<leftarrow> tclearregion x y (tcol s - 1) y s;
        if y < trow s - 1 then tclearregion 0 (y + 1) (tcol s - 1) (trow s - 1) s else Some s }
      else if a = 1 then do {
        s \<leftarrow> (if y > 1 then tclearregion 0 0 (tcol s - 1) (y - 1) s else Some s);
        tclearregion 0 y x y s }
      else if a = 2 then tclearregion 0 0 (tcol s - 1) (trow s - 1) s
      else Some s)"

definition csi_el :: "st \<Rightarrow> st option" where
  "csi_el s =
     (let a = csi_arg 0 s; x = cx (tcur s); y = cy (tcur s) in
      if a = 0 then tclearregion x y (tcol s - 1) y s
      else if a = 1 then tclearregion 0 y x y s
      else if a = 2 then tclearregion 0 y (tcol s - 1) y s
      else Some s)"

definition csi_ech :: "st \<Rightarrow> st option" where
  "csi_ech s = do {
     let s = DEFAULT 0 1 s;
     x2 \<leftarrow> i32 (cx (tcur s) + csi_arg 0 s);
     tclearregion (cx (tcur s)) (cy (tcur s)) x2 (cy (tcur s)) s }"

definition csi_stbm :: "st \<Rightarrow> st option" where
  "csi_stbm s =
     (if cpriv (csi s) then Some s
      else
        let s = DEFAULT 1 (trow s) (DEFAULT 0 1 s)
        in Some (tmoveto 0 0 (tsetscroll (csi_arg 0 s - 1) (csi_arg 1 s - 1) s)))"

definition csihandle :: "st \<Rightarrow> st option" where
  "csihandle s =
     (let m = cmode (csi s); d = DEFAULT 0 1 s; n = csi_arg 0 d; x = cx (tcur s); y = cy (tcur s) in
      if m = chr CHR ''@'' then tinsertblank n d
      else if m = chr CHR ''A'' \<or> m = chr CHR ''e'' then move_checked x (y - n) d
      else if m = chr CHR ''B'' then move_checked x (y + n) d
      else if m = chr CHR ''c'' then Some (if csi_arg 0 s = 0 then ttywrite VT102ID s else s)
      else if m = chr CHR ''C'' \<or> m = chr CHR ''a'' then move_checked (x + n) y d
      else if m = chr CHR ''D'' then move_checked (x - n) y d
      else if m = chr CHR ''E'' then move_checked 0 (y + n) d
      else if m = chr CHR ''F'' then move_checked 0 (y - n) d
      else if m = chr CHR ''g'' then csi_tbc s
      else if m = chr CHR ''G'' \<or> m = chr CHR ''`'' then move_checked (n - 1) y d
      else if m = chr CHR ''H'' \<or> m = chr CHR ''f'' then
        (let d = DEFAULT 1 1 d in move_checked (csi_arg 1 d - 1) (csi_arg 0 d - 1) d)
      else if m = chr CHR ''I'' then tab_stops True d
      else if m = chr CHR ''J'' then csi_ed s
      else if m = chr CHR ''K'' then csi_el s
      else if m = chr CHR ''S'' then tscrollup (ttop s) n d
      else if m = chr CHR ''T'' then tscrolldown (ttop s) n d
      else if m = chr CHR ''L'' then tinsertblankline n d
      else if m = chr CHR ''l'' then tsetmode (cpriv (csi s)) False (carg (csi s)) (cnarg (csi s)) s
      else if m = chr CHR ''M'' then tdeleteline n d
      else if m = chr CHR ''X'' then csi_ech s
      else if m = chr CHR ''P'' then tdeletechar n d
      else if m = chr CHR ''Z'' then tab_stops False d
      else if m = chr CHR ''d'' then move_checked x (n - 1) d
      else if m = chr CHR ''h'' then tsetmode (cpriv (csi s)) True (carg (csi s)) (cnarg (csi s)) s
      else if m = chr CHR ''m'' then tsetattr (carg (csi s)) (cnarg (csi s)) s
      else if m = chr CHR ''r'' then csi_stbm s
      else if m = chr CHR ''s'' then Some (tcursor CURSOR_SAVE s)
      else if m = chr CHR ''u'' then Some (tcursor CURSOR_LOAD s)
      else Some s)"

section \<open>String sequences\<close>

text \<open>A C string at an offset of a buffer, without its terminator.\<close>

definition cstring :: "byte list \<Rightarrow> nat \<Rightarrow> byte list option" where
  "cstring b i = (if 0 \<in> set (drop i b) then Some (takeWhile (\<lambda>c. c \<noteq> 0) (drop i b)) else None)"

definition set_caption :: "nat \<Rightarrow> st \<Rightarrow> st option" where
  "set_caption i s = do { t \<leftarrow> cstring (sbuf (str s)) i; Some (s\<lparr>title := title s @ [t]\<rparr>) }"

definition strhandle :: "st \<Rightarrow> st option" where
  "strhandle s =
     (if stype (str s) = chr CHR '']'' then do {
        p0 \<leftarrow> aget (sbuf (str s)) 0;
        p1 \<leftarrow> aget (sbuf (str s)) 1;
        if p0 = chr CHR ''0'' \<or> p0 = chr CHR ''1'' \<or> p0 = chr CHR ''2'' then
          if p1 = chr CHR '';'' then set_caption 2 s else Some s
        else if p0 = chr CHR '';'' then set_caption 1 s
        else Some s }
      else if stype (str s) = chr CHR ''k'' then set_caption 0 s
      else Some s)"

definition strreset :: "st \<Rightarrow> st" where
  "strreset s = s\<lparr>str := \<lparr>stype = 0, sbuf = replicate 256 0, slen = 0\<rparr>\<rparr>"

end
