(* ===== verification/Csi_Laws.thy ===== *)
theory Csi_Laws
  imports Csi
begin

text \<open>
  Control sequences are safe and parsed exactly: parameters of at most nine digits never
  overflow and never lead past the buffer, every final byte is handled without undefined
  behaviour, and the parser recovers the numbers from their decimal text.
\<close>

section \<open>The parser\<close>

lemma isdigit_zero [simp]: "\<not> isdigit 0"
  by (simp add: isdigit_def)

lemma isdigit_uint: "isdigit b \<Longrightarrow> 0 \<le> uint b - 48 \<and> uint b - 48 \<le> 9"
proof -
  assume d: "isdigit b"
  have "uint b = int (unat b)" by simp
  with d show ?thesis unfolding isdigit_def by linarith
qed

lemma drop_nat_Cons:
  "0 \<le> p \<Longrightarrow> p < int (length b) \<Longrightarrow> drop (nat p) b = b ! nat p # drop (nat (p + 1)) b"
  by (simp add: Cons_nth_drop_Suc nat_add_distrib flip: Cons_nth_drop_Suc)

lemma csi_digits_ok:
  assumes "0 \<le> p" "p + (9 - int k) < int (length buf)" "k \<le> 9" "0 \<le> a" "a < 10 ^ k"
    and "digit_runs_ok k (drop (nat p) buf)"
  shows "\<exists>p' a'. csi_digits buf p a = Some (p', a') \<and> p \<le> p' \<and> p' \<le> p + (9 - int k)
    \<and> 0 \<le> a' \<and> a' < 10 ^ 9 \<and> digit_runs_ok 0 (drop (nat (p' + 1)) buf)"
  using assms
proof (induction "9 - k" arbitrary: k p a)
  case 0
  then have k: "k = 9" by simp
  have b: "aget buf p = Some (buf ! nat p)" using 0 k by (simp add: aget_Some)
  have d: "drop (nat p) buf = buf ! nat p # drop (nat (p + 1)) buf" using 0 k by (simp add: drop_nat_Cons)
  with 0 k have "\<not> isdigit (buf ! nat p)" "digit_runs_ok 0 (drop (nat (p + 1)) buf)" by (auto split: if_splits)
  with b 0 k show ?case by (subst csi_digits.simps) auto
next
  case (Suc n)
  have b: "aget buf p = Some (buf ! nat p)" using Suc.prems by (simp add: aget_Some)
  have d: "drop (nat p) buf = buf ! nat p # drop (nat (p + 1)) buf" using Suc.prems by (simp add: drop_nat_Cons)
  have pow: "(10::int) ^ k \<le> 10 ^ 9" using Suc.prems(3) by (intro power_increasing) auto
  show ?case
  proof (cases "isdigit (buf ! nat p)")
    case False
    with d Suc.prems have "digit_runs_ok 0 (drop (nat (p + 1)) buf)" by simp
    moreover have "csi_digits buf p a = Some (p, a)" using b False by (subst csi_digits.simps) simp
    ultimately show ?thesis using Suc.prems pow by force
  next
    case True
    note u = isdigit_uint [OF True]
    with d Suc.prems True have k: "k < 9" "digit_runs_ok (k + 1) (drop (nat (p + 1)) buf)" by simp_all
    have pow': "(10::int) ^ k \<le> 10 ^ 8" using k(1) by (intro power_increasing) auto
    have i: "i32 (a * 10) = Some (a * 10)" "i32 (a * 10 + (uint (buf ! nat p) - 48)) = Some (a * 10 + (uint (buf ! nat p) - 48))"
      using Suc.prems(4,5) u pow' by (simp_all add: INT_MAX_def INT_MIN_def)
    have h: "n = 9 - (k + 1)" using Suc.hyps(2) by simp
    have "a * 10 + (uint (buf ! nat p) - 48) < 10 ^ (k + 1)" using Suc.prems(5) u by simp
    with Suc.hyps(1) [OF h, of "p + 1" "a * 10 + (uint (buf ! nat p) - 48)"] obtain p' a' where
      r: "csi_digits buf (p + 1) (a * 10 + (uint (buf ! nat p) - 48)) = Some (p', a')" "p + 1 \<le> p'"
      "p' \<le> p + 1 + (9 - int (k + 1))" "0 \<le> a'" "a' < 10 ^ 9" "digit_runs_ok 0 (drop (nat (p' + 1)) buf)"
      using Suc.prems k u by auto
    have "csi_digits buf p a = Some (p', a')"
      using b True i r(1) by (subst csi_digits.simps) simp
    with r show ?thesis by auto
  qed
qed

text \<open>Parameters that fit: sixteen non-negative numbers of at most nine digits.\<close>

definition args_ok :: "int list \<Rightarrow> bool" where
  "args_ok xs \<longleftrightarrow> length xs = 16 \<and> (\<forall>a \<in> set xs. 0 \<le> a \<and> a < 10 ^ 9)"

lemma args_ok_update: "args_ok xs \<Longrightarrow> 0 \<le> a \<Longrightarrow> a < 10 ^ 9 \<Longrightarrow> args_ok (xs[i := a])"
  by (auto simp: args_ok_def dest!: set_update_subset_insert [THEN subsetD])

lemma csi_params_ok:
  assumes "length buf = 256" "0 \<le> p" "p \<le> 1 + 10 * narg" "0 \<le> narg" "narg < 16"
    and "args_ok args" "\<forall>i. narg \<le> int i \<and> i < 16 \<longrightarrow> args ! i = 0" "digit_runs_ok 0 (drop (nat p) buf)"
  shows "\<exists>args' n m. csi_params buf len p narg args = Some (args', n, m) \<and> args_ok args' \<and> 0 \<le> n \<and> n \<le> 16"
  using assms
proof (induction buf len p narg args rule: csi_params.induct)
  case (1 buf len p narg args)
  show ?case
  proof (cases "p < len")
    case False
    with "1.prems" show ?thesis by (subst csi_params.simps) auto
  next
    case True
    have a0: "args ! nat narg = 0" and l16: "length args = 16" using "1.prems" by (auto simp: args_ok_def)
    have a: "aget args narg = Some 0" using "1.prems" a0 l16 by (simp add: aget_Some)
    obtain p' a' where d: "csi_digits buf p 0 = Some (p', a')" "p \<le> p'" "p' \<le> p + 9" "0 \<le> a'" "a' < 10 ^ 9"
      "digit_runs_ok 0 (drop (nat (p' + 1)) buf)"
      using csi_digits_ok [of p 0 buf 0] "1.prems" by auto
    let ?args = "args[nat narg := a']"
    have s: "aset args narg a' = Some ?args" using "1.prems" l16 by (simp add: aset_Some)
    have b: "aget buf p' = Some (buf ! nat p')" using d "1.prems" by (simp add: aget_Some)
    have ok: "args_ok ?args" using "1.prems"(6) d by (intro args_ok_update)
    show ?thesis
    proof (cases "buf ! nat p' = chr CHR '';'' \<and> narg + 1 < 16")
      case False
      have "csi_params buf len p narg args = Some (?args, narg + 1, Some (buf ! nat p'))"
        using True a d(1) s b False by (subst csi_params.simps) auto
      with ok "1.prems" show ?thesis by auto
    next
      case t: True
      have z: "\<forall>i. narg + 1 \<le> int i \<and> i < 16 \<longrightarrow> ?args ! i = 0"
        using "1.prems"(4,7) l16 by (auto simp: nth_list_update)
      have "\<exists>args' n m. csi_params buf len (p' + 1) (narg + 1) ?args = Some (args', n, m) \<and> args_ok args' \<and> 0 \<le> n \<and> n \<le> 16"
        by (rule "1.IH" [OF True a d(1) _ s b]) (use t "1.prems" d ok z in auto)
      moreover have "csi_params buf len p narg args = csi_params buf len (p' + 1) (narg + 1) ?args"
        using True a d(1) s b t by (subst csi_params.simps) simp
      ultimately show ?thesis by simp
    qed
  qed
qed

text \<open>The buffer when a sequence ends: full at most, with its digits in short runs.\<close>

definition csi_complete :: "csiescape \<Rightarrow> bool" where
  "csi_complete c \<longleftrightarrow> length (cbuf c) = 256 \<and> 0 \<le> clen c \<and> clen c \<le> 256 \<and> zero_from (cbuf c) (clen c)
     \<and> digit_runs_ok 0 (take (nat (clen c)) (cbuf c)) \<and> carg c = replicate 16 0"

lemma csiparse_ok:
  assumes "csi_complete c"
  shows "\<exists>c'. csiparse c = Some c' \<and> args_ok (carg c') \<and> 0 \<le> cnarg c' \<and> cnarg c' \<le> 16"
proof -
  have "cbuf c = take (nat (clen c)) (cbuf c) @ drop (nat (clen c)) (cbuf c)" by simp
  moreover have "digit_runs_ok k (drop (nat (clen c)) (cbuf c))" for k
    using assms zero_from_drop by (intro digit_runs_ok_zeros) (auto simp: csi_complete_def)
  ultimately have r: "digit_runs_ok 0 (cbuf c)"
    using assms unfolding csi_complete_def by (metis digit_runs_ok_append)
  let ?b = "cbuf c ! 0"
  have b: "aget (cbuf c) 0 = Some ?b" and l: "length (cbuf c) = 256" using assms by (simp_all add: csi_complete_def aget_def)
  have d: "drop 0 (cbuf c) = ?b # drop 1 (cbuf c)" using l by (cases "cbuf c") auto
  have q: "digit_runs_ok 0 (drop (nat (if ?b = chr CHR ''?'' then 1 else 0)) (cbuf c))"
  proof (cases "?b = chr CHR ''?''")
    case True
    have "digit_runs_ok 0 (?b # drop 1 (cbuf c))" using r d by simp
    with True show ?thesis by (simp add: chr_def isdigit_def)
  qed (use r in simp)
  have a: "args_ok (carg c)" "\<forall>i. 0 \<le> int i \<and> i < 16 \<longrightarrow> carg c ! i = 0"
    using assms by (auto simp: csi_complete_def args_ok_def)
  have p: "0 \<le> (if ?b = chr CHR ''?'' then 1 else 0 :: int)" "(if ?b = chr CHR ''?'' then 1 else 0 :: int) \<le> 1 + 10 * 0" by auto
  obtain args' n m where "csi_params (cbuf c) (clen c) (if ?b = chr CHR ''?'' then 1 else 0) 0 (carg c) = Some (args', n, m)"
    "args_ok args'" "0 \<le> n" "n \<le> 16"
    using csi_params_ok [OF l p _ _ a q, of "clen c"] by auto
  then show ?thesis using b by (simp add: csiparse_def)
qed

section \<open>Attributes and modes\<close>

lemma unat_word_of_int_16: "0 \<le> v \<Longrightarrow> v < 258 \<Longrightarrow> unat (word_of_int v :: 16 word) < 258"
  by (simp add: unat_eq_nat_uint uint_word_of_int)

lemma ok_colors_sgr1: "ok_colors g \<Longrightarrow> ok_colors (sgr1 a g)"
  by (auto simp: sgr1_def ok_colors_def BETWEEN_def unat_word_of_int_16 simp del: of_int_diff of_int_add)


lemma sgr_loop_ok:
  "0 \<le> i \<Longrightarrow> l \<le> int (length attr) \<Longrightarrow> ok_colors g \<Longrightarrow> \<exists>g'. sgr_loop i l attr g = Some g' \<and> ok_colors g'"
proof (induction i l attr g rule: sgr_loop.induct)
  case (1 i l attr g)
  show ?case
  proof (cases "i < l")
    case False
    with "1.prems" show ?thesis by (subst sgr_loop.simps) simp
  next
    case il: True
    let ?a = "attr ! nat i"
    have a: "aget attr i = Some ?a" using il "1.prems" by (simp add: aget_Some)
    let ?b = "if i + 2 < l then attr ! nat (i + 1) else 0"
    have b: "(if i + 2 < l then aget attr (i + 1) else Some 0) = Some ?b" using "1.prems" by (simp add: aget_Some)
    consider (ext) "?a = 38 \<or> ?a = 48" "i + 2 < l \<and> ?b = 5" | (bad) "?a = 38 \<or> ?a = 48" "\<not> (i + 2 < l \<and> ?b = 5)"
      | (one) "\<not> (?a = 38 \<or> ?a = 48)" by blast
    then show ?thesis
    proof cases
      case ext
      let ?v = "attr ! nat (i + 2)"
      let ?g = "if BETWEEN ?v 0 255 then if ?a = 38 then g\<lparr>gfg := word_of_int ?v\<rparr> else g\<lparr>gbg := word_of_int ?v\<rparr> else g"
      have v: "aget attr (i + 2) = Some ?v" using ext "1.prems" by (simp add: aget_Some)
      have g: "ok_colors ?g" using "1.prems"(3) unat_word_of_int_16 [of ?v] by (auto simp: ok_colors_def BETWEEN_def)
      have "sgr_loop i l attr g = sgr_loop (i + 3) l attr ?g"
        using il a b v ext by (subst sgr_loop.simps) (auto simp: aget_Some)
      moreover have "\<exists>g'. sgr_loop (i + 3) l attr ?g = Some g' \<and> ok_colors g'"
        by (rule "1.IH"(1) [OF il a _ b _ v]) (use ext "1.prems" g in auto)
      ultimately show ?thesis by simp
    next
      case bad
      have "sgr_loop i l attr g = sgr_loop (i + 1) l attr g"
        using il a b bad by (subst sgr_loop.simps) auto
      moreover have "\<exists>g'. sgr_loop (i + 1) l attr g = Some g' \<and> ok_colors g'"
        by (rule "1.IH"(2) [OF il a _ b]) (use bad "1.prems" in auto)
      ultimately show ?thesis by simp
    next
      case one
      have "sgr_loop i l attr g = sgr_loop (i + 1) l attr (sgr1 ?a g)"
        using il a one by (subst sgr_loop.simps) simp
      moreover have "\<exists>g'. sgr_loop (i + 1) l attr (sgr1 ?a g) = Some g' \<and> ok_colors g'"
        by (rule "1.IH"(3) [OF il a]) (use one "1.prems" ok_colors_sgr1 in auto)
      ultimately show ?thesis by simp
    qed
  qed
qed

lemma wf_term_attr:
  "wf_term s \<Longrightarrow> ok_colors g \<Longrightarrow> wf_term (s\<lparr>tcur := (tcur s)\<lparr>cattr := g\<rparr>\<rparr>)"
  "wf_term s \<Longrightarrow> wf_term (s\<lparr>tcur := (tcur s)\<lparr>cstate := w\<rparr>\<rparr>)"
  by (simp_all add: wf_term_def wf_geo_def wf_cursor_def wf_scroll_def)

lemma tsetattr_op: "l \<le> int (length attr) \<Longrightarrow> safe_op (tsetattr attr l)"
proof
  fix s assume l: "l \<le> int (length attr)" and s: "wf_term s"
  then obtain g where "sgr_loop 0 l attr (cattr (tcur s)) = Some g" "ok_colors g"
    using sgr_loop_ok [of 0 l attr "cattr (tcur s)"] wf_termD(9) by auto
  with s show "\<exists>s'. tsetattr attr l s = Some s' \<and> keeps s s'"
    by (simp add: tsetattr_def keeps_def wf_term_attr)
qed

lemma tcursor_safe: "safe_op (\<lambda>s. Some (tcursor m s))"
  by (rule safe_op_Some) (use contract_tcursor contract_keeps in blast)

lemma set_altscreen_op: "safe_op (set_altscreen on)"
proof -
  have 1: "safe_op (\<lambda>s. if flag (tmode s) MODE_ALTSCREEN then tclearregion 0 0 (tcol s - 1) (trow s - 1) s else Some s)"
    by (rule safe_op_dep) (use screen_op_safe [OF tclearregion_op] safe_op_id in metis)
  have 2: "safe_op (\<lambda>s. if (on \<and> \<not> flag (tmode s) MODE_ALTSCREEN) \<or> (\<not> on \<and> flag (tmode s) MODE_ALTSCREEN)
     then tswapscreen s else Some s)"
    by (rule safe_op_dep) (use screen_op_safe [OF tswapscreen_op] safe_op_id in metis)
  show ?thesis using safe_op_seq [OF 1 2] by (simp add: set_altscreen_def [abs_def])
qed

lemma tsetmode1_op: "safe_op (tsetmode1 priv on a)"
proof
  fix s assume s: "wf_term s"
  have m: "keeps s (set_mode on b s)" for b using s by (simp add: keeps_def set_mode_def)
  have c: "keeps s (tcursor m s)" for m using s contract_tcursor contract_keeps by blast
  have r: "\<exists>s'. redraw (set_mode on b s) = Some s' \<and> keeps s s'" for b
    using redraw_safe.safe m keeps_trans by (metis keeps_def)
  have a: "\<exists>s'. set_altscreen on s = Some s' \<and> keeps s s'" using safe_op.safe [OF set_altscreen_op s] .
  have a2: "\<exists>s'. do { s \<leftarrow> set_altscreen on s; Some (tcursor k s) } = Some s' \<and> keeps s s'" for k
    using safe_op.safe [OF safe_op_seq [OF set_altscreen_op tcursor_safe] s] .
  have h: "keeps s (s\<lparr>tcur := (tcur s)\<lparr>cstate := w\<rparr>\<rparr>)" for w using s wf_term_attr(2) by (simp add: keeps_def)
  show "\<exists>s'. tsetmode1 priv on a s = Some s' \<and> keeps s s'"
    unfolding tsetmode1_def Let_def using m c r a a2 h keeps_refl [OF s] by (simp split: if_split)
qed

lemma tsetmode_op: "narg \<le> int (length args) \<Longrightarrow> safe_op (tsetmode priv on args narg)"
proof -
  assume l: "narg \<le> int (length args)"
  have "safe_op (\<lambda>s. do { a \<leftarrow> aget args i; tsetmode1 priv on a s })" if "0 \<le> i" "i \<le> narg - 1" for i
    using l that tsetmode1_op by (simp add: aget_Some)
  then show ?thesis unfolding tsetmode_def by (intro safe_op_for_up) auto
qed


section \<open>The interpreter\<close>

definition csi_ready :: "st \<Rightarrow> bool" where
  "csi_ready s \<longleftrightarrow> args_ok (carg (csi s)) \<and> 0 \<le> cnarg (csi s) \<and> cnarg (csi s) \<le> 16"

lemma csi_arg_range: "csi_ready s \<Longrightarrow> i < 16 \<Longrightarrow> 0 \<le> csi_arg i s \<and> csi_arg i s < 10 ^ 9"
  by (auto simp: csi_ready_def args_ok_def csi_arg_def)

lemma keeps_set_arg: "wf_term s \<Longrightarrow> keeps s (set_arg i v s)"
  by (simp add: keeps_def set_arg_def)

lemma set_arg_sel [simp]:
  "tcur (set_arg i v s) = tcur s" "trow (set_arg i v s) = trow s" "tcol (set_arg i v s) = tcol s"
  "ttop (set_arg i v s) = ttop s" "tbot (set_arg i v s) = tbot s" "tline (set_arg i v s) = tline s"
  "cell (set_arg i v s) = cell s" "view (set_arg i v s) = view s"
  "wf_term (set_arg i v s) = wf_term s"
  by (simp_all add: set_arg_def cell_def view_def fun_eq_iff)

lemma csi_arg_DEFAULT:
  "csi_ready s \<Longrightarrow> i < 16 \<Longrightarrow> csi_arg i (DEFAULT i v s) = (if csi_arg i s \<noteq> 0 then csi_arg i s else v)"
  "i \<noteq> j \<Longrightarrow> csi_arg j (DEFAULT i v s) = csi_arg j s"
  by (simp_all add: DEFAULT_def set_arg_def csi_arg_def csi_ready_def args_ok_def)

lemma DEFAULT_sel [simp]:
  "tcur (DEFAULT i v s) = tcur s" "trow (DEFAULT i v s) = trow s" "tcol (DEFAULT i v s) = tcol s"
  "ttop (DEFAULT i v s) = ttop s" "tbot (DEFAULT i v s) = tbot s"
  "wf_term (DEFAULT i v s) = wf_term s" "view (DEFAULT i v s) = view s"
  by (simp_all add: DEFAULT_def)

lemma keeps_DEFAULT: "wf_term s \<Longrightarrow> keeps s (DEFAULT i v s)"
  unfolding DEFAULT_def by (rule keeps_set_arg)

lemma csi_ready_DEFAULT: "csi_ready s \<Longrightarrow> 0 \<le> v \<Longrightarrow> v < 10 ^ 9 \<Longrightarrow> csi_ready (DEFAULT i v s)"
proof -
  assume r: "csi_ready s" "0 \<le> v" "v < 10 ^ 9"
  let ?v = "if csi_arg i s \<noteq> 0 then csi_arg i s else v"
  show ?thesis
  proof (cases "i < 16")
    case True
    with csi_arg_range [OF r(1), of i] r have "0 \<le> ?v" "?v < 10 ^ 9" by auto
    with r(1) show ?thesis by (simp add: csi_ready_def DEFAULT_def set_arg_def args_ok_update)
  next
    case False
    with r(1) show ?thesis by (simp add: csi_ready_def DEFAULT_def set_arg_def args_ok_def list_update_beyond)
  qed
qed

lemma wf_arg_DEFAULT: "csi_ready s \<Longrightarrow> wf_arg (csi_arg 0 (DEFAULT 0 1 s))"
  using csi_arg_range [of s 0] csi_arg_DEFAULT(1) [of s 0 1]
  by (simp add: wf_arg_def INT_MAX_def MAX_DIM_def)

lemma keeps_then: "keeps s d \<Longrightarrow> safe_op f \<Longrightarrow> \<exists>s'. f d = Some s' \<and> keeps s s'"
  using safe_op.safe keeps_trans by (metis keeps_def)

lemma move_checked_keeps:
  "keeps s d \<Longrightarrow> INT_MIN \<le> x \<Longrightarrow> x \<le> INT_MAX \<Longrightarrow> INT_MIN \<le> y \<Longrightarrow> y \<le> INT_MAX \<Longrightarrow>
   \<exists>s'. move_checked x y d = Some s' \<and> keeps s s'"
  by (simp add: move_checked_def) (meson contract_keeps contract_tmoveto keeps_def keeps_trans)

lemma tab_stops_keeps:
  assumes "keeps s d" "0 \<le> csi_arg 0 d"
  shows "\<exists>s'. tab_stops forward d = Some s' \<and> keeps s s'"
proof -
  have "safe_op (repeat_op (nat (csi_arg 0 d)) (tputtab forward))"
    by (rule screen_op_safe [OF screen_op_repeat [OF tputtab_op]])
  from keeps_then [OF assms(1) this] obtain s1 where "repeat_op (nat (csi_arg 0 d)) (tputtab forward) d = Some s1" "keeps s s1"
    by blast
  then show ?thesis using assms(2) keeps_set_arg keeps_trans by (auto simp: tab_stops_def Let_def keeps_def)
qed

lemma tabs_keeps:
  assumes "wf_term s"
  shows "\<exists>s'. csi_tbc s = Some s' \<and> keeps s s'"
proof -
  note t = wf_termD [OF assms] and geo = wf_geoD [OF wf_termD(1) [OF assms]]
  have w: "keeps s (s\<lparr>ttabs := l\<rparr>)" if "length l = length (ttabs s)" for l
    using assms that by (simp add: keeps_def wf_term_def wf_geo_def wf_cursor_def wf_scroll_def)
  show ?thesis
    using t geo keeps_refl [OF assms]
    by (simp add: csi_tbc_def clear_tabs_def aset_Some w)
qed

lemma csi_ed_keeps: "wf_term s \<Longrightarrow> \<exists>s'. csi_ed s = Some s' \<and> keeps s s'"
proof -
  assume s: "wf_term s"
  let ?s = "s\<lparr>sel := (sel s)\<lparr>selbx := -1\<rparr>\<rparr>"
  have k: "keeps s ?s" using s by (simp add: keeps_def)
  have c: "safe_op (tclearregion x1 y1 x2 y2)" for x1 y1 x2 y2 by (rule screen_op_safe [OF tclearregion_op])
  let ?x = "cx (tcur ?s)" and ?y = "cy (tcur ?s)"
  have 0: "safe_op (\<lambda>s. Option.bind (tclearregion ?x ?y (tcol ?s - 1) ?y s)
      (\<lambda>s. if ?y < trow s - 1 then tclearregion 0 (?y + 1) (tcol s - 1) (trow s - 1) s else Some s))"
    by (rule safe_op_seq [OF c]) (rule safe_op_dep, use c safe_op_id in metis)
  have 1: "safe_op (\<lambda>s. Option.bind (if ?y > 1 then tclearregion 0 0 (tcol ?s - 1) (?y - 1) s else Some s)
      (tclearregion 0 ?y ?x ?y))"
    by (rule safe_op_seq [OF _ c]) (rule safe_op_dep, use c safe_op_id in metis)
  show ?thesis
    using keeps_then [OF k 0] keeps_then [OF k 1] keeps_then [OF k c, of 0 0 "tcol ?s - 1" "trow ?s - 1"] k
    unfolding csi_ed_def Let_def by (simp split: if_split)
qed

lemma csi_el_keeps: "wf_term s \<Longrightarrow> \<exists>s'. csi_el s = Some s' \<and> keeps s s'"
  using safe_op.safe [OF screen_op_safe [OF tclearregion_op]] keeps_refl by (simp add: csi_el_def Let_def)

text \<open>A result that is defined and keeps the parser's state.\<close>

definition fine :: "st \<Rightarrow> st option \<Rightarrow> bool" where
  "fine s r \<longleftrightarrow> (\<exists>s'. r = Some s' \<and> keeps s s')"

lemma fine_if: "fine s a \<Longrightarrow> fine s b \<Longrightarrow> fine s (if c then a else b)"
  by simp

text \<open>Every final byte, with parameters in range, on every well-formed screen.\<close>

lemma csihandle_ok:
  assumes s: "wf_term s" and r: "csi_ready s"
  shows "\<exists>s'. csihandle s = Some s' \<and> keeps s s'"
proof -
  define d where "d = DEFAULT 0 1 s"
  have k: "keeps s d" and n: "wf_arg (csi_arg 0 d)" and dr: "csi_ready d"
    using keeps_DEFAULT [OF s] wf_arg_DEFAULT [OF r] csi_ready_DEFAULT [OF r] by (simp_all add: d_def)
  have n': "1 \<le> csi_arg 0 d" "csi_arg 0 d < 10 ^ 9" using n csi_arg_range [OF dr, of 0] by (simp_all add: wf_arg_def)
  note t = wf_termD [OF s] and geo = wf_geoD [OF wf_termD(1) [OF s]]
  let ?x = "cx (tcur s)" and ?y = "cy (tcur s)"
  have mv: "\<exists>s'. move_checked a b d = Some s' \<and> keeps s s'"
    if "- 2000000000 \<le> a" "a \<le> 2000000000" "- 2000000000 \<le> b" "b \<le> 2000000000" for a b
    using that by (intro move_checked_keeps [OF k]) (simp_all add: INT_MIN_def INT_MAX_def)
  have x: "0 \<le> ?x" "?x < 1000000" "0 \<le> ?y" "?y < 1000000" using t geo by (simp_all add: MAX_DIM_def)
  have moves: "\<exists>s'. move_checked ?x (?y - csi_arg 0 d) d = Some s' \<and> keeps s s'"
    "\<exists>s'. move_checked ?x (?y + csi_arg 0 d) d = Some s' \<and> keeps s s'"
    "\<exists>s'. move_checked (?x + csi_arg 0 d) ?y d = Some s' \<and> keeps s s'"
    "\<exists>s'. move_checked (?x - csi_arg 0 d) ?y d = Some s' \<and> keeps s s'"
    "\<exists>s'. move_checked 0 (?y + csi_arg 0 d) d = Some s' \<and> keeps s s'"
    "\<exists>s'. move_checked 0 (?y - csi_arg 0 d) d = Some s' \<and> keeps s s'"
    "\<exists>s'. move_checked (csi_arg 0 d - 1) ?y d = Some s' \<and> keeps s s'"
    "\<exists>s'. move_checked ?x (csi_arg 0 d - 1) d = Some s' \<and> keeps s s'"
    by (rule mv; use x n' in simp)+
  have cup: "\<exists>s'. (let d = DEFAULT 1 1 d in move_checked (csi_arg 1 d - 1) (csi_arg 0 d - 1) d) = Some s' \<and> keeps s s'"
  proof -
    have "keeps s (DEFAULT 1 1 d)" using k keeps_DEFAULT keeps_trans by (metis keeps_def)
    moreover have "csi_ready (DEFAULT 1 1 d)" using csi_ready_DEFAULT [OF dr] by simp
    ultimately show ?thesis
      using csi_arg_range [of "DEFAULT 1 1 d" 0] csi_arg_range [of "DEFAULT 1 1 d" 1]
      by (simp add: Let_def move_checked_keeps INT_MIN_def INT_MAX_def)
  qed
  have tabs: "\<exists>s'. tab_stops f d = Some s' \<and> keeps s s'" for f using tab_stops_keeps [OF k] n' by simp
  have scr: "\<exists>s'. tscrollup (ttop s) m d = Some s' \<and> keeps s s'" "\<exists>s'. tscrolldown (ttop s) m d = Some s' \<and> keeps s s'" for m
    using tscrollup_ok [of d "ttop s" m] tscrolldown_ok [of d "ttop s" m] k t contract_keeps keeps_trans
    by (metis keeps_def)+
  have modes: "\<exists>s'. tsetmode p on (carg (csi s)) (cnarg (csi s)) s = Some s' \<and> keeps s s'" for p on
    using safe_op.safe [OF tsetmode_op s] r by (simp add: csi_ready_def args_ok_def)
  have attr: "\<exists>s'. tsetattr (carg (csi s)) (cnarg (csi s)) s = Some s' \<and> keeps s s'"
    using safe_op.safe [OF tsetattr_op s] r by (simp add: csi_ready_def args_ok_def)
  have ech: "\<exists>s'. csi_ech s = Some s' \<and> keeps s s'"
    using keeps_then [OF k screen_op_safe [OF tclearregion_op]] n' x
    by (simp add: csi_ech_def d_def [symmetric] INT_MIN_def INT_MAX_def) (simp add: d_def)
  have stbm: "\<exists>s'. csi_stbm s = Some s' \<and> keeps s s'"
  proof -
    let ?e = "DEFAULT 1 (trow s) d"
    have "keeps s ?e" using k keeps_DEFAULT keeps_trans by (metis keeps_def)
    then have "keeps s (tmoveto 0 0 (tsetscroll a b ?e))" for a b
      using contract_tsetscroll contract_tmoveto contract_trans contract_keeps keeps_trans by (metis keeps_def contract_def)
    then show ?thesis using keeps_refl [OF s] by (simp add: csi_stbm_def Let_def d_def)
  qed
  have tc: "keeps s (tcursor m s)" "keeps s (ttywrite b s)" for m b
    using contract_keeps [OF contract_tcursor [OF s]] s by (simp_all add: ttywrite_def keeps_def)
  note ops = keeps_then [OF k screen_op_safe]
  note facts = moves cup [unfolded Let_def] tabs scr modes attr ech stbm tabs_keeps [OF s] csi_ed_keeps [OF s]
    csi_el_keeps [OF s] ops [OF tinsertblank_op [OF n]] ops [OF tdeletechar_op [OF n]]
    ops [OF tinsertblankline_op] ops [OF tdeleteline_op]
  have da: "fine s (Some (if c then ttywrite b s else s))" for c b using tc keeps_refl [OF s] by (simp add: fine_def)
  have "fine s (csihandle s)"
    unfolding csihandle_def Let_def d_def [symmetric]
    by (intro fine_if facts [folded fine_def] da tc [THEN exI [of "\<lambda>x. Some _ = Some x \<and> keeps s x", OF conjI [OF refl]], folded fine_def]
        keeps_refl [OF s, THEN exI [of "\<lambda>x. Some _ = Some x \<and> keeps s x", OF conjI [OF refl]], folded fine_def])
  then show ?thesis by (simp add: fine_def)
qed

section \<open>String sequences\<close>

lemma set_caption_ok: "wf_term s \<Longrightarrow> 0 \<in> set (drop i (sbuf (str s))) \<Longrightarrow> \<exists>s'. set_caption i s = Some s' \<and> keeps s s'"
  by (simp add: set_caption_def cstring_def keeps_def)

text \<open>The buffer when a string ends: at least one zero byte is left after the text.\<close>

definition str_complete :: "strescape \<Rightarrow> bool" where
  "str_complete e \<longleftrightarrow> length (sbuf e) = 256 \<and> sbuf e ! 255 = 0"

lemma strhandle_ok:
  assumes "wf_term s" "str_complete (str s)"
  shows "\<exists>s'. strhandle s = Some s' \<and> keeps s s'"
proof -
  let ?b = "sbuf (str s)"
  have l: "length ?b = 256" using assms by (simp add: str_complete_def)
  have z: "0 \<in> set (drop i ?b)" if "i < 256" for i
  proof -
    have "drop i ?b ! (255 - i) = 0" "255 - i < length (drop i ?b)" using that assms(2) l by (auto simp: str_complete_def)
    then show ?thesis by (metis nth_mem)
  qed
  have c: "\<exists>s'. set_caption i s = Some s' \<and> keeps s s'" if "i < 256" for i
    using set_caption_ok [OF assms(1) z [OF that]] .
  show ?thesis
    using l c [of 0] c [of 1] c [of 2] keeps_refl [OF assms(1)] by (simp add: strhandle_def aget_Some)
qed


section \<open>Printing and parsing parameters\<close>

text \<open>The decimal text of a number, and of parameters separated by semicolons.\<close>

fun decimal :: "nat \<Rightarrow> byte list" where
  "decimal n = (if n < 10 then [word_of_nat (48 + n)] else decimal (n div 10) @ [word_of_nat (48 + n mod 10)])"

declare decimal.simps [simp del]

fun params_text :: "nat list \<Rightarrow> byte list" where
  "params_text [] = []"
| "params_text [n] = decimal n"
| "params_text (n # ns) = decimal n @ chr CHR '';'' # params_text ns"

definition digits_value :: "int \<Rightarrow> byte list \<Rightarrow> int" where
  "digits_value a ds = foldl (\<lambda>a d. a * 10 + (uint d - 48)) a ds"

lemma digits_value_ge: "\<forall>d \<in> set ds. isdigit d \<Longrightarrow> 0 \<le> a \<Longrightarrow> a \<le> digits_value a ds"
proof (induction ds arbitrary: a)
  case (Cons d ds)
  then have "0 \<le> uint d - 48" using isdigit_uint [of d] by simp
  with Cons.prems Cons.IH [of "a * 10 + (uint d - 48)"] show ?case by (simp add: digits_value_def)
qed (simp add: digits_value_def)

lemma csi_digits_text:
  "\<forall>d \<in> set ds. isdigit d \<Longrightarrow> 0 \<le> a \<Longrightarrow> digits_value a ds \<le> INT_MAX \<Longrightarrow> 0 \<le> p \<Longrightarrow>
   drop (nat p) buf = ds @ c # t \<Longrightarrow> \<not> isdigit c \<Longrightarrow>
   csi_digits buf p a = Some (p + int (length ds), digits_value a ds)"
proof (induction ds arbitrary: a p)
  case Nil
  then have "nat p < length buf" by (metis append_Nil drop_all list.distinct(1) not_le)
  then have "aget buf p = Some c" using Nil by (auto simp: aget_def nth_via_drop)
  with Nil show ?case by (subst csi_digits.simps) (simp add: digits_value_def)
next
  case (Cons d ds)
  then have l: "nat p < length buf" by (metis append_Cons drop_all list.distinct(1) not_le)
  then have g: "aget buf p = Some d" using Cons.prems by (auto simp: aget_def nth_via_drop)
  have d: "isdigit d" "0 \<le> uint d - 48" "uint d - 48 \<le> 9" using Cons.prems isdigit_uint [of d] by auto
  have v: "digits_value a (d # ds) = digits_value (a * 10 + (uint d - 48)) ds" by (simp add: digits_value_def)
  then have le: "a * 10 + (uint d - 48) \<le> INT_MAX"
    using digits_value_ge [of ds "a * 10 + (uint d - 48)"] Cons.prems d by simp
  then have i: "i32 (a * 10) = Some (a * 10)" "i32 (a * 10 + (uint d - 48)) = Some (a * 10 + (uint d - 48))"
    using Cons.prems d by (simp_all add: INT_MIN_def)
  have n: "nat (p + 1) = Suc (nat p)" using Cons.prems by simp
  have dr: "drop (Suc (nat p)) buf = ds @ c # t"
    using Cons.prems(5) by (metis append_Cons drop_Suc list.sel(3) tl_drop)
  have "csi_digits buf (p + 1) (a * 10 + (uint d - 48)) = Some (p + 1 + int (length ds), digits_value (a * 10 + (uint d - 48)) ds)"
    using Cons.prems d v dr by (intro Cons.IH) (auto simp: n)
  with g d i v show ?case by (subst csi_digits.simps) simp
qed

lemma digit_byte: "n < 10 \<Longrightarrow> unat (word_of_nat (48 + n) :: byte) = 48 + n"
  by (simp add: unat_of_nat del: of_nat_add)

lemma decimal_digits: "\<forall>d \<in> set (decimal n). isdigit d"
proof (induction n rule: decimal.induct)
  case (1 n)
  have m: "n mod 10 < 10" by simp
  show ?case
    using 1 digit_byte [of n] digit_byte [OF m] by (subst decimal.simps) (auto simp: isdigit_def simp del: of_nat_add)
qed

lemma decimal_value: "digits_value 0 (decimal n) = int n"
proof (induction n rule: decimal.induct)
  case (1 n)
  have u: "uint (word_of_nat (48 + k) :: byte) - 48 = int k" if "k < 10" for k
    using digit_byte [OF that] that by (simp add: uint_nat del: of_nat_add)
  show ?case
  proof (cases "n < 10")
    case True
    then show ?thesis using u [of n] by (subst decimal.simps) (simp add: digits_value_def del: of_nat_add)
  next
    case False
    have "digits_value 0 (decimal n) = digits_value 0 (decimal (n div 10)) * 10 + (uint (word_of_nat (48 + n mod 10) :: byte) - 48)"
      using False by (subst decimal.simps) (simp add: digits_value_def del: of_nat_add)
    moreover have "int (n div 10) * 10 + int (n mod 10) = int n"
      using div_mult_mod_eq [of n 10] by (metis of_nat_add of_nat_mult of_nat_numeral)
    ultimately show ?thesis using 1 False u [of "n mod 10"] by simp
  qed
qed

lemma csi_params_text:
  "ns \<noteq> [] \<Longrightarrow> \<forall>n \<in> set ns. int n \<le> INT_MAX \<Longrightarrow> narg + length ns \<le> 16 \<Longrightarrow> length args = 16 \<Longrightarrow>
   \<forall>i. narg \<le> i \<and> i < 16 \<longrightarrow> args ! i = 0 \<Longrightarrow> drop p buf = params_text ns @ fin # t \<Longrightarrow>
   int p + int (length (params_text ns)) < len \<Longrightarrow> \<not> isdigit fin \<Longrightarrow> fin \<noteq> chr CHR '';'' \<Longrightarrow>
   csi_params buf len (int p) (int narg) args =
     Some (take narg args @ map int ns @ drop (narg + length ns) args, int narg + int (length ns), Some fin)"
proof (induction ns arbitrary: p narg args)
  case (Cons n ns)
  let ?ds = "decimal n"
  have len: "int p < len" using Cons.prems(7) by simp
  have a0: "aget args (int narg) = Some 0" using Cons.prems by (simp add: aget_def)
  have semi: "\<not> isdigit (chr CHR '';'')" by (simp add: isdigit_def chr_def)
  have dl: "0 < length ?ds" by (subst decimal.simps) simp
  have st: "aset args (int narg) v = Some (args[narg := v])" for v using Cons.prems by (simp add: aset_def)
  have up: "args[narg := int n] = take narg args @ int n # drop (narg + 1) args"
    using Cons.prems by (simp add: upd_conv_take_nth_drop)
  show ?case
  proof (cases ns)
    case Nil
    have d: "csi_digits buf (int p) 0 = Some (int p + int (length ?ds), int n)"
      using csi_digits_text [OF decimal_digits, of 0 n "int p" buf fin t] Cons.prems Nil decimal_value by simp
    have f: "buf ! (p + length ?ds) = fin" "p + length ?ds < length buf"
      using Cons.prems(6) Nil
      by (metis (no_types, lifting) append.assoc drop_drop add.commute nth_via_drop append_eq_conv_conj params_text.simps(2),
          metis Nil_is_append_conv append_eq_conv_conj drop_drop add.commute drop_all list.distinct(1) not_le params_text.simps(2))
    have b: "aget buf (int p + int (length ?ds)) = Some fin" using f by (simp add: aget_def nat_add_distrib)
    show ?thesis
      using len a0 d st b Cons.prems(9) Nil up by (subst csi_params.simps) simp
  next
    case (Cons m ms)
    let ?t' = "params_text ns @ fin # t"
    have dr: "drop p buf = ?ds @ chr CHR '';'' # ?t'" using Cons.prems(6) Cons by simp
    have d: "csi_digits buf (int p) 0 = Some (int p + int (length ?ds), int n)"
      using csi_digits_text [OF decimal_digits, of 0 n "int p" buf "chr CHR '';''" ?t'] Cons.prems dr semi decimal_value by simp
    have q: "drop (p + length ?ds) buf = chr CHR '';'' # ?t'" using dr by (metis append_eq_conv_conj drop_drop add.commute)
    then have "buf ! (p + length ?ds) = chr CHR '';''" "p + length ?ds < length buf"
      by (rule nth_via_drop, metis drop_all list.distinct(1) not_le)
    then have b: "aget buf (int p + int (length ?ds)) = Some (chr CHR '';'')"
      by (simp add: aget_def nat_add_distrib)
    have q': "drop (p + length ?ds + 1) buf = ?t'" using q by (metis Suc_eq_plus1 drop_Suc list.sel(3) tl_drop)
    have "csi_params buf len (int (p + length ?ds + 1)) (int (narg + 1)) (args[narg := int n]) =
      Some (take (narg + 1) (args[narg := int n]) @ map int ns @ drop (narg + 1 + length ns) (args[narg := int n]),
        int (narg + 1) + int (length ns), Some fin)"
      using Cons.prems Cons q' by (intro Cons.IH) auto
    moreover have "csi_params buf len (int p) (int narg) args =
       csi_params buf len (int p + int (length ?ds) + 1) (int narg + 1) (args[narg := int n])"
      using len a0 d st b Cons.prems(3) Cons by (subst csi_params.simps) simp
    moreover have "take (narg + 1) (args[narg := int n]) @ map int ns @ drop (narg + 1 + length ns) (args[narg := int n])
       = take narg args @ map int (n # ns) @ drop (narg + length (n # ns)) args"
      using Cons.prems by (simp add: up take_Suc_conv_app_nth add.commute)
    moreover have "int (p + length ?ds + 1) = int p + int (length ?ds) + 1" "int (narg + 1) = int narg + 1"
      "int (narg + 1) + int (length ns) = int narg + int (length (n # ns))" by simp_all
    ultimately show ?thesis by metis
  qed
qed simp


text \<open>A complete sequence in the buffer: a question mark or not, parameters, the final byte.\<close>

lemma csiparse_text:
  assumes "ns \<noteq> []" "length ns \<le> 16" "\<forall>n \<in> set ns. int n \<le> INT_MAX"
    and "\<not> isdigit fin" "fin \<noteq> chr CHR '';''"
    and "cbuf c = (if q then [chr CHR ''?''] else []) @ params_text ns @ fin # t"
    and "clen c = int (length (params_text ns)) + (if q then 2 else 1)" "carg c = replicate 16 0"
  shows "csiparse c = Some (c\<lparr>cpriv := cpriv c \<or> q, carg := map int ns @ replicate (16 - length ns) 0,
    cnarg := int (length ns), cmode := fin\<rparr>)"
proof -
  obtain d ds where d: "params_text ns = d # ds" "isdigit d"
  proof -
    obtain n ms where ns: "ns = n # ms" using assms(1) by (cases ns) auto
    have "decimal n \<noteq> []" by (subst decimal.simps) simp
    then obtain d ds where n: "decimal n = d # ds" by (cases "decimal n") auto
    then have "isdigit d" using decimal_digits [of n] by simp
    with n ns that show ?thesis by (cases ms) auto
  qed
  have nq: "d \<noteq> chr CHR ''?''" using d(2) by (auto simp: isdigit_def chr_def)
  have b: "aget (cbuf c) 0 = Some (cbuf c ! 0)" and q: "cbuf c ! 0 = chr CHR ''?'' \<longleftrightarrow> q"
    using assms(6) d nq by (auto simp: aget_def)
  have p: "drop (if q then 1 else 0) (cbuf c) = params_text ns @ fin # t" using assms(6) by simp
  have "csi_params (cbuf c) (clen c) (int (if q then 1 else 0)) (int 0) (carg c) =
     Some (take 0 (carg c) @ map int ns @ drop (0 + length ns) (carg c), int 0 + int (length ns), Some fin)"
    by (rule csi_params_text [OF assms(1,3) _ _ _ p]) (use assms in auto)
  then show ?thesis using b q assms(8) by (cases q) (simp_all add: csiparse_def)
qed

end
