(* ===== verification/Tputc.thy ===== *)
theory Tputc
  imports Csi_Laws
begin

text \<open>
  The character interpreter \<open>tputc\<close> of simple-terminal
  (src/package/simple-terminal/src/main.c) with the log of option \<open>-o\<close>, and the input loop
  \<open>ttyread\<close>. The results of the \<open>write\<close> and \<open>read\<close> system calls are arguments.
\<close>

section \<open>The log\<close>

text \<open>
  \<open>xwrite(fd, s, len)\<close>, given what the successive calls of \<open>write\<close> return: whether it succeeds,
  and the bytes written. It has no result while the calls do not suffice, or when \<open>write\<close>
  claims more than it was given.
\<close>

fun xwrite :: "int list \<Rightarrow> byte list \<Rightarrow> (bool \<times> byte list) option" where
  "xwrite rs [] = Some (True, [])"
| "xwrite [] (b # bs) = None"
| "xwrite (r # rs) (b # bs) =
     (if r < 0 then Some (False, [])
      else if r > int (length (b # bs)) then None
      else do {
        (ok, w) \<leftarrow> xwrite rs (drop (nat r) (b # bs));
        Some (ok, take (nat r) (b # bs) @ w) })"

definition tputc_log :: "byte list \<Rightarrow> nat \<Rightarrow> int list \<Rightarrow> st \<Rightarrow> st option" where
  "tputc_log c len rs s =
     (if iofd s \<noteq> -1 then
        if len \<le> length c then do {
          (ok, w) \<leftarrow> xwrite rs (take len c);
          let s = s\<lparr>iolog := iolog s @ w\<rparr>;
          Some (if ok then s else s\<lparr>iofd := -1\<rparr>) }
        else None
      else Some s)"

section \<open>The states of the interpreter\<close>

text \<open>Inside a string sequence (ESC_STR).\<close>

definition tputc_str :: "byte \<Rightarrow> st \<Rightarrow> st option" where
  "tputc_str ascii s =
     (if ascii = 0x1B then Some (s\<lparr>tesc := ESC_START OR ESC_STR_END\<rparr>)
      else if ascii = 0x07 then strhandle (s\<lparr>tesc := 0\<rparr>)
      else do {
        b \<leftarrow> aset (sbuf (str s)) (slen (str s)) ascii;
        let s = s\<lparr>str := (str s)\<lparr>sbuf := b, slen := slen (str s) + 1\<rparr>\<rparr>;
        if slen (str s) + 1 \<ge> STR_BUF_SIZ then strhandle (s\<lparr>tesc := 0\<rparr>) else Some s })"

text \<open>The control codes that are acted on at once; \<open>None\<close> for the others, which go on.\<close>

definition tputc_control :: "byte \<Rightarrow> st \<Rightarrow> (st option) option" where
  "tputc_control ascii s =
     (if ascii = 0x09 then Some (tputtab True s)
      else if ascii = 0x08 then Some (Some (tmoveto (cx (tcur s) - 1) (cy (tcur s)) s))
      else if ascii = 0x0D then Some (Some (tmoveto 0 (cy (tcur s)) s))
      else if ascii = 0x0C \<or> ascii = 0x0B \<or> ascii = 0x0A then Some (tnewline (flag (tmode s) MODE_CRLF) s)
      else if ascii = 0x07 then Some (Some s)
      else if ascii = 0x1B then Some (Some ((csireset s)\<lparr>tesc := ESC_START\<rparr>))
      else if ascii = 0x0E then
        Some (Some (s\<lparr>tcur := (tcur s)\<lparr>cattr := (cattr (tcur s))\<lparr>gmode := gmode (cattr (tcur s)) OR ATTR_GFX\<rparr>\<rparr>\<rparr>))
      else if ascii = 0x0F then
        Some (Some (s\<lparr>tcur := (tcur s)\<lparr>cattr := (cattr (tcur s))\<lparr>gmode := gmode (cattr (tcur s)) AND NOT ATTR_GFX\<rparr>\<rparr>\<rparr>))
      else if ascii = 0x1A \<or> ascii = 0x18 then Some (Some (csireset s))
      else if ascii = 0x05 \<or> ascii = 0x00 \<or> ascii = 0x11 \<or> ascii = 0x13 \<or> ascii = 0x7F then Some (Some s)
      else None)"

text \<open>Inside a control sequence (ESC_CSI).\<close>

definition tputc_csi :: "byte \<Rightarrow> st \<Rightarrow> st option" where
  "tputc_csi ascii s = do {
     b \<leftarrow> aset (cbuf (csi s)) (clen (csi s)) ascii;
     let s = s\<lparr>csi := (csi s)\<lparr>cbuf := b, clen := clen (csi s) + 1\<rparr>\<rparr>;
     if (0x40 \<le> ascii \<and> ascii \<le> 0x7E) \<or> clen (csi s) \<ge> ESC_BUF_SIZ
     then do {
       let s = s\<lparr>tesc := 0\<rparr>;
       c \<leftarrow> csiparse (csi s);
       csihandle (s\<lparr>csi := c\<rparr>) }
     else Some s }"

text \<open>After \<open>ESC (\<close> (ESC_ALTCHARSET).\<close>

definition tputc_charset :: "byte \<Rightarrow> st \<Rightarrow> st" where
  "tputc_charset ascii s =
     (let g = cattr (tcur s);
          g = (if ascii = chr CHR ''0'' then g\<lparr>gmode := gmode g OR ATTR_GFX\<rparr>
               else if ascii = chr CHR ''B'' then g\<lparr>gmode := gmode g AND NOT ATTR_GFX\<rparr> else g)
      in s\<lparr>tcur := (tcur s)\<lparr>cattr := g\<rparr>, tesc := 0\<rparr>)"

text \<open>After \<open>ESC #\<close> (ESC_TEST): the alignment test fills the screen with E.\<close>

definition tputc_test :: "byte \<Rightarrow> st \<Rightarrow> st option" where
  "tputc_test ascii s = do {
     s \<leftarrow> (if ascii = chr CHR ''8'' then
            for_up 0 (tcol s - 1) (\<lambda>x. for_up 0 (trow s - 1) (\<lambda>y s.
              tsetchar [0x45, 0, 0, 0] (cattr (tcur s)) x y s)) s
          else Some s);
     Some (s\<lparr>tesc := 0\<rparr>) }"

text \<open>After ESC alone.\<close>

definition esc_ind :: "st \<Rightarrow> st option" where
  "esc_ind s = (if cy (tcur s) = tbot s then tscrollup (ttop s) 1 s
     else Some (tmoveto (cx (tcur s)) (cy (tcur s) + 1) s))"

definition esc_ri :: "st \<Rightarrow> st option" where
  "esc_ri s = (if cy (tcur s) = ttop s then tscrolldown (ttop s) 1 s
     else Some (tmoveto (cx (tcur s)) (cy (tcur s) - 1) s))"

definition esc_hts :: "st \<Rightarrow> st option" where
  "esc_hts s = do { t \<leftarrow> aset (ttabs s) (cx (tcur s)) True; Some (s\<lparr>ttabs := t\<rparr>) }"

text \<open>\<open>sdlresettitle\<close>, with the title of option \<open>-t\<close> or the name st.\<close>

definition sdlresettitle :: "byte list option \<Rightarrow> st \<Rightarrow> st" where
  "sdlresettitle opt_title s =
     s\<lparr>title := title s @ [case opt_title of Some t \<Rightarrow> t | None \<Rightarrow> [0x73, 0x74]]\<rparr>"

definition esc_done :: "st option \<Rightarrow> st option" where
  "esc_done r = do { s \<leftarrow> r; Some (s\<lparr>tesc := 0\<rparr>) }"

definition tputc_esc :: "byte list option \<Rightarrow> byte \<Rightarrow> st \<Rightarrow> st option" where
  "tputc_esc opt_title a s =
     (if a = chr CHR ''['' then Some (s\<lparr>tesc := tesc s OR ESC_CSI\<rparr>)
      else if a = chr CHR ''#'' then Some (s\<lparr>tesc := tesc s OR ESC_TEST\<rparr>)
      else if a = chr CHR ''P'' \<or> a = chr CHR ''_'' \<or> a = chr CHR ''^'' \<or> a = chr CHR '']'' \<or> a = chr CHR ''k'' then
        (let s = strreset s in Some (s\<lparr>str := (str s)\<lparr>stype := a\<rparr>, tesc := tesc s OR ESC_STR\<rparr>))
      else if a = chr CHR ''('' then Some (s\<lparr>tesc := tesc s OR ESC_ALTCHARSET\<rparr>)
      else if a = chr CHR '')'' \<or> a = chr CHR ''*'' \<or> a = chr CHR ''+'' then Some (s\<lparr>tesc := 0\<rparr>)
      else if a = chr CHR ''D'' then esc_done (esc_ind s)
      else if a = chr CHR ''E'' then esc_done (tnewline True s)
      else if a = chr CHR ''H'' then esc_done (esc_hts s)
      else if a = chr CHR ''M'' then esc_done (esc_ri s)
      else if a = chr CHR ''Z'' then esc_done (Some (ttywrite VT102ID s))
      else if a = chr CHR ''c'' then do { s \<leftarrow> esc_done (treset s); Some (sdlresettitle opt_title s) }
      else if a = chr CHR ''='' then esc_done (Some (s\<lparr>tmode := tmode s OR MODE_APPKEYPAD\<rparr>))
      else if a = chr CHR ''>'' then esc_done (Some (s\<lparr>tmode := tmode s AND NOT MODE_APPKEYPAD\<rparr>))
      else if a = chr CHR ''7'' then esc_done (Some (tcursor CURSOR_SAVE s))
      else if a = chr CHR ''8'' then esc_done (Some (tcursor CURSOR_LOAD s))
      else Some (s\<lparr>tesc := 0\<rparr>))"

text \<open>The character is shown at the cursor, which moves on or waits at the last column.\<close>

definition tputc_print :: "byte list \<Rightarrow> st \<Rightarrow> st option" where
  "tputc_print c s = do {
     let s = (if selbx (sel s) \<noteq> -1 \<and> BETWEEN (cy (tcur s)) (selby (sel s)) (seley (sel s))
              then s\<lparr>sel := (sel s)\<lparr>selbx := -1\<rparr>\<rparr> else s);
     s \<leftarrow> (if flag (tmode s) MODE_WRAP \<and> flag (cstate (tcur s)) CURSOR_WRAPNEXT then tnewline True s else Some s);
     s \<leftarrow> tsetchar c (cattr (tcur s)) (cx (tcur s)) (cy (tcur s)) s;
     Some (if cx (tcur s) + 1 < tcol s then tmoveto (cx (tcur s) + 1) (cy (tcur s)) s
           else s\<lparr>tcur := (tcur s)\<lparr>cstate := cstate (tcur s) OR CURSOR_WRAPNEXT\<rparr>\<rparr>) }"

definition control_code :: "byte \<Rightarrow> bool" where
  "control_code ascii \<longleftrightarrow> ascii < 0x20 \<or> ascii = 0x7F"

text \<open>\<open>tputc(c, len)\<close>: \<open>c\<close> points at four bytes.\<close>

definition tputc :: "byte list option \<Rightarrow> byte list \<times> nat \<times> int list \<Rightarrow> st \<Rightarrow> st option" where
  "tputc opt_title e s = (case e of (c, len, rs) \<Rightarrow> do {
     ascii \<leftarrow> aget c 0;
     let control = control_code ascii;
     s \<leftarrow> tputc_log c len rs s;
     if flag (tesc s) ESC_STR then tputc_str ascii s
     else
       case (if control then tputc_control ascii s else None) of
         Some r \<Rightarrow> r
       | None \<Rightarrow>
           if \<not> control \<and> flag (tesc s) ESC_START then
             if flag (tesc s) ESC_CSI then tputc_csi ascii s
             else if flag (tesc s) ESC_STR_END then
               (let s = s\<lparr>tesc := 0\<rparr> in if ascii = chr (CHR 0x5C) then strhandle s else Some s)
             else if flag (tesc s) ESC_ALTCHARSET then Some (tputc_charset ascii s)
             else if flag (tesc s) ESC_TEST then tputc_test ascii s
             else tputc_esc opt_title ascii s
           else if control \<and> \<not> flag (gmode (cattr (tcur s))) ATTR_GFX then Some s
           else tputc_print c s })"

section \<open>The input loop\<close>

text \<open>
  The loop of \<open>ttyread\<close> on the bytes read so far: \<open>buf\<close> is what is left to process, \<open>s4\<close> the
  four bytes of the local \<open>s\<close>, and \<open>rss\<close> gives the results of \<open>write\<close> for each character.
  \<open>utf8encode\<close> overwrites the first bytes of \<open>s\<close> only. The result is the rest that is kept
  for the next read.
\<close>

definition store_bytes :: "byte list \<Rightarrow> byte list \<Rightarrow> byte list option" where
  "store_bytes s4 bs = (if length bs \<le> length s4 then Some (bs @ drop (length bs) s4) else None)"

function ttyread_loop :: "byte list option \<Rightarrow> byte list \<Rightarrow> byte list \<Rightarrow> int list list \<Rightarrow> st \<Rightarrow> (byte list \<times> byte list \<times> st) option" where
  "ttyread_loop opt_title buf s4 rss s =
     (if length buf \<ge> UTF_SIZ \<or> isfullutf8 buf (length buf) then
        case utf8decode buf of
          None \<Rightarrow> None
        | Some (charsize, u) \<Rightarrow>
            if charsize = 0 \<or> length buf < charsize then None
            else do {
              s4 \<leftarrow> store_bytes s4 (utf8encode u);
              s \<leftarrow> tputc opt_title (s4, charsize, case rss of [] \<Rightarrow> [] | rs # _ \<Rightarrow> rs) s;
              ttyread_loop opt_title (drop charsize buf) s4 (tl rss) s }
      else Some (buf, s4, s))"
  by pat_completeness auto
termination
  by (relation "measure (\<lambda>(t, buf, s4, rss, s). length buf)") auto

declare ttyread_loop.simps [simp del]

text \<open>
  \<open>ttyread\<close>: \<open>keep\<close> is the static buffer's unprocessed part, \<open>inp\<close> what \<open>read\<close> returned, and
  \<open>s4\<close> the indeterminate contents of the local array. \<open>read\<close> is asked for the space left in
  the buffer of BUFSIZ (8192) bytes.
\<close>

definition ttyread :: "byte list option \<Rightarrow> byte list \<Rightarrow> byte list \<Rightarrow> int list list \<Rightarrow> byte list \<times> st \<Rightarrow> (byte list \<times> st) option" where
  "ttyread opt_title inp s4 rss ks = (case ks of (keep, s) \<Rightarrow>
     if length keep + length inp \<le> 8192
     then do { (keep, s4, s) \<leftarrow> ttyread_loop opt_title (keep @ inp) s4 rss s; Some (keep, s) }
     else None)"

end
