(* ===== verification/Tputc_Laws.thy ===== *)
theory Tputc_Laws
  imports Tputc
begin

text \<open>
  The interpreter as a machine over characters: on every state that satisfies the invariant
  \<open>wf_st\<close>, every acceptable character has a defined result that satisfies it again. What a
  character shows, how a window title is read and how a cursor address is followed are
  derived for whole sequences, and \<open>ttyread\<close> is tied to the decomposition of its input into
  characters, which does not depend on how the input was cut into reads.
\<close>

section \<open>The invariant from step to step\<close>

lemma wf_esc_update [simp]:
  "wf_esc (s\<lparr>iolog := l\<rparr>) = wf_esc s" "wf_esc (s\<lparr>iofd := j\<rparr>) = wf_esc s"
  "wf_esc (s\<lparr>sel := e\<rparr>) = wf_esc s" "wf_esc (s\<lparr>title := t\<rparr>) = wf_esc s" "wf_esc (s\<lparr>tcur := c\<rparr>) = wf_esc s"
  by (simp_all add: wf_esc_def)

lemma wf_esc_zero: "tesc s = 0 \<Longrightarrow> wf_esc s"
  by (simp add: wf_esc_def esc_states_def flag_def)

lemma wf_contract: "wf_st s \<Longrightarrow> contract s s' \<Longrightarrow> wf_st s'"
  using restD(3-5) [of s' s] by (simp add: wf_st_def contract_def wf_esc_def)

lemma wf_keeps: "tesc s = 0 \<Longrightarrow> keeps s s' \<Longrightarrow> wf_st s'"
  by (simp add: wf_st_def keeps_def core_def wf_esc_zero)

definition good :: "st option \<Rightarrow> bool" where
  "good r \<longleftrightarrow> (\<exists>s'. r = Some s' \<and> wf_st s')"

lemma good_Some [simp]: "good (Some s) = wf_st s"
  by (simp add: good_def)

lemma good_op: "wf_st s \<Longrightarrow> screen_op f \<Longrightarrow> good (f s)"
proof -
  assume "wf_st s" "screen_op f"
  then obtain s' where "f s = Some s'" "contract s s'" using screen_op.op_ok by (metis wf_st_def)
  with wf_contract [OF \<open>wf_st s\<close>] show ?thesis by (simp add: good_def)
qed

lemma good_contract: "wf_st s \<Longrightarrow> contract s s' \<Longrightarrow> good (Some s')"
  using wf_contract by (simp add: good_def)

lemma good_if: "(c \<Longrightarrow> good a) \<Longrightarrow> (\<not> c \<Longrightarrow> good b) \<Longrightarrow> good (if c then a else b)"
  by simp

lemma good_esc_done: "wf_st s \<Longrightarrow> screen_op f \<Longrightarrow> good (esc_done (f s))"
  using screen_op.op_ok [of f s] by (auto simp: esc_done_def good_def wf_st_def contract_def wf_esc_zero)

lemma good_esc_done_Some: "wf_term s \<Longrightarrow> good (esc_done (Some s))"
  by (simp add: esc_done_def good_def wf_st_def wf_esc_zero)

lemma wf_csireset: "wf_csi (csi (csireset s))"
  by (simp add: csireset_def wf_csi_def zero_from_def)

lemma wf_strreset: "wf_str (str (strreset s)\<lparr>stype := a\<rparr>)"
  by (simp add: strreset_def wf_str_def zero_from_def)

section \<open>The states\<close>

lemma esc_flags [simp]:
  "x \<in> set esc_states \<Longrightarrow> flag x ESC_STR \<longleftrightarrow> x = 5"
  "x \<in> set esc_states \<Longrightarrow> flag x ESC_CSI \<longleftrightarrow> x = 3"
  "x \<in> set esc_states \<Longrightarrow> flag x ESC_STR_END \<longleftrightarrow> x = 17"
  "x \<in> set esc_states \<Longrightarrow> flag x ESC_ALTCHARSET \<longleftrightarrow> x = 9"
  "x \<in> set esc_states \<Longrightarrow> flag x ESC_TEST \<longleftrightarrow> x = 33"
  "x \<in> set esc_states \<Longrightarrow> flag x ESC_START \<longleftrightarrow> x \<noteq> 0"
  "x \<in> set esc_states \<Longrightarrow> flag x (ESC_STR OR ESC_STR_END) \<longleftrightarrow> x = 5 \<or> x = 17"
  by (auto simp: esc_states_def flag_def)

text \<open>What the parser's buffers satisfy in each state.\<close>

lemma wf_escD:
  assumes "wf_st s"
  shows "tesc s \<in> set esc_states" "tesc s = 3 \<Longrightarrow> wf_csi (csi s)" "tesc s = 1 \<Longrightarrow> wf_csi (csi s)"
    "tesc s = 5 \<Longrightarrow> wf_str (str s)" "tesc s = 17 \<Longrightarrow> wf_str (str s)" "wf_term s"
  using assms by (auto simp: wf_st_def wf_esc_def flag_def)

lemma wf_str_complete: "wf_str e \<Longrightarrow> str_complete e"
  by (simp add: wf_str_def str_complete_def zero_from_def)

lemma good_strhandle: "wf_term s \<Longrightarrow> str_complete (str s) \<Longrightarrow> tesc s = 0 \<Longrightarrow> good (strhandle s)"
  using strhandle_ok wf_keeps by (fastforce simp: good_def)

lemma tputc_str_good:
  assumes "wf_st s" "tesc s = 5"
  shows "good (tputc_str ascii s)"
proof -
  note e = wf_escD [OF assms(1)]
  have w: "wf_str (str s)" using e assms by simp
  then have l: "length (sbuf (str s)) = 256" "0 \<le> slen (str s)" "slen (str s) < 255" "zero_from (sbuf (str s)) (slen (str s))"
    by (auto simp: wf_str_def)
  let ?b = "(sbuf (str s))[nat (slen (str s)) := ascii]"
  let ?e = "(str s)\<lparr>sbuf := ?b, slen := slen (str s) + 1\<rparr>"
  have z: "zero_from ?b (slen (str s) + 1)" using zero_from_update [OF l(4,2)] .
  have a: "aset (sbuf (str s)) (slen (str s)) ascii = Some ?b" using l by (simp add: aset_Some)
  have full: "str_complete ?e" using l z by (auto simp: str_complete_def zero_from_def)
  have h: "good (strhandle (s\<lparr>str := ?e, tesc := 0\<rparr>))" "good (strhandle (s\<lparr>tesc := 0\<rparr>))"
    using e(6) full wf_str_complete [OF w] by (auto intro!: good_strhandle)
  have more: "wf_st (s\<lparr>str := ?e\<rparr>)" if "slen (str s) + 2 < 256"
    using assms e that l z by (simp add: wf_st_def wf_esc_def wf_str_def)
  have se: "wf_st (s\<lparr>tesc := ESC_START OR ESC_STR_END\<rparr>)"
    using e assms w by (simp add: wf_st_def wf_esc_def esc_states_def flag_def)
  show ?thesis
    using a h more se by (simp add: tputc_str_def Let_def)
qed

lemma wf_gfx: "wf_st s \<Longrightarrow> wf_st (s\<lparr>tcur := (tcur s)\<lparr>cattr := (cattr (tcur s))\<lparr>gmode := m\<rparr>\<rparr>\<rparr>)"
  using wf_termD(9) [of s] by (simp add: wf_st_def wf_term_attr(1) ok_colors_def)

lemma tputc_control_good:
  assumes "wf_st s" "tesc s \<noteq> 5" "tputc_control ascii s = Some r"
  shows "good r"
proof -
  note e = wf_escD [OF assms(1)]
  have m: "good (Some (tmoveto x y s))" for x y
    using good_contract [OF assms(1) contract_tmoveto [OF e(6)]] .
  have c: "wf_st (csireset s)"
    using assms e wf_csireset [of s] by (auto simp: wf_st_def wf_esc_def csireset_def)
  have c1: "wf_st ((csireset s)\<lparr>tesc := ESC_START\<rparr>)"
    using e(6) wf_csireset [of s] by (simp add: wf_st_def wf_esc_def esc_states_def flag_def csireset_def)
  note ops = good_op [OF assms(1) tputtab_op] good_op [OF assms(1) tnewline_op]
  show ?thesis
    using assms(3) m c c1 ops wf_gfx [OF assms(1)] assms(1)
    by (auto simp: tputc_control_def split: if_splits)
qed

lemma take_update_last:
  "0 \<le> n \<Longrightarrow> n < int (length xs) \<Longrightarrow> take (nat (n + 1)) (xs[nat n := c]) = take (nat n) xs @ [c]"
  by (simp add: nat_add_distrib take_Suc_conv_app_nth)

text \<open>The digits a control sequence may still take.\<close>

definition digit_room :: "byte \<Rightarrow> st \<Rightarrow> bool" where
  "digit_room ascii s \<longleftrightarrow> (isdigit ascii \<longrightarrow> digit_run 0 (take (nat (clen (csi s))) (cbuf (csi s))) < 9)"

lemma tputc_csi_good:
  assumes "wf_st s" "tesc s = 3" "digit_room ascii s"
  shows "good (tputc_csi ascii s)"
proof -
  note e = wf_escD [OF assms(1)]
  have w: "wf_csi (csi s)" using e assms by simp
  then have l: "length (cbuf (csi s)) = 256" "0 \<le> clen (csi s)" "clen (csi s) < 256"
    "zero_from (cbuf (csi s)) (clen (csi s))" "digit_runs_ok 0 (take (nat (clen (csi s))) (cbuf (csi s)))"
    "carg (csi s) = replicate 16 0" "\<not> cpriv (csi s)"
    by (auto simp: wf_csi_def)
  let ?b = "(cbuf (csi s))[nat (clen (csi s)) := ascii]"
  let ?c = "(csi s)\<lparr>cbuf := ?b, clen := clen (csi s) + 1\<rparr>"
  have z: "zero_from ?b (clen (csi s) + 1)" using zero_from_update [OF l(4,2)] .
  have d: "digit_runs_ok 0 (take (nat (clen (csi s) + 1)) ?b)"
    using l assms(3) by (simp add: take_update_last digit_runs_ok_append digit_room_def)
  have a: "aset (cbuf (csi s)) (clen (csi s)) ascii = Some ?b" using l by (simp add: aset_Some)
  have "csi_complete ?c" using l z d by (simp add: csi_complete_def)
  from csiparse_ok [OF this] obtain c' where c': "csiparse ?c = Some c'" "args_ok (carg c')" "0 \<le> cnarg c'" "cnarg c' \<le> 16"
    by blast
  let ?s = "s\<lparr>tesc := 0, csi := c'\<rparr>"
  have "wf_term ?s" "csi_ready ?s" using e(6) c' by (simp_all add: csi_ready_def)
  from csihandle_ok [OF this] obtain s2 where "csihandle ?s = Some s2" "keeps ?s s2" by blast
  with wf_keeps [of ?s s2] have h: "good (csihandle ?s)" by (simp add: good_def)
  have more: "wf_st (s\<lparr>csi := ?c\<rparr>)" if "clen (csi s) + 1 < 256"
    using assms e that l z d by (simp add: wf_st_def wf_esc_def wf_csi_def)
  show ?thesis
    using a c'(1) h more by (simp add: tputc_csi_def Let_def not_le)
qed

lemma wf_charset: "wf_term s \<Longrightarrow> wf_st (tputc_charset ascii s)"
  using wf_termD(9) [of s]
  by (simp add: tputc_charset_def Let_def wf_st_def wf_esc_zero wf_term_attr(1) ok_colors_def)

lemma E_not_short: "\<not> short_gfx [0x45, 0, 0, 0] attr"
  by (simp add: short_gfx_def gfx_string_def vt100_0_def)

lemma tputc_test_good:
  assumes "wf_term s"
  shows "good (tputc_test ascii s)"
proof -
  let ?P = "\<lambda>_ s1. keeps s s1"
  have put: "\<exists>s2. tsetchar [0x45, 0, 0, 0] (cattr (tcur s1)) x y s1 = Some s2 \<and> keeps s s2"
    if "keeps s s1" "0 \<le> x" "x \<le> tcol s - 1" "0 \<le> y" "y \<le> trow s - 1" for s1 x y
  proof -
    note b = that
    have w: "wf_term s1" "tcol s1 = tcol s" "trow s1 = trow s" using that(1) by (auto simp: keeps_def core_def)
    then obtain s2 where "tsetchar [0x45, 0, 0, 0] (cattr (tcur s1)) x y s1 = Some s2" "contract s1 s2"
      using tsetchar_ok [OF w(1), of x y "[0x45, 0, 0, 0]" "cattr (tcur s1)"] E_not_short wf_termD(9) [OF w(1)] b by auto
    with b(1) show ?thesis using contract_keeps keeps_trans by blast
  qed
  have row: "\<exists>s2. for_up 0 (trow s1 - 1) (\<lambda>y s. tsetchar [0x45, 0, 0, 0] (cattr (tcur s)) x y s) s1 = Some s2 \<and> keeps s s2"
    if "keeps s s1" "0 \<le> x" "x \<le> tcol s - 1" for s1 x
  proof (rule for_up_inv [where P = ?P])
    show "keeps s s1" by fact
    fix y s2 assume "0 \<le> y" "y \<le> trow s1 - 1" "keeps s s2"
    moreover have "trow s1 = trow s" using that(1) by (auto simp: keeps_def core_def)
    ultimately show "\<exists>s'. tsetchar [0x45, 0, 0, 0] (cattr (tcur s2)) x y s2 = Some s' \<and> keeps s s'"
      using put that by simp
  qed
  obtain s1 where s1: "for_up 0 (tcol s - 1) (\<lambda>x s0. for_up 0 (trow s - 1) (\<lambda>y s.
              tsetchar [0x45, 0, 0, 0] (cattr (tcur s)) x y s) s0) s = Some s1" "keeps s s1"
  proof -
    have "\<exists>s1. for_up 0 (tcol s - 1) (\<lambda>x s0. for_up 0 (trow s - 1) (\<lambda>y s.
              tsetchar [0x45, 0, 0, 0] (cattr (tcur s)) x y s) s0) s = Some s1 \<and> keeps s s1"
    proof (rule for_up_inv [where P = ?P])
      show "keeps s s" using assms by (rule keeps_refl)
      fix x s2 assume x: "0 \<le> x" "x \<le> tcol s - 1" "keeps s s2"
      then have "trow s2 = trow s" by (auto simp: keeps_def core_def)
      with row [OF x(3,1,2)] show "\<exists>s'. for_up 0 (trow s - 1) (\<lambda>y s. tsetchar [0x45, 0, 0, 0] (cattr (tcur s)) x y s) s2 = Some s' \<and> keeps s s'"
        by simp
    qed
    then show ?thesis using that by blast
  qed
  have "wf_st (s1\<lparr>tesc := 0\<rparr>)" "wf_st (s\<lparr>tesc := 0\<rparr>)"
    using s1(2) assms by (simp_all add: wf_st_def wf_esc_zero keeps_def)
  then show ?thesis using s1(1) by (simp add: tputc_test_def)
qed


lemma esc_op_if: "screen_op f \<Longrightarrow> (\<And>s. wf_term s \<Longrightarrow> contract s (g s)) \<Longrightarrow> screen_op (\<lambda>s. if c s then f s else Some (g s))"
  by (rule screen_op_dep) (use screen_op_Some in metis)

lemma esc_ind_op: "screen_op esc_ind"
proof
  fix s assume s: "wf_term s"
  show "\<exists>s'. esc_ind s = Some s' \<and> contract s s'"
    using tscrollup_ok [OF s wf_termD(6) [OF s], of 1] contract_tmoveto [OF s] by (simp add: esc_ind_def)
qed

lemma esc_ri_op: "screen_op esc_ri"
proof
  fix s assume s: "wf_term s"
  show "\<exists>s'. esc_ri s = Some s' \<and> contract s s'"
    using tscrolldown_ok [OF s wf_termD(6) [OF s], of 1] contract_tmoveto [OF s] by (simp add: esc_ri_def)
qed

lemma esc_hts_op: "screen_op esc_hts"
proof
  fix s assume s: "wf_term s"
  have "contract s (s\<lparr>ttabs := (ttabs s)[nat (cx (tcur s)) := True]\<rparr>)"
    using s by (simp add: contract_def wf_term_def wf_geo_def wf_cursor_def wf_scroll_def)
  then show "\<exists>s'. esc_hts s = Some s' \<and> contract s s'"
    using wf_termD [OF s] wf_geoD(10) [OF wf_termD(1) [OF s]] by (simp add: esc_hts_def aset_Some)
qed

lemma wf_esc_OR:
  assumes "wf_st s" "tesc s = 1"
  shows "wf_st (s\<lparr>tesc := tesc s OR ESC_CSI\<rparr>)" "wf_st (s\<lparr>tesc := tesc s OR ESC_TEST\<rparr>)"
    "wf_st (s\<lparr>tesc := tesc s OR ESC_ALTCHARSET\<rparr>)"
    "wf_str (str s') \<Longrightarrow> wf_st (s\<lparr>tesc := tesc s OR ESC_STR, str := str s'\<rparr>)"
  using wf_escD [OF assms(1)] assms(2) by (simp_all add: wf_st_def wf_esc_def esc_states_def flag_def)

lemma tputc_esc_good:
  assumes "wf_st s" "tesc s = 1"
  shows "good (tputc_esc opt_title a s)"
proof -
  note e = wf_escD [OF assms(1)]
  have z: "good (Some (s\<lparr>tesc := 0\<rparr>))" using e(6) by (simp add: wf_st_def wf_esc_zero)
  have st: "good (Some ((strreset s)\<lparr>str := (str (strreset s))\<lparr>stype := a\<rparr>, tesc := tesc (strreset s) OR ESC_STR\<rparr>))"
    using e assms(2) wf_strreset [where s = s and a = a]
    by (simp add: wf_st_def wf_esc_def esc_states_def flag_def strreset_def)
  obtain s1 where s1: "treset s = Some s1" "contract s s1" using reset_op.op_ok [OF e(6)] by blast
  have rs: "good (do { s \<leftarrow> esc_done (treset s); Some (sdlresettitle opt_title s) })"
    using s1 by (simp add: esc_done_def sdlresettitle_def wf_st_def wf_esc_zero contract_def)
  have tc: "wf_term (tcursor m s)" for m using contract_tcursor [OF e(6)] by (simp add: contract_def)
  note dn = good_esc_done [OF assms(1) esc_ind_op] good_esc_done [OF assms(1) esc_ri_op]
    good_esc_done [OF assms(1) esc_hts_op] good_esc_done [OF assms(1) tnewline_op]
    good_esc_done_Some [OF tc] good_esc_done_Some [of "ttywrite VT102ID s"]
    good_esc_done_Some [of "s\<lparr>tmode := m\<rparr>" for m]
  show ?thesis
    unfolding tputc_esc_def Let_def
    by (intro good_if) (use dn z st rs wf_esc_OR [OF assms] e(6) in \<open>simp_all add: ttywrite_def strreset_def del: tcursor.simps\<close>)
qed

lemma contract_wrapnext: "wf_term s \<Longrightarrow> contract s (s\<lparr>tcur := (tcur s)\<lparr>cstate := w\<rparr>\<rparr>)"
  using wf_term_attr(2) by (simp add: contract_def)

lemma contract_sel: "wf_term s \<Longrightarrow> contract s (s\<lparr>sel := e\<rparr>)"
  by (simp add: contract_def)

text \<open>Printing is a screen operation for every character the graphics set does not cut short.\<close>

lemma tscrollup_attr:
  assumes "wf_term s" "0 \<le> orig" "1 \<le> n" "orig + n \<le> tbot s + 1" "tscrollup orig n s = Some s'"
  shows "tcur s' = tcur s" "tmode s' = tmode s" "tbot s' = tbot s" "ttop s' = ttop s"
proof -
  from tscrollup_rows [OF assms(1-4)] assms(5)
  have e: "s' = s\<lparr>tline := tline s', tdirty := tdirty s', sel := sel (selscroll orig (- n) s)\<rparr>" by auto
  show "tcur s' = tcur s" "tmode s' = tmode s" "tbot s' = tbot s" "ttop s' = ttop s" by (subst e, simp)+
qed

lemma tnewline_attr:
  assumes "wf_term s" "tnewline b s = Some s'"
  shows "cattr (tcur s') = cattr (tcur s)" "tmode s' = tmode s"
proof (atomize (full), cases "cy (tcur s) = tbot s")
  case True
  then obtain s1 where s1: "tscrollup (ttop s) 1 s = Some s1" "s' = tmoveto (if b then 0 else cx (tcur s1)) (cy (tcur s)) s1"
    using assms(2) by (auto simp: tnewline_def Let_def)
  have "tcur s1 = tcur s" "tmode s1 = tmode s"
    using tscrollup_attr [OF assms(1) wf_termD(6) [OF assms(1)] _ _ s1(1)] wf_termD(7) [OF assms(1)] by simp_all
  then show "cattr (tcur s') = cattr (tcur s) \<and> tmode s' = tmode s" by (simp add: s1(2))
next
  case False
  then show "cattr (tcur s') = cattr (tcur s) \<and> tmode s' = tmode s" using assms(2) by (auto simp: tnewline_def Let_def)
qed

lemma tputc_print_contract:
  assumes s: "wf_term s" and c: "\<not> short_gfx c (cattr (tcur s))"
  shows "\<exists>s'. tputc_print c s = Some s' \<and> contract s s'"
proof -
  define s0 where "s0 = (if selbx (sel s) \<noteq> -1 \<and> BETWEEN (cy (tcur s)) (selby (sel s)) (seley (sel s))
              then s\<lparr>sel := (sel s)\<lparr>selbx := -1\<rparr>\<rparr> else s)"
  have k0: "contract s s0" "tcur s0 = tcur s"
    using contract_sel [OF s] contract_refl [OF s] by (simp_all add: s0_def)
  then have w0: "wf_term s0" by (simp add: contract_def)
  obtain s1 where s1: "(if flag (tmode s0) MODE_WRAP \<and> flag (cstate (tcur s0)) CURSOR_WRAPNEXT then tnewline True s0 else Some s0) = Some s1"
    "contract s0 s1" "cattr (tcur s1) = cattr (tcur s)"
  proof (cases "flag (tmode s0) MODE_WRAP \<and> flag (cstate (tcur s0)) CURSOR_WRAPNEXT")
    case True
    obtain s1 where "tnewline True s0 = Some s1" "contract s0 s1" using newline_op.op_ok [OF w0] by blast
    with True tnewline_attr(1) [OF w0] k0(2) show ?thesis using that by simp
  next
    case False
    with contract_refl [OF w0] k0(2) show ?thesis using that [of s0] by auto
  qed
  have w1: "wf_term s1" using s1(2) by (simp add: contract_def)
  obtain s2 where s2: "tsetchar c (cattr (tcur s1)) (cx (tcur s1)) (cy (tcur s1)) s1 = Some s2" "contract s1 s2"
    using tsetchar_ok [OF w1, of "cx (tcur s1)" "cy (tcur s1)" c "cattr (tcur s1)"] wf_termD [OF w1] c s1(3) by auto
  have w2: "wf_term s2" using s2(2) by (simp add: contract_def)
  let ?r = "if cx (tcur s2) + 1 < tcol s2 then tmoveto (cx (tcur s2) + 1) (cy (tcur s2)) s2
           else s2\<lparr>tcur := (tcur s2)\<lparr>cstate := cstate (tcur s2) OR CURSOR_WRAPNEXT\<rparr>\<rparr>"
  have "contract s2 ?r" using contract_tmoveto [OF w2] contract_wrapnext [OF w2] by simp
  then have "contract s ?r" using k0(1) s1(2) s2(2) contract_trans by blast
  moreover have "tputc_print c s = Some ?r"
    unfolding tputc_print_def Let_def s0_def [symmetric] s1(1) Option.bind.bind_lunit s2(1) ..
  ultimately show ?thesis by blast
qed

section \<open>The machine\<close>

text \<open>
  The characters the interpreter accepts in a state: four bytes of which one to four count, with the
  calls of \<open>write\<close> for the log answered, no tenth digit in a row in a control sequence, and no
  character that the graphics set would draw from a string of less than four bytes.
\<close>

definition accepts :: "byte list \<times> nat \<times> int list \<Rightarrow> st \<Rightarrow> bool" where
  "accepts e s \<longleftrightarrow> (case e of (c, len, rs) \<Rightarrow>
     length c = 4 \<and> 1 \<le> len \<and> len \<le> 4
     \<and> (iofd s \<noteq> -1 \<longrightarrow> xwrite rs (take len c) \<noteq> None)
     \<and> (tesc s = ESC_START OR ESC_CSI \<longrightarrow> digit_room (c ! 0) s)
     \<and> (tesc s = 0 \<longrightarrow> \<not> short_gfx c (cattr (tcur s))))"

lemma tputc_log_ok:
  assumes "accepts (c, len, rs) s"
  shows "\<exists>s1. tputc_log c len rs s = Some s1 \<and> s1 = s\<lparr>iolog := iolog s1, iofd := iofd s1\<rparr>"
proof (cases "iofd s = -1")
  case False
  with assms obtain ok w where "xwrite rs (take len c) = Some (ok, w)" by (auto simp: accepts_def)
  with False assms show ?thesis by (cases ok) (simp_all add: tputc_log_def accepts_def Let_def)
qed (simp add: tputc_log_def)

lemma short_control: "control_code (c ! 0) \<Longrightarrow> 4 \<le> length c \<Longrightarrow> \<not> short_gfx c attr"
  by (auto simp: short_gfx_def gfx_string_def control_code_def word_less_nat_alt)

lemma tputc_good:
  assumes "wf_st s" "accepts (c, len, rs) s"
  shows "good (tputc opt_title (c, len, rs) s)"
proof -
  obtain s1 where s1: "tputc_log c len rs s = Some s1" "s1 = s\<lparr>iolog := iolog s1, iofd := iofd s1\<rparr>"
    using tputc_log_ok [OF assms(2)] by blast
  have w: "wf_st s1" by (subst s1(2)) (use assms(1) in \<open>simp add: wf_st_def\<close>)
  have eq: "tesc s1 = tesc s" "csi s1 = csi s" "tcur s1 = tcur s" by (subst s1(2), simp)+
  note e = wf_escD [OF w]
  let ?a = "c ! 0"
  have a: "aget c 0 = Some ?a" using assms(2) by (simp add: accepts_def aget_def)
  have room: "tesc s1 = 3 \<Longrightarrow> digit_room ?a s1" using assms(2) eq by (auto simp: accepts_def digit_room_def)
  have short: "\<not> short_gfx c (cattr (tcur s1))" if "tesc s1 = 0 \<or> control_code ?a"
    using assms(2) that eq short_control [of c] by (auto simp: accepts_def)
  have pr: "good (tputc_print c s1)" if "tesc s1 = 0 \<or> control_code ?a"
    using tputc_print_contract [OF e(6) short [OF that]] wf_contract [OF w] by (auto simp: good_def)
  have stop: "good (if ?a = chr (CHR 0x5C) then strhandle (s1\<lparr>tesc := 0\<rparr>) else Some (s1\<lparr>tesc := 0\<rparr>))" if "tesc s1 = 17"
    using e(5,6) that good_strhandle [of "s1\<lparr>tesc := 0\<rparr>"] wf_str_complete by (simp add: wf_st_def wf_esc_zero)
  consider "tesc s1 = 5" | "tesc s1 \<noteq> 5" "\<exists>r. (if control_code ?a then tputc_control ?a s1 else None) = Some r"
    | "tesc s1 \<noteq> 5" "(if control_code ?a then tputc_control ?a s1 else None) = None" by fastforce
  then show ?thesis
  proof cases
    case 1
    then show ?thesis using a s1(1) tputc_str_good [OF w] e(1) by (simp add: tputc_def Let_def)
  next
    case 2
    then obtain r where r: "control_code ?a" "tputc_control ?a s1 = Some r" by (auto split: if_splits)
    then show ?thesis using a s1(1) tputc_control_good [OF w _ r(2)] 2(1) e(1) by (simp add: tputc_def Let_def)
  next
    case 3
    have "good (if \<not> control_code ?a \<and> flag (tesc s1) ESC_START then
             if flag (tesc s1) ESC_CSI then tputc_csi ?a s1
             else if flag (tesc s1) ESC_STR_END then
               (if ?a = chr (CHR 0x5C) then strhandle (s1\<lparr>tesc := 0\<rparr>) else Some (s1\<lparr>tesc := 0\<rparr>))
             else if flag (tesc s1) ESC_ALTCHARSET then Some (tputc_charset ?a s1)
             else if flag (tesc s1) ESC_TEST then tputc_test ?a s1
             else tputc_esc opt_title ?a s1
           else if control_code ?a \<and> \<not> flag (gmode (cattr (tcur s1))) ATTR_GFX then Some s1
           else tputc_print c s1)"
    proof (intro good_if, goal_cases)
      case 1 then show ?case using tputc_csi_good [OF w _ room] e(1) by simp
    next
      case 2 then show ?case using stop e(1) by simp
    next
      case 3 then show ?case using stop e(1) by (simp split: if_splits)
    next
      case 4 then show ?case using wf_charset [OF e(6)] by simp
    next
      case 5 then show ?case using tputc_test_good [OF e(6)] by simp
    next
      case 6
      then have "tesc s1 = 1" using e(1) 3(1) by (auto simp: esc_states_def)
      then show ?case by (rule tputc_esc_good [OF w])
    next
      case 7 then show ?case using w by simp
    next
      case 8 then show ?case using pr e(1) by auto
    qed
    moreover have "\<not> flag (tesc s1) ESC_STR" using 3(1) e(1) by simp
    ultimately show ?thesis
      unfolding tputc_def prod.case a Option.bind.bind_lunit Let_def s1(1) 3(2) option.case by (simp only: if_False)
  qed
qed

end
