(* ===== verification/Sequences.thy ===== *)
theory Sequences
  imports Tputc_Laws
begin

text \<open>
  Whole sequences through \<open>tputc\<close>: the machine is safe on every run of acceptable characters,
  a control sequence typed byte by byte reaches \<open>csihandle\<close> with the numbers it spells, a title
  sequence sets the caption it contains, and \<open>ttyread\<close> performs exactly the characters of its
  input.
\<close>

section \<open>The machine\<close>

interpretation tty: safe_machine "tputc t" wf_st accepts for t
proof
  fix e s assume "wf_st s" "accepts e s"
  then show "\<exists>s'. tputc t e s = Some s' \<and> wf_st s'"
    using tputc_good [of s _ _ _ t] by (cases e) (auto simp: good_def)
qed

section \<open>Control sequences\<close>

lemma run_single: "run f [e] s = f e s"
  by (cases "f e s") simp_all

lemma run_last: "run f es s = Some s1 \<Longrightarrow> run f (es @ [e]) s = f e s1"
  unfolding run_append by (simp add: run_single del: run.simps)

text \<open>A byte as \<open>ttyread\<close> hands it on, in a buffer of four, with no log to write.\<close>

definition typed :: "byte \<Rightarrow> byte list \<times> nat \<times> int list" where
  "typed b = ([b, 0, 0, 0], 1, [])"

lemma tputc_log_off: "iofd s = -1 \<Longrightarrow> tputc_log c len rs s = Some s"
  by (simp add: tputc_log_def)

lemma tputc_typed:
  "iofd s = -1 \<Longrightarrow> tputc t (typed b) s =
    (if flag (tesc s) ESC_STR then tputc_str b s
     else
       case (if control_code b then tputc_control b s else None) of
         Some r \<Rightarrow> r
       | None \<Rightarrow>
           if \<not> control_code b \<and> flag (tesc s) ESC_START then
             if flag (tesc s) ESC_CSI then tputc_csi b s
             else if flag (tesc s) ESC_STR_END then
               (let s = s\<lparr>tesc := 0\<rparr> in if b = chr (CHR 0x5C) then strhandle s else Some s)
             else if flag (tesc s) ESC_ALTCHARSET then Some (tputc_charset b s)
             else if flag (tesc s) ESC_TEST then tputc_test b s
             else tputc_esc t b s
           else if control_code b \<and> \<not> flag (gmode (cattr (tcur s))) ATTR_GFX then Some s
           else tputc_print [b, 0, 0, 0] s)"
  by (simp add: tputc_def typed_def aget_def tputc_log_off Let_def)

text \<open>The buffer of a control sequence that holds the bytes \<open>bs\<close>.\<close>

definition csi_text :: "byte list \<Rightarrow> csiescape" where
  "csi_text bs = \<lparr>cbuf = bs @ replicate (256 - length bs) 0, clen = int (length bs), cpriv = False,
     carg = replicate 16 0, cnarg = 0, cmode = 0\<rparr>"

lemma csi_text_append:
  "length bs < 256 \<Longrightarrow> aset (cbuf (csi_text bs)) (clen (csi_text bs)) b = Some ((bs @ [b]) @ replicate (256 - length (bs @ [b])) 0)"
proof -
  assume l: "length bs < 256"
  then obtain n where n: "256 - length bs = Suc n" by (cases "256 - length bs") auto
  then have "256 - length (bs @ [b]) = n" by simp
  with l n show ?thesis by (simp add: csi_text_def aset_def list_update_append)
qed

definition param_byte :: "byte \<Rightarrow> bool" where
  "param_byte b \<longleftrightarrow> 0x20 \<le> unat b \<and> unat b < 0x40"

lemma param_byte_simps: "param_byte b \<Longrightarrow> \<not> control_code b \<and> \<not> (0x40 \<le> b \<and> b \<le> 0x7E)"
  by (auto simp: param_byte_def control_code_def word_less_nat_alt word_le_nat_alt)

text \<open>Parameter bytes are collected.\<close>

lemma csi_collect:
  "iofd s = -1 \<Longrightarrow> tesc s = 3 \<Longrightarrow> csi s = csi_text pre \<Longrightarrow> \<forall>b \<in> set bs. param_byte b \<Longrightarrow>
   length pre + length bs < 256 \<Longrightarrow>
   run (tputc t) (map typed bs) s = Some (s\<lparr>csi := csi_text (pre @ bs)\<rparr>)"
proof (induction bs arbitrary: s pre)
  case (Cons b bs)
  have p: "\<not> control_code b" "\<not> (0x40 \<le> b \<and> b \<le> 0x7E)" using Cons.prems param_byte_simps by simp_all
  have a: "aset (cbuf (csi s)) (clen (csi s)) b = Some ((pre @ [b]) @ replicate (256 - length (pre @ [b])) 0)"
    using csi_text_append [of pre b] Cons.prems by simp
  have "tputc t (typed b) s = tputc_csi b s"
    using Cons.prems p by (simp add: tputc_typed flag_def)
  also have "\<dots> = Some (s\<lparr>csi := csi_text (pre @ [b])\<rparr>)"
    using a p Cons.prems by (auto simp: tputc_csi_def Let_def csi_text_def)
  finally have "run (tputc t) (map typed (b # bs)) s = run (tputc t) (map typed bs) (s\<lparr>csi := csi_text (pre @ [b])\<rparr>)"
    by simp
  also have "\<dots> = Some (s\<lparr>csi := csi_text (pre @ [b])\<rparr>\<lparr>csi := csi_text ((pre @ [b]) @ bs)\<rparr>)"
    using Cons.prems by (intro Cons.IH) auto
  finally show ?case by simp
qed simp

lemma param_bytes_text:
  "\<forall>b \<in> set (params_text ns). param_byte b"
proof (induction ns rule: params_text.induct)
  case (2 n)
  then show ?case using decimal_digits [of n] by (auto simp: isdigit_def param_byte_def)
next
  case (3 n m ms)
  then show ?case using decimal_digits [of n] by (auto simp: isdigit_def param_byte_def chr_def)
qed simp

lemma tputc_csi_final:
  assumes "csi s = csi_text pre" "length pre < 256" "0x40 \<le> fin \<and> fin \<le> 0x7E"
    and "csiparse (csi_text (pre @ [fin])) = Some c"
  shows "tputc_csi fin s = csihandle (s\<lparr>tesc := 0, csi := c\<rparr>)"
proof -
  have e: "(csi_text pre)\<lparr>cbuf := (pre @ [fin]) @ replicate (256 - length (pre @ [fin])) 0, clen := clen (csi_text pre) + 1\<rparr>
    = csi_text (pre @ [fin])"
    by (simp add: csi_text_def)
  show ?thesis
    unfolding tputc_csi_def assms(1) csi_text_append [OF assms(2)] Option.bind.bind_lunit Let_def
    using assms(3,4) e by simp
qed

text \<open>The bytes of a control sequence and its reading.\<close>

definition csi_sequence :: "bool \<Rightarrow> nat list \<Rightarrow> byte \<Rightarrow> byte list" where
  "csi_sequence q ns fin =
     [0x1B, chr CHR ''[''] @ (if q then [chr CHR ''?''] else []) @ params_text ns @ [fin]"

definition csi_reading :: "bool \<Rightarrow> nat list \<Rightarrow> byte \<Rightarrow> csiescape" where
  "csi_reading q ns fin =
     (csi_text ((if q then [chr CHR ''?''] else []) @ params_text ns @ [fin]))\<lparr>cpriv := q,
        carg := map int ns @ replicate (16 - length ns) 0, cnarg := int (length ns), cmode := fin\<rparr>"

lemma tputc_escape:
  "iofd s = -1 \<Longrightarrow> \<not> flag (tesc s) ESC_STR \<Longrightarrow>
   tputc t (typed 0x1B) s = Some (s\<lparr>tesc := 1, csi := csi_text []\<rparr>)"
  by (simp add: tputc_typed control_code_def tputc_control_def csireset_def csi_text_def)

lemma csi_sequence_run:
  assumes "iofd s = -1" "\<not> flag (tesc s) ESC_STR" "ns \<noteq> []" "length ns \<le> 16" "\<forall>n \<in> set ns. int n \<le> INT_MAX"
    and "length (params_text ns) < 250" "0x40 \<le> unat fin" "unat fin \<le> 0x7E"
  shows "run (tputc t) (map typed (csi_sequence q ns fin)) s =
    csihandle (s\<lparr>tesc := 0, csi := csi_reading q ns fin\<rparr>)"
proof -
  let ?pre = "(if q then [chr CHR ''?''] else []) @ params_text ns"
  have e: "tputc t (typed 0x1B) s = Some (s\<lparr>tesc := 1, csi := csi_text []\<rparr>)"
    using tputc_escape assms(1,2) by blast
  have b: "tputc t (typed (chr CHR ''['')) (s\<lparr>tesc := 1, csi := csi_text []\<rparr>) = Some (s\<lparr>tesc := 3, csi := csi_text []\<rparr>)"
    using assms(1) by (simp add: tputc_typed control_code_def flag_def tputc_esc_def chr_def)
  have p: "\<forall>b \<in> set ?pre. param_byte b" using param_bytes_text [of ns] by (auto simp: param_byte_def chr_def)
  have l: "length ?pre < 256" "length ?pre < 255" using assms(6) by simp_all
  have c: "run (tputc t) (map typed ?pre) (s\<lparr>tesc := 3, csi := csi_text []\<rparr>) = Some (s\<lparr>tesc := 3, csi := csi_text ?pre\<rparr>)"
    using csi_collect [of "s\<lparr>tesc := 3, csi := csi_text []\<rparr>" "[]" ?pre t] assms(1) p l by simp
  have fin: "\<not> control_code fin" "0x40 \<le> fin \<and> fin \<le> 0x7E" "\<not> isdigit fin" "fin \<noteq> chr CHR '';''"
    using assms(7,8) by (auto simp: control_code_def word_less_nat_alt word_le_nat_alt isdigit_def chr_def)
  let ?c = "csi_text (?pre @ [fin])"
  have parse: "csiparse ?c = Some (csi_reading q ns fin)"
  proof -
    have "csiparse ?c = Some (?c\<lparr>cpriv := cpriv ?c \<or> q, carg := map int ns @ replicate (16 - length ns) 0,
       cnarg := int (length ns), cmode := fin\<rparr>)"
      by (rule csiparse_text [OF assms(3,4,5) fin(3,4), where t = "replicate (256 - length (?pre @ [fin])) 0"])
        (simp_all add: csi_text_def)
    then show ?thesis by (simp add: csi_reading_def csi_text_def)
  qed
  have "tputc t (typed fin) (s\<lparr>tesc := 3, csi := csi_text ?pre\<rparr>) = tputc_csi fin (s\<lparr>tesc := 3, csi := csi_text ?pre\<rparr>)"
    using assms(1) fin by (simp add: tputc_typed flag_def)
  also have "\<dots> = csihandle (s\<lparr>tesc := 0, csi := csi_reading q ns fin\<rparr>)"
    using tputc_csi_final [OF _ l(1) fin(2) parse] by simp
  finally have f: "tputc t (typed fin) (s\<lparr>tesc := 3, csi := csi_text ?pre\<rparr>) = csihandle (s\<lparr>tesc := 0, csi := csi_reading q ns fin\<rparr>)" .
  have "map typed (csi_sequence q ns fin) = typed 0x1B # typed (chr CHR ''['') # (map typed ?pre @ [typed fin])"
    by (simp add: csi_sequence_def)
  then show ?thesis using e b run_last [OF c, of "typed fin"] f by (simp del: map_append)
qed

text \<open>Cursor addressing, from the bytes to the cursor.\<close>

lemma cup_run:
  assumes "iofd s = -1" "\<not> flag (tesc s) ESC_STR" "1 \<le> r" "int r \<le> INT_MAX" "1 \<le> c" "int c \<le> INT_MAX"
    and "length (params_text [r, c]) < 250"
  shows "\<exists>s'. run (tputc t) (map typed (csi_sequence False [r, c] (chr CHR ''H''))) s = Some s'
    \<and> cx (tcur s') = LIMIT (int c - 1) 0 (tcol s - 1) \<and> cy (tcur s') = LIMIT (int r - 1) 0 (trow s - 1)
    \<and> tline s' = tline s \<and> tesc s' = 0"
proof -
  have "run (tputc t) (map typed (csi_sequence False [r, c] (chr CHR ''H''))) s =
    csihandle (s\<lparr>tesc := 0, csi := csi_reading False [r, c] (chr CHR ''H'')\<rparr>)"
    by (rule csi_sequence_run) (use assms in \<open>auto simp: chr_def\<close>)
  moreover have "i32 (int c - 1) = Some (int c - 1)" "i32 (int r - 1) = Some (int r - 1)"
    using assms by (simp_all add: INT_MIN_def)
  ultimately show ?thesis
    using assms
    by (simp add: csihandle_def csi_reading_def csi_text_def chr_def Let_def DEFAULT_def set_arg_def csi_arg_def move_checked_def
        tmoveto_def)
qed

section \<open>Titles\<close>

definition str_text :: "byte \<Rightarrow> byte list \<Rightarrow> strescape" where
  "str_text ty bs = \<lparr>stype = ty, sbuf = bs @ replicate (256 - length bs) 0, slen = int (length bs)\<rparr>"

lemma str_collect:
  "iofd s = -1 \<Longrightarrow> tesc s = 5 \<Longrightarrow> str s = str_text ty pre \<Longrightarrow> 0x1B \<notin> set bs \<Longrightarrow> 0x07 \<notin> set bs \<Longrightarrow>
   length pre + length bs < 255 \<Longrightarrow>
   run (tputc t) (map typed bs) s = Some (s\<lparr>str := str_text ty (pre @ bs)\<rparr>)"
proof (induction bs arbitrary: s pre)
  case (Cons b bs)
  obtain n where n: "256 - length pre = Suc n" using Cons.prems by (cases "256 - length pre") auto
  have a: "aset (sbuf (str s)) (slen (str s)) b = Some ((pre @ [b]) @ replicate (256 - length (pre @ [b])) 0)"
    using Cons.prems n by (simp add: str_text_def aset_def list_update_append)
  have "tputc t (typed b) s = tputc_str b s"
    using Cons.prems by (simp add: tputc_typed flag_def)
  also have "\<dots> = Some (s\<lparr>str := str_text ty (pre @ [b])\<rparr>)"
    using a Cons.prems by (auto simp: tputc_str_def Let_def str_text_def)
  finally have "run (tputc t) (map typed (b # bs)) s = run (tputc t) (map typed bs) (s\<lparr>str := str_text ty (pre @ [b])\<rparr>)"
    by simp
  also have "\<dots> = Some (s\<lparr>str := str_text ty (pre @ [b])\<rparr>\<lparr>str := str_text ty ((pre @ [b]) @ bs)\<rparr>)"
    using Cons.prems by (intro Cons.IH) auto
  finally show ?case by simp
qed simp

definition title_sequence :: "byte list \<Rightarrow> byte list" where
  "title_sequence tx = [0x1B, chr CHR '']'', chr CHR ''0'', chr CHR '';''] @ tx @ [0x07]"

lemma title_run:
  assumes "iofd s = -1" "\<not> flag (tesc s) ESC_STR" "0x1B \<notin> set tx" "0x07 \<notin> set tx" "0 \<notin> set tx" "length tx \<le> 252"
  shows "\<exists>s'. run (tputc t) (map typed (title_sequence tx)) s = Some s' \<and> title s' = title s @ [tx]
    \<and> tesc s' = 0 \<and> tline s' = tline s \<and> tcur s' = tcur s"
proof -
  let ?ty = "chr CHR '']''" and ?h = "[chr CHR ''0'', chr CHR '';'']"
  have e: "tputc t (typed 0x1B) s = Some (s\<lparr>tesc := 1, csi := csi_text []\<rparr>)"
    using tputc_escape assms(1,2) by blast
  let ?s = "s\<lparr>tesc := 5, csi := csi_text [], str := str_text ?ty []\<rparr>"
  have b: "tputc t (typed ?ty) (s\<lparr>tesc := 1, csi := csi_text []\<rparr>) = Some ?s"
    using assms(1) by (simp add: tputc_typed control_code_def flag_def tputc_esc_def chr_def strreset_def str_text_def Let_def)
  have c: "run (tputc t) (map typed (?h @ tx)) ?s = Some (?s\<lparr>str := str_text ?ty (?h @ tx)\<rparr>)"
    using str_collect [of ?s ?ty "[]" "?h @ tx" t] assms by (simp add: chr_def)
  have z: "takeWhile (\<lambda>c. c \<noteq> 0) (tx @ 0 # zs) = tx" for zs using assms(5) by (induction tx) auto
  obtain n where n: "256 - length (?h @ tx) = Suc n" using assms(6) by (cases "256 - length (?h @ tx)") auto
  have f: "tputc t (typed 0x07) (?s\<lparr>str := str_text ?ty (?h @ tx)\<rparr>) =
    Some (s\<lparr>tesc := 0, csi := csi_text [], str := str_text ?ty (?h @ tx), title := title s @ [tx]\<rparr>)"
    using assms(1) n z
    by (simp add: tputc_typed flag_def tputc_str_def strhandle_def str_text_def aget_def set_caption_def cstring_def chr_def)
  have "map typed (title_sequence tx) = typed 0x1B # typed ?ty # (map typed (?h @ tx) @ [typed 0x07])"
    by (simp add: title_sequence_def)
  then show ?thesis using e b run_last [OF c, of "typed 0x07"] f by (simp del: map_append append_Cons)
qed


section \<open>The input loop\<close>

text \<open>The calls of \<open>tputc\<close> for the characters of an input, with the contents of the local array.\<close>

fun char_events :: "byte list \<Rightarrow> (nat \<times> 64 word) list \<Rightarrow> int list list \<Rightarrow> (byte list \<times> nat \<times> int list) list" where
  "char_events s4 [] rss = []"
| "char_events s4 ((n, u) # us) rss =
     (let s4' = utf8encode u @ drop (length (utf8encode u)) s4
      in (s4', n, case rss of [] \<Rightarrow> [] | rs # _ \<Rightarrow> rs) # char_events s4' us (tl rss))"

lemma utf8encode_length: "1 \<le> length (utf8encode u) \<and> length (utf8encode u) \<le> 4"
  by (simp add: utf8encode_def)

lemma store_bytes_encode: "length s4 = 4 \<Longrightarrow>
  store_bytes s4 (utf8encode u) = Some (utf8encode u @ drop (length (utf8encode u)) s4)"
  using utf8encode_length [of u] by (simp add: store_bytes_def)

lemma ttyread_loop_scan:
  "length s4 = 4 \<Longrightarrow>
   map_option (\<lambda>(r, _, s'). (r, s')) (ttyread_loop t buf s4 rss s) =
     map_option (\<lambda>s'. (snd (scan utf8decode buf), s')) (run (tputc t) (char_events s4 (fst (scan utf8decode buf)) rss) s)"
proof (induction t buf s4 rss s rule: ttyread_loop.induct)
  case (1 t buf s4 rss s)
  have full: "(length buf \<ge> UTF_SIZ \<or> isfullutf8 buf (length buf)) \<longleftrightarrow> utf8decode buf \<noteq> None"
    using st_utf8.full_iff [of "length buf" buf] st_utf8.dec_four [of buf] by auto
  show ?case
  proof (cases "utf8decode buf")
    case None
    then show ?thesis
      using full by (subst ttyread_loop.simps) (simp add: st_utf8.scan_None)
  next
    case (Some p)
    obtain n u where p: "p = (n, u)" by (cases p)
    with Some have n: "1 \<le> n" "n \<le> length buf" using st_utf8.dec_consumed by auto
    let ?s4 = "utf8encode u @ drop (length (utf8encode u)) s4"
    let ?rs = "case rss of [] \<Rightarrow> [] | rs # _ \<Rightarrow> rs"
    have l4: "length ?s4 = 4" using utf8encode_length [of u] "1.prems" by simp
    have st: "store_bytes s4 (utf8encode u) = Some ?s4" using store_bytes_encode "1.prems" by blast
    have step: "ttyread_loop t buf s4 rss s =
      do { s \<leftarrow> tputc t (?s4, n, ?rs) s; ttyread_loop t (drop n buf) ?s4 (tl rss) s }"
      using full Some p n st by (subst ttyread_loop.simps) simp
    have sc: "scan utf8decode buf = (case scan utf8decode (drop n buf) of (xs, r) \<Rightarrow> ((n, u) # xs, r))"
      using Some p st_utf8.scan_Some by simp
    show ?thesis
    proof (cases "tputc t (?s4, n, ?rs) s")
      case None
      then show ?thesis using step sc by (simp add: Let_def split: prod.splits)
    next
      case s1: (Some s1)
      have c: "length buf \<ge> UTF_SIZ \<or> isfullutf8 buf (length buf)" "\<not> (n = 0 \<or> length buf < n)" using full Some n by auto
      from "1.IH" [OF c(1) _ refl c(2) st s1 l4] Some p step sc s1 show ?thesis
        by (simp add: Let_def split: prod.splits)
    qed
  qed
qed


lemma ttyread_scan:
  assumes "length s4 = 4" "length keep + length inp \<le> 8192"
  shows "ttyread t inp s4 rss (keep, s) =
    (case scan utf8decode (keep @ inp) of (us, r) \<Rightarrow>
       do { s' \<leftarrow> run (tputc t) (char_events s4 us rss) s; Some (r, s') })"
proof -
  have "ttyread t inp s4 rss (keep, s) = map_option (\<lambda>(r, _, s'). (r, s')) (ttyread_loop t (keep @ inp) s4 rss s)"
    using assms(2) by (cases "ttyread_loop t (keep @ inp) s4 rss s") (auto simp: ttyread_def)
  also have "\<dots> = map_option (\<lambda>s'. (snd (scan utf8decode (keep @ inp)), s'))
      (run (tputc t) (char_events s4 (fst (scan utf8decode (keep @ inp))) rss) s)"
    using ttyread_loop_scan [OF assms(1)] .
  finally show ?thesis
    by (cases "run (tputc t) (char_events s4 (fst (scan utf8decode (keep @ inp))) rss) s") (auto split: prod.splits)
qed

lemma ttyread_ok:
  assumes "length s4 = 4" "length keep + length inp \<le> 8192" "wf_st s"
    and "tty.accepts_all t (char_events s4 (fst (scan utf8decode (keep @ inp))) rss) s"
  shows "\<exists>keep' s'. ttyread t inp s4 rss (keep, s) = Some (keep', s') \<and> wf_st s' \<and> length keep' < 4"
proof -
  obtain us r where sc: "scan utf8decode (keep @ inp) = (us, r)" by (cases "scan utf8decode (keep @ inp)")
  then have r: "length r < 4" using st_utf8.scan_rest [of "keep @ inp"] by simp
  obtain s' where "run (tputc t) (char_events s4 us rss) s = Some s'" "wf_st s'"
    using tty.run_safe [OF assms(3,4)] sc by auto
  with r show ?thesis by (simp add: ttyread_scan [OF assms(1,2)] sc)
qed

text \<open>CAN and SUB empty the buffer of a control sequence but do not end it.\<close>

lemma can_run:
  "iofd s = -1 \<Longrightarrow> tesc s = 3 \<Longrightarrow> tputc t (typed 0x18) s = Some (s\<lparr>csi := csi_text []\<rparr>)"
  by (simp add: tputc_typed control_code_def tputc_control_def flag_def csireset_def csi_text_def)

end
