(* ===== verification/Resize.thy ===== *)
theory Resize
  imports Sequences
begin

text \<open>
  Changing the size of the terminal (\<open>tresize\<close>, \<open>cresize\<close>, \<open>resize\<close> of
  src/package/simple-terminal/src/main.c). Memory that \<open>realloc\<close> adds to a row has arbitrary
  contents, given by the arguments \<open>junk\<close> and \<open>junk'\<close> for the two screens; allocation is
  taken to succeed.
\<close>

section \<open>Definitions\<close>

text \<open>A row brought to \<open>col\<close> cells: the first \<open>mincol\<close> kept, the state of the others cleared.\<close>

definition resize_row :: "(nat \<Rightarrow> glyph) \<Rightarrow> int \<Rightarrow> int \<Rightarrow> line \<Rightarrow> line" where
  "resize_row junk mincol col l =
     take (nat mincol) l @ map (\<lambda>x. (junk x)\<lparr>gstate := 0\<rparr>) [nat mincol..<nat col]"

definition calloc_glyph :: glyph where
  "calloc_glyph = \<lparr>gc = [0, 0, 0, 0], gmode = 0, gfg = 0, gbg = 0, gstate = 0\<rparr>"

text \<open>
  The rows of one screen: the first \<open>slide\<close> dropped when \<open>slide\<close> is positive, the array of
  pointers brought to \<open>row\<close> entries, the first \<open>minrow\<close> rows resized and the others new.
\<close>

definition resize_lines :: "(nat \<Rightarrow> nat \<Rightarrow> glyph) \<Rightarrow> int \<Rightarrow> int \<Rightarrow> int \<Rightarrow> int \<Rightarrow> int \<Rightarrow> line list \<Rightarrow> line list option" where
  "resize_lines junk slide row minrow mincol col ls = do {
     ls \<leftarrow> (if slide > 0 then blit ls 0 slide row else Some ls);
     if minrow \<le> int (length ls)
     then Some (map (\<lambda>i. resize_row (junk i) mincol col (ls ! i)) [0..<nat minrow]
            @ replicate (nat (row - minrow)) (replicate (nat col) calloc_glyph))
     else None }"

text \<open>\<open>while (--bp > term.tabs && !*bp)\<close>, from the index \<open>bp\<close>.\<close>

function last_tab :: "int \<Rightarrow> bool list \<Rightarrow> int option" where
  "last_tab bp tabs =
     (let bp = bp - 1 in
      if bp > 0 then do { t \<leftarrow> aget tabs bp; if \<not> t then last_tab bp tabs else Some bp }
      else Some bp)"
  by pat_completeness auto
termination
  by (relation "measure (\<lambda>(bp, tabs). nat bp)") auto

declare last_tab.simps [simp del]

text \<open>The tab stops of the added columns continue from the last one there was.\<close>

definition resize_tabs :: "int \<Rightarrow> int \<Rightarrow> bool list \<Rightarrow> bool list option" where
  "resize_tabs oldcol col tabs =
     (if col > oldcol then do {
        let tabs = take (nat oldcol) tabs @ replicate (nat (col - oldcol)) False;
        bp \<leftarrow> last_tab oldcol tabs;
        set_tabs (bp + tabspaces) col tabs }
      else Some (take (nat col) tabs))"

definition tresize :: "(nat \<Rightarrow> nat \<Rightarrow> glyph) \<Rightarrow> (nat \<Rightarrow> nat \<Rightarrow> glyph) \<Rightarrow> int \<Rightarrow> int \<Rightarrow> st \<Rightarrow> (bool \<times> st) option" where
  "tresize junk junk' col row s =
     (let minrow = min row (trow s); mincol = min col (tcol s); slide = cy (tcur s) - row + 1 in
      if col < 1 \<or> row < 1 then Some (False, s)
      else do {
        ls \<leftarrow> resize_lines junk slide row minrow mincol col (tline s);
        as \<leftarrow> resize_lines junk' slide row minrow mincol col (talt s);
        ts \<leftarrow> resize_tabs (tcol s) col (ttabs s);
        let s = s\<lparr>tline := ls, talt := as, tdirty := replicate (nat row) True, ttabs := ts, tcol := col, trow := row\<rparr>;
        let s = tmoveto (cx (tcur s)) (cy (tcur s)) s;
        Some (slide > 0, tsetscroll 0 (row - 1) s) })"

text \<open>C division, which rounds towards zero.\<close>

definition cdiv :: "int \<Rightarrow> int \<Rightarrow> int" where
  "cdiv a b = (if 0 \<le> a then a div b else - (- a div b))"

text \<open>The size of the text area in pixels, and the size told to the pseudo-terminal.\<close>

definition xresize :: "int \<Rightarrow> int \<Rightarrow> st \<Rightarrow> st" where
  "xresize col row s =
     s\<lparr>xw_tw := max 1 (2 * borderpx + col * xw_cw), xw_th := max 1 (2 * borderpx + row * xw_ch)\<rparr>"

definition ttyresize :: "st \<Rightarrow> st" where
  "ttyresize s =
     s\<lparr>ttysize := ttysize s @
        [(word_of_int (trow s), word_of_int (tcol s), word_of_int (xw_tw s), word_of_int (xw_th s))]\<rparr>"

text \<open>
  \<open>cresize\<close>: the new surface always exists afterwards (where the library fails
  to make one, the program exits).
\<close>

definition cresize :: "(nat \<Rightarrow> nat \<Rightarrow> glyph) \<Rightarrow> (nat \<Rightarrow> nat \<Rightarrow> glyph) \<Rightarrow> int \<Rightarrow> int \<Rightarrow> st \<Rightarrow> st option" where
  "cresize junk junk' width height s = do {
     let s = (if width \<noteq> 0 then s\<lparr>xw_w := width\<rparr> else s);
     let s = (if height \<noteq> 0 then s\<lparr>xw_h := height\<rparr> else s);
     let col = cdiv (xw_w s - 2 * borderpx) xw_cw;
     let row = cdiv (xw_h s - 2 * borderpx) xw_ch;
     (_, s) \<leftarrow> tresize junk junk' col row (s\<lparr>haswin := True\<rparr>);
     Some (ttyresize (xresize col row s)) }"

definition resize :: "(nat \<Rightarrow> nat \<Rightarrow> glyph) \<Rightarrow> (nat \<Rightarrow> nat \<Rightarrow> glyph) \<Rightarrow> int \<Rightarrow> int \<Rightarrow> st \<Rightarrow> st option" where
  "resize junk junk' w h s = (if w = xw_w s \<and> h = xw_h s then Some s else cresize junk junk' w h s)"

text \<open>\<open>xzoom\<close>: loading a font does not change the size of a cell, so it redraws the same screen.\<close>

definition xzoom :: "int \<Rightarrow> (nat \<Rightarrow> nat \<Rightarrow> glyph) \<Rightarrow> (nat \<Rightarrow> nat \<Rightarrow> glyph) \<Rightarrow> st \<Rightarrow> st option" where
  "xzoom arg junk junk' s = do {
     s \<leftarrow> cresize junk junk' 0 0 (s\<lparr>usedfontsize := usedfontsize s + arg\<rparr>);
     draw s }"

section \<open>Laws\<close>

lemma last_tab_bounds:
  "1 \<le> bp \<Longrightarrow> bp \<le> int (length tabs) \<Longrightarrow> \<exists>r. last_tab bp tabs = Some r \<and> 0 \<le> r \<and> r < bp"
proof (induction bp tabs rule: last_tab.induct)
  case (1 bp tabs)
  show ?case
  proof (cases "bp - 1 > 0")
    case True
    then have a: "aget tabs (bp - 1) = Some (tabs ! nat (bp - 1))" using "1.prems" by (simp add: aget_Some)
    show ?thesis
    proof (cases "tabs ! nat (bp - 1)")
      case t: True
      with a True show ?thesis by (subst last_tab.simps) (simp add: Let_def)
    next
      case f: False
      obtain r where "last_tab (bp - 1) tabs = Some r" "0 \<le> r" "r < bp - 1"
        using "1.IH" [OF refl True a f] "1.prems" True by auto
      with a f True show ?thesis by (subst last_tab.simps) (auto simp: Let_def)
    qed
  next
    case False
    with "1.prems" show ?thesis by (subst last_tab.simps) (auto simp: Let_def)
  qed
qed

lemma resize_tabs_ok:
  assumes "1 \<le> oldcol" "int (length tabs) = oldcol" "1 \<le> col"
  shows "\<exists>t. resize_tabs oldcol col tabs = Some t \<and> int (length t) = col"
proof (cases "col > oldcol")
  case True
  let ?t = "take (nat oldcol) tabs @ replicate (nat (col - oldcol)) False"
  have l: "int (length ?t) = col" using True assms by simp
  obtain r where r: "last_tab oldcol ?t = Some r" "0 \<le> r" "r < oldcol"
    using last_tab_bounds [of oldcol ?t] assms l True by auto
  obtain t where "set_tabs (r + 4) col ?t = Some t" "length t = length ?t"
    using set_tabs_eq [of "r + 4" col ?t] r l by auto
  with True r l show ?thesis by (simp add: resize_tabs_def Let_def)
next
  case False
  with assms show ?thesis by (simp add: resize_tabs_def)
qed

definition junk_ok :: "(nat \<Rightarrow> nat \<Rightarrow> glyph) \<Rightarrow> bool" where
  "junk_ok junk \<longleftrightarrow> (\<forall>i x. length (gc (junk i x)) = 4)"

lemma wf_resize_row:
  assumes "wf_row c l" "1 \<le> col" "mincol = min col c" "\<And>x. length (gc (junk x)) = 4"
  shows "wf_row col (resize_row junk mincol col l)"
proof -
  have "\<And>g. g \<in> set (take (nat mincol) l) \<Longrightarrow> ok_glyph g" using assms(1) by (auto simp: wf_row_def dest: in_set_takeD)
  with assms show ?thesis
    by (auto simp: wf_row_def resize_row_def ok_glyph_def flag_def)
qed

lemma wf_calloc: "wf_row col (replicate (nat col) calloc_glyph)" if "0 \<le> col"
  using that by (auto simp: wf_row_def calloc_glyph_def ok_glyph_def flag_def)

text \<open>The rows after the change of size: row \<open>y\<close> is the old row \<open>y + slide\<close>, cut or extended.\<close>

lemma resize_lines_ok:
  assumes "wf_screen r c ls" "1 \<le> row" "1 \<le> col" "minrow = min row r" "mincol = min col c"
    and "slide + row \<le> r \<or> slide \<le> 0" "junk_ok junk"
  shows "\<exists>ls'. resize_lines junk slide row minrow mincol col ls = Some ls' \<and> wf_screen row col ls'
    \<and> (\<forall>y. 0 \<le> y \<and> y < minrow \<longrightarrow> ls' ! nat y = resize_row (junk (nat y)) mincol col (ls ! nat (y + max slide 0)))
    \<and> (\<forall>y. minrow \<le> y \<and> y < row \<longrightarrow> ls' ! nat y = replicate (nat col) calloc_glyph)"
proof -
  have len: "int (length ls) = r" using assms(1) by (simp add: wf_screen_def)
  obtain ls1 where ls1: "(if slide > 0 then blit ls 0 slide row else Some ls) = Some ls1" "length ls1 = length ls"
    "\<And>y. 0 \<le> y \<Longrightarrow> y < minrow \<Longrightarrow> ls1 ! nat y = ls ! nat (y + max slide 0)"
  proof (cases "slide > 0")
    case True
    then obtain l where l: "blit ls 0 slide row = Some l" using assms len by (simp add: blit_def)
    have "l ! nat y = ls ! nat (y + max slide 0)" if "0 \<le> y" "y < minrow" for y
      using nth_blit [OF l, of y] that assms(4) len True by simp
    with True l blit_length [OF l] show ?thesis using that by simp
  next
    case False
    with that show ?thesis by simp
  qed
  let ?ls = "map (\<lambda>i. resize_row (junk i) mincol col (ls1 ! i)) [0..<nat minrow]
            @ replicate (nat (row - minrow)) (replicate (nat col) calloc_glyph)"
  have e: "resize_lines junk slide row minrow mincol col ls = Some ?ls"
    using ls1(1,2) len assms(4) by (simp add: resize_lines_def)
  have old: "wf_row c (ls1 ! nat y)" if "0 \<le> y" "y < minrow" for y
  proof -
    have "0 \<le> y + max slide 0" "y + max slide 0 < r" using that assms(4,6) by auto
    then show ?thesis using ls1(3) [OF that] wf_screen_row [OF assms(1)] by simp
  qed
  have w: "wf_row col (resize_row (junk i) mincol col (ls1 ! i))" if "i < nat minrow" for i
    using wf_resize_row [OF old [of "int i"] assms(3,5)] assms(7) that by (simp add: junk_ok_def)
  have "wf_screen row col ?ls"
    using assms(2-4) len w wf_calloc [of col] by (auto simp: wf_screen_def)
  moreover have "?ls ! nat y = resize_row (junk (nat y)) mincol col (ls ! nat (y + max slide 0))" if "0 \<le> y" "y < minrow" for y
    using that ls1(3) [OF that] by (simp add: nth_append)
  moreover have "?ls ! nat y = replicate (nat col) calloc_glyph" if "minrow \<le> y" "y < row" for y
    using that assms(2,4) len by (auto simp: nth_append min_def split: if_splits)
  ultimately show ?thesis using e by blast
qed

lemma view_resize_row:
  assumes "0 \<le> x" "x < col" "int (length l) = c" "mincol = min col c"
  shows "shown (resize_row junk mincol col l ! nat x) = (if x < mincol then shown (l ! nat x) else None)"
  using assms by (auto simp: resize_row_def nth_append shown_def flag_def nat_less_iff)

lemma shown_calloc: "shown calloc_glyph = None"
  by (simp add: shown_def calloc_glyph_def flag_def)

text \<open>
  \<open>tresize\<close> keeps the terminal well formed for every size, and the text stays where it was
  relative to the cursor: what was at \<open>(x, y + slide)\<close> is at \<open>(x, y)\<close>.
\<close>

lemma tresize_ok:
  assumes s: "wf_term s" and d: "1 \<le> col" "col \<le> MAX_DIM" "1 \<le> row" "row \<le> MAX_DIM" and j: "junk_ok junk" "junk_ok junk'"
  defines "slide \<equiv> max (cy (tcur s) - row + 1) 0"
  shows "\<exists>b s'. tresize junk junk' col row s = Some (b, s') \<and> wf_term s' \<and> trow s' = row \<and> tcol s' = col
    \<and> (b \<longleftrightarrow> cy (tcur s) \<ge> row) \<and> cy (tcur s') = cy (tcur s) - slide \<and> cx (tcur s') = min (cx (tcur s)) (col - 1)
    \<and> ttop s' = 0 \<and> tbot s' = row - 1 \<and> tesc s' = tesc s \<and> csi s' = csi s \<and> str s' = str s
    \<and> (\<forall>x y. 0 \<le> x \<and> x < col \<and> 0 \<le> y \<and> y < row \<longrightarrow>
         view s' x y = (if x < tcol s \<and> y + slide < trow s then view s x (y + slide) else None))"
proof -
  note t = wf_termD [OF s] note geo = wf_geoD [OF t(1)]
  let ?minrow = "min row (trow s)" and ?mincol = "min col (tcol s)" and ?sl = "cy (tcur s) - row + 1"
  have sl: "?sl + row \<le> trow s \<or> ?sl \<le> 0" using t by linarith
  obtain ls where ls: "resize_lines junk ?sl row ?minrow ?mincol col (tline s) = Some ls" "wf_screen row col ls"
    "\<forall>y. 0 \<le> y \<and> y < ?minrow \<longrightarrow> ls ! nat y = resize_row (junk (nat y)) ?mincol col (tline s ! nat (y + slide))"
    "\<forall>y. ?minrow \<le> y \<and> y < row \<longrightarrow> ls ! nat y = replicate (nat col) calloc_glyph"
    using resize_lines_ok [OF geo(5) d(3,1) refl refl sl j(1)] unfolding slide_def by blast
  obtain as where as: "resize_lines junk' ?sl row ?minrow ?mincol col (talt s) = Some as" "wf_screen row col as"
    using resize_lines_ok [OF geo(6) d(3,1) refl refl sl j(2)] by blast
  obtain ts where ts: "resize_tabs (tcol s) col (ttabs s) = Some ts" "int (length ts) = col"
    using resize_tabs_ok [OF geo(2) geo(10) d(1)] by blast
  let ?s = "s\<lparr>tline := ls, talt := as, tdirty := replicate (nat row) True, ttabs := ts, tcol := col, trow := row\<rparr>"
  let ?f = "tsetscroll 0 (row - 1) (tmoveto (cx (tcur ?s)) (cy (tcur ?s)) ?s)"
  have sc: "?f = (tmoveto (cx (tcur ?s)) (cy (tcur ?s)) ?s)\<lparr>ttop := 0, tbot := row - 1\<rparr>"
    using d by (simp add: tsetscroll_eq tmoveto_def)
  have w: "wf_term ?f"
    unfolding sc using t d ls(2) as(2) ts(2)
    by (simp add: wf_term_def wf_geo_def wf_cursor_def wf_scroll_def tmoveto_def LIMIT_def)
  have e: "tresize junk junk' col row s = Some (?sl > 0, ?f)"
    using d ls(1) as(1) ts(1) by (simp add: tresize_def Let_def)
  have v: "view ?f x y = (if x < tcol s \<and> y + slide < trow s then view s x (y + slide) else None)"
    if xy: "0 \<le> x" "x < col" "0 \<le> y" "y < row" for x y
  proof (cases "y < ?minrow")
    case True
    have b: "0 \<le> y + slide" "y + slide < trow s" using True xy t sl by (auto simp: slide_def)
    have "int (length (tline s ! nat (y + slide))) = tcol s" using wf_geo_row_length [OF t(1) b] .
    then have "shown (ls ! nat y ! nat x) = (if x < ?mincol then shown (tline s ! nat (y + slide) ! nat x) else None)"
      using ls(3) True xy view_resize_row [OF xy(1,2) _ refl] by simp
    with b xy show ?thesis unfolding sc by (simp add: view_def cell_def tmoveto_def)
  next
    case False
    then have "ls ! nat y = replicate (nat col) calloc_glyph" using ls(4) xy by auto
    moreover have "\<not> y + slide < trow s" using False xy by (simp add: slide_def)
    ultimately show ?thesis unfolding sc using xy by (simp add: view_def cell_def tmoveto_def shown_calloc)
  qed
  have c: "cy (tcur ?f) = cy (tcur s) - slide" "cx (tcur ?f) = min (cx (tcur s)) (col - 1)"
    unfolding sc using t d by (auto simp: tmoveto_def slide_def LIMIT_def)
  have r: "trow ?f = row" "tcol ?f = col" "ttop ?f = 0" "tbot ?f = row - 1" "tesc ?f = tesc s" "csi ?f = csi s" "str ?f = str s"
    unfolding sc by (simp_all add: tmoveto_def)
  show ?thesis
    by (rule exI [of _ "?sl > 0"], rule exI [of _ ?f]) (use e w v c r in auto)
qed

text \<open>A size below one cell is refused.\<close>

lemma tresize_refused: "col < 1 \<or> row < 1 \<Longrightarrow> tresize junk junk' col row s = Some (False, s)"
  by (simp add: tresize_def)

lemma wf_term_window [simp]: "wf_term (s\<lparr>haswin := h\<rparr>) = wf_term s"
  by (simp add: wf_term_def wf_geo_def wf_cursor_def wf_scroll_def)

lemma wf_st_window [simp]:
  "wf_st (s\<lparr>haswin := h\<rparr>) = wf_st s"
  "wf_st (s\<lparr>xw_tw := w\<rparr>) = wf_st s" "wf_st (s\<lparr>xw_th := w\<rparr>) = wf_st s" "wf_st (s\<lparr>ttysize := z\<rparr>) = wf_st s"
  "wf_st (s\<lparr>usedfontsize := w\<rparr>) = wf_st s"
  by (simp_all add: wf_st_def wf_esc_def wf_term_def wf_geo_def wf_cursor_def wf_scroll_def)

lemma wf_esc_window [simp]: "wf_esc (s\<lparr>xw_w := w\<rparr>) = wf_esc s" "wf_esc (s\<lparr>xw_h := w\<rparr>) = wf_esc s"
  by (simp_all add: wf_esc_def)

lemma wf_st_size:
  "w \<le> MAX_DIM \<Longrightarrow> wf_st s \<Longrightarrow> wf_st (s\<lparr>xw_w := w\<rparr>)" "w \<le> MAX_DIM \<Longrightarrow> wf_st s \<Longrightarrow> wf_st (s\<lparr>xw_h := w\<rparr>)"
  by (simp_all add: wf_st_def wf_term_def wf_geo_def wf_cursor_def wf_scroll_def)

lemma tresize_total:
  assumes "wf_st s" "col \<le> MAX_DIM" "row \<le> MAX_DIM" "junk_ok junk" "junk_ok junk'"
  shows "\<exists>b s'. tresize junk junk' col row s = Some (b, s') \<and> wf_st s'"
proof (cases "col < 1 \<or> row < 1")
  case True
  with assms(1) show ?thesis by (auto simp: tresize_refused)
next
  case False
  have w: "wf_term s" "wf_esc s" using assms(1) by (auto simp: wf_st_def)
  obtain b s' where "tresize junk junk' col row s = Some (b, s')" "wf_term s'" "tesc s' = tesc s" "csi s' = csi s" "str s' = str s"
    using tresize_ok [OF w(1) _ assms(2) _ assms(3-5)] False by (metis not_less)
  with w(2) show ?thesis by (auto simp: wf_st_def wf_esc_def)
qed

lemma cdiv_le: "0 < b \<Longrightarrow> a \<le> m \<Longrightarrow> 0 \<le> m \<Longrightarrow> cdiv a b \<le> m"
  unfolding cdiv_def
  by (cases "0 \<le> a") (use zdiv_mono2 [of a 1 b] pos_imp_zdiv_nonneg_iff [of b "- a"] in auto)

lemma cresize_ok:
  assumes "wf_st s" "width \<le> MAX_DIM" "height \<le> MAX_DIM" "junk_ok junk" "junk_ok junk'"
  shows "\<exists>s'. cresize junk junk' width height s = Some s' \<and> wf_st s'"
proof -
  define s1 where "s1 = (if width \<noteq> 0 then s\<lparr>xw_w := width\<rparr> else s)"
  define s2 where "s2 = (if height \<noteq> 0 then s1\<lparr>xw_h := height\<rparr> else s1)"
  have w: "wf_st (s2\<lparr>haswin := True\<rparr>)"
    using assms(1-3) by (simp add: s1_def s2_def wf_st_size)
  then have b: "xw_w s2 \<le> MAX_DIM" "xw_h s2 \<le> MAX_DIM" by (simp_all add: wf_st_def wf_term_def)
  have "cdiv (xw_w s2 - 4) 6 \<le> MAX_DIM" "cdiv (xw_h s2 - 4) 8 \<le> MAX_DIM"
    using b by (auto intro!: cdiv_le simp: MAX_DIM_def)
  from tresize_total [OF w this assms(4,5)] show ?thesis
    unfolding cresize_def Let_def s1_def [symmetric] s2_def [symmetric]
    by (auto simp: ttyresize_def xresize_def)
qed

end
