(* ===== verification/Terminal_Properties.thy ===== *)
theory Terminal_Properties
  imports Resize
begin

text \<open>
  The properties of simple-terminal's core (src/package/simple-terminal/src/main.c): the
  screen, the drawing, the escape sequences and the change of size, each with a witness on a
  terminal of three columns and two rows.
\<close>

section \<open>A small terminal\<close>

definition demo_glyph :: "char \<Rightarrow> glyph" where
  "demo_glyph c = \<lparr>gc = [chr c, 0, 0, 0], gmode = 0, gfg = 7, gbg = 0, gstate = 1\<rparr>"

definition demo :: st where
  "demo = \<lparr>trow = 2, tcol = 3,
     tline = [map demo_glyph ''abc'', map demo_glyph ''def''],
     talt = replicate 2 (replicate 3 calloc_glyph),
     tdirty = [False, False], tcur = reset_cursor, ttop = 0, tbot = 1, tmode = MODE_WRAP, tesc = 0,
     ttabs = [False, False, False], csi = csi_text [], str = str_text 0 [],
     sel = \<lparr>selmode = False, selbx = -1, selby = 0, selex = 0, seley = 0, selb_x = 0, selb_y = 0,
       sele_x = 0, sele_y = 0, selalt = False, tclick1 = (0, 0), tclick2 = (0, 0)\<rparr>,
     saved = reset_cursor, iofd = -1, iolog = [], ttyout = [], title = [], haswin = True,
     xw_w = 320, xw_h = 240, xw_state = WIN_VISIBLE, oldx = 0, oldy = 0, palette = colormap, frame = [],
     usedfontsize = 8, xw_tw = 22, xw_th = 20, mouse_ob = 0, mouse_ox = 0, mouse_oy = 0, ttysize = []\<rparr>"

lemma demo_sel [simp]:
  "trow demo = 2" "tcol demo = 3" "tcur demo = reset_cursor" "ttop demo = 0" "tbot demo = 1" "tesc demo = 0"
  "iofd demo = -1" "xw_state demo = 1" "tmode demo = 1" "sel demo = \<lparr>selmode = False, selbx = -1, selby = 0, selex = 0, seley = 0, selb_x = 0, selb_y = 0,
       sele_x = 0, sele_y = 0, selalt = False, tclick1 = (0, 0), tclick2 = (0, 0)\<rparr>"
  "tline demo = [map demo_glyph ''abc'', map demo_glyph ''def'']" "saved demo = reset_cursor"
  "xw_w demo = 320" "xw_h demo = 240" "csi demo = csi_text []" "palette demo = colormap"
  by (simp_all add: demo_def)

lemma reset_cursor_sel [simp]: "cx reset_cursor = 0" "cy reset_cursor = 0" "cstate reset_cursor = 0"
  "gmode (cattr reset_cursor) = 0"
  by (simp_all add: reset_cursor_def)

lemma demo_wf [simp]: "wf_term demo" "wf_geo demo" "wf_st demo"
proof -
  show "wf_term demo"
    by (simp add: wf_term_def wf_geo_def wf_cursor_def wf_scroll_def wf_screen_def wf_row_def ok_glyph_def
        ok_colors_def demo_def demo_glyph_def calloc_glyph_def flag_def reset_cursor_def MAX_DIM_def colormap_def)
  then show "wf_geo demo" "wf_st demo"
    by (simp_all add: wf_termD(1) wf_st_def wf_esc_def esc_states_def flag_def)
qed

lemma demo_view [simp]:
  "view demo 0 0 = Some (demo_glyph CHR ''a'')" "view demo 1 0 = Some (demo_glyph CHR ''b'')"
  "view demo 2 0 = Some (demo_glyph CHR ''c'')" "view demo 0 1 = Some (demo_glyph CHR ''d'')"
  "view demo 1 1 = Some (demo_glyph CHR ''e'')" "view demo 2 1 = Some (demo_glyph CHR ''f'')"
  by (simp_all add: view_def cell_def shown_def demo_glyph_def flag_def)

section \<open>The screen\<close>

text \<open>\<open>tclearregion\<close> on a well-formed terminal never leaves the screen; afterwards the
  cells of the rectangle (cut to the screen, corners in any order) show nothing and every other cell
  what it did.\<close>

theorem tclearregion_view:
  assumes "wf_term s"
  shows "\<exists>s'. tclearregion x1 y1 x2 y2 s = Some s' \<and> wf_term s' \<and> tcur s' = tcur s \<and>
    (\<forall>x y. 0 \<le> x \<and> x < tcol s \<and> 0 \<le> y \<and> y < trow s \<longrightarrow> view s' x y =
       (if LIMIT (min x1 x2) 0 (tcol s - 1) \<le> x \<and> x \<le> LIMIT (max x1 x2) 0 (tcol s - 1)
         \<and> LIMIT (min y1 y2) 0 (trow s - 1) \<le> y \<and> y \<le> LIMIT (max y1 y2) 0 (trow s - 1)
        then None else view s x y))"
proof -
  note g = wf_termD(1) [OF assms] note geo = wf_geoD [OF g]
  have e: "tclearregion x1 y1 x2 y2 s = Some (s\<lparr>
    tdirty := upd_range (LIMIT (min y1 y2) 0 (trow s - 1)) (LIMIT (max y1 y2) 0 (trow s - 1)) (\<lambda>_. True) (tdirty s),
    tline := upd_range (LIMIT (min y1 y2) 0 (trow s - 1)) (LIMIT (max y1 y2) 0 (trow s - 1))
       (upd_range (LIMIT (min x1 x2) 0 (tcol s - 1)) (LIMIT (max x1 x2) 0 (tcol s - 1)) blank) (tline s)\<rparr>)"
    by (subst tclearregion_swap, rule tclearregion_eq [OF g]) auto
  show ?thesis
    using clear_op.op_ok [OF assms, of x1 y1 x2 y2] contractD(1) geo wf_geo_row_length [OF g]
    by (auto simp: e view_def cell_def)
qed

theorem tclearregion_view_witness:
  "\<exists>s'. tclearregion 5 0 1 0 demo = Some s' \<and> view s' 0 0 = Some (demo_glyph CHR ''a'') \<and> view s' 1 0 = None
     \<and> view s' 2 1 = Some (demo_glyph CHR ''f'')"
proof -
  obtain s' where s': "tclearregion 5 0 1 0 demo = Some s'" "wf_term s'"
    "\<And>x y. 0 \<le> x \<and> x < 3 \<and> 0 \<le> y \<and> y < 2 \<Longrightarrow> view s' x y =
       (if LIMIT 1 0 2 \<le> x \<and> x \<le> LIMIT 5 0 2 \<and> LIMIT 0 0 1 \<le> y \<and> y \<le> LIMIT 0 0 1 then None else view demo x y)"
    using tclearregion_view [OF demo_wf(1), of 5 0 1 0] by auto
  show ?thesis
    using s'(1) s'(3) [of 0 0] s'(3) [of 1 0] s'(3) [of 2 1] by (simp add: LIMIT_def)
qed

text \<open>C20. \<open>tscrollup\<close> moves the rows of the scrolling region from \<open>orig\<close> on up by \<open>n\<close>, clears the \<open>n\<close> rows
  that enter at the bottom and changes nothing else but the selection and the dirty marks; every row
  that changed is marked.\<close>

theorem tscrollup_moves_rows:
  assumes "wf_term s" "0 \<le> orig" "1 \<le> n" "orig + n \<le> tbot s + 1"
  shows "\<exists>s'. tscrollup orig n s = Some s' \<and> wf_term s' \<and> marks s s'
    \<and> s' = s\<lparr>tline := tline s', tdirty := tdirty s', sel := sel (selscroll orig (- n) s)\<rparr>
    \<and> (\<forall>y. 0 \<le> y \<and> y < trow s \<longrightarrow>
         (if orig \<le> y \<and> y \<le> tbot s - n then tline s' ! nat y = tline s ! nat (y + n)
          else if tbot s - n < y \<and> y \<le> tbot s then blank_row (tline s' ! nat y)
          else tline s' ! nat y = tline s ! nat y))"
  using tscrollup_rows [OF assms] contractD by fast

theorem tscrollup_moves_rows_witness:
  "\<exists>s'. tscrollup 0 1 demo = Some s' \<and> tline s' ! 0 = map demo_glyph ''def'' \<and> blank_row (tline s' ! 1)"
proof -
  have pre: "0 \<le> (0::int)" "1 \<le> (1::int)" "0 + 1 \<le> tbot demo + 1" by simp_all
  from tscrollup_moves_rows [OF demo_wf(1) pre] obtain s' where s': "tscrollup 0 1 demo = Some s'"
    and r: "\<forall>y. 0 \<le> y \<and> y < trow demo \<longrightarrow>
         (if 0 \<le> y \<and> y \<le> tbot demo - 1 then tline s' ! nat y = tline demo ! nat (y + 1)
          else if tbot demo - 1 < y \<and> y \<le> tbot demo then blank_row (tline s' ! nat y)
          else tline s' ! nat y = tline demo ! nat y)" by blast
  show ?thesis using s' r [rule_format, of 0] r [rule_format, of 1] by simp
qed

text \<open>\<open>tscrolldown\<close> moves the rows from \<open>orig\<close> to the bottom margin down by \<open>n\<close> and clears the \<open>n\<close>
  rows at \<open>orig\<close>.\<close>

theorem tscrolldown_moves_rows:
  assumes "wf_term s" "0 \<le> orig" "1 \<le> n" "orig + n \<le> tbot s + 1"
  shows "\<exists>s'. tscrolldown orig n s = Some s' \<and> wf_term s' \<and> marks s s'
    \<and> s' = s\<lparr>tline := tline s', tdirty := tdirty s', sel := sel (selscroll orig n s)\<rparr>
    \<and> (\<forall>y. 0 \<le> y \<and> y < trow s \<longrightarrow>
         (if orig + n \<le> y \<and> y \<le> tbot s then tline s' ! nat y = tline s ! nat (y - n)
          else if orig \<le> y \<and> y < orig + n then blank_row (tline s' ! nat y)
          else tline s' ! nat y = tline s ! nat y))"
  using tscrolldown_rows [OF assms] contractD by fast

theorem tscrolldown_moves_rows_witness:
  "\<exists>s'. tscrolldown 0 1 demo = Some s' \<and> tline s' ! 1 = map demo_glyph ''abc'' \<and> blank_row (tline s' ! 0)"
proof -
  have pre: "0 \<le> (0::int)" "1 \<le> (1::int)" "0 + 1 \<le> tbot demo + 1" by simp_all
  from tscrolldown_moves_rows [OF demo_wf(1) pre] obtain s' where s': "tscrolldown 0 1 demo = Some s'"
    and r: "\<forall>y. 0 \<le> y \<and> y < trow demo \<longrightarrow>
         (if 0 + 1 \<le> y \<and> y \<le> tbot demo then tline s' ! nat y = tline demo ! nat (y - 1)
          else if 0 \<le> y \<and> y < 0 + 1 then blank_row (tline s' ! nat y)
          else tline s' ! nat y = tline demo ! nat y)" by blast
  show ?thesis using s' r [rule_format, of 0] r [rule_format, of 1] by simp
qed

text \<open>C32. \<open>tdeletechar\<close> closes a gap of \<open>n\<close> cells at the cursor: the rest of the row moves left, the cells
  that enter at the right margin show nothing, and no other cell changes.\<close>

theorem tdeletechar_closes_gap:
  assumes "wf_term s" "wf_arg n"
  shows "\<exists>s'. tdeletechar n s = Some s' \<and> wf_term s' \<and> tcur s' = tcur s \<and> marks s s'
    \<and> (\<forall>x y. 0 \<le> x \<and> x < tcol s \<and> 0 \<le> y \<and> y < trow s \<longrightarrow> view s' x y =
        (if y \<noteq> cy (tcur s) \<or> x < cx (tcur s) then view s x y
         else if x + n < tcol s then view s (x + n) y else None))"
  using tdeletechar_view [OF assms] by (auto simp: contract_def)

theorem tdeletechar_closes_gap_witness:
  "\<exists>s'. tdeletechar 1 demo = Some s' \<and> view s' 0 0 = Some (demo_glyph CHR ''b'')
     \<and> view s' 1 0 = Some (demo_glyph CHR ''c'') \<and> view s' 2 0 = None \<and> view s' 0 1 = Some (demo_glyph CHR ''d'')"
proof -
  have pre: "wf_arg 1" by (simp add: wf_arg_def INT_MAX_def MAX_DIM_def)
  from tdeletechar_closes_gap [OF demo_wf(1) pre] obtain s' where s': "tdeletechar 1 demo = Some s'"
    and r: "\<forall>x y. 0 \<le> x \<and> x < tcol demo \<and> 0 \<le> y \<and> y < trow demo \<longrightarrow> view s' x y =
        (if y \<noteq> cy (tcur demo) \<or> x < cx (tcur demo) then view demo x y
         else if x + 1 < tcol demo then view demo (x + 1) y else None)" by blast
  show ?thesis using s' r [rule_format, of 0 0] r [rule_format, of 1 0] r [rule_format, of 2 0] r [rule_format, of 0 1] by simp
qed

text \<open>\<open>tinsertblank\<close> opens a gap of \<open>n\<close> empty cells at the cursor: the rest of the row moves right
  and what leaves at the margin is lost.\<close>

theorem tinsertblank_opens_gap:
  assumes "wf_term s" "wf_arg n"
  shows "\<exists>s'. tinsertblank n s = Some s' \<and> wf_term s' \<and> tcur s' = tcur s \<and> marks s s'
    \<and> (\<forall>x y. 0 \<le> x \<and> x < tcol s \<and> 0 \<le> y \<and> y < trow s \<longrightarrow> view s' x y =
        (if y \<noteq> cy (tcur s) \<or> x < cx (tcur s) then view s x y
         else if cx (tcur s) + n \<le> x then view s (x - n) y else None))"
  using tinsertblank_view [OF assms] by (auto simp: contract_def)

theorem tinsertblank_opens_gap_witness:
  "\<exists>s'. tinsertblank 1 demo = Some s' \<and> view s' 0 0 = None \<and> view s' 1 0 = Some (demo_glyph CHR ''a'')
     \<and> view s' 2 0 = Some (demo_glyph CHR ''b'')"
proof -
  have pre: "wf_arg 1" by (simp add: wf_arg_def INT_MAX_def MAX_DIM_def)
  from tinsertblank_opens_gap [OF demo_wf(1) pre] obtain s' where s': "tinsertblank 1 demo = Some s'"
    and r: "\<forall>x y. 0 \<le> x \<and> x < tcol demo \<and> 0 \<le> y \<and> y < trow demo \<longrightarrow> view s' x y =
        (if y \<noteq> cy (tcur demo) \<or> x < cx (tcur demo) then view demo x y
         else if cx (tcur demo) + 1 \<le> x then view demo (x - 1) y else None)" by blast
  show ?thesis using s' r [rule_format, of 0 0] r [rule_format, of 1 0] r [rule_format, of 2 0] by simp
qed

text \<open>Swapping the screens twice gives the terminal back, with every row marked dirty.\<close>

theorem tswapscreen_involution:
  assumes "wf_term s"
  shows "do { s' \<leftarrow> tswapscreen s; tswapscreen s' } = Some (s\<lparr>tdirty := replicate (nat (trow s)) True\<rparr>)"
proof -
  let ?s = "s\<lparr>tline := talt s, talt := tline s, tmode := tmode s XOR MODE_ALTSCREEN,
    tdirty := replicate (nat (trow s)) True\<rparr>"
  have e: "tswapscreen s = Some ?s" using tswapscreen_eq wf_termD(1) [OF assms] by blast
  with swap_op.op_wf [OF assms] have "wf_geo ?s" using wf_termD(1) by blast
  from tswapscreen_eq [OF this] e show ?thesis by (simp add: word_bw_assocs)
qed

theorem tswapscreen_involution_witness:
  "do { s' \<leftarrow> tswapscreen demo; tswapscreen s' } = Some (demo\<lparr>tdirty := [True, True]\<rparr>)"
  using tswapscreen_involution [OF demo_wf(1)] by (simp add: numeral_2_eq_2)

text \<open>C19. \<open>tresize\<close> to any size of at least one cell succeeds and keeps the terminal well formed. The text
  keeps its place relative to the cursor: what was shown at \<open>(x, y + slide)\<close> is shown at \<open>(x, y)\<close>, where
  \<open>slide\<close> is the number of rows dropped at the top to keep the cursor on the screen; new cells show nothing.\<close>

theorem tresize_keeps_text:
  assumes "wf_term s" "1 \<le> col" "col \<le> MAX_DIM" "1 \<le> row" "row \<le> MAX_DIM" "junk_ok junk" "junk_ok junk'"
  shows "\<exists>b s'. tresize junk junk' col row s = Some (b, s') \<and> wf_term s' \<and> trow s' = row \<and> tcol s' = col
    \<and> (b \<longleftrightarrow> row \<le> cy (tcur s)) \<and> cx (tcur s') = min (cx (tcur s)) (col - 1)
    \<and> cy (tcur s') = cy (tcur s) - max (cy (tcur s) - row + 1) 0 \<and> ttop s' = 0 \<and> tbot s' = row - 1
    \<and> (\<forall>x y. 0 \<le> x \<and> x < col \<and> 0 \<le> y \<and> y < row \<longrightarrow>
         view s' x y = (if x < tcol s \<and> y + max (cy (tcur s) - row + 1) 0 < trow s
           then view s x (y + max (cy (tcur s) - row + 1) 0) else None))"
  using tresize_ok [OF assms] by (elim exE conjE) (intro exI conjI, assumption+)

theorem tresize_keeps_text_witness:
  "\<exists>b s'. tresize (\<lambda>_ _. calloc_glyph) (\<lambda>_ _. calloc_glyph) 2 1 (demo\<lparr>tcur := reset_cursor\<lparr>cy := 1\<rparr>\<rparr>) = Some (b, s')
    \<and> b \<and> view s' 0 0 = Some (demo_glyph CHR ''d'') \<and> view s' 1 0 = Some (demo_glyph CHR ''e'')"
proof -
  let ?s = "demo\<lparr>tcur := reset_cursor\<lparr>cy := 1\<rparr>\<rparr>" and ?j = "\<lambda>_ _. calloc_glyph"
  have w: "wf_term ?s" using demo_wf(1) by (simp add: wf_term_def wf_geo_def wf_cursor_def wf_scroll_def)
  have pre: "1 \<le> (2::int)" "2 \<le> MAX_DIM" "1 \<le> (1::int)" "1 \<le> MAX_DIM" "junk_ok ?j" "junk_ok ?j"
    by (simp_all add: MAX_DIM_def junk_ok_def calloc_glyph_def)
  have v: "view ?s 0 1 = view demo 0 1" "view ?s 1 1 = view demo 1 1" by (simp_all add: view_def cell_def)
  from tresize_keeps_text [OF w pre] obtain b s' where r: "tresize ?j ?j 2 1 ?s = Some (b, s')" "b \<longleftrightarrow> 1 \<le> cy (tcur ?s)"
    "\<forall>x y. 0 \<le> x \<and> x < 2 \<and> 0 \<le> y \<and> y < 1 \<longrightarrow>
         view s' x y = (if x < tcol ?s \<and> y + max (cy (tcur ?s) - 1 + 1) 0 < trow ?s
           then view ?s x (y + max (cy (tcur ?s) - 1 + 1) 0) else None)" by blast
  show ?thesis using r(1,2) r(3) [rule_format, of 0 0] r(3) [rule_format, of 1 0] v by auto
qed

section \<open>Drawing\<close>

text \<open>C28. \<open>draw\<close> is defined on every well-formed terminal (no index leaves the colours, the rows or the text
  buffer of \<open>drawregion\<close>), keeps it well formed with the parser's state unchanged, and leaves no
  row dirty, unless the window is not visible: then the marks stay.\<close>

theorem draw_clears_marks:
  assumes "wf_term s"
  shows "\<exists>s'. draw s = Some s' \<and> keeps s s'
    \<and> tdirty s' = (if flag (xw_state s) WIN_VISIBLE then replicate (nat (trow s)) False else tdirty s)"
  by (rule draw_ok [OF assms])

theorem draw_clears_marks_witness:
  "\<exists>s'. draw (demo\<lparr>tdirty := [True, False]\<rparr>) = Some s' \<and> tdirty s' = [False, False]"
proof -
  have "wf_term (demo\<lparr>tdirty := [True, False]\<rparr>)"
    using demo_wf(1) by (simp add: wf_term_def wf_geo_def wf_cursor_def wf_scroll_def demo_def)
  from draw_clears_marks [OF this] show ?thesis by (auto simp: flag_def numeral_2_eq_2)
qed

text \<open>The colours of xterm: the first 16 and the last two of the table, the cube, the greys.\<close>

definition xterm_palette :: "rgb list" where
  "xterm_palette =
     (let level = (\<lambda>r :: nat. if r = 0 then 0 else word_of_nat (55 + 40 * r)) in
      take 16 colormap
      @ concat (map (\<lambda>r. concat (map (\<lambda>g. map (\<lambda>b. (level r, level g, level b)) [0..<6]) [0..<6])) [0..<6])
      @ map (\<lambda>k. (word_of_nat (8 + 10 * k), word_of_nat (8 + 10 * k), word_of_nat (8 + 10 * k))) [0..<24]
      @ drop 256 colormap)"

text \<open>\<open>initcolormap\<close> stays inside the array \<open>dc.colors\<close> and its 16-bit arithmetic, cut to the 8-bit
  channels of SDL, gives exactly the 256 colours of xterm and the two colours of the cursor.\<close>

theorem initcolormap_xterm:
  "initcolormap = Some xterm_palette"
  by code_simp

section \<open>Input\<close>



text \<open>C12. \<open>ttyread\<close> performs exactly the characters of what it has: the unprocessed bytes of the last read and
  the new ones, decoded one after the other, are handed to \<open>tputc\<close> in order, and the bytes that do not
  make a whole character (less than four) are kept for the next read.\<close>

theorem ttyread_refines_scan:
  assumes "length s4 = 4" "length keep + length inp \<le> 8192"
  shows "ttyread t inp s4 rss (keep, s) =
      (case scan utf8decode (keep @ inp) of (us, r) \<Rightarrow>
         do { s' \<leftarrow> run (tputc t) (char_events s4 us rss) s; Some (r, s') })
    \<and> length (snd (scan utf8decode (keep @ inp))) < 4"
  using ttyread_scan [OF assms] st_utf8.scan_rest by blast

lemma scan_demo: "scan utf8decode [0x61, 0xC3] = ([(1, 0x61)], [0xC3])"
  by code_simp

theorem ttyread_refines_scan_witness:
  "ttyread None [0x61, 0xC3] [0, 0, 0, 0] [] ([], demo) = do { s' \<leftarrow> tputc None (typed 0x61) demo; Some ([0xC3], s') }"
proof -
  have "ttyread None [0x61, 0xC3] [0, 0, 0, 0] [] ([], demo) =
    (case scan utf8decode ([] @ [0x61, 0xC3]) of (us, r) \<Rightarrow>
         do { s' \<leftarrow> run (tputc None) (char_events [0, 0, 0, 0] us []) demo; Some (r, s') })"
    by (rule ttyread_refines_scan [THEN conjunct1]) simp_all
  moreover have "utf8encode 0x61 = [0x61]" by (simp add: utf8encode_def)
  ultimately show ?thesis
    by (cases "tputc None (typed 0x61) demo") (simp_all add: scan_demo typed_def numeral_3_eq_3)
qed

text \<open>C37. A write to the log that succeeds has written all of the bytes; one that fails has written a
  proper prefix of them.\<close>

theorem xwrite_complete:
  assumes "xwrite rs bs = Some (ok, w)"
  shows "if ok then w = bs else \<exists>t. t \<noteq> [] \<and> bs = w @ t"
  using assms
proof (induction rs bs arbitrary: w rule: xwrite.induct)
  case (3 r rs b bs)
  show ?case
  proof (cases "r < 0")
    case False
    with "3.prems" obtain w' where w': "xwrite rs (drop (nat r) (b # bs)) = Some (ok, w')"
      "w = take (nat r) (b # bs) @ w'" "r \<le> int (length (b # bs))" by (auto split: if_splits)
    show ?thesis
      using "3.IH" [OF False _ w'(1)] w' append_take_drop_id [of "nat r" "b # bs"]
      by (cases ok) (simp, metis append.assoc linorder_not_less)+
  qed (use "3.prems" in auto)
qed auto

theorem xwrite_complete_witness:
  "xwrite [1, 0, 1] [0x61, 0x62] = Some (True, [0x61, 0x62])"
proof -
  have e: "xwrite [1, 0, 1] [0x61, 0x62] = Some (True, [0x61, 0x62 :: byte])" by simp
  from xwrite_complete [OF e] e show ?thesis by simp
qed

section \<open>Escape sequences\<close>

text \<open>C13. Writing parameters in decimal and parsing them is the identity: a sequence typed byte by byte, with or
  without question mark, of up to 16 parameters that fit an \<open>int\<close>, reaches \<open>csihandle\<close> with exactly these
  parameters (missing ones 0) and its final byte, in every state outside a string sequence.\<close>

theorem csi_sequence_parsed:
  assumes "iofd s = -1" "\<not> flag (tesc s) ESC_STR" "ns \<noteq> []" "length ns \<le> 16" "\<forall>n \<in> set ns. int n \<le> INT_MAX"
    and "length (params_text ns) < 250" "0x40 \<le> unat fin" "unat fin \<le> 0x7E"
  shows "run (tputc t) (map typed (csi_sequence q ns fin)) s =
    csihandle (s\<lparr>tesc := 0, csi := csi_reading q ns fin\<rparr>)"
  by (rule csi_sequence_run [OF assms])

lemma params_demo: "params_text [1, 2] = [0x31, 0x3B, 0x32]"
  by (simp add: decimal.simps chr_def)

theorem csi_sequence_parsed_witness:
  "run (tputc None) (map typed [0x1B, 0x5B, 0x31, 0x3B, 0x32, 0x48]) demo =
   csihandle (demo\<lparr>tesc := 0, csi := csi_reading False [1, 2] 0x48\<rparr>)"
proof -
  have "run (tputc None) (map typed (csi_sequence False [1, 2] 0x48)) demo =
    csihandle (demo\<lparr>tesc := 0, csi := csi_reading False [1, 2] 0x48\<rparr>)"
    by (rule csi_sequence_parsed) (simp_all add: flag_def INT_MAX_def params_demo decimal.simps)
  then show ?thesis unfolding csi_sequence_def params_demo by (simp add: chr_def)
qed

text \<open>Cursor addressing: the bytes \<open>ESC [ r ; c H\<close> move the cursor to row \<open>r\<close> and column \<open>c\<close>, counted
  from 1 and cut to the screen, and change no cell.\<close>

theorem cursor_addressing:
  assumes "iofd s = -1" "\<not> flag (tesc s) ESC_STR" "1 \<le> r" "int r \<le> INT_MAX" "1 \<le> c" "int c \<le> INT_MAX"
    and "length (params_text [r, c]) < 250"
  shows "\<exists>s'. run (tputc t) (map typed (csi_sequence False [r, c] (chr CHR ''H''))) s = Some s'
    \<and> cx (tcur s') = LIMIT (int c - 1) 0 (tcol s - 1) \<and> cy (tcur s') = LIMIT (int r - 1) 0 (trow s - 1)
    \<and> tline s' = tline s \<and> tesc s' = 0"
  by (rule cup_run [OF assms])

theorem cursor_addressing_witness:
  "\<exists>s'. run (tputc None) (map typed (csi_sequence False [1, 2] (chr CHR ''H''))) demo = Some s'
    \<and> cx (tcur s') = 1 \<and> cy (tcur s') = 0"
proof -
  have pre: "iofd demo = -1" "\<not> flag (tesc demo) ESC_STR" "1 \<le> (1::nat)" "int 1 \<le> INT_MAX" "1 \<le> (2::nat)" "int 2 \<le> INT_MAX"
    "length (params_text [1, 2]) < 250"
    by (simp_all add: flag_def INT_MAX_def params_demo decimal.simps)
  from cursor_addressing [OF pre, of None] show ?thesis by (auto simp: LIMIT_def)
qed

text \<open>A title sequence \<open>ESC ] 0 ; text BEL\<close> sets the window caption to exactly its text and changes
  neither the screen nor the cursor.\<close>

theorem title_sequence_sets_caption:
  assumes "iofd s = -1" "\<not> flag (tesc s) ESC_STR" "0x1B \<notin> set tx" "0x07 \<notin> set tx" "0 \<notin> set tx" "length tx \<le> 252"
  shows "\<exists>s'. run (tputc t) (map typed (title_sequence tx)) s = Some s' \<and> title s' = title s @ [tx]
    \<and> tesc s' = 0 \<and> tline s' = tline s \<and> tcur s' = tcur s"
  by (rule title_run [OF assms])

theorem title_sequence_sets_caption_witness:
  "\<exists>s'. run (tputc None) (map typed (title_sequence [0x68, 0x69])) demo = Some s' \<and> title s' = [[0x68, 0x69]]"
proof -
  have pre: "iofd demo = -1" "\<not> flag (tesc demo) ESC_STR" "0x1B \<notin> set [0x68, 0x69 :: byte]" "0x07 \<notin> set [0x68, 0x69 :: byte]"
    "0 \<notin> set [0x68, 0x69 :: byte]" "length [0x68, 0x69 :: byte] \<le> 252"
    by (simp_all add: flag_def)
  from title_sequence_sets_caption [OF pre, of None] show ?thesis by (auto simp: demo_def)
qed

end
