(* ===== verification/Mouse.thy ===== *)
theory Mouse
  imports Resize
begin

text \<open>
  The mouse and the selection in simple-terminal (src/package/simple-terminal/src/main.c):
  the handlers \<open>bpress\<close>, \<open>brelease\<close> and \<open>bmotion\<close>, the report of \<open>mousereport\<close> and the copy of
  \<open>selcopy\<close>. A button event is read through the union SDL_Event, also when it is a motion:
  \<open>mbutton\<close> is the byte at the place of \<open>button.button\<close>, which a motion event uses for the
  state of the buttons. \<open>xsetsel\<close> and \<open>selpaste\<close> do nothing in the source. The time is an
  argument.
\<close>

section \<open>Definitions\<close>

datatype mouse_type = MouseMotion | MouseDown | MouseUp

record mouse =
  mtype :: mouse_type
  mbutton :: byte
  mx :: "16 word"
  my :: "16 word"

abbreviation (input) SDL_BUTTON_LEFT :: int where "SDL_BUTTON_LEFT \<equiv> 1"
abbreviation (input) SDL_BUTTON_MIDDLE :: int where "SDL_BUTTON_MIDDLE \<equiv> 2"

definition x2col :: "int \<Rightarrow> st \<Rightarrow> int" where
  "x2col x s = LIMIT (cdiv (x - borderpx) xw_cw) 0 (tcol s - 1)"

definition y2row :: "int \<Rightarrow> st \<Rightarrow> int" where
  "y2row y s = LIMIT (cdiv (y - borderpx) xw_ch) 0 (trow s - 1)"

text \<open>\<open>getbuttoninfo(e, NULL, &sel.ex, &sel.ey)\<close>, the only form of the call.\<close>

definition getbuttoninfo :: "mouse \<Rightarrow> st \<Rightarrow> st" where
  "getbuttoninfo e s =
     (let q = (sel s)\<lparr>selex := x2col (uint (mx e)) s, seley := y2row (uint (my e)) s\<rparr>;
          q = q\<lparr>selb_x := if selby q < seley q then selbx q else selex q,
                selb_y := min (selby q) (seley q),
                sele_x := if selby q < seley q then selex q else selbx q,
                sele_y := max (selby q) (seley q)\<rparr>
      in s\<lparr>sel := q\<rparr>)"

definition mouse_bytes :: "int \<Rightarrow> int \<Rightarrow> int \<Rightarrow> byte list" where
  "mouse_bytes button x y =
     [0x1B, chr CHR ''['', chr CHR ''M'', word_of_int (32 + button), word_of_int (32 + x + 1), word_of_int (32 + y + 1)]"

definition mousereport :: "mouse \<Rightarrow> st \<Rightarrow> st" where
  "mousereport e s =
     (let x = x2col (uint (mx e)) s; y = y2row (uint (my e)) s; button = uint (mbutton e) in
      case mtype e of
        MouseMotion \<Rightarrow>
          if \<not> flag (tmode s) MODE_MOUSEMOTION \<or> (x = mouse_ox s \<and> y = mouse_oy s) then s
          else ttywrite (mouse_bytes (mouse_ob s + 32) x y) (s\<lparr>mouse_ox := x, mouse_oy := y\<rparr>)
      | MouseUp \<Rightarrow> ttywrite (mouse_bytes 3 x y) s
      | MouseDown \<Rightarrow>
          let button = button - SDL_BUTTON_LEFT;
              button = (if button \<ge> 3 then button + (64 - 3) else button)
          in ttywrite (mouse_bytes button x y) (s\<lparr>mouse_ob := button, mouse_ox := x, mouse_oy := y\<rparr>))"

definition bpress :: "mouse \<Rightarrow> st \<Rightarrow> st option" where
  "bpress e s =
     (if flag (tmode s) MODE_MOUSE then Some (mousereport e s)
      else if uint (mbutton e) = SDL_BUTTON_LEFT then do {
        s \<leftarrow> (if selbx (sel s) \<noteq> -1 then do {
               s \<leftarrow> tsetdirt (selb_y (sel s)) (sele_y (sel s)) (s\<lparr>sel := (sel s)\<lparr>selbx := -1\<rparr>\<rparr>);
               draw s }
             else Some s);
        Some (s\<lparr>sel := (sel s)\<lparr>selmode := True,
           selbx := x2col (uint (mx e)) s, selex := x2col (uint (mx e)) s,
           selby := y2row (uint (my e)) s, seley := y2row (uint (my e)) s\<rparr>\<rparr>) }
      else Some s)"

text \<open>\<open>last\<close>: the index of the last cell of a row that is set, -1 when there is none.\<close>

function last_set :: "int \<Rightarrow> line \<Rightarrow> int option" where
  "last_set i l =
     (let i = i - 1 in
      if i \<ge> 0 then do { g \<leftarrow> aget l i; if \<not> flag (gstate g) GLYPH_SET then last_set i l else Some i }
      else Some i)"
  by pat_completeness auto
termination
  by (relation "measure (\<lambda>(i, l). nat i)") auto

declare last_set.simps [simp del]

text \<open>\<open>memcpy(ptr, p, size)\<close> into the \<open>bufsize\<close> bytes of the copy, of which \<open>out\<close> are written.\<close>

definition copy_out :: "int \<Rightarrow> byte list \<Rightarrow> byte list \<Rightarrow> byte list option" where
  "copy_out bufsize bs out =
     (if int (length out) + int (length bs) \<le> bufsize then Some (out @ bs) else None)"

text \<open>One cell; \<open>is_selected\<close> keeps the result of the last call of \<open>selected\<close>.\<close>

definition copy_cell :: "int \<Rightarrow> int \<Rightarrow> st \<Rightarrow> int \<Rightarrow> bool \<times> byte list \<Rightarrow> (bool \<times> byte list) option" where
  "copy_cell bufsize y s x io = (case io of (_, out) \<Rightarrow>
     if \<not> selected x y s then Some (False, out)
     else do {
       l \<leftarrow> aget (tline s) y;
       g \<leftarrow> aget l x;
       let p = (if flag (gstate g) GLYPH_SET then gc g else [0x20, 0]);
       lead \<leftarrow> aget p 0;
       let size = utf8size lead;
       if size \<le> length p then do { out \<leftarrow> copy_out bufsize (take size p) out; Some (True, out) } else None })"

definition copy_row :: "int \<Rightarrow> st \<Rightarrow> int \<Rightarrow> bool \<times> byte list \<Rightarrow> (bool \<times> byte list) option" where
  "copy_row bufsize s y io = do {
     l \<leftarrow> aget (tline s) y;
     m \<leftarrow> last_set (tcol s) l;
     (is_selected, out) \<leftarrow> for_up 0 m (copy_cell bufsize y s) io;
     if is_selected \<and> y < sele_y (sel s)
     then do { out \<leftarrow> copy_out bufsize [0x0A] out; Some (is_selected, out) }
     else Some (is_selected, out) }"

text \<open>The text copied, terminator included; \<open>None\<close> inside is the null pointer.\<close>

definition selcopy_text :: "st \<Rightarrow> byte list option option" where
  "selcopy_text s =
     (if selbx (sel s) = -1 then Some None
      else do {
        bufsize \<leftarrow> i32 ((tcol s + 1) * (sele_y (sel s) - selb_y (sel s) + 1) * int UTF_SIZ);
        (_, out) \<leftarrow> for_up 0 (trow s - 1) (copy_row bufsize s) (False, []);
        out \<leftarrow> copy_out bufsize [0] out;
        Some (Some out) })"

definition selcopy :: "st \<Rightarrow> st option" where
  "selcopy s = do {
     _ \<leftarrow> selcopy_text s;
     Some (s\<lparr>sel := (sel s)\<lparr>selalt := flag (tmode s) MODE_ALTSCREEN\<rparr>\<rparr>) }"

definition is_word_break :: "byte \<Rightarrow> bool" where
  "is_word_break c \<longleftrightarrow> c \<in> set [0x20]"

text \<open>The two loops of the double click: from a cell on the row, to the ends of the word.\<close>

definition word_cell :: "line \<Rightarrow> int \<Rightarrow> bool option" where
  "word_cell l x = do {
     g \<leftarrow> aget l x;
     if flag (gstate g) GLYPH_SET then do { c \<leftarrow> aget (gc g) 0; Some (\<not> is_word_break c) } else Some False }"

function word_start :: "int \<Rightarrow> line \<Rightarrow> int option" where
  "word_start x l =
     (if x > 0 then do { w \<leftarrow> word_cell l (x - 1); if w then word_start (x - 1) l else Some x } else Some x)"
  by pat_completeness auto
termination
  by (relation "measure (\<lambda>(x, l). nat x)") auto

function word_end :: "int \<Rightarrow> int \<Rightarrow> line \<Rightarrow> int option" where
  "word_end x col l =
     (if x < col - 1 then do { w \<leftarrow> word_cell l (x + 1); if w then word_end (x + 1) col l else Some x } else Some x)"
  by pat_completeness auto
termination
  by (relation "measure (\<lambda>(x, col, l). nat (col - 1 - x))") auto

declare word_start.simps [simp del] word_end.simps [simp del]

definition TIMEDIFF :: "timeval \<Rightarrow> timeval \<Rightarrow> int" where
  "TIMEDIFF t1 t2 = (fst t1 - fst t2) * 1000 + cdiv (snd t1 - snd t2) 1000"

abbreviation (input) doubleclicktimeout :: int where "doubleclicktimeout \<equiv> 300"
abbreviation (input) tripleclicktimeout :: int where "tripleclicktimeout \<equiv> 600"

text \<open>The click without a motion: the whole line, or the word, or nothing.\<close>

definition click_select :: "timeval \<Rightarrow> st \<Rightarrow> st option" where
  "click_select now s =
     (let q = (sel s)\<lparr>selbx := -1\<rparr> in
      if TIMEDIFF now (tclick2 q) \<le> tripleclicktimeout then
        selcopy (s\<lparr>sel := q\<lparr>selb_x := 0, selbx := 0, sele_x := tcol s, selex := tcol s,
          selb_y := seley q, sele_y := seley q\<rparr>\<rparr>)
      else if TIMEDIFF now (tclick1 q) \<le> doubleclicktimeout then do {
        l \<leftarrow> aget (tline s) (seley q);
        b \<leftarrow> word_start (selex q) l;
        e \<leftarrow> word_end (selex q) (tcol s) l;
        selcopy (s\<lparr>sel := q\<lparr>selbx := b, selb_x := b, selex := e, sele_x := e,
          selb_y := seley q, sele_y := seley q\<rparr>\<rparr>) }
      else Some (s\<lparr>sel := q\<rparr>))"

definition brelease :: "timeval \<Rightarrow> timeval \<Rightarrow> mouse \<Rightarrow> st \<Rightarrow> st option" where
  "brelease now now' e s =
     (if flag (tmode s) MODE_MOUSE then Some (mousereport e s)
      else do {
        s \<leftarrow> (if uint (mbutton e) = SDL_BUTTON_MIDDLE then Some s
             else if uint (mbutton e) = SDL_BUTTON_LEFT then do {
               let s = getbuttoninfo e (s\<lparr>sel := (sel s)\<lparr>selmode := False\<rparr>\<rparr>);
               d \<leftarrow> aset (tdirty s) (seley (sel s)) True;
               let s = s\<lparr>tdirty := d\<rparr>;
               if selbx (sel s) = selex (sel s) \<and> selby (sel s) = seley (sel s)
               then click_select now s else selcopy s }
             else Some s);
        Some (s\<lparr>sel := (sel s)\<lparr>tclick2 := tclick1 (sel s), tclick1 := now'\<rparr>\<rparr>) })"

definition bmotion :: "mouse \<Rightarrow> st \<Rightarrow> st option" where
  "bmotion e s =
     (if flag (tmode s) MODE_MOUSE then Some (mousereport e s)
      else if selmode (sel s) then
        (let oldey = seley (sel s); oldex = selex (sel s); s = getbuttoninfo e s in
         if oldey \<noteq> seley (sel s) \<or> oldex \<noteq> selex (sel s)
         then tsetdirt (min oldey (seley (sel s))) (max oldey (seley (sel s))) s
         else Some s)
      else Some s)"

section \<open>Laws\<close>

lemma x2col_range: "wf_term s \<Longrightarrow> 0 \<le> x2col x s \<and> x2col x s < tcol s"
  using wf_geoD(2) [OF wf_termD(1), of s] by (simp add: x2col_def)

lemma y2row_range: "wf_term s \<Longrightarrow> 0 \<le> y2row y s \<and> y2row y s < trow s"
  using wf_geoD(1) [OF wf_termD(1), of s] by (simp add: y2row_def)

lemma wf_term_mouse [simp]:
  "wf_term (s\<lparr>mouse_ob := i\<rparr>) = wf_term s" "wf_term (s\<lparr>mouse_ox := i\<rparr>) = wf_term s" "wf_term (s\<lparr>mouse_oy := i\<rparr>) = wf_term s"
  "core (s\<lparr>mouse_ob := i\<rparr>) = core s" "core (s\<lparr>mouse_ox := i\<rparr>) = core s" "core (s\<lparr>mouse_oy := i\<rparr>) = core s"
  by (simp_all add: wf_term_def wf_geo_def wf_cursor_def wf_scroll_def core_def)

lemma keeps_mousereport: "wf_term s \<Longrightarrow> keeps s (mousereport e s)"
  by (simp add: mousereport_def keeps_def ttywrite_def Let_def split: mouse_type.split)

lemma keeps_sel: "wf_term s \<Longrightarrow> keeps s (s\<lparr>sel := q\<rparr>)"
  by (simp add: keeps_def)

text \<open>The two ends of the selection in order, as \<open>getbuttoninfo\<close> leaves them.\<close>

definition sel_ordered :: "st \<Rightarrow> bool" where
  "sel_ordered s \<longleftrightarrow> selb_y (sel s) = min (selby (sel s)) (seley (sel s)) \<and> sele_y (sel s) = max (selby (sel s)) (seley (sel s))"

lemma selected_rows: "sel_ordered s \<Longrightarrow> selected x y s \<Longrightarrow> selb_y (sel s) \<le> y \<and> y \<le> sele_y (sel s)"
  by (auto simp: sel_ordered_def selected_def Let_def split: if_splits)

lemma last_set_ok:
  "0 \<le> i \<Longrightarrow> i \<le> int (length l) \<Longrightarrow> \<exists>r. last_set i l = Some r \<and> -1 \<le> r \<and> r < max i 0
    \<and> (\<forall>k. r < k \<and> k < i \<longrightarrow> shown (l ! nat k) = None) \<and> (0 \<le> r \<longrightarrow> shown (l ! nat r) \<noteq> None)"
proof (induction i l rule: last_set.induct)
  case (1 i l)
  show ?case
  proof (cases "i - 1 \<ge> 0")
    case True
    then have a: "aget l (i - 1) = Some (l ! nat (i - 1))" using "1.prems" by (simp add: aget_Some)
    show ?thesis
    proof (cases "flag (gstate (l ! nat (i - 1))) GLYPH_SET")
      case t: True
      with a True show ?thesis by (subst last_set.simps) (auto simp: Let_def shown_def)
    next
      case f: False
      obtain r where r: "last_set (i - 1) l = Some r" "-1 \<le> r" "r < max (i - 1) 0"
        "\<forall>k. r < k \<and> k < i - 1 \<longrightarrow> shown (l ! nat k) = None" "0 \<le> r \<longrightarrow> shown (l ! nat r) \<noteq> None"
        using "1.IH" [OF refl True a f] "1.prems" True by auto
      have "shown (l ! nat k) = None" if "r < k" "k < i" for k
        using r(4) f that by (cases "k = i - 1") (auto simp: shown_def)
      with a f True r show ?thesis by (subst last_set.simps) (auto simp: Let_def)
    qed
  next
    case False
    with "1.prems" show ?thesis by (subst last_set.simps) (auto simp: Let_def)
  qed
qed

lemma copy_cell_ok:
  assumes "wf_term s" "0 \<le> x" "x < tcol s" "0 \<le> y" "y < trow s"
    and "selected x y s \<Longrightarrow> int (length out) + 4 \<le> n"
  shows "\<exists>out'. copy_cell n y s x (b, out) = Some (selected x y s, out')
    \<and> int (length out') \<le> int (length out) + (if selected x y s then 4 else 0)"
proof (cases "selected x y s")
  case True
  note g = wf_termD(1) [OF assms(1)]
  have row: "wf_row (tcol s) (tline s ! nat y)" using wf_geo_row [OF g] assms by blast
  let ?g = "tline s ! nat y ! nat x"
  have gl: "length (gc ?g) = 4" using wf_rowD(2) [OF row assms(2,3)] by (simp add: ok_glyph_def)
  have a: "aget (tline s) y = Some (tline s ! nat y)" "aget (tline s ! nat y) x = Some ?g"
    using assms wf_geoD(7) [OF g] wf_rowD(1) [OF row] by (simp_all add: aget_Some)
  show ?thesis
    using True a gl assms(6) utf8size_bounds [of "gc ?g ! 0"]
    by (auto simp: copy_cell_def Let_def aget_def copy_out_def utf8size_def)
next
  case False
  then show ?thesis by (simp add: copy_cell_def)
qed

lemma copy_row_ok:
  assumes "wf_term s" "sel_ordered s" "0 \<le> y" "y < trow s" "y \<le> selb_y (sel s) \<Longrightarrow> \<not> b"
    and "int (length out) + (if selb_y (sel s) \<le> y \<and> y \<le> sele_y (sel s) then 4 * tcol s + 1 else 0) \<le> n"
  shows "\<exists>b' out'. copy_row n s y (b, out) = Some (b', out') \<and> (y + 1 \<le> selb_y (sel s) \<longrightarrow> \<not> b')
    \<and> int (length out') \<le> int (length out) + (if selb_y (sel s) \<le> y \<and> y \<le> sele_y (sel s) then 4 * tcol s + 1 else 0)"
proof -
  note g = wf_termD(1) [OF assms(1)] note geo = wf_geoD [OF g]
  let ?l = "tline s ! nat y" and ?in = "selb_y (sel s) \<le> y \<and> y \<le> sele_y (sel s)"
  have l: "aget (tline s) y = Some ?l" using geo assms by (simp add: aget_Some)
  obtain m where m: "last_set (tcol s) ?l = Some m" "-1 \<le> m" "m < tcol s"
    using last_set_ok [of "tcol s" ?l] wf_geo_row_length [OF g assms(3,4)] geo by auto
  let ?P = "\<lambda>x (c, o' :: byte list). (c \<longrightarrow> b \<or> ?in) \<and> int (length o') \<le> int (length out) + (if ?in then 4 * x else 0)"
  have "\<exists>io. for_up 0 m (copy_cell n y s) (b, out) = Some io \<and> ?P (max 0 (m + 1)) io"
  proof (rule for_up_inv)
    show "?P 0 (b, out)" by simp
    fix x io assume x: "0 \<le> x" "x \<le> m" and P: "?P x io"
    obtain c o' where io: "io = (c, o')" by (cases io)
    have room: "int (length o') + 4 \<le> n" if "selected x y s"
      using P io assms(6) x m(3) selected_rows [OF assms(2) that] by auto
    from copy_cell_ok [OF assms(1) x(1) _ assms(3,4), of o' n c] x m(3) room
    obtain o2 where o2: "copy_cell n y s x (c, o') = Some (selected x y s, o2)"
      "int (length o2) \<le> int (length o') + (if selected x y s then 4 else 0)" by auto
    then show "\<exists>io'. copy_cell n y s x io = Some io' \<and> ?P (x + 1) io'"
      using P io selected_rows [OF assms(2), of x y] by (auto split: if_splits)
  qed
  then obtain c o' where r: "for_up 0 m (copy_cell n y s) (b, out) = Some (c, o')" "c \<longrightarrow> b \<or> ?in"
    "int (length o') \<le> int (length out) + (if ?in then 4 * (m + 1) else 0)"
    using m by (auto simp: max_def split: if_splits)
  have e: "copy_row n s y (b, out) = (if c \<and> y < sele_y (sel s)
     then do { out \<leftarrow> copy_out n [0x0A] o'; Some (c, out) } else Some (c, o'))"
    using l m r by (simp add: copy_row_def)
  have le: "int (length o') \<le> int (length out) + (if ?in then 4 * tcol s else 0)" using r(3) m(3) by auto
  show ?thesis
  proof (cases "c \<and> y < sele_y (sel s)")
    case True
    then have b: ?in using r(2) assms(5) by (cases "y \<le> selb_y (sel s)") auto
    with True le assms(6) show ?thesis unfolding e by (auto simp: copy_out_def)
  next
    case False
    have nb: "y + 1 \<le> selb_y (sel s) \<longrightarrow> \<not> c" using r(2) assms(5) by auto
    have e': "copy_row n s y (b, out) = Some (c, o')" unfolding e using False by auto
    from le nb geo(2) show ?thesis unfolding e' by (cases ?in) auto
  qed
qed

text \<open>The copy of a selection fits the buffer allocated for it, terminator included.\<close>

lemma selcopy_text_ok:
  assumes "wf_term s" "sel_ordered s" "(tcol s + 1) * (sele_y (sel s) - selb_y (sel s) + 1) * 4 \<le> INT_MAX"
  shows "\<exists>t. selcopy_text s = Some t"
proof (cases "selbx (sel s) = -1")
  case False
  note geo = wf_geoD [OF wf_termD(1) [OF assms(1)]]
  let ?b = "selb_y (sel s)" and ?e = "sele_y (sel s)" and ?w = "4 * tcol s + 1"
  let ?N = "?e - ?b + 1" and ?n = "(tcol s + 1) * (?e - ?b + 1) * 4"
  have N: "1 \<le> ?N" using assms(2) by (simp add: sel_ordered_def)
  have "0 \<le> ?n" using N geo by simp
  with assms(3) have i: "i32 ?n = Some ?n" by (intro i32_in) (simp_all add: INT_MIN_def)
  let ?c = "\<lambda>y. max 0 (min y (?e + 1) - ?b)"
  have n: "?w * ?N + 1 \<le> ?n" using N by (simp add: algebra_simps)
  let ?P = "\<lambda>y (b, out :: byte list). (y \<le> ?b \<longrightarrow> \<not> b) \<and> int (length out) \<le> ?w * ?c y"
  have "\<exists>io. for_up 0 (trow s - 1) (copy_row ?n s) (False, []) = Some io \<and> ?P (max 0 (trow s - 1 + 1)) io"
  proof (rule for_up_inv)
    show "?P 0 (False, [])" using geo by simp
    fix y io assume y: "0 \<le> y" "y \<le> trow s - 1" and P: "?P y io"
    obtain b out where io: "io = (b, out)" by (cases io)
    let ?d = "if ?b \<le> y \<and> y \<le> ?e then ?w else 0"
    have "?c (y + 1) = ?c y + (if ?b \<le> y \<and> y \<le> ?e then 1 else 0)" using N by (simp add: max_def min_def)
    then have c: "?w * ?c y + ?d = ?w * ?c (y + 1)" by (simp only: distrib_left) auto
    have "?w * ?c (y + 1) \<le> ?w * ?N" using geo N by (intro mult_left_mono) auto
    with P io c n have room: "int (length out) + ?d \<le> ?n" by auto
    have nb: "y \<le> ?b \<Longrightarrow> \<not> b" and yr: "y < trow s" using P io y by auto
    from copy_row_ok [OF assms(1,2) y(1) yr nb room] obtain b' out' where r: "copy_row ?n s y (b, out) = Some (b', out')" "y + 1 \<le> ?b \<longrightarrow> \<not> b'"
      "int (length out') \<le> int (length out) + ?d" by blast
    have "int (length out') \<le> ?w * ?c (y + 1)" using r(3) P io c by auto
    with r io show "\<exists>io'. copy_row ?n s y io = Some io' \<and> ?P (y + 1) io'" by auto
  qed
  then obtain b out where r: "for_up 0 (trow s - 1) (copy_row ?n s) (False, []) = Some (b, out)"
    "int (length out) \<le> ?w * ?c (trow s)" using geo by auto
  have "?w * ?c (trow s) \<le> ?w * ?N" using geo N by (intro mult_left_mono) auto
  with r(2) n have "int (length out) + 1 \<le> ?n" by simp
  with r i False show ?thesis by (simp add: selcopy_text_def copy_out_def)
qed (simp add: selcopy_text_def)

text \<open>Room for the copy, for an anchor of the selection that may lie below the screen.\<close>

definition sel_room :: "st \<Rightarrow> bool" where
  "sel_room s \<longleftrightarrow> 0 \<le> selby (sel s) \<and> (tcol s + 1) * (selby (sel s) + trow s) * 4 \<le> INT_MAX"

lemma selcopy_ok:
  assumes "wf_term s" "sel_ordered s" "sel_room s" "0 \<le> seley (sel s)" "seley (sel s) < trow s"
  shows "\<exists>s'. selcopy s = Some s' \<and> keeps s s'"
proof -
  note geo = wf_geoD [OF wf_termD(1) [OF assms(1)]]
  have "sele_y (sel s) - selb_y (sel s) + 1 \<le> selby (sel s) + trow s"
    using assms by (auto simp: sel_ordered_def sel_room_def)
  then have "(tcol s + 1) * (sele_y (sel s) - selb_y (sel s) + 1) \<le> (tcol s + 1) * (selby (sel s) + trow s)"
    using geo by (intro mult_left_mono) auto
  then have "(tcol s + 1) * (sele_y (sel s) - selb_y (sel s) + 1) * 4 \<le> INT_MAX" using assms(3) by (simp add: sel_room_def)
  from selcopy_text_ok [OF assms(1,2) this] keeps_sel [OF assms(1)] show ?thesis by (auto simp: selcopy_def)
qed

lemma word_cell_ok: "wf_row c l \<Longrightarrow> 0 \<le> x \<Longrightarrow> x < c \<Longrightarrow> \<exists>w. word_cell l x = Some w"
  using wf_rowD(1) [of c l] wf_rowD(2) [of c l x] by (auto simp: word_cell_def aget_Some ok_glyph_def)

lemma word_start_ok:
  "wf_row c l \<Longrightarrow> 0 \<le> x \<Longrightarrow> x < c \<Longrightarrow> \<exists>r. word_start x l = Some r \<and> 0 \<le> r \<and> r \<le> x
    \<and> (\<forall>k. r \<le> k \<and> k < x \<longrightarrow> word_cell l k = Some True) \<and> (0 < r \<longrightarrow> word_cell l (r - 1) = Some False)"
proof (induction x l rule: word_start.induct)
  case (1 x l)
  show ?case
  proof (cases "x > 0")
    case True
    then obtain w where w: "word_cell l (x - 1) = Some w" using word_cell_ok [of c l "x - 1"] "1.prems" by auto
    show ?thesis
    proof (cases w)
      case t: True
      obtain r where r: "word_start (x - 1) l = Some r" "0 \<le> r" "r \<le> x - 1"
        "\<forall>k. r \<le> k \<and> k < x - 1 \<longrightarrow> word_cell l k = Some True" "0 < r \<longrightarrow> word_cell l (r - 1) = Some False"
        using "1.IH" [OF True w t] "1.prems" True by auto
      have "word_cell l k = Some True" if "r \<le> k" "k < x" for k using r(4) w t that by (cases "k = x - 1") auto
      with True w t r show ?thesis by (subst word_start.simps) auto
    next
      case False
      with True w show ?thesis by (subst word_start.simps) auto
    qed
  next
    case False
    with "1.prems" show ?thesis by (subst word_start.simps) auto
  qed
qed

lemma word_end_ok:
  "wf_row c l \<Longrightarrow> 0 \<le> x \<Longrightarrow> x < c \<Longrightarrow> \<exists>r. word_end x c l = Some r \<and> x \<le> r \<and> r < c
    \<and> (\<forall>k. x < k \<and> k \<le> r \<longrightarrow> word_cell l k = Some True) \<and> (r < c - 1 \<longrightarrow> word_cell l (r + 1) = Some False)"
proof (induction x c l rule: word_end.induct)
  case (1 x c l)
  show ?case
  proof (cases "x < c - 1")
    case True
    then obtain w where w: "word_cell l (x + 1) = Some w" using word_cell_ok [of c l "x + 1"] "1.prems" by auto
    show ?thesis
    proof (cases w)
      case t: True
      obtain r where r: "word_end (x + 1) c l = Some r" "x + 1 \<le> r" "r < c"
        "\<forall>k. x + 1 < k \<and> k \<le> r \<longrightarrow> word_cell l k = Some True" "r < c - 1 \<longrightarrow> word_cell l (r + 1) = Some False"
        using "1.IH" [OF True w t] "1.prems" True by auto
      have "word_cell l k = Some True" if "x < k" "k \<le> r" for k using r(4) w t that by (cases "k = x + 1") auto
      with True w t r show ?thesis by (subst word_end.simps) auto
    next
      case False
      with True w show ?thesis by (subst word_end.simps) auto
    qed
  next
    case False
    with "1.prems" show ?thesis by (subst word_end.simps) auto
  qed
qed

lemma getbuttoninfo_ordered: "sel_ordered (getbuttoninfo e s)"
  by (simp add: sel_ordered_def getbuttoninfo_def Let_def)

lemma getbuttoninfo_sel [simp]:
  "seley (sel (getbuttoninfo e s)) = y2row (uint (my e)) s" "selex (sel (getbuttoninfo e s)) = x2col (uint (mx e)) s"
  "selby (sel (getbuttoninfo e s)) = selby (sel s)" "selbx (sel (getbuttoninfo e s)) = selbx (sel s)"
  "trow (getbuttoninfo e s) = trow s" "tcol (getbuttoninfo e s) = tcol s" "tdirty (getbuttoninfo e s) = tdirty s"
  "tline (getbuttoninfo e s) = tline s" "wf_term (getbuttoninfo e s) = wf_term s" "core (getbuttoninfo e s) = core s"
  by (simp_all add: getbuttoninfo_def Let_def)

lemma click_select_ok:
  assumes "wf_term s" "sel_room s" "selby (sel s) = seley (sel s)" "0 \<le> seley (sel s)" "seley (sel s) < trow s"
    "0 \<le> selex (sel s)" "selex (sel s) < tcol s"
  shows "\<exists>s'. click_select now s = Some s' \<and> keeps s s'"
proof -
  note g = wf_termD(1) [OF assms(1)]
  let ?l = "tline s ! nat (seley (sel s))"
  have row: "wf_row (tcol s) ?l" "aget (tline s) (seley (sel s)) = Some ?l"
    using wf_geo_row [OF g assms(4,5)] assms wf_geoD(7) [OF g] by (simp_all add: aget_Some)
  obtain b e where be: "word_start (selex (sel s)) ?l = Some b" "word_end (selex (sel s)) (tcol s) ?l = Some e"
    using word_start_ok [OF row(1) assms(6,7)] word_end_ok [OF row(1) assms(6,7)] by auto
  have k: "\<exists>s'. selcopy (s\<lparr>sel := q\<rparr>) = Some s' \<and> keeps s s'"
    if q: "selb_y q = seley q" "sele_y q = seley q" "seley q = seley (sel s)" "selby q = selby (sel s)" for q
  proof -
    have "sel_ordered (s\<lparr>sel := q\<rparr>)" "sel_room (s\<lparr>sel := q\<rparr>)" "wf_term (s\<lparr>sel := q\<rparr>)"
      using assms q by (simp_all add: sel_ordered_def sel_room_def)
    then obtain s' where "selcopy (s\<lparr>sel := q\<rparr>) = Some s'" "keeps (s\<lparr>sel := q\<rparr>) s'"
      using selcopy_ok [of "s\<lparr>sel := q\<rparr>"] assms(4,5) q(3) by auto
    then show ?thesis using keeps_trans [OF keeps_sel [OF assms(1)]] by blast
  qed
  show ?thesis
    unfolding click_select_def Let_def
    using be row(2) k keeps_sel [OF assms(1)] by (auto intro!: k)
qed

text \<open>Every mouse event is handled without an undefined execution.\<close>

lemma bpress_ok: "wf_term s \<Longrightarrow> \<exists>s'. bpress e s = Some s' \<and> keeps s s'"
proof -
  assume s: "wf_term s"
  have "safe_op (\<lambda>s. do { s \<leftarrow> tsetdirt a b s; draw s })" for a b
    by (rule safe_op_seq [OF screen_op_safe [OF tsetdirt_op] draw_op])
  moreover have "wf_term (s\<lparr>sel := (sel s)\<lparr>selbx := -1\<rparr>\<rparr>)" using s by simp
  ultimately obtain s1 where s1: "do { s \<leftarrow> tsetdirt (selb_y (sel s)) (sele_y (sel s)) (s\<lparr>sel := (sel s)\<lparr>selbx := -1\<rparr>\<rparr>); draw s } = Some s1"
    "keeps (s\<lparr>sel := (sel s)\<lparr>selbx := -1\<rparr>\<rparr>) s1"
    using safe_op.safe by blast
  have k: "keeps s s1" using keeps_trans [OF keeps_sel [OF s] s1(2)] .
  show ?thesis
  proof (cases "flag (tmode s) MODE_MOUSE")
    case True
    then show ?thesis using keeps_mousereport [OF s] by (simp add: bpress_def)
  next
    case False
    have "keeps s (s1\<lparr>sel := q\<rparr>)" "keeps s (s\<lparr>sel := q\<rparr>)" for q using k s by (simp_all add: keeps_def)
    with False keeps_refl [OF s] show ?thesis unfolding bpress_def s1(1) by simp
  qed
qed

lemma brelease_ok:
  assumes "wf_term s" "sel_room s"
  shows "\<exists>s'. brelease now now' e s = Some s' \<and> keeps s s'"
proof (cases "flag (tmode s) MODE_MOUSE")
  case True
  then show ?thesis using keeps_mousereport [OF assms(1)] by (simp add: brelease_def)
next
  case False
  note geo = wf_geoD [OF wf_termD(1) [OF assms(1)]]
  let ?q = "getbuttoninfo e (s\<lparr>sel := (sel s)\<lparr>selmode := False\<rparr>\<rparr>)"
  let ?d = "(tdirty s)[nat (seley (sel ?q)) := True]"
  let ?s = "?q\<lparr>tdirty := ?d\<rparr>"
  have y: "0 \<le> seley (sel ?q)" "seley (sel ?q) < trow s" "0 \<le> selex (sel ?q)" "selex (sel ?q) < tcol s"
    using x2col_range [of "s\<lparr>sel := (sel s)\<lparr>selmode := False\<rparr>\<rparr>"] y2row_range [of "s\<lparr>sel := (sel s)\<lparr>selmode := False\<rparr>\<rparr>"] assms(1)
    by simp_all
  have w: "wf_term ?s" "core ?s = core s" "trow ?s = trow s" "tcol ?s = tcol s" "sel ?s = sel ?q"
    using assms(1) by (simp_all add: wf_term_def [of "?q\<lparr>tdirty := ?d\<rparr>"] wf_geo_def wf_cursor_def wf_scroll_def getbuttoninfo_def Let_def wf_term_def)
  have d: "aset (tdirty ?q) (seley (sel ?q)) True = Some ?d" using y geo by (simp add: aset_Some)
  have o: "sel_ordered ?s" using getbuttoninfo_ordered [of e "s\<lparr>sel := (sel s)\<lparr>selmode := False\<rparr>\<rparr>"] by (simp add: sel_ordered_def)
  have r: "sel_room ?s" using assms(2) w by (simp add: sel_room_def)
  obtain s1 where s1: "(if selbx (sel ?s) = selex (sel ?s) \<and> selby (sel ?s) = seley (sel ?s)
       then click_select now ?s else selcopy ?s) = Some s1" "keeps ?s s1"
    using click_select_ok [OF w(1) r, of now] selcopy_ok [OF w(1) o r] y w by (cases "selbx (sel ?s) = selex (sel ?s) \<and> selby (sel ?s) = seley (sel ?s)") auto
  have k: "keeps s s1" using s1(2) w by (simp add: keeps_def)
  have "keeps s (s1\<lparr>sel := q\<rparr>)" "keeps s (s\<lparr>sel := q\<rparr>)" for q using k assms(1) by (simp_all add: keeps_def)
  with False d s1(1) show ?thesis by (auto simp: brelease_def Let_def)
qed

lemma bmotion_ok: "wf_term s \<Longrightarrow> \<exists>s'. bmotion e s = Some s' \<and> keeps s s'"
proof -
  assume s: "wf_term s"
  have g: "wf_term (getbuttoninfo e s)" "core (getbuttoninfo e s) = core s" using s by simp_all
  show ?thesis
    using safe_op.safe [OF screen_op_safe [OF tsetdirt_op] g(1)] keeps_mousereport [OF s] keeps_refl [OF s] s g
    by (auto simp: bmotion_def Let_def keeps_def)
qed

end
