(* ===== verification/Keyboard.thy ===== *)
theory Keyboard
  imports Mouse
begin

text \<open>
  The on-screen keyboard of simple-terminal (src/package/simple-terminal/src/keyboard.c) and
  the gamepad reader that feeds it (keymon.c). The buttons differ between the builds: a
  record \<open>build\<close> holds what the preprocessor selects. The events pushed to the SDL queue are
  kept in the field \<open>pushed\<close>, the latest last; the queue is taken to have room. SDL's key
  symbols and modifiers are the constants of SDL 1.2.
\<close>

section \<open>Key symbols\<close>

abbreviation (input) SDLK_BACKSPACE :: int where "SDLK_BACKSPACE \<equiv> 8"
abbreviation (input) SDLK_TAB :: int where "SDLK_TAB \<equiv> 9"
abbreviation (input) SDLK_RETURN :: int where "SDLK_RETURN \<equiv> 13"
abbreviation (input) SDLK_ESCAPE :: int where "SDLK_ESCAPE \<equiv> 27"
abbreviation (input) SDLK_SPACE :: int where "SDLK_SPACE \<equiv> 32"
abbreviation (input) SDLK_DELETE :: int where "SDLK_DELETE \<equiv> 127"
abbreviation (input) SDLK_KP_PERIOD :: int where "SDLK_KP_PERIOD \<equiv> 266"
abbreviation (input) SDLK_KP_DIVIDE :: int where "SDLK_KP_DIVIDE \<equiv> 267"
abbreviation (input) SDLK_UP :: int where "SDLK_UP \<equiv> 273"
abbreviation (input) SDLK_DOWN :: int where "SDLK_DOWN \<equiv> 274"
abbreviation (input) SDLK_RIGHT :: int where "SDLK_RIGHT \<equiv> 275"
abbreviation (input) SDLK_LEFT :: int where "SDLK_LEFT \<equiv> 276"
abbreviation (input) SDLK_INSERT :: int where "SDLK_INSERT \<equiv> 277"
abbreviation (input) SDLK_HOME :: int where "SDLK_HOME \<equiv> 278"
abbreviation (input) SDLK_END :: int where "SDLK_END \<equiv> 279"
abbreviation (input) SDLK_PAGEUP :: int where "SDLK_PAGEUP \<equiv> 280"
abbreviation (input) SDLK_PAGEDOWN :: int where "SDLK_PAGEDOWN \<equiv> 281"
abbreviation (input) SDLK_F1 :: int where "SDLK_F1 \<equiv> 282"
abbreviation (input) SDLK_F7 :: int where "SDLK_F7 \<equiv> 288"
abbreviation (input) SDLK_F8 :: int where "SDLK_F8 \<equiv> 289"
abbreviation (input) SDLK_F12 :: int where "SDLK_F12 \<equiv> 293"
abbreviation (input) SDLK_CAPSLOCK :: int where "SDLK_CAPSLOCK \<equiv> 301"
abbreviation (input) SDLK_RSHIFT :: int where "SDLK_RSHIFT \<equiv> 303"
abbreviation (input) SDLK_LSHIFT :: int where "SDLK_LSHIFT \<equiv> 304"
abbreviation (input) SDLK_RCTRL :: int where "SDLK_RCTRL \<equiv> 305"
abbreviation (input) SDLK_LCTRL :: int where "SDLK_LCTRL \<equiv> 306"
abbreviation (input) SDLK_RALT :: int where "SDLK_RALT \<equiv> 307"
abbreviation (input) SDLK_LALT :: int where "SDLK_LALT \<equiv> 308"
abbreviation (input) SDLK_RMETA :: int where "SDLK_RMETA \<equiv> 309"
abbreviation (input) SDLK_LMETA :: int where "SDLK_LMETA \<equiv> 310"
abbreviation (input) SDLK_LSUPER :: int where "SDLK_LSUPER \<equiv> 311"
abbreviation (input) SDLK_RSUPER :: int where "SDLK_RSUPER \<equiv> 312"
abbreviation (input) SDLK_MODE :: int where "SDLK_MODE \<equiv> 313"
abbreviation (input) SDLK_PRINT :: int where "SDLK_PRINT \<equiv> 316"
abbreviation (input) SDLK_MENU :: int where "SDLK_MENU \<equiv> 319"

abbreviation (input) KMOD_LSHIFT :: "32 word" where "KMOD_LSHIFT \<equiv> 0x0001"
abbreviation (input) KMOD_RSHIFT :: "32 word" where "KMOD_RSHIFT \<equiv> 0x0002"
abbreviation (input) KMOD_LCTRL :: "32 word" where "KMOD_LCTRL \<equiv> 0x0040"
abbreviation (input) KMOD_RCTRL :: "32 word" where "KMOD_RCTRL \<equiv> 0x0080"
abbreviation (input) KMOD_LALT :: "32 word" where "KMOD_LALT \<equiv> 0x0100"
abbreviation (input) KMOD_RALT :: "32 word" where "KMOD_RALT \<equiv> 0x0200"
abbreviation (input) KMOD_LMETA :: "32 word" where "KMOD_LMETA \<equiv> 0x0400"
abbreviation (input) KMOD_RMETA :: "32 word" where "KMOD_RMETA \<equiv> 0x0800"
abbreviation (input) KMOD_CAPS :: "32 word" where "KMOD_CAPS \<equiv> 0x2000"
abbreviation (input) KMOD_MODE :: "32 word" where "KMOD_MODE \<equiv> 0x4000"
abbreviation (input) KMOD_SHIFT :: "32 word" where "KMOD_SHIFT \<equiv> 0x0003"
abbreviation (input) KMOD_CTRL :: "32 word" where "KMOD_CTRL \<equiv> 0x00C0"
abbreviation (input) KMOD_ALT :: "32 word" where "KMOD_ALT \<equiv> 0x0300"
abbreviation (input) KMOD_META :: "32 word" where "KMOD_META \<equiv> 0x0C00"

abbreviation (input) KMOD_SYNTHETIC :: "32 word" where "KMOD_SYNTHETIC \<equiv> push_bit 13 1"
abbreviation (input) NUM_ROWS :: int where "NUM_ROWS \<equiv> 6"
abbreviation (input) NUM_KEYS :: int where "NUM_KEYS \<equiv> 18"

section \<open>Builds\<close>

text \<open>
  The buttons, and three conditions of the preprocessor: the code for a hidden keyboard
  (lines 595 to 624), the buttons L2 and R2 (not on TRIMUISMART), and the back quote that is
  ignored on R36S.
\<close>

record build =
  KEY_UP :: int
  KEY_DOWN :: int
  KEY_LEFT :: int
  KEY_RIGHT :: int
  KEY_ENTER :: int
  KEY_TOGGLE :: int
  KEY_BACKSPACE :: int
  KEY_SHIFT :: int
  KEY_LOCATION :: int
  KEY_ACTIVATE :: int
  KEY_QUIT :: int
  KEY_TAB :: int
  KEY_RETURN :: int
  KEY_ARROW_LEFT :: int
  KEY_ARROW_RIGHT :: int
  KEY_ARROW_UP :: int
  KEY_ARROW_DOWN :: int
  hidden_keys :: bool
  has_l2r2 :: bool
  skip_backquote :: bool

definition rg35xxplus :: build where
  "rg35xxplus = \<lparr>KEY_UP = 103, KEY_DOWN = 108, KEY_LEFT = 105, KEY_RIGHT = 106, KEY_ENTER = 304, KEY_TOGGLE = 309,
     KEY_BACKSPACE = 305, KEY_SHIFT = 308, KEY_LOCATION = 306, KEY_ACTIVATE = 307, KEY_QUIT = 312, KEY_TAB = 310,
     KEY_RETURN = 311, KEY_ARROW_LEFT = 314, KEY_ARROW_RIGHT = 315, KEY_ARROW_UP = 115, KEY_ARROW_DOWN = 114,
     hidden_keys = True, has_l2r2 = True, skip_backquote = False\<rparr>"

definition r36s :: build where
  "r36s = \<lparr>KEY_UP = 544, KEY_DOWN = 545, KEY_LEFT = 546, KEY_RIGHT = 547, KEY_ENTER = 305, KEY_TOGGLE = 311,
     KEY_BACKSPACE = 304, KEY_SHIFT = 310, KEY_LOCATION = 308, KEY_ACTIVATE = 307, KEY_QUIT = 708, KEY_TAB = 704,
     KEY_RETURN = 705, KEY_ARROW_LEFT = 312, KEY_ARROW_RIGHT = 313, KEY_ARROW_UP = 115, KEY_ARROW_DOWN = 114,
     hidden_keys = True, has_l2r2 = True, skip_backquote = True\<rparr>"

definition rgb30 :: build where
  "rgb30 = \<lparr>KEY_UP = 544, KEY_DOWN = 545, KEY_LEFT = 546, KEY_RIGHT = 547, KEY_ENTER = 305, KEY_TOGGLE = 311,
     KEY_BACKSPACE = 304, KEY_SHIFT = 310, KEY_LOCATION = 308, KEY_ACTIVATE = 307, KEY_QUIT = 708, KEY_TAB = 314,
     KEY_RETURN = 315, KEY_ARROW_LEFT = 312, KEY_ARROW_RIGHT = 313, KEY_ARROW_UP = 115, KEY_ARROW_DOWN = 114,
     hidden_keys = True, has_l2r2 = True, skip_backquote = False\<rparr>"

definition h700 :: build where
  "h700 = \<lparr>KEY_UP = 544, KEY_DOWN = 545, KEY_LEFT = 546, KEY_RIGHT = 547, KEY_ENTER = 305, KEY_TOGGLE = 311,
     KEY_BACKSPACE = 304, KEY_SHIFT = 310, KEY_LOCATION = 308, KEY_ACTIVATE = 307, KEY_QUIT = 316, KEY_TAB = 314,
     KEY_RETURN = 315, KEY_ARROW_LEFT = 312, KEY_ARROW_RIGHT = 313, KEY_ARROW_UP = 115, KEY_ARROW_DOWN = 114,
     hidden_keys = True, has_l2r2 = True, skip_backquote = False\<rparr>"

definition trimuisp :: build where
  "trimuisp = \<lparr>KEY_UP = 103, KEY_DOWN = 108, KEY_LEFT = 105, KEY_RIGHT = 106, KEY_ENTER = 305, KEY_TOGGLE = 311,
     KEY_BACKSPACE = 304, KEY_SHIFT = 310, KEY_LOCATION = 308, KEY_ACTIVATE = 307, KEY_QUIT = 316, KEY_TAB = 314,
     KEY_RETURN = 315, KEY_ARROW_LEFT = 2, KEY_ARROW_RIGHT = 5, KEY_ARROW_UP = 997, KEY_ARROW_DOWN = 996,
     hidden_keys = False, has_l2r2 = True, skip_backquote = False\<rparr>"

definition generic_pc :: build where
  "generic_pc = \<lparr>KEY_UP = SDLK_UP, KEY_DOWN = SDLK_DOWN, KEY_LEFT = SDLK_LEFT, KEY_RIGHT = SDLK_RIGHT,
     KEY_ENTER = SDLK_RETURN, KEY_TOGGLE = SDLK_LALT, KEY_BACKSPACE = SDLK_BACKSPACE, KEY_SHIFT = SDLK_LSHIFT,
     KEY_LOCATION = SDLK_ESCAPE, KEY_ACTIVATE = SDLK_ESCAPE, KEY_QUIT = SDLK_HOME, KEY_TAB = SDLK_TAB,
     KEY_RETURN = SDLK_LCTRL, KEY_ARROW_LEFT = SDLK_PAGEUP, KEY_ARROW_RIGHT = SDLK_PAGEDOWN,
     KEY_ARROW_UP = SDLK_KP_DIVIDE, KEY_ARROW_DOWN = SDLK_KP_PERIOD,
     hidden_keys = False, has_l2r2 = True, skip_backquote = False\<rparr>"

section \<open>Tables\<close>

definition row_length :: "int list" where
  "row_length = [13, 17, 17, 15, 14, 9]"

text \<open>The symbols of a string of ASCII characters, and the rest of an array of NUM_KEYS.\<close>

definition ascii :: "string \<Rightarrow> int list" where
  "ascii cs = map of_char cs"

definition key_row :: "int list \<Rightarrow> int list" where
  "key_row ks = ks @ replicate (18 - length ks) 0"

definition keys :: "int list list list" where
  "keys =
    [[key_row [SDLK_ESCAPE, SDLK_F1, 283, 284, 285, 286, 287, SDLK_F8, 290, 291, 292, SDLK_F12],
      key_row ([96] @ ascii ''1234567890-='' @ [SDLK_BACKSPACE, SDLK_INSERT, SDLK_DELETE, SDLK_UP]),
      key_row ([SDLK_TAB] @ ascii ''qwertyuiop[]'' @ [0x5C, SDLK_HOME, SDLK_END, SDLK_DOWN]),
      key_row ([SDLK_CAPSLOCK] @ ascii ''asdfghjkl;'' @ [0x27, SDLK_RETURN, SDLK_PAGEUP, SDLK_LEFT]),
      key_row ([SDLK_LSHIFT] @ ascii ''zxcvbnm,./'' @ [SDLK_RSHIFT, SDLK_PAGEDOWN, SDLK_RIGHT]),
      key_row [SDLK_LCTRL, SDLK_LSUPER, SDLK_LALT, SDLK_SPACE, SDLK_RALT, SDLK_RSUPER, SDLK_MENU, SDLK_RCTRL, SDLK_PRINT]],
     [key_row [SDLK_ESCAPE, SDLK_F1, 283, 284, 285, 286, 287, SDLK_F8, 290, 291, 292, SDLK_F12],
      key_row (ascii ''~!@#$%^&*()_+'' @ [SDLK_BACKSPACE, SDLK_INSERT, SDLK_DELETE, SDLK_UP]),
      key_row ([SDLK_TAB] @ ascii ''qwertyuiop{}|'' @ [SDLK_HOME, SDLK_END, SDLK_DOWN]),
      key_row ([SDLK_CAPSLOCK] @ ascii ''asdfghjkl:'' @ [0x22, SDLK_RETURN, SDLK_PAGEUP, SDLK_LEFT]),
      key_row ([SDLK_LSHIFT] @ ascii ''zxcvbnm<>?'' @ [SDLK_RSHIFT, SDLK_PAGEDOWN, SDLK_RIGHT]),
      key_row [SDLK_LCTRL, SDLK_LSUPER, SDLK_LALT, SDLK_SPACE, SDLK_RALT, SDLK_RSUPER, SDLK_MENU, SDLK_RCTRL, SDLK_PRINT]]]"

text \<open>The labels; \<open>None\<close> is NULL, which also fills the rest of each array.\<close>

definition sym_row :: "string list \<Rightarrow> string option list" where
  "sym_row ss = map Some ss @ replicate (18 - length ss) None"

definition letters :: "string \<Rightarrow> string list" where
  "letters cs = map (\<lambda>c. [c]) cs"

definition syms :: "string option list list list" where
  "syms =
    [[sym_row [''Esc'', ''F1'', ''F2'', ''F3'', ''F4'', ''F5'', ''F6'', ''F7'', ''F8'', ''F9'', ''F10'', ''F11'', ''F12''],
      sym_row ([''` ''] @ letters ''1234567890-='' @ [''Bsp'', ''Ins'', ''Del'', '' ^ '']),
      sym_row ([''Tab''] @ letters ''qwertyuiop[]'' @ [[CHR 0x5C], ''Home'', ''End'', [CHR 0x20, CHR 0xDE, CHR 0x20]]),
      sym_row ([''Caps''] @ letters ''asdfghjkl;'' @ [[CHR 0x27], ''Enter'', ''Pg Up'', '' < '']),
      sym_row ([''Shift''] @ letters ''zxcvbnm,./'' @ ['' Shift'', ''Pg Dn'', '' > '']),
      sym_row [''Ctrl'', '' '', ''Alt'', ''    Space    '', ''Alt'', '' '', ''Fn'', ''Ctrl'', ''PsS'']],
     [sym_row [''Esc'', ''F1'', ''F2'', ''F3'', ''F4'', ''F5'', ''F6'', ''F7'', ''F8'', ''F9'', ''F10'', ''F11'', ''F12''],
      sym_row ([''~ ''] @ letters ''!@#$%^&*()_+'' @ [''Bsp'', ''Ins'', ''Del'', '' ^ '']),
      sym_row ([''Tab''] @ letters ''QWERTYUIOP{}|'' @ [''Home'', ''End'', [CHR 0x20, CHR 0xDE, CHR 0x20]]),
      sym_row ([''Caps''] @ letters ''ASDFGHJKL:'' @ [[CHR 0x22], ''Enter'', ''Pg Up'', '' < '']),
      sym_row ([''Shift''] @ letters ''ZXCVBNM<>?'' @ ['' Shift'', ''Pg Dn'', '' > '']),
      sym_row [''Ctrl'', '' '', ''Alt'', ''    Space    '', ''Alt'', '' '', ''Fn'', ''Ctrl'', ''PsS'']]]"

section \<open>State\<close>

text \<open>
  A key event: whether its type is SDL_KEYDOWN (else SDL_KEYUP), whether its state is
  SDL_PRESSED (else SDL_RELEASED), and its \<open>keysym\<close>.
\<close>

record key_event =
  kdown :: bool
  kpressed :: bool
  kscancode :: byte
  ksym :: int
  kmod :: "32 word"
  kunicode :: "16 word"

record kb =
  toggled :: "byte list list"
  selected_i :: int
  selected_j :: int
  shifted :: int
  location :: bool
  mod_state :: "32 word"
  active :: bool
  show_help :: bool
  visual_offset :: int
  sdl_modstate :: "32 word"
  pushed :: "key_event list"

definition init_keyboard :: "kb \<Rightarrow> kb" where
  "init_keyboard k =
     k\<lparr>toggled := replicate 6 (replicate 18 0), selected_i := 0, selected_j := 0, shifted := 0,
       location := False, mod_state := 0\<rparr>"

section \<open>Simulated keys\<close>

datatype key_state = STATE_TYPED | STATE_UP | STATE_DOWN

text \<open>The modifier a key stands for; none for the other keys.\<close>

definition key_modifier :: "int \<Rightarrow> 32 word" where
  "key_modifier key =
     (if key = SDLK_LSHIFT then KMOD_LSHIFT
      else if key = SDLK_RSHIFT then KMOD_RSHIFT
      else if key = SDLK_LCTRL then KMOD_LCTRL
      else if key = SDLK_RCTRL then KMOD_RCTRL
      else if key = SDLK_LALT then KMOD_LALT
      else if key = SDLK_RALT then KMOD_RALT
      else if key = SDLK_LMETA then KMOD_LMETA
      else if key = SDLK_RMETA then KMOD_RMETA
      else if key = SDLK_CAPSLOCK then KMOD_CAPS
      else if key = SDLK_MODE then KMOD_MODE
      else 0)"

definition update_modstate :: "int \<Rightarrow> key_state \<Rightarrow> kb \<Rightarrow> kb" where
  "update_modstate key state k =
     (let m = (case state of
                 STATE_DOWN \<Rightarrow> mod_state k OR key_modifier key
               | STATE_UP \<Rightarrow> mod_state k AND NOT (key_modifier key)
               | STATE_TYPED \<Rightarrow> mod_state k)
      in k\<lparr>mod_state := m, sdl_modstate := m\<rparr>)"

definition synthetic :: "bool \<Rightarrow> int \<Rightarrow> key_event" where
  "synthetic down key =
     \<lparr>kdown = down, kpressed = down, kscancode = 0, ksym = key, kmod = KMOD_SYNTHETIC,
      kunicode = (if key < 128 then word_of_int key else 0)\<rparr>"

definition simulate_key :: "int \<Rightarrow> key_state \<Rightarrow> kb \<Rightarrow> kb" where
  "simulate_key key state k =
     (let k = update_modstate key state k in
      k\<lparr>pushed := pushed k @
        (case state of
           STATE_TYPED \<Rightarrow> [synthetic True key, synthetic False key]
         | STATE_UP \<Rightarrow> [synthetic False key]
         | STATE_DOWN \<Rightarrow> [synthetic True key])\<rparr>)"

section \<open>Navigation\<close>

text \<open>\<open>strlen(syms[0][row][i])\<close>, undefined for NULL and outside the table.\<close>

definition label :: "int \<Rightarrow> int \<Rightarrow> int \<Rightarrow> string option" where
  "label sh row i = do { t \<leftarrow> aget syms sh; r \<leftarrow> aget t row; l \<leftarrow> aget r i; l }"

definition label_length :: "int \<Rightarrow> int \<Rightarrow> int option" where
  "label_length row i = do { l \<leftarrow> label 0 row i; Some (int (length l)) }"

definition compute_visual_offset :: "int \<Rightarrow> int \<Rightarrow> int option" where
  "compute_visual_offset col row = do {
     sum \<leftarrow> for_up 0 (col - 1) (\<lambda>i sum. do { n \<leftarrow> label_length row i; Some (sum + (1 + n)) }) 0;
     n \<leftarrow> label_length row col;
     Some (sum + (1 + n) div 2) }"

function new_col_loop :: "int \<Rightarrow> int \<Rightarrow> int \<Rightarrow> int \<Rightarrow> int \<Rightarrow> int option" where
  "new_col_loop len v new_row new_sum new_col =
     (if new_col < len - 1 then do {
        n \<leftarrow> label_length new_row new_col;
        if new_sum + (1 + n) div 2 < v
        then new_col_loop len v new_row (new_sum + (1 + n)) (new_col + 1)
        else Some new_col }
      else Some new_col)"
  by pat_completeness auto
termination
  by (relation "measure (\<lambda>(len, v, r, s, c). nat (len - 1 - c))") auto

declare new_col_loop.simps [simp del]

definition compute_new_col :: "int \<Rightarrow> int \<Rightarrow> int \<Rightarrow> int option" where
  "compute_new_col v old_row new_row = do {
     len \<leftarrow> aget row_length new_row;
     new_col_loop len v new_row 0 0 }"

definition move_up :: "kb \<Rightarrow> kb option" where
  "move_up k = do {
     k \<leftarrow> (if selected_j k > 0 then do {
            c \<leftarrow> compute_new_col (visual_offset k) (selected_j k) (selected_j k - 1);
            Some (k\<lparr>selected_i := c, selected_j := selected_j k - 1\<rparr>) }
          else Some (k\<lparr>selected_j := NUM_ROWS - 1\<rparr>));
     len \<leftarrow> aget row_length (selected_j k);
     Some (if selected_i k \<ge> len then k\<lparr>selected_i := len - 1\<rparr> else k) }"

definition move_down :: "kb \<Rightarrow> kb option" where
  "move_down k = do {
     k \<leftarrow> (if selected_j k < NUM_ROWS - 1 then do {
            c \<leftarrow> compute_new_col (visual_offset k) (selected_j k) (selected_j k + 1);
            Some (k\<lparr>selected_i := c, selected_j := selected_j k + 1\<rparr>) }
          else Some (k\<lparr>selected_j := 0\<rparr>));
     Some (if selected_i k < 0 then k\<lparr>selected_i := 0\<rparr> else k) }"

definition move_left :: "kb \<Rightarrow> kb option" where
  "move_left k = do {
     len \<leftarrow> aget row_length (selected_j k);
     let k = (if selected_i k > 0 then k\<lparr>selected_i := selected_i k - 1\<rparr> else k\<lparr>selected_i := len - 1\<rparr>);
     v \<leftarrow> compute_visual_offset (selected_i k) (selected_j k);
     Some (k\<lparr>visual_offset := v\<rparr>) }"

definition move_right :: "kb \<Rightarrow> kb option" where
  "move_right k = do {
     len \<leftarrow> aget row_length (selected_j k);
     let k = (if selected_i k < len - 1 then k\<lparr>selected_i := selected_i k + 1\<rparr> else k\<lparr>selected_i := 0\<rparr>);
     v \<leftarrow> compute_visual_offset (selected_i k) (selected_j k);
     Some (k\<lparr>visual_offset := v\<rparr>) }"

section \<open>Keys\<close>

definition selected_key :: "kb \<Rightarrow> int option" where
  "selected_key k = do { t \<leftarrow> aget keys (shifted k); r \<leftarrow> aget t (selected_j k); aget r (selected_i k) }"

definition set_toggled :: "int \<Rightarrow> int \<Rightarrow> byte \<Rightarrow> kb \<Rightarrow> kb option" where
  "set_toggled j i v k = do {
     r \<leftarrow> aget (toggled k) j;
     r \<leftarrow> aset r i v;
     t \<leftarrow> aset (toggled k) j r;
     Some (k\<lparr>toggled := t\<rparr>) }"

definition get_toggled :: "int \<Rightarrow> int \<Rightarrow> kb \<Rightarrow> byte option" where
  "get_toggled j i k = do { r \<leftarrow> aget (toggled k) j; aget r i }"

definition toggle_key :: "kb \<Rightarrow> kb option" where
  "toggle_key k = do {
     t \<leftarrow> get_toggled (selected_j k) (selected_i k) k;
     k \<leftarrow> set_toggled (selected_j k) (selected_i k) (1 - t) k;
     t \<leftarrow> get_toggled (selected_j k) (selected_i k) k;
     key \<leftarrow> selected_key k;
     let k = simulate_key key (if t \<noteq> 0 then STATE_DOWN else STATE_UP) k;
     Some (if selected_j k = 4 \<and> (selected_i k = 0 \<or> selected_i k = 11) then k\<lparr>shifted := uint t\<rparr> else k) }"

definition enter_key :: "kb \<Rightarrow> kb option" where
  "enter_key k = do {
     key \<leftarrow> selected_key k;
     Some (if flag (mod_state k) KMOD_CTRL then
             if 64 \<le> key \<and> key < 64 + 32 then simulate_key (key - 64) STATE_DOWN k
             else if 97 \<le> key \<and> key < 97 + 31 then simulate_key (key - 96) STATE_DOWN k
             else k
           else if flag (mod_state k) KMOD_SHIFT \<and> 97 \<le> key \<and> key \<le> 122
           then simulate_key (key - 97 + 65) STATE_TYPED k
           else simulate_key key STATE_TYPED k) }"

text \<open>A press while the keyboard is shown, in the order of the tests; \<open>None\<close> inside is KEY_QUIT.\<close>

definition press_key :: "build \<Rightarrow> int \<Rightarrow> kb \<Rightarrow> kb option option" where
  "press_key b ks k =
     (if show_help k then Some (Some k)
      else if ks = KEY_QUIT b then Some None
      else if ks = KEY_UP b then do { k \<leftarrow> move_up k; Some (Some k) }
      else if ks = KEY_DOWN b then do { k \<leftarrow> move_down k; Some (Some k) }
      else if ks = KEY_LEFT b then do { k \<leftarrow> move_left k; Some (Some k) }
      else if ks = KEY_RIGHT b then do { k \<leftarrow> move_right k; Some (Some k) }
      else if ks = KEY_SHIFT b then do {
        k \<leftarrow> set_toggled 4 0 1 (k\<lparr>shifted := 1\<rparr>);
        Some (Some (update_modstate SDLK_LSHIFT STATE_DOWN k)) }
      else if ks = KEY_LOCATION b then Some (Some (k\<lparr>location := \<not> location k\<rparr>))
      else if ks = KEY_BACKSPACE b then Some (Some (simulate_key SDLK_BACKSPACE STATE_TYPED k))
      else if ks = KEY_ARROW_UP b then Some (Some (simulate_key SDLK_UP STATE_TYPED k))
      else if ks = KEY_ARROW_DOWN b then Some (Some (simulate_key SDLK_DOWN STATE_TYPED k))
      else if has_l2r2 b \<and> ks = KEY_ARROW_LEFT b then Some (Some (simulate_key SDLK_LEFT STATE_TYPED k))
      else if has_l2r2 b \<and> ks = KEY_ARROW_RIGHT b then Some (Some (simulate_key SDLK_RIGHT STATE_TYPED k))
      else if ks = KEY_TAB b then Some (Some (simulate_key SDLK_TAB STATE_TYPED k))
      else if ks = KEY_RETURN b then Some (Some (simulate_key SDLK_RETURN STATE_TYPED k))
      else if ks = KEY_TOGGLE b then do { k \<leftarrow> toggle_key k; Some (Some k) }
      else if ks = KEY_ENTER b then do { k \<leftarrow> enter_key k; Some (Some k) }
      else Some (Some k))"

definition release_key :: "build \<Rightarrow> key_event \<Rightarrow> kb \<Rightarrow> kb option" where
  "release_key b e k =
     (if show_help k then
        Some (if ksym e \<noteq> SDLK_PRINT \<and> ksym e \<noteq> KEY_ENTER b \<and> kscancode e \<noteq> 0 then k\<lparr>show_help := False\<rparr> else k)
      else if ksym e = KEY_SHIFT b then do {
        k \<leftarrow> set_toggled 4 0 0 (k\<lparr>shifted := 0\<rparr>);
        Some (update_modstate SDLK_LSHIFT STATE_UP k) }
      else Some k)"

text \<open>\<open>handle_keyboard_event\<close>: -1 to quit, 1 when the event is consumed, 0 when it is left to the terminal.\<close>

definition handle_keyboard_event :: "build \<Rightarrow> key_event \<Rightarrow> kb \<Rightarrow> (int \<times> kb) option" where
  "handle_keyboard_event b e k =
     (if skip_backquote b \<and> ksym e = 96 then Some (1, k)
      else if kdown e \<and> \<not> flag (kmod e) KMOD_SYNTHETIC \<and> ksym e = KEY_ACTIVATE b
      then Some (1, k\<lparr>active := \<not> active k\<rparr>)
      else if flag (kmod e) KMOD_SYNTHETIC
      then Some (0, if kdown e \<and> ksym e = SDLK_PRINT then k\<lparr>show_help := True\<rparr> else k)
      else if \<not> active k then
        if hidden_keys b \<and> kdown e \<and> kpressed e then
          if ksym e = KEY_QUIT b then Some (-1, k)
          else if ksym e = KEY_RETURN b then Some (0, simulate_key SDLK_RETURN STATE_TYPED k)
          else Some (0, k)
        else Some (0, k)
      else if kdown e \<and> kpressed e then do {
        r \<leftarrow> press_key b (ksym e) k;
        Some (case r of None \<Rightarrow> (-1, k) | Some k' \<Rightarrow> (1, k')) }
      else if \<not> kdown e \<or> \<not> kpressed e then do { k \<leftarrow> release_key b e k; Some (1, k) }
      else Some (1, k))"

section \<open>Drawing\<close>

text \<open>The text \<open>help\<close>, as its lines; \<open>l1\<close> and \<open>l2\<close> are the lines of the builds with the buttons L2 and R2.\<close>

definition help_lines :: "build \<Rightarrow> string list" where
  "help_lines b =
    [''How to use:'',
     ''  ARROWS:     select key from keyboard'',
     ''  A:          press key'',
     ''  B:          backspace''] @
    (if has_l2r2 b then
      [''  L1:         shift'',
       ''  R1:         toggle key (for shift/ctrl...)'']
     else
      [''  L:          shift'',
       ''  R:          backspace'']) @
    [''  Y:          change keyboard location'',
     ''  X:          show / hide keyboard'',
     ''  START:      enter'',
     ''  SELECT:     tab''] @
    (if has_l2r2 b then
      [''  L2:         left'',
       ''  R2:         right'']
     else []) @
    [''  MENU:       quit'',
     [],
     ''Cheatcheet (tutorial at www.shellscript.sh):'',
     ''  TAB key         complete path'',
     ''  UP/DOWN keys    navigate history'',
     ''  pwd             print current directory'',
     ''  ls              list files (-l for file size)'',
     ''  cd <d>          change directory (.. = go up)'',
     ''  cp <f> <d>      copy files (dest can be dir)'',
     ''  mv <f> <d>      move files (dest can be dir)'',
     ''  rm <f>          remove files (use -rf for dir)'',
     []]"

definition bytes :: "string \<Rightarrow> byte list" where
  "bytes cs = map of_char cs"

definition help_text :: "build \<Rightarrow> byte list" where
  "help_text b = concat (map (\<lambda>l. bytes l @ [10]) (help_lines b))"

abbreviation (input) bg_color :: rgb where "bg_color \<equiv> (64, 64, 64)"
abbreviation (input) key_color :: rgb where "key_color \<equiv> (128, 128, 128)"
abbreviation (input) text_color :: rgb where "text_color \<equiv> (0, 0, 0)"
abbreviation (input) sel_color :: rgb where "sel_color \<equiv> (128, 255, 128)"
abbreviation (input) sel_toggled_color :: rgb where "sel_toggled_color \<equiv> (255, 255, 128)"
abbreviation (input) toggled_color :: rgb where "toggled_color \<equiv> (192, 192, 0)"

text \<open>The width of the top row, which gives the width of the keyboard.\<close>

function total_length_loop :: "int \<Rightarrow> int \<Rightarrow> int option" where
  "total_length_loop i acc =
     (if i < NUM_KEYS then do {
        t \<leftarrow> aget syms 0;
        r \<leftarrow> aget t 0;
        l \<leftarrow> aget r i;
        case l of
          None \<Rightarrow> Some acc
        | Some l \<Rightarrow> total_length_loop (i + 1) (acc + (1 + int (length l)) * 6) }
      else Some acc)"
  by pat_completeness auto
termination
  by (relation "measure (\<lambda>(i, acc). nat (NUM_KEYS - i))") auto

declare total_length_loop.simps [simp del]

definition total_length :: "int option" where
  "total_length = total_length_loop 0 (-1)"

text \<open>One key at \<open>(x, y)\<close>: its box and its label; the drawing calls and the next \<open>x\<close>.\<close>

definition key_box_color :: "bool \<Rightarrow> bool \<Rightarrow> rgb" where
  "key_box_color tog at =
     (if tog then if at then sel_toggled_color else toggled_color
      else if at then sel_color else key_color)"

definition draw_key :: "kb \<Rightarrow> int \<Rightarrow> int \<Rightarrow> int \<Rightarrow> int \<times> gfx list \<Rightarrow> (int \<times> gfx list) option" where
  "draw_key k j y i xd = (case xd of (x, d) \<Rightarrow> do {
     l \<leftarrow> label (shifted k) j i;
     t \<leftarrow> get_toggled j i k;
     let len = int (length l);
     let c = key_box_color (t \<noteq> 0) (selected_i k = i \<and> selected_j k = j);
     Some (x + 6 * (len + 1),
       d @ [FillRect (x - 2) (y - 1) (len * 6 + 4) 7 c, DrawString (bytes l) x y text_color]) })"

definition draw_key_row :: "kb \<Rightarrow> int \<Rightarrow> int \<Rightarrow> int \<times> gfx list \<Rightarrow> (int \<times> gfx list) option" where
  "draw_key_row k center_x j yd = (case yd of (y, d) \<Rightarrow> do {
     n \<leftarrow> aget row_length j;
     (x, d) \<leftarrow> for_up 0 (n - 1) (draw_key k j y) (center_x, d);
     Some (y + 8, d) })"

text \<open>
  \<open>draw_keyboard\<close> on a surface of \<open>w\<close> by \<open>h\<close> pixels: the drawing calls. The string CREDIT
  ends in the version, which the build file defines.
\<close>

definition draw_keyboard :: "build \<Rightarrow> byte list \<Rightarrow> int \<Rightarrow> int \<Rightarrow> kb \<Rightarrow> gfx list option" where
  "draw_keyboard b version w h k =
     (if show_help k then
        Some [FillRect 0 0 w h text_color,
              DrawString (bytes ''SDL Terminal by Benob, based on st-sdl'') 2 10 sel_toggled_color,
              DrawString (help_text b) 8 30 sel_color,
              DrawString (bytes ''Update by @haoict (c) 2024. Version: '' @ version) 2 220 sel_toggled_color]
      else if \<not> active k then Some []
      else do {
        total \<leftarrow> total_length;
        let center_x = cdiv (w - total) 2;
        let y = (if location k then 16 else h - 8 * NUM_ROWS - 16);
        (y, d) \<leftarrow> for_up 0 (NUM_ROWS - 1) (draw_key_row k center_x)
          (y, [FillRect (center_x - 4) (y - 3) (total + 3) (NUM_ROWS * 8 + 3) bg_color]);
        Some d })"

section \<open>The gamepad\<close>

text \<open>
  \<open>process_events\<close> of keymon.c: the event pushed for an event of the device, given by its
  code, value and type (EV_KEY is 1, EV_ABS 3). The two axes of the pad become the codes of
  the four arrow keys. The builds that define SDL12COMPAT ignore the sticks.
\<close>

abbreviation (input) RAW_UP :: int where "RAW_UP \<equiv> 103"
abbreviation (input) RAW_DOWN :: int where "RAW_DOWN \<equiv> 108"
abbreviation (input) RAW_LEFT :: int where "RAW_LEFT \<equiv> 105"
abbreviation (input) RAW_RIGHT :: int where "RAW_RIGHT \<equiv> 106"
abbreviation (input) RAW_YAXIS :: int where "RAW_YAXIS \<equiv> 17"
abbreviation (input) RAW_XAXIS :: int where "RAW_XAXIS \<equiv> 16"

definition pad_code :: "int \<Rightarrow> int \<Rightarrow> int" where
  "pad_code ev_code ev_value =
     (if ev_code = RAW_YAXIS then
        if ev_value = -1 then RAW_UP else if ev_value = 1 then RAW_DOWN else ev_code
      else if ev_code = RAW_XAXIS then
        if ev_value = -1 then RAW_LEFT else if ev_value = 1 then RAW_RIGHT else ev_code
      else ev_code)"

definition process_events :: "bool \<Rightarrow> int \<Rightarrow> int \<Rightarrow> int \<Rightarrow> key_event option" where
  "process_events sdl12compat ev_code ev_value ev_type =
     (if ev_type \<noteq> 1 \<and> ev_type \<noteq> 3 then None
      else if sdl12compat \<and> (ev_code = 0 \<or> ev_code = 1 \<or> ev_code = 3 \<or> ev_code = 4) then None
      else
        let down = (ev_value = 1 \<or> ev_value = -1);
            code = pad_code ev_code ev_value
        in Some \<lparr>kdown = down, kpressed = down, kscancode = word_of_int code, ksym = code, kmod = 0, kunicode = 0\<rparr>)"

end
