(* ===== verification/Keyboard_Laws.thy ===== *)
theory Keyboard_Laws
  imports Keyboard
begin

text \<open>
  The on-screen keyboard: its selection never leaves the table, its modifiers are those of
  the keys held down, and what a key press pushes to the event queue.
\<close>

section \<open>The table\<close>

lemma row_length_Some: "0 \<le> j \<Longrightarrow> j < 6 \<Longrightarrow> \<exists>n. aget row_length j = Some n \<and> 1 \<le> n \<and> n \<le> 18"
  by (simp add: aget_def row_length_def nth_Cons' split: if_splits)

definition row_len :: "int \<Rightarrow> int" where
  "row_len j = row_length ! nat j"

lemma aget_row_length: "0 \<le> j \<Longrightarrow> j < 6 \<Longrightarrow> aget row_length j = Some (row_len j)"
  by (simp add: aget_def row_len_def row_length_def)

lemma row_len_bounds: "0 \<le> j \<Longrightarrow> j < 6 \<Longrightarrow> 9 \<le> row_len j \<and> row_len j \<le> 17"
proof -
  assume "0 \<le> j" "j < 6"
  then have "nat j \<in> {0, 1, 2, 3, 4, 5}" by auto
  then show ?thesis by (auto simp: row_len_def row_length_def)
qed

text \<open>Every key has a label; there is a key for every place of the table.\<close>

lemma table_labels:
  "list_all (\<lambda>sh. list_all (\<lambda>j. list_all (\<lambda>i. label (int sh) (int j) (int i) \<noteq> None) [0..<nat (row_length ! j)]) [0..<6]) [0..<2]"
  by code_simp

lemma table_keys:
  "list_all (\<lambda>t. length t = 6 \<and> list_all (\<lambda>r. length r = 18) t) keys \<and> length keys = 2"
  by code_simp

lemma label_Some:
  assumes "0 \<le> sh" "sh < 2" "0 \<le> j" "j < 6" "0 \<le> i" "i < row_len j"
  shows "\<exists>l. label sh j i = Some l"
proof -
  have "nat sh < 2" "nat j < 6" "nat i < nat (row_length ! nat j)" using assms by (auto simp: row_len_def)
  moreover have "\<forall>sh \<in> {0..<2}. \<forall>j \<in> {0..<6}. \<forall>i \<in> {0..<nat (row_length ! j)}. label (int sh) (int j) (int i) \<noteq> None"
    using table_labels by (simp add: list_all_iff del: not_None_eq)
  ultimately have "label (int (nat sh)) (int (nat j)) (int (nat i)) \<noteq> None" by (metis atLeastLessThan_iff zero_le)
  with assms show ?thesis by simp
qed

lemma label_length_Some:
  "0 \<le> j \<Longrightarrow> j < 6 \<Longrightarrow> 0 \<le> i \<Longrightarrow> i < row_len j \<Longrightarrow> \<exists>n. label_length j i = Some n \<and> 0 \<le> n"
  using label_Some [of 0 j i] by (auto simp: label_length_def)

lemma key_Some:
  assumes "0 \<le> sh" "sh < 2" "0 \<le> j" "j < 6" "0 \<le> i" "i < 18"
  shows "\<exists>k. do { t \<leftarrow> aget keys sh; r \<leftarrow> aget t j; aget r i } = Some k"
proof -
  have l: "length keys = 2" "\<And>t. t \<in> set keys \<Longrightarrow> length t = 6" "\<And>t r. t \<in> set keys \<Longrightarrow> r \<in> set t \<Longrightarrow> length r = 18"
    using table_keys by (auto simp: list_all_iff)
  have t: "keys ! nat sh \<in> set keys" using assms l(1) by (intro nth_mem) simp
  have r: "keys ! nat sh ! nat j \<in> set (keys ! nat sh)" using assms l(2) [OF t] by (intro nth_mem) simp
  show ?thesis using assms l(1) l(2) [OF t] l(3) [OF t r] by (simp add: aget_Some)
qed

section \<open>The invariant\<close>

text \<open>The selection is on a key; a toggle is 0 or 1; \<open>shifted\<close> picks one of the two layouts.\<close>

definition wf_kb :: "kb \<Rightarrow> bool" where
  "wf_kb k \<longleftrightarrow> 0 \<le> selected_j k \<and> selected_j k < 6 \<and> 0 \<le> selected_i k \<and> selected_i k < row_len (selected_j k)
     \<and> 0 \<le> shifted k \<and> shifted k < 2 \<and> length (toggled k) = 6
     \<and> (\<forall>r \<in> set (toggled k). length r = 18 \<and> set r \<subseteq> {0, 1})"

lemma wf_kbD:
  assumes "wf_kb k"
  shows "0 \<le> selected_j k" "selected_j k < 6" "0 \<le> selected_i k" "selected_i k < row_len (selected_j k)"
    "0 \<le> shifted k" "shifted k < 2" "length (toggled k) = 6" "\<forall>r \<in> set (toggled k). length r = 18 \<and> set r \<subseteq> {0, 1}"
    "selected_i k < 18"
  using assms row_len_bounds [of "selected_j k"] by (auto simp: wf_kb_def)

lemma wf_init_keyboard: "wf_kb (init_keyboard k)"
  by (simp add: wf_kb_def init_keyboard_def row_len_def row_length_def)

lemma wf_simulate_key [simp]: "wf_kb (simulate_key key st k) = wf_kb k"
  by (simp add: wf_kb_def simulate_key_def update_modstate_def Let_def)

lemma wf_update_modstate [simp]: "wf_kb (update_modstate key st k) = wf_kb k"
  by (simp add: wf_kb_def update_modstate_def Let_def)

lemma simulate_key_sel [simp]:
  "selected_j (simulate_key key st k) = selected_j k" "selected_i (simulate_key key st k) = selected_i k"
  "shifted (simulate_key key st k) = shifted k" "toggled (simulate_key key st k) = toggled k"
  "show_help (simulate_key key st k) = show_help k" "active (simulate_key key st k) = active k"
  by (simp_all add: simulate_key_def update_modstate_def Let_def)

section \<open>Navigation stays on the keyboard\<close>

lemma new_col_ok:
  "0 \<le> j \<Longrightarrow> j < 6 \<Longrightarrow> 0 \<le> c \<Longrightarrow> c < row_len j \<Longrightarrow>
   \<exists>r. new_col_loop (row_len j) v j s c = Some r \<and> c \<le> r \<and> r < row_len j"
proof (induction "row_len j" v j s c rule: new_col_loop.induct)
  case (1 v j s c)
  obtain n where n: "label_length j c = Some n" using label_length_Some "1.prems" by blast
  show ?case
  proof (cases "c < row_len j - 1 \<and> s + (1 + n) div 2 < v")
    case True
    then obtain r where "new_col_loop (row_len j) v j (s + (1 + n)) (c + 1) = Some r" "c + 1 \<le> r" "r < row_len j"
      using "1.hyps" [of n] n "1.prems" by auto
    with True n show ?thesis by (subst new_col_loop.simps) auto
  next
    case False
    with n "1.prems" show ?thesis by (subst new_col_loop.simps) auto
  qed
qed

lemma compute_new_col_ok:
  "0 \<le> j \<Longrightarrow> j < 6 \<Longrightarrow> \<exists>r. compute_new_col v old j = Some r \<and> 0 \<le> r \<and> r < row_len j"
  using new_col_ok [of j 0 v 0] row_len_bounds [of j] by (simp add: compute_new_col_def aget_row_length)

lemma compute_visual_offset_ok:
  assumes "0 \<le> j" "j < 6" "0 \<le> i" "i < row_len j"
  shows "\<exists>v. compute_visual_offset i j = Some v"
proof -
  have "\<exists>s'. for_up 0 (i - 1) (\<lambda>i sum. do { n \<leftarrow> label_length j i; Some (sum + (1 + n)) }) 0 = Some s' \<and> True"
    by (rule for_up_inv) (use label_length_Some assms in fastforce)+
  then show ?thesis using label_length_Some [OF assms] by (auto simp: compute_visual_offset_def)
qed

lemma wf_kb_select: "wf_kb k \<Longrightarrow> 0 \<le> j \<Longrightarrow> j < 6 \<Longrightarrow> 0 \<le> i \<Longrightarrow> i < row_len j \<Longrightarrow> wf_kb (k\<lparr>selected_i := i, selected_j := j\<rparr>)"
  by (simp add: wf_kb_def)

text \<open>A move changes the selection only.\<close>

definition moved :: "kb \<Rightarrow> kb \<Rightarrow> bool" where
  "moved k k' \<longleftrightarrow> k' = k\<lparr>selected_i := selected_i k', selected_j := selected_j k', visual_offset := visual_offset k'\<rparr>"

lemma move_up_ok: "wf_kb k \<Longrightarrow> \<exists>k'. move_up k = Some k' \<and> wf_kb k' \<and> moved k k'"
proof -
  assume k: "wf_kb k"
  note d = wf_kbD [OF k]
  show ?thesis
  proof (cases "selected_j k > 0")
    case True
    then obtain c where c: "compute_new_col (visual_offset k) (selected_j k) (selected_j k - 1) = Some c"
      "0 \<le> c" "c < row_len (selected_j k - 1)" using compute_new_col_ok [of "selected_j k - 1" "visual_offset k" "selected_j k"] True d by auto
    with True d wf_kb_select [OF k, of "selected_j k - 1" c] show ?thesis
      by (simp add: move_up_def aget_row_length moved_def)
  next
    case False
    have "wf_kb (k\<lparr>selected_j := 5, selected_i := min (selected_i k) (row_len 5 - 1)\<rparr>)"
      using k row_len_bounds [of 5] by (simp add: wf_kb_def)
    with False d row_len_bounds [of 5] k show ?thesis
      by (auto simp: move_up_def aget_row_length moved_def wf_kb_def)
  qed
qed

lemma move_down_ok: "wf_kb k \<Longrightarrow> \<exists>k'. move_down k = Some k' \<and> wf_kb k' \<and> moved k k'"
proof -
  assume k: "wf_kb k"
  note d = wf_kbD [OF k]
  show ?thesis
  proof (cases "selected_j k < 5")
    case True
    then obtain c where c: "compute_new_col (visual_offset k) (selected_j k) (selected_j k + 1) = Some c"
      "0 \<le> c" "c < row_len (selected_j k + 1)" using compute_new_col_ok [of "selected_j k + 1" "visual_offset k" "selected_j k"] True d by auto
    with True d wf_kb_select [OF k, of "selected_j k + 1" c] show ?thesis by (simp add: move_down_def moved_def)
  next
    case False
    then have "selected_j k = 5" using d by simp
    then have "wf_kb (k\<lparr>selected_j := 0\<rparr>)" using k by (simp add: wf_kb_def row_len_def row_length_def)
    with False d show ?thesis by (simp add: move_down_def moved_def)
  qed
qed

lemma move_sideways_ok:
  assumes k: "wf_kb k"
  shows "\<exists>k'. move_left k = Some k' \<and> wf_kb k' \<and> moved k k'" and "\<exists>k'. move_right k = Some k' \<and> wf_kb k' \<and> moved k k'"
proof -
  note d = wf_kbD [OF k]
  have b: "9 \<le> row_len (selected_j k)" using row_len_bounds d by blast
  have w: "wf_kb (k\<lparr>selected_i := i, visual_offset := v\<rparr>)" if "0 \<le> i" "i < row_len (selected_j k)" for i v
    using k that by (simp add: wf_kb_def)
  have v: "\<exists>v. compute_visual_offset i (selected_j k) = Some v" if "0 \<le> i" "i < row_len (selected_j k)" for i
    using compute_visual_offset_ok d that by blast
  let ?l = "if selected_i k > 0 then selected_i k - 1 else row_len (selected_j k) - 1"
  let ?r = "if selected_i k < row_len (selected_j k) - 1 then selected_i k + 1 else 0"
  have l: "0 \<le> ?l" "?l < row_len (selected_j k)" and r: "0 \<le> ?r" "?r < row_len (selected_j k)" using d b by auto
  obtain vl where vl: "compute_visual_offset ?l (selected_j k) = Some vl" using v [OF l] by blast
  obtain vr where vr: "compute_visual_offset ?r (selected_j k) = Some vr" using v [OF r] by blast
  have "move_left k = Some (k\<lparr>selected_i := ?l, visual_offset := vl\<rparr>)"
    using vl d by (cases "selected_i k > 0") (simp_all add: move_left_def aget_row_length)
  then show "\<exists>k'. move_left k = Some k' \<and> wf_kb k' \<and> moved k k'" using w [OF l] by (simp add: moved_def)
  have "move_right k = Some (k\<lparr>selected_i := ?r, visual_offset := vr\<rparr>)"
    using vr d by (cases "selected_i k < row_len (selected_j k) - 1") (simp_all add: move_right_def aget_row_length)
  then show "\<exists>k'. move_right k = Some k' \<and> wf_kb k' \<and> moved k k'" using w [OF r] by (simp add: moved_def)
qed

section \<open>Keys and events\<close>

lemma get_toggled_ok:
  assumes "wf_kb k" "0 \<le> j" "j < 6" "0 \<le> i" "i < 18"
  shows "get_toggled j i k = Some (toggled k ! nat j ! nat i)" "toggled k ! nat j ! nat i \<in> {0, 1}"
proof -
  note d = wf_kbD [OF assms(1)]
  have m: "toggled k ! nat j \<in> set (toggled k)" using d assms by (intro nth_mem) simp
  then have l: "length (toggled k ! nat j) = 18" "set (toggled k ! nat j) \<subseteq> {0, 1}" using d(8) by auto
  then show "get_toggled j i k = Some (toggled k ! nat j ! nat i)" using assms d by (simp add: get_toggled_def aget_Some)
  have "toggled k ! nat j ! nat i \<in> set (toggled k ! nat j)" using l assms by (intro nth_mem) simp
  with l(2) show "toggled k ! nat j ! nat i \<in> {0, 1}" by blast
qed

lemma set_toggled_ok:
  assumes "wf_kb k" "0 \<le> j" "j < 6" "0 \<le> i" "i < 18" "v \<in> {0, 1}"
  shows "\<exists>k'. set_toggled j i v k = Some k' \<and> wf_kb k' \<and> toggled k' ! nat j ! nat i = v \<and> k' = k\<lparr>toggled := toggled k'\<rparr>"
proof -
  note d = wf_kbD [OF assms(1)]
  have m: "toggled k ! nat j \<in> set (toggled k)" using d assms by (intro nth_mem) simp
  then have l: "length (toggled k ! nat j) = 18" "set (toggled k ! nat j) \<subseteq> {0, 1}" using d(8) by auto
  let ?r = "(toggled k ! nat j)[nat i := v]" and ?t = "(toggled k)[nat j := (toggled k ! nat j)[nat i := v]]"
  have e: "set_toggled j i v k = Some (k\<lparr>toggled := ?t\<rparr>)"
    using assms d l by (simp add: set_toggled_def aget_Some aset_Some)
  have "set ?r \<subseteq> {0, 1}" using l(2) assms(6) set_update_subset_insert [of "toggled k ! nat j" "nat i" v] by auto
  then have "\<forall>r \<in> set ?t. length r = 18 \<and> set r \<subseteq> {0, 1}"
    using d(8) l(1) set_update_subset_insert [of "toggled k" "nat j" ?r] by auto
  then have "wf_kb (k\<lparr>toggled := ?t\<rparr>)" using assms(1) by (simp add: wf_kb_def)
  with e assms d l show ?thesis by simp
qed

lemma selected_key_ok: "wf_kb k \<Longrightarrow> \<exists>key. selected_key k = Some key"
  using key_Some [of "shifted k" "selected_j k" "selected_i k"] wf_kbD [of k] by (simp add: selected_key_def)

lemma toggle_key_ok: "wf_kb k \<Longrightarrow> \<exists>k'. toggle_key k = Some k' \<and> wf_kb k'"
proof -
  assume k: "wf_kb k"
  note d = wf_kbD [OF k]
  let ?t = "toggled k ! nat (selected_j k) ! nat (selected_i k)"
  have t: "get_toggled (selected_j k) (selected_i k) k = Some ?t" "1 - ?t \<in> {0, 1}"
    using get_toggled_ok [OF k d(1,2,3,9)] by auto
  obtain k1 where k1: "set_toggled (selected_j k) (selected_i k) (1 - ?t) k = Some k1" "wf_kb k1"
    "toggled k1 ! nat (selected_j k) ! nat (selected_i k) = 1 - ?t" "k1 = k\<lparr>toggled := toggled k1\<rparr>"
    using set_toggled_ok [OF k d(1,2,3,9) t(2)] by blast
  have s: "selected_j k1 = selected_j k" "selected_i k1 = selected_i k" by (subst k1(4), simp)+
  have t1: "get_toggled (selected_j k1) (selected_i k1) k1 = Some (1 - ?t)"
    using get_toggled_ok(1) [OF k1(2) d(1,2,3,9)] k1(3) s by simp
  obtain key where key: "selected_key k1 = Some key" using selected_key_ok [OF k1(2)] by blast
  let ?k = "simulate_key key (if 1 - ?t \<noteq> 0 then STATE_DOWN else STATE_UP) k1"
  have "wf_kb (?k\<lparr>shifted := uint (1 - ?t)\<rparr>)" using k1(2) t(2) by (auto simp: wf_kb_def)
  then show ?thesis using t(1) k1(1,2) t1 key s by (auto simp: toggle_key_def Let_def)
qed

lemma enter_key_ok: "wf_kb k \<Longrightarrow> \<exists>k'. enter_key k = Some k' \<and> wf_kb k'"
proof -
  assume k: "wf_kb k"
  then obtain key where key: "selected_key k = Some key" using selected_key_ok by blast
  show ?thesis using k by (simp add: enter_key_def key)
qed

lemma shift_ok: "wf_kb k \<Longrightarrow> s \<in> {0, 1} \<Longrightarrow> v \<in> {0, 1} \<Longrightarrow> \<exists>k'. set_toggled 4 0 v (k\<lparr>shifted := s\<rparr>) = Some k' \<and> wf_kb k'"
  using set_toggled_ok [of "k\<lparr>shifted := s\<rparr>" 4 0 v] by (auto simp: wf_kb_def)

text \<open>One case of the chain of tests: defined, and the keyboard stays well formed.\<close>

definition kb_good :: "kb option option \<Rightarrow> bool" where
  "kb_good r \<longleftrightarrow> (\<exists>q. r = Some q \<and> (\<forall>k. q = Some k \<longrightarrow> wf_kb k))"

lemma kb_good_if: "kb_good a \<Longrightarrow> kb_good b \<Longrightarrow> kb_good (if c then a else b)"
  by simp

lemma kb_good_Some [simp]: "kb_good (Some None)" "kb_good (Some (Some k)) = wf_kb k"
  by (simp_all add: kb_good_def)

lemma kb_good_bind: "\<exists>k'. m = Some k' \<and> wf_kb (f k') \<Longrightarrow> kb_good (do { k \<leftarrow> m; Some (Some (f k)) })"
  by (auto simp: kb_good_def)

lemma press_key_ok: "wf_kb k \<Longrightarrow> kb_good (press_key b ks k)"
proof -
  assume k: "wf_kb k"
  have l: "wf_kb (k\<lparr>location := l\<rparr>)" for l using k by (simp add: wf_kb_def)
  have b: "kb_good (do { k \<leftarrow> m; Some (Some k) })" if "\<exists>k'. m = Some k' \<and> wf_kb k'" for m
    using kb_good_bind [of m "\<lambda>k. k"] that by simp
  have moves: "\<exists>k'. move_up k = Some k' \<and> wf_kb k'" "\<exists>k'. move_down k = Some k' \<and> wf_kb k'"
    "\<exists>k'. move_left k = Some k' \<and> wf_kb k'" "\<exists>k'. move_right k = Some k' \<and> wf_kb k'"
    using move_up_ok [OF k] move_down_ok [OF k] move_sideways_ok [OF k] by blast+
  have s: "\<exists>k'. set_toggled 4 0 1 (k\<lparr>shifted := 1\<rparr>) = Some k' \<and> wf_kb (update_modstate key st k')" for key st
    using shift_ok [OF k, of 1 1] by simp
  show ?thesis
    unfolding press_key_def
    by (intro kb_good_if b moves kb_good_bind s toggle_key_ok enter_key_ok k) (simp_all add: k l)
qed

lemma release_key_ok: "wf_kb k \<Longrightarrow> \<exists>k'. release_key b e k = Some k' \<and> wf_kb k'"
  using shift_ok [of k 0 0] by (auto simp: release_key_def wf_kb_def [of "k\<lparr>show_help := False\<rparr>"] wf_kb_def [of k])

lemma handle_keyboard_event_ok:
  assumes "wf_kb k"
  shows "\<exists>r k'. handle_keyboard_event b e k = Some (r, k') \<and> wf_kb k' \<and> r \<in> {-1, 0, 1}"
proof -
  have a: "wf_kb (k\<lparr>active := v\<rparr>)" "wf_kb (k\<lparr>show_help := v\<rparr>)" for v using assms by (simp_all add: wf_kb_def)
  obtain q where q: "press_key b (ksym e) k = Some q" "\<forall>k'. q = Some k' \<longrightarrow> wf_kb k'"
    using press_key_ok [OF assms, of b "ksym e"] by (auto simp: kb_good_def)
  obtain k1 where k1: "release_key b e k = Some k1" "wf_kb k1" using release_key_ok [OF assms] by blast
  show ?thesis
    using assms a q k1 by (cases q) (auto simp: handle_keyboard_event_def)
qed

text \<open>Plain typing: the enter button pushes the selected key, pressed and released.\<close>

lemma enter_key_typed:
  "selected_key k = Some key \<Longrightarrow> \<not> flag (mod_state k) KMOD_CTRL \<Longrightarrow> \<not> (flag (mod_state k) KMOD_SHIFT \<and> 97 \<le> key \<and> key \<le> 122) \<Longrightarrow>
   enter_key k = Some (simulate_key key STATE_TYPED k)"
  by (auto simp: enter_key_def)

text \<open>Control characters: with Ctrl held, a letter or one of the other keys of its column of ASCII sends its code.\<close>

lemma enter_key_ctrl:
  "selected_key k = Some key \<Longrightarrow> flag (mod_state k) KMOD_CTRL \<Longrightarrow> 97 \<le> key \<Longrightarrow> key \<le> 122 \<Longrightarrow>
   enter_key k = Some (simulate_key (key - 96) STATE_DOWN k)"
  by (simp add: enter_key_def)

text \<open>The label F7 is on a key that sends F8, and F12 on one that sends 0: the table of symbols lacks F7.\<close>

lemma f7_key: "label 0 0 7 = Some ''F7'' \<and> do { t \<leftarrow> aget keys 0; r \<leftarrow> aget t 0; aget r 7 } = Some SDLK_F8
  \<and> label 0 0 12 = Some ''F12'' \<and> do { t \<leftarrow> aget keys 0; r \<leftarrow> aget t 0; aget r 12 } = Some 0"
  by code_simp

text \<open>The mark of simulated events is SDL's bit of the Caps Lock key.\<close>

lemma synthetic_is_caps: "KMOD_SYNTHETIC = KMOD_CAPS"
  by simp

section \<open>Drawing\<close>

lemma total_length_257: "total_length = Some 257"
  by code_simp

lemma draw_key_ok:
  assumes "wf_kb k" "0 \<le> j" "j < 6" "0 \<le> i" "i < row_len j"
  shows "\<exists>l. draw_key k j y i (x, d) =
    Some (x + 6 * (int (length l) + 1),
      d @ [FillRect (x - 2) (y - 1) (int (length l) * 6 + 4) 7
             (key_box_color (toggled k ! nat j ! nat i \<noteq> 0) (selected_i k = i \<and> selected_j k = j)),
           DrawString (bytes l) x y (0, 0, 0)])"
proof -
  have "i < 18" using assms row_len_bounds [of j] by simp
  then have t: "get_toggled j i k = Some (toggled k ! nat j ! nat i)" using get_toggled_ok(1) assms by blast
  obtain l where "label (shifted k) j i = Some l" using label_Some assms wf_kbD(5,6) [OF assms(1)] by blast
  with t show ?thesis by (auto simp: draw_key_def Let_def)
qed

text \<open>A row draws a box and a label for each of its keys.\<close>

lemma draw_key_row_ok:
  assumes "wf_kb k" "0 \<le> j" "j < 6"
  shows "\<exists>d'. draw_key_row k c0 j (y, d) = Some (y + 8, d @ d') \<and> int (length d') = 2 * row_len j"
proof -
  define P where "P i xd \<longleftrightarrow> (\<exists>d'. snd xd = d @ d' \<and> int (length d') = 2 * i)" for i and xd :: "int \<times> gfx list"
  have "\<exists>xd. for_up 0 (row_len j - 1) (draw_key k j y) (c0, d) = Some xd \<and> P (max 0 (row_len j - 1 + 1)) xd"
  proof (rule for_up_inv)
    show "P 0 (c0, d)" by (simp add: P_def)
  next
    fix i xd
    assume i: "0 \<le> i" "i \<le> row_len j - 1" and "P i xd"
    then obtain x d' where xd: "xd = (x, d @ d')" "int (length d') = 2 * i" by (cases xd) (auto simp: P_def)
    from draw_key_ok [OF assms i(1), of y x "d @ d'"] i(2) xd
    show "\<exists>xd'. draw_key k j y i xd = Some xd' \<and> P (i + 1) xd'" by (force simp: P_def)
  qed
  then obtain xd where "for_up 0 (row_len j - 1) (draw_key k j y) (c0, d) = Some xd" "P (row_len j) xd"
    using row_len_bounds [of j] assms by auto
  then show ?thesis using assms by (cases xd) (auto simp: draw_key_row_def aget_row_length P_def)
qed

text \<open>The number of keys in the first rows.\<close>

definition keys_before :: "int \<Rightarrow> int" where
  "keys_before j = sum_list (map (\<lambda>i. row_len (int i)) [0..<nat j])"

lemma keys_before_step: "0 \<le> j \<Longrightarrow> keys_before (j + 1) = keys_before j + row_len j"
  by (simp add: keys_before_def nat_add_distrib)

lemma keys_before_all: "keys_before 6 = 85"
  by code_simp

text \<open>The keyboard is drawn with its background and all of its 85 keys.\<close>

lemma draw_rows_ok:
  assumes k: "wf_kb k"
  shows "\<exists>y' d'. for_up 0 5 (draw_key_row k c0) (y, d) = Some (y', d @ d') \<and> length d' = 170"
proof -
  define P where "P j yd \<longleftrightarrow> (\<exists>d'. snd yd = d @ d' \<and> int (length d') = 2 * keys_before j)" for j and yd :: "int \<times> gfx list"
  have "\<exists>yd. for_up 0 5 (draw_key_row k c0) (y, d) = Some yd \<and> P (max 0 (5 + 1)) yd"
  proof (rule for_up_inv)
    show "P 0 (y, d)" by (simp add: P_def keys_before_def)
  next
    fix j yd
    assume j: "0 \<le> j" "j \<le> 5" and "P j yd"
    then obtain y d' where yd: "yd = (y, d @ d')" "int (length d') = 2 * keys_before j" by (cases yd) (auto simp: P_def)
    have "\<exists>d''. draw_key_row k c0 j (y, d @ d') = Some (y + 8, (d @ d') @ d'') \<and> int (length d'') = 2 * row_len j"
      by (rule draw_key_row_ok [OF k j(1)]) (use j(2) in simp)
    with yd j(1) show "\<exists>yd'. draw_key_row k c0 j yd = Some yd' \<and> P (j + 1) yd'"
      by (auto simp: P_def keys_before_step)
  qed
  then obtain yd where "for_up 0 5 (draw_key_row k c0) (y, d) = Some yd" "P 6 yd" by auto
  then show ?thesis by (cases yd) (auto simp: P_def keys_before_all)
qed

lemma draw_keyboard_ok:
  assumes "wf_kb k" "active k" "\<not> show_help k"
  shows "\<exists>d. draw_keyboard b v w h k = Some d \<and> length d = 171"
proof -
  let ?c0 = "cdiv (w - 257) 2"
  let ?y = "if location k then 16 else h - 8 * 6 - 16"
  obtain y' d' where "for_up 0 5 (draw_key_row k ?c0) (?y, [FillRect (?c0 - 4) (?y - 3) (257 + 3) (6 * 8 + 3) (64, 64, 64)])
    = Some (y', [FillRect (?c0 - 4) (?y - 3) (257 + 3) (6 * 8 + 3) (64, 64, 64)] @ d')" "length d' = 170"
    using draw_rows_ok [OF assms(1)] by blast
  then show ?thesis using assms by (simp add: draw_keyboard_def total_length_257 Let_def)
qed

lemma draw_keyboard_total: "wf_kb k \<Longrightarrow> \<exists>d. draw_keyboard b v w h k = Some d"
proof (cases "active k \<and> \<not> show_help k")
  case True
  assume "wf_kb k"
  with True draw_keyboard_ok [of k b v w h] show ?thesis by blast
qed (auto simp: draw_keyboard_def)

section \<open>The gamepad\<close>

text \<open>A press and its release on the pad: the arrow key is pressed, but what is released is the axis.\<close>

lemma pad_press: "process_events c 17 (-1) 3 = Some \<lparr>kdown = True, kpressed = True, kscancode = 103, ksym = 103, kmod = 0, kunicode = 0\<rparr>"
  by (simp add: process_events_def pad_code_def)

lemma pad_release: "process_events c 17 0 3 = Some \<lparr>kdown = False, kpressed = False, kscancode = 17, ksym = 17, kmod = 0, kunicode = 0\<rparr>"
  by (simp add: process_events_def pad_code_def)

end
