(* ===== verification/Kept_Laws.thy ===== *)
theory Kept_Laws
  imports Mouse
begin

text \<open>
  Drawing and the mouse leave the control sequence being read alone: the window may be
  redrawn, or the mouse used, between two bytes of a sequence.
\<close>

lemma for_up_pres:
  "(\<And>i s s'. body i s = Some s' \<Longrightarrow> f s' = f s) \<Longrightarrow> for_up lo hi body s = Some s' \<Longrightarrow> f s' = f s"
proof (induction lo hi body s rule: for_up.induct)
  case (1 i hi body s)
  show ?case
  proof (cases "i \<le> hi")
    case True
    with "1.prems"(2) obtain s1 where s1: "body i s = Some s1" "for_up (i + 1) hi body s1 = Some s'"
      by (subst (asm) for_up.simps) auto
    from "1.IH" [OF True s1(1) "1.prems"(1) s1(2)] "1.prems"(1) [OF s1(1)] show ?thesis by simp
  next
    case False
    with "1.prems"(2) show ?thesis by (simp add: for_up.simps)
  qed
qed

lemma csi_emit [simp]: "csi (emit g s) = csi s"
  by (simp add: emit_def)

lemma csi_emit_if [simp]: "csi (if c then emit g s else s) = csi s"
  by simp

lemma csi_xclear: "xclear a b c d s = Some s' \<Longrightarrow> csi s' = csi s"
  by (auto simp: xclear_def split: if_splits)

lemma csi_sdltermclear: "sdltermclear a b c d s = Some s' \<Longrightarrow> csi s' = csi s"
  by (auto simp: sdltermclear_def split: if_splits)

lemma csi_xclear_if: "(if c then xclear x1 y1 x2 y2 s else Some s) = Some s' \<Longrightarrow> csi s' = csi s"
  by (auto split: if_splits dest!: csi_xclear)

lemma csi_xdraws: "xdraws cap t base x y n s = Some s' \<Longrightarrow> csi s' = csi s"
  unfolding xdraws_def Let_def bind_Some_iff
  by (elim exE conjE) (auto dest!: csi_xclear_if split del: if_split)

lemma csi_store_terminator: "store_terminator sl x y s = Some s' \<Longrightarrow> csi s' = csi s"
  by (auto simp: store_terminator_def)

lemma csi_xdrawcursor: "xdrawcursor s = Some s' \<Longrightarrow> csi s' = csi s"
proof -
  assume a: "xdrawcursor s = Some s'"
  let ?s = "s\<lparr>oldx := LIMIT (oldx s) 0 (tcol s - 1), oldy := LIMIT (oldy s) 0 (trow s - 1)\<rparr>"
  have c: "csi ?s = csi s" by simp
  from a obtain ch old s1 where s1: "(if flag (gstate old) GLYPH_SET then do {
             lead \<leftarrow> aget (gc old) 0;
             s1 \<leftarrow> store_terminator (utf8size lead) (oldx ?s) (oldy ?s) ?s;
             xdraws 5 (take (utf8size lead) (gc old)) old (oldx ?s) (oldy ?s) 1 s1 }
           else sdltermclear (oldx ?s) (oldy ?s) (oldx ?s) (oldy ?s) ?s) = Some s1"
    and s2: "(if \<not> flag (cstate (tcur s1)) CURSOR_HIDE then do {
       lead \<leftarrow> aget ch 0;
       s \<leftarrow> xdraws 5 (take (utf8size lead) ch) (cursor_glyph ch s1) (cx (tcur s1)) (cy (tcur s1)) 1 s1;
       Some (s\<lparr>oldx := cx (tcur s), oldy := cy (tcur s)\<rparr>) }
     else Some s1) = Some s'"
    unfolding xdrawcursor_def Let_def bind_Some_iff by (elim exE conjE) (rule that)
  from s1 c have "csi s1 = csi s"
    by (auto simp: Let_def split: if_splits dest!: csi_xdraws csi_sdltermclear csi_store_terminator simp del: c)
  with s2 show ?thesis by (auto split: if_splits dest!: csi_xdraws)
qed

lemma csi_draw_cell: "draw_cell ena y x ps = Some ps' \<Longrightarrow> csi (snd ps') = csi (snd ps)"
  by (auto simp: draw_cell_def flush_def Let_def split: if_splits prod.splits dest!: csi_xdraws)

lemma csi_draw_cells: "for_up a b (draw_cell ena y) (p, s) = Some (p', s') \<Longrightarrow> csi s' = csi s"
  using for_up_pres [where f = "\<lambda>ps. csi (snd ps)", OF csi_draw_cell] by fastforce

lemma csi_draw_row: "draw_row ena x1 x2 y s = Some s' \<Longrightarrow> csi s' = csi s"
  by (auto simp: draw_row_def flush_def Let_def split: if_splits prod.splits
      dest!: csi_xdraws csi_sdltermclear csi_draw_cells)

lemma csi_draw_rows: "for_up a b (draw_row ena x1 x2) s = Some s' \<Longrightarrow> csi s' = csi s"
  using for_up_pres [where f = csi, OF csi_draw_row] .

lemma csi_draw: "draw s = Some s' \<Longrightarrow> csi s' = csi s"
  by (auto simp: draw_def xflip_def drawregion_def Let_def split: if_splits dest!: csi_xdrawcursor csi_draw_rows)

lemma csi_tsetdirt: "tsetdirt a b s = Some s' \<Longrightarrow> csi s' = csi s"
  unfolding tsetdirt_def by (rule for_up_pres [where f = csi]) auto

lemma csi_bmotion: "bmotion e s = Some s' \<Longrightarrow> csi s' = csi s"
  by (auto simp: bmotion_def mousereport_def ttywrite_def getbuttoninfo_def Let_def split: if_splits mouse_type.splits dest!: csi_tsetdirt)

lemma csi_bpress: "bpress e s = Some s' \<Longrightarrow> csi s' = csi s"
  by (auto simp: bpress_def mousereport_def ttywrite_def getbuttoninfo_def Let_def split: if_splits mouse_type.splits dest!: csi_draw csi_tsetdirt)

lemma csi_selcopy: "selcopy s = Some s' \<Longrightarrow> csi s' = csi s"
  by (auto simp: selcopy_def)

lemma csi_brelease: "brelease n n' e s = Some s' \<Longrightarrow> csi s' = csi s"
  by (auto simp: brelease_def click_select_def mousereport_def ttywrite_def getbuttoninfo_def Let_def split: if_splits mouse_type.splits dest!: csi_selcopy)

end
