(* ===== verification/Keys.thy ===== *)
theory Keys
  imports Keyboard_Laws Kept_Laws
begin

text \<open>
  Keys that reach the terminal: the table of config.h, \<open>kmap\<close> and \<open>kpress\<close> of
  src/package/simple-terminal/src/main.c. A shortcut calls \<open>xzoom\<close>, which resizes the
  terminal; \<open>junk\<close> and \<open>junk'\<close> are the contents of the memory it gains, as in the theory
  Resize. Only one of the two shortcuts can apply, because their keys differ.
\<close>

section \<open>Definitions\<close>

definition escape_key :: "string \<Rightarrow> byte list" where
  "escape_key cs = 0x1B # bytes cs"

text \<open>The table \<open>key\<close>.\<close>

definition key_table :: "(int \<times> 32 word \<times> byte list) list" where
  "key_table =
     [(SDLK_LEFT, KMOD_ALT, escape_key ''[1;3D''),
      (SDLK_RIGHT, KMOD_ALT, escape_key ''[1;3C''),
      (SDLK_BACKSPACE, 0, [0x7F]),
      (SDLK_INSERT, 0, escape_key ''[2~''),
      (SDLK_DELETE, 0, escape_key ''[3~''),
      (SDLK_HOME, 0, escape_key ''[1~''),
      (SDLK_END, 0, escape_key ''[4~''),
      (SDLK_PAGEUP, 0, escape_key ''[5~''),
      (SDLK_PAGEDOWN, 0, escape_key ''[6~''),
      (SDLK_F1, 0, escape_key ''OP''),
      (283, 0, escape_key ''OQ''),
      (284, 0, escape_key ''OR''),
      (285, 0, escape_key ''OS''),
      (286, 0, escape_key ''[15~''),
      (287, 0, escape_key ''[17~''),
      (SDLK_F7, 0, escape_key ''[18~''),
      (SDLK_F8, 0, escape_key ''[19~''),
      (290, 0, escape_key ''[20~''),
      (291, 0, escape_key ''[21~''),
      (292, 0, escape_key ''[23~''),
      (SDLK_F12, 0, escape_key ''[24~'')]"

text \<open>\<open>kmap\<close>: the first entry with the key whose modifiers are all held, or that has none.\<close>

fun kmap_loop :: "(int \<times> 32 word \<times> byte list) list \<Rightarrow> int \<Rightarrow> 32 word \<Rightarrow> byte list option" where
  "kmap_loop [] k state = None"
| "kmap_loop ((key, m, s) # ks) k state =
     (if key = k \<and> (state AND m = m \<or> (m = 0 \<and> state = 0)) then Some s else kmap_loop ks k state)"

definition kmap :: "int \<Rightarrow> 32 word \<Rightarrow> byte list option" where
  "kmap k state = kmap_loop key_table k state"

definition CLEANMASK :: "32 word \<Rightarrow> 32 word" where
  "CLEANMASK m = m AND (KMOD_SHIFT OR KMOD_CTRL OR KMOD_ALT OR KMOD_META)"

text \<open>The table \<open>shortcuts\<close>: modifiers, key and argument of \<open>xzoom\<close>.\<close>

definition shortcuts :: "(32 word \<times> int \<times> int) list" where
  "shortcuts = [(KMOD_ALT OR KMOD_SHIFT, SDLK_PAGEUP, 1), (KMOD_ALT OR KMOD_SHIFT, SDLK_PAGEDOWN, -1)]"

definition shortcut :: "(nat \<Rightarrow> nat \<Rightarrow> glyph) \<Rightarrow> (nat \<Rightarrow> nat \<Rightarrow> glyph) \<Rightarrow> key_event \<Rightarrow> 32 word \<times> int \<times> int \<Rightarrow> st \<Rightarrow> st option" where
  "shortcut junk junk' e sc s = (case sc of (m, key, arg) \<Rightarrow>
     if ksym e = key \<and> CLEANMASK m AND CLEANMASK (kmod e) = CLEANMASK (kmod e)
     then xzoom arg junk junk' s else Some s)"

text \<open>The bytes of a key that is not in the table.\<close>

definition arrow_bytes :: "bool \<Rightarrow> int \<Rightarrow> st \<Rightarrow> byte list option" where
  "arrow_bytes shift k s = do {
     c \<leftarrow> aget (if shift then bytes ''abcd'' else bytes ''ABCD'') (k - SDLK_UP);
     Some [0x1B, if flag (tmode s) MODE_APPKEYPAD then chr CHR ''O'' else chr CHR ''['', c] }"

definition hardcoded :: "key_event \<Rightarrow> st \<Rightarrow> byte list option" where
  "hardcoded e s =
     (let meta = flag (kmod e) KMOD_ALT; shift = flag (kmod e) KMOD_SHIFT; k = ksym e in
      if k = SDLK_UP \<or> k = SDLK_DOWN \<or> k = SDLK_LEFT \<or> k = SDLK_RIGHT then arrow_bytes shift k s
      else if k = SDLK_INSERT then Some []
      else if k = SDLK_RETURN then
        Some ((if meta then [0x1B] else []) @ (if flag (tmode s) MODE_CRLF then [0x0D, 0x0A] else [0x0D]))
      else if kunicode e \<noteq> 0 then
        (let b = utf8encode (ucast (kunicode e)) in
         Some ((if meta \<and> length b = 1 then [0x1B] else []) @ b))
      else Some [])"

definition kpress :: "(nat \<Rightarrow> nat \<Rightarrow> glyph) \<Rightarrow> (nat \<Rightarrow> nat \<Rightarrow> glyph) \<Rightarrow> key_event \<Rightarrow> st \<Rightarrow> st option" where
  "kpress junk junk' e s =
     (if flag (tmode s) MODE_KBDLOCK then Some s
      else do {
        s \<leftarrow> run (shortcut junk junk' e) shortcuts s;
        case kmap (ksym e) (kmod e) of
          Some customkey \<Rightarrow> Some (ttywrite customkey s)
        | None \<Rightarrow> do { b \<leftarrow> hardcoded e s; Some (ttywrite b s) } })"

section \<open>Laws\<close>

lemma kmap_bits: "kmap k state = kmap k (state AND KMOD_ALT)"
proof -
  have "kmap_loop t k state = kmap_loop t k (state AND KMOD_ALT)"
    if "\<forall>(key, m, s) \<in> set t. m = 0 \<or> m = KMOD_ALT" for t
    using that by (induction t k state rule: kmap_loop.induct) (auto simp: word_bw_assocs)
  moreover have "\<forall>(key, m, s) \<in> set key_table. m = 0 \<or> m = KMOD_ALT" by (simp add: key_table_def)
  ultimately show ?thesis by (simp add: kmap_def)
qed

text \<open>The keys of the table are mapped whatever the modifiers, but the arrows with both Alt keys only.\<close>

lemma kmap_always:
  "k \<in> {SDLK_BACKSPACE, SDLK_INSERT, SDLK_DELETE, SDLK_HOME, SDLK_END, SDLK_PAGEUP, SDLK_PAGEDOWN} \<union> {SDLK_F1..SDLK_F12} \<Longrightarrow> kmap k state \<noteq> None"
proof -
  assume "k \<in> {SDLK_BACKSPACE, SDLK_INSERT, SDLK_DELETE, SDLK_HOME, SDLK_END, SDLK_PAGEUP, SDLK_PAGEDOWN} \<union> {SDLK_F1..SDLK_F12}"
  then have "k \<in> set [8, 277, 127, 278, 279, 280, 281, 282, 283, 284, 285, 286, 287, 288, 289, 290, 291, 292, 293]"
    by (simp, presburger)
  then show ?thesis by (auto simp: kmap_def key_table_def)
qed

lemma kmap_left: "kmap SDLK_LEFT state = (if state AND KMOD_ALT = KMOD_ALT then Some (escape_key ''[1;3D'') else None)"
  by (simp add: kmap_def key_table_def)

lemma kmap_none:
  "k \<notin> fst ` set key_table \<Longrightarrow> kmap k state = None"
proof -
  have "k \<notin> fst ` set t \<Longrightarrow> kmap_loop t k state = None" for t by (induction t k state rule: kmap_loop.induct) auto
  then show "k \<notin> fst ` set key_table \<Longrightarrow> kmap k state = None" by (simp add: kmap_def)
qed

lemma shortcuts_none: "ksym e \<noteq> SDLK_PAGEUP \<Longrightarrow> ksym e \<noteq> SDLK_PAGEDOWN \<Longrightarrow> run (shortcut junk junk' e) shortcuts s = Some s"
  by (simp add: shortcuts_def shortcut_def)

lemma wf_st_keeps: "wf_st s \<Longrightarrow> keeps s s' \<Longrightarrow> csi s' = csi s \<Longrightarrow> wf_st s'"
  unfolding wf_st_def keeps_def core_def wf_esc_def by (simp only: prod.inject) blast

lemma xzoom_ok:
  assumes "wf_st s" "junk_ok junk" "junk_ok junk'"
  shows "\<exists>s'. xzoom arg junk junk' s = Some s' \<and> wf_st s'"
proof -
  have "wf_st (s\<lparr>usedfontsize := usedfontsize s + arg\<rparr>)" using assms(1) by simp
  then obtain s1 where s1: "cresize junk junk' 0 0 (s\<lparr>usedfontsize := usedfontsize s + arg\<rparr>) = Some s1" "wf_st s1"
    using cresize_ok [of "s\<lparr>usedfontsize := usedfontsize s + arg\<rparr>" 0 0] assms by (auto simp: MAX_DIM_def)
  obtain s2 where s2: "draw s1 = Some s2" "keeps s1 s2" using draw_ok [of s1] s1(2) by (auto simp: wf_st_def)
  have "wf_st s2" using s1(2) s2(2) csi_draw [OF s2(1)] by (rule wf_st_keeps)
  with s1(1) s2(1) show ?thesis by (simp add: xzoom_def)
qed

lemma ttywrite_simps [simp]:
  "wf_st (ttywrite b s) = wf_st s" "xw_w (ttywrite b s) = xw_w s" "xw_h (ttywrite b s) = xw_h s"
  "ttyout (ttywrite b s) = ttyout s @ b" "haswin (ttywrite b s) = haswin s"
  by (simp_all add: ttywrite_def wf_st_def wf_esc_def wf_term_def wf_geo_def wf_cursor_def wf_scroll_def)

lemma hardcoded_Some: "\<exists>b. hardcoded e s = Some b"
proof (cases "ksym e = SDLK_UP \<or> ksym e = SDLK_DOWN \<or> ksym e = SDLK_LEFT \<or> ksym e = SDLK_RIGHT")
  case True
  then have "0 \<le> ksym e - SDLK_UP" "ksym e - SDLK_UP < 4" by auto
  then have "\<exists>c. aget (if flag (kmod e) KMOD_SHIFT then bytes ''abcd'' else bytes ''ABCD'') (ksym e - SDLK_UP) = Some c"
    by (auto simp: aget_def bytes_def)
  with True show ?thesis by (auto simp: hardcoded_def arrow_bytes_def Let_def)
next
  case False
  then show ?thesis by (auto simp: hardcoded_def Let_def)
qed

lemma shortcuts_ok:
  assumes "wf_st s" "junk_ok junk" "junk_ok junk'"
  shows "\<exists>s'. run (shortcut junk junk' e) shortcuts s = Some s' \<and> wf_st s'"
  using assms xzoom_ok [OF assms] by (auto simp: shortcuts_def shortcut_def)

lemma kpress_ok:
  assumes "wf_st s" "junk_ok junk" "junk_ok junk'"
  shows "\<exists>s'. kpress junk junk' e s = Some s' \<and> wf_st s'"
proof -
  obtain s1 where "run (shortcut junk junk' e) shortcuts s = Some s1" "wf_st s1" using shortcuts_ok [OF assms] by blast
  moreover obtain b where "hardcoded e s1 = Some b" using hardcoded_Some by blast
  ultimately show ?thesis using assms(1) by (simp add: kpress_def split: option.split)
qed

text \<open>A key that has a character and no entry or case of its own writes the character.\<close>

definition plain_key :: "int \<Rightarrow> bool" where
  "plain_key k \<longleftrightarrow> k \<notin> fst ` set key_table \<and> k \<notin> {SDLK_UP, SDLK_DOWN, SDLK_RETURN}"

lemma kpress_plain:
  assumes "plain_key (ksym e)" "kunicode e \<noteq> 0" "\<not> flag (tmode s) MODE_KBDLOCK" "\<not> flag (kmod e) KMOD_ALT"
  shows "kpress junk junk' e s = Some (ttywrite (utf8encode (ucast (kunicode e))) s)"
proof -
  have k: "ksym e \<notin> {SDLK_PAGEUP, SDLK_PAGEDOWN, SDLK_UP, SDLK_DOWN, SDLK_LEFT, SDLK_RIGHT, SDLK_INSERT, SDLK_RETURN}"
    using assms(1) by (auto simp: plain_key_def key_table_def)
  have "kmap (ksym e) (kmod e) = None" using assms(1) kmap_none by (simp add: plain_key_def)
  with k assms(2-4) show ?thesis by (simp add: kpress_def shortcuts_none hardcoded_def Let_def)
qed

lemma plain_ascii: "32 \<le> k \<Longrightarrow> k \<le> 126 \<Longrightarrow> plain_key k"
  by (simp add: plain_key_def key_table_def)

lemma kpress_locked: "flag (tmode s) MODE_KBDLOCK \<Longrightarrow> kpress junk junk' e s = Some s"
  by (simp add: kpress_def)

end
