(* ===== verification/Window.thy ===== *)
theory Window
  imports Keys
begin

text \<open>
  The event loop of simple-terminal (\<open>run\<close> and the table \<open>handler\<close> of
  src/package/simple-terminal/src/main.c) over the terminal, the on-screen keyboard and the
  queue of SDL. The thread of \<open>ttythread\<close> reads the pseudo-terminal at the same time; here its
  reads are steps of their own between two iterations of the loop.
\<close>

section \<open>Definitions\<close>

datatype event =
  EvQuit
| EvKey key_event
| EvResize int int
| EvExpose
| EvActive bool
| EvMouse mouse
| EvUser
| EvOther

text \<open>
  \<open>overlay\<close> is what \<open>draw_keyboard\<close> drew at the last \<open>xflip\<close>, \<open>quit\<close> says that the loop has
  ended, \<open>unread\<close> is the static buffer of \<open>ttyread\<close>.
\<close>

record world =
  terminal :: st
  kbd :: kb
  queue :: "event list"
  quit :: bool
  overlay :: "gfx list"
  unread :: "byte list"

text \<open>What an iteration takes from outside: new memory, two readings of the clock.\<close>

record env =
  ejunk :: "nat \<Rightarrow> nat \<Rightarrow> glyph"
  ejunk' :: "nat \<Rightarrow> nat \<Rightarrow> glyph"
  enow :: timeval
  enow' :: timeval

text \<open>
  The table \<open>handler\<close>. The \<open>type\<close> of an SDL_ACTIVEEVENT, on which \<open>activeEvent\<close> switches, is 1.
\<close>

definition handler :: "env \<Rightarrow> event \<Rightarrow> st \<Rightarrow> st option" where
  "handler v e s = (case e of
     EvKey k \<Rightarrow> if kdown k then kpress (ejunk v) (ejunk' v) k s else Some s
   | EvResize w h \<Rightarrow> resize (ejunk v) (ejunk' v) w h s
   | EvExpose \<Rightarrow> Some (expose s)
   | EvActive gain \<Rightarrow> Some (activeEvent 1 gain s)
   | EvMouse m \<Rightarrow>
       (case mtype m of
          MouseMotion \<Rightarrow> bmotion m s
        | MouseDown \<Rightarrow> bpress m s
        | MouseUp \<Rightarrow> brelease (enow v) (enow' v) m s)
   | _ \<Rightarrow> Some s)"

text \<open>\<open>xflip\<close>: the window's surface, the keyboard over it, presented.\<close>

definition flip :: "build \<Rightarrow> byte list \<Rightarrow> world \<Rightarrow> world option" where
  "flip b version w =
     (if \<not> haswin (terminal w) then Some w
      else do {
        d \<leftarrow> draw_keyboard b version (xw_w (terminal w)) (xw_h (terminal w)) (kbd w);
        Some (w\<lparr>overlay := d, terminal := xflip (terminal w)\<rparr>) })"

text \<open>The events that the keyboard pushes go to the end of the queue.\<close>

definition push_events :: "world \<Rightarrow> world" where
  "push_events w =
     w\<lparr>queue := queue w @ map EvKey (pushed (kbd w)), kbd := (kbd w)\<lparr>pushed := []\<rparr>\<rparr>"

definition dispatch :: "env \<Rightarrow> event \<Rightarrow> world \<Rightarrow> world option" where
  "dispatch v e w = do { s \<leftarrow> handler v e (terminal w); Some (w\<lparr>terminal := s\<rparr>) }"

definition after_event :: "build \<Rightarrow> byte list \<Rightarrow> event \<Rightarrow> world \<Rightarrow> world option" where
  "after_event b version e w = do {
     w \<leftarrow> (case e of
            EvResize _ _ \<Rightarrow> do { s \<leftarrow> draw (terminal w); Some (w\<lparr>terminal := s\<rparr>) }
          | EvExpose \<Rightarrow> do { s \<leftarrow> draw (terminal w); Some (w\<lparr>terminal := s\<rparr>) }
          | EvUser \<Rightarrow> do { s \<leftarrow> draw (terminal w); Some (w\<lparr>terminal := s\<rparr>) }
          | _ \<Rightarrow> Some w);
     flip b version w }"

text \<open>What \<open>run\<close> does with the result of \<open>handle_keyboard_event\<close>.\<close>

definition key_result :: "build \<Rightarrow> byte list \<Rightarrow> env \<Rightarrow> event \<Rightarrow> int \<Rightarrow> world \<Rightarrow> world option" where
  "key_result b version v e r w =
     (if r = -1 then Some (w\<lparr>quit := True\<rparr>)
      else if r = 1 then do {
        w \<leftarrow> (if skip_backquote b then do { w \<leftarrow> flip b version w; flip b version w } else Some w);
        after_event b version e w }
      else do { w \<leftarrow> dispatch v e w; after_event b version e w })"

text \<open>One iteration of the loop of \<open>run\<close>, for the event that SDL_WaitEvent returned.\<close>

definition run_event :: "build \<Rightarrow> byte list \<Rightarrow> env \<Rightarrow> event \<Rightarrow> world \<Rightarrow> world option" where
  "run_event b version v e w = (case e of
     EvQuit \<Rightarrow> Some (w\<lparr>quit := True\<rparr>)
   | EvKey k \<Rightarrow> do {
       (r, kb) \<leftarrow> handle_keyboard_event b k (kbd w);
       key_result b version v e r (push_events (w\<lparr>kbd := kb\<rparr>)) }
   | _ \<Rightarrow> do { w \<leftarrow> dispatch v e w; after_event b version e w })"

text \<open>The loop takes the first event, if there is one and the program has not quit.\<close>

definition loop_step :: "build \<Rightarrow> byte list \<Rightarrow> env \<Rightarrow> world \<Rightarrow> world option" where
  "loop_step b version v w = (case queue w of
     [] \<Rightarrow> Some w
   | e # es \<Rightarrow> if quit w then Some w else run_event b version v e (w\<lparr>queue := es\<rparr>))"

section \<open>The loop comes to rest\<close>

definition synth :: "key_event \<Rightarrow> bool" where
  "synth e \<longleftrightarrow> flag (kmod e) KMOD_SYNTHETIC"

text \<open>What handling an event pushes: nothing for a simulated key, else at most two simulated keys.\<close>

definition pushes :: "kb \<Rightarrow> kb \<Rightarrow> bool" where
  "pushes k k' \<longleftrightarrow> (\<exists>es. pushed k' = pushed k @ es \<and> length es \<le> 2 \<and> (\<forall>e \<in> set es. synth e))"

lemma pushes_refl: "pushed k' = pushed k \<Longrightarrow> pushes k k'"
  by (simp add: pushes_def)

lemma synth_synthetic [simp]: "synth (synthetic d key)"
  by (simp add: synth_def synthetic_def flag_def)

lemma pushes_simulate: "pushed k1 = pushed k \<Longrightarrow> pushes k (simulate_key key st k1)"
  by (simp add: pushes_def simulate_key_def update_modstate_def Let_def split: key_state.split)

lemma pushed_set_toggled: "set_toggled j i v k = Some k' \<Longrightarrow> pushed k' = pushed k"
  by (auto simp: set_toggled_def)

lemma pushed_move:
  "move_up k = Some k' \<Longrightarrow> pushed k' = pushed k" "move_down k = Some k' \<Longrightarrow> pushed k' = pushed k"
  "move_left k = Some k' \<Longrightarrow> pushed k' = pushed k" "move_right k = Some k' \<Longrightarrow> pushed k' = pushed k"
  by (auto simp: move_up_def move_down_def move_left_def move_right_def Let_def split: if_splits)

lemma pushes_shifted [simp]: "pushes k (k1\<lparr>shifted := v\<rparr>) = pushes k k1"
  by (simp add: pushes_def)

lemma pushes_update [simp]: "pushes k (update_modstate key st k1) = pushes k k1"
  by (simp add: pushes_def update_modstate_def Let_def)

lemma pushes_shift_key: "set_toggled 4 0 v (k\<lparr>shifted := x\<rparr>) = Some k1 \<Longrightarrow> pushes k k1"
  by (rule pushes_refl) (drule pushed_set_toggled, simp)

lemma pushes_toggle: "toggle_key k = Some k' \<Longrightarrow> pushes k k'"
  by (auto simp: toggle_key_def Let_def dest!: pushed_set_toggled intro!: pushes_simulate split: if_splits)

lemma pushes_enter: "enter_key k = Some k' \<Longrightarrow> pushes k k'"
  by (auto simp: enter_key_def intro: pushes_simulate pushes_refl split: if_splits)

lemma pushed_update [simp]: "pushed (update_modstate key st k) = pushed k"
  by (simp add: update_modstate_def Let_def)

text \<open>The chain of tests of \<open>press_key\<close>, as a rule.\<close>

definition pushing :: "kb \<Rightarrow> kb option option \<Rightarrow> bool" where
  "pushing k r \<longleftrightarrow> (\<forall>k'. r = Some (Some k') \<longrightarrow> pushes k k')"

lemma pushing_if: "pushing k a \<Longrightarrow> pushing k b \<Longrightarrow> pushing k (if c then a else b)"
  by simp

lemma pushing_Some: "pushes k k' \<Longrightarrow> pushing k (Some (Some k'))" "pushing k (Some None)"
  by (simp_all add: pushing_def)

lemma pushing_bind: "(\<And>k1. m = Some k1 \<Longrightarrow> pushes k (f k1)) \<Longrightarrow> pushing k (do { k1 \<leftarrow> m; Some (Some (f k1)) })"
  by (auto simp: pushing_def)

lemma pushes_press: "pushing k (press_key b ks k)"
  unfolding press_key_def
  by (intro pushing_if pushing_Some pushing_bind pushes_simulate)
    (auto dest: pushed_move pushed_set_toggled intro: pushes_toggle pushes_enter pushes_refl pushes_shift_key)

lemma pushes_event:
  assumes "handle_keyboard_event b e k = Some (r, k')"
  shows "pushes k k' \<and> (synth e \<longrightarrow> pushed k' = pushed k)"
proof -
  have p: "press_key b (ksym e) k = Some (Some k1) \<Longrightarrow> pushes k k1" for k1
    using pushes_press [of k b "ksym e"] by (simp add: pushing_def)
  have "release_key b e k = Some k1 \<Longrightarrow> pushed k1 = pushed k" for k1
    by (auto simp: release_key_def dest: pushed_set_toggled split: if_splits)
  then show ?thesis
    using assms p
    by (auto simp: handle_keyboard_event_def synth_def intro: pushes_simulate pushes_refl split: if_splits option.splits)
qed

text \<open>A key of the user counts for itself and the two it may become.\<close>

definition ev_weight :: "event \<Rightarrow> nat" where
  "ev_weight e = (case e of EvKey k \<Rightarrow> if synth k then 1 else 3 | _ \<Rightarrow> 1)"

definition weight :: "world \<Rightarrow> nat" where
  "weight w = sum_list (map ev_weight (queue w))"

lemma flip_queue: "flip b version w = Some w' \<Longrightarrow> queue w' = queue w \<and> kbd w' = kbd w \<and> quit w' = quit w"
  by (auto simp: flip_def split: if_splits)

lemma after_event_queue: "after_event b version e w = Some w' \<Longrightarrow> queue w' = queue w \<and> kbd w' = kbd w \<and> quit w' = quit w"
  by (auto simp: after_event_def split: event.splits dest!: flip_queue)

lemma dispatch_queue: "dispatch v e w = Some w' \<Longrightarrow> queue w' = queue w \<and> kbd w' = kbd w \<and> quit w' = quit w"
  by (auto simp: dispatch_def)

lemma key_result_queue: "key_result b version v e r w = Some w' \<Longrightarrow> queue w' = queue w \<and> kbd w' = kbd w"
  by (auto simp: key_result_def split: if_splits dest!: flip_queue after_event_queue dispatch_queue)

text \<open>
  Outside the handling of an event nothing waits in \<open>pushed\<close>. An iteration makes the queue
  lighter.
\<close>

lemma run_event_weight:
  assumes "run_event b version v e w = Some w'" "pushed (kbd w) = []"
  shows "weight w' < weight w + ev_weight e \<and> pushed (kbd w') = []"
proof (cases e)
  case (EvKey k)
  with assms(1) obtain r kb where h: "handle_keyboard_event b k (kbd w) = Some (r, kb)"
    and r: "key_result b version v e r (push_events (w\<lparr>kbd := kb\<rparr>)) = Some w'"
    by (auto simp: run_event_def)
  have q: "queue w' = queue w @ map EvKey (pushed kb)" "kbd w' = kb\<lparr>pushed := []\<rparr>"
    using key_result_queue [OF r] by (simp_all add: push_events_def)
  have es: "length (pushed kb) \<le> 2" "\<forall>e \<in> set (pushed kb). synth e" "synth k \<Longrightarrow> pushed kb = []"
    using pushes_event [OF h] unfolding pushes_def assms(2) append_Nil by auto
  have "sum_list (map ev_weight (map EvKey es)) = length es" if "\<forall>e \<in> set es. synth e" for es
    using that by (induction es) (auto simp: ev_weight_def)
  note this [OF es(2)]
  with q es(1,3) EvKey show ?thesis by (auto simp: weight_def ev_weight_def o_def)
qed (use assms in \<open>auto simp: run_event_def weight_def ev_weight_def dest!: after_event_queue dispatch_queue\<close>)

text \<open>The loop until the queue is empty or the program has quit; iteration \<open>n\<close> sees \<open>v n\<close>.\<close>

function run_queue :: "build \<Rightarrow> byte list \<Rightarrow> (nat \<Rightarrow> env) \<Rightarrow> nat \<Rightarrow> world \<Rightarrow> world option" where
  "run_queue b version v n w =
     (if queue w = [] \<or> quit w \<or> pushed (kbd w) \<noteq> [] then Some w
      else do { w \<leftarrow> loop_step b version (v n) w; run_queue b version v (n + 1) w })"
  by pat_completeness auto
termination
proof (relation "measure (\<lambda>(b, version, v, n, w). weight w)", simp)
  fix b :: build and version :: "byte list" and v :: "nat \<Rightarrow> env" and n :: nat and w w' :: world
  assume c: "\<not> (queue w = [] \<or> quit w \<or> pushed (kbd w) \<noteq> [])" and s: "loop_step b version (v n) w = Some w'"
  then obtain e es where q: "queue w = e # es" by (cases "queue w") auto
  with c s have "run_event b version (v n) e (w\<lparr>queue := es\<rparr>) = Some w'" by (simp add: loop_step_def)
  from run_event_weight [OF this] c q show "((b, version, v, n + 1, w'), b, version, v, n, w) \<in> measure (\<lambda>(b, version, v, n, w). weight w)"
    by (simp add: weight_def)
qed

declare run_queue.simps [simp del]

end
