(* ===== verification/Window_Laws.thy ===== *)
theory Window_Laws
  imports Window
begin

text \<open>
  The event loop keeps the terminal and the keyboard well formed whatever happens in
  between, and a key typed on the on-screen keyboard reaches the program in the terminal.
\<close>

section \<open>No step goes wrong\<close>

lemma wf_st_keeps_csi: "wf_st s \<Longrightarrow> f s = Some s' \<Longrightarrow> keeps s s' \<Longrightarrow> csi s' = csi s \<Longrightarrow> \<exists>s'. f s = Some s' \<and> wf_st s'"
  using wf_st_keeps by blast

lemma draw_st: "wf_st s \<Longrightarrow> \<exists>s'. draw s = Some s' \<and> wf_st s'"
  using draw_ok [of s] csi_draw wf_st_keeps by (metis wf_st_def)

lemma mouse_st:
  assumes "wf_st s"
  shows "\<exists>s'. bpress m s = Some s' \<and> wf_st s'" "\<exists>s'. bmotion m s = Some s' \<and> wf_st s'"
    "sel_room s \<Longrightarrow> \<exists>s'. brelease n n' m s = Some s' \<and> wf_st s'"
proof -
  have t: "wf_term s" using assms by (simp add: wf_st_def)
  show "\<exists>s'. bpress m s = Some s' \<and> wf_st s'" using bpress_ok [OF t] csi_bpress wf_st_keeps [OF assms] by metis
  show "\<exists>s'. bmotion m s = Some s' \<and> wf_st s'" using bmotion_ok [OF t] csi_bmotion wf_st_keeps [OF assms] by metis
  show "sel_room s \<Longrightarrow> \<exists>s'. brelease n n' m s = Some s' \<and> wf_st s'"
    using brelease_ok [OF t] csi_brelease wf_st_keeps [OF assms] by metis
qed

lemma wf_st_view [simp]:
  "wf_st (s\<lparr>xw_state := x\<rparr>) = wf_st s" "wf_st (emit g s) = wf_st s" "wf_st (xflip s) = wf_st s" "wf_st (s\<lparr>frame := f\<rparr>) = wf_st s"
  by (simp_all add: wf_st_def wf_esc_def wf_term_def wf_geo_def wf_cursor_def wf_scroll_def emit_def xflip_def)

text \<open>Sizes within the bound; for the release of a button, room for the copy.\<close>

definition event_ok :: "event \<Rightarrow> st \<Rightarrow> bool" where
  "event_ok e s = (case e of
     EvResize w h \<Rightarrow> w \<le> MAX_DIM \<and> h \<le> MAX_DIM
   | EvMouse m \<Rightarrow> mtype m = MouseUp \<longrightarrow> sel_room s
   | _ \<Rightarrow> True)"

definition env_ok :: "env \<Rightarrow> bool" where
  "env_ok v \<longleftrightarrow> junk_ok (ejunk v) \<and> junk_ok (ejunk' v)"

lemma handler_ok:
  assumes "wf_st s" "env_ok v" "event_ok e s"
  shows "\<exists>s'. handler v e s = Some s' \<and> wf_st s'"
proof (cases e)
  case (EvKey k)
  then show ?thesis using assms kpress_ok by (simp add: handler_def env_ok_def)
next
  case (EvResize w h)
  then show ?thesis using assms cresize_ok by (simp add: handler_def env_ok_def event_ok_def resize_def)
next
  case (EvMouse m)
  then show ?thesis using assms mouse_st [OF assms(1)] by (simp add: handler_def event_ok_def split: mouse_type.split)
qed (use assms(1) in \<open>simp_all add: handler_def expose_def activeEvent_def focus_def\<close>)

definition wf_world :: "world \<Rightarrow> bool" where
  "wf_world w \<longleftrightarrow> wf_st (terminal w) \<and> wf_kb (kbd w) \<and> pushed (kbd w) = [] \<and> length (unread w) < 4"

lemma wf_world_simps [simp]:
  "wf_world (w\<lparr>queue := q\<rparr>) = wf_world w" "wf_world (w\<lparr>quit := b\<rparr>) = wf_world w" "wf_world (w\<lparr>overlay := d\<rparr>) = wf_world w"
  "wf_world (w\<lparr>terminal := s\<rparr>) = (wf_st s \<and> wf_kb (kbd w) \<and> pushed (kbd w) = [] \<and> length (unread w) < 4)"
  by (simp_all add: wf_world_def)

lemma flip_ok: "wf_world w \<Longrightarrow> \<exists>w'. flip b version w = Some w' \<and> wf_world w'"
  using draw_keyboard_total [of "kbd w" b version "xw_w (terminal w)" "xw_h (terminal w)"]
  by (auto simp: flip_def wf_world_def)

lemma after_event_ok: "wf_world w \<Longrightarrow> \<exists>w'. after_event b version e w = Some w' \<and> wf_world w'"
proof -
  assume w: "wf_world w"
  obtain s where s: "draw (terminal w) = Some s" "wf_st s" using w draw_st by (auto simp: wf_world_def)
  then have "wf_world (w\<lparr>terminal := s\<rparr>)" using w by (simp add: wf_world_def)
  from flip_ok [OF this] flip_ok [OF w] s show ?thesis by (simp add: after_event_def split: event.split)
qed

lemma dispatch_ok:
  assumes "wf_world w" "env_ok v" "event_ok e (terminal w)"
  shows "\<exists>w'. dispatch v e w = Some w' \<and> wf_world w'"
  using handler_ok [of "terminal w" v e] assms by (auto simp: dispatch_def wf_world_def)

lemma key_result_ok:
  assumes "wf_world w" "env_ok v" "event_ok e (terminal w)"
  shows "\<exists>w'. key_result b version v e r w = Some w' \<and> wf_world w'"
proof -
  obtain wa where wa: "flip b version w = Some wa" "wf_world wa" using flip_ok [OF assms(1)] by blast
  obtain wb where wb: "flip b version wa = Some wb" "wf_world wb" using flip_ok [OF wa(2)] by blast
  obtain w1 where w1: "(if skip_backquote b then do { w \<leftarrow> flip b version w; flip b version w } else Some w) = Some w1" "wf_world w1"
    using that [of wb] that [of w] wa wb assms(1) by (cases "skip_backquote b") simp_all
  obtain w2 where w2: "dispatch v e w = Some w2" "wf_world w2" using dispatch_ok [OF assms] by blast
  show ?thesis
    using after_event_ok [OF w1(2)] after_event_ok [OF w2(2)] w1(1) w2(1) assms(1) by (simp add: key_result_def)
qed

lemma run_event_ok:
  assumes "wf_world w" "env_ok v" "event_ok e (terminal w)"
  shows "\<exists>w'. run_event b version v e w = Some w' \<and> wf_world w'"
proof (cases e)
  case (EvKey k)
  obtain r kb where h: "handle_keyboard_event b k (kbd w) = Some (r, kb)" "wf_kb kb"
    using handle_keyboard_event_ok [of "kbd w" b k] assms(1) by (auto simp: wf_world_def)
  have "wf_world (push_events (w\<lparr>kbd := kb\<rparr>))"
    using h(2) assms(1) by (simp add: wf_world_def push_events_def wf_kb_def)
  from key_result_ok [OF this assms(2), of e] EvKey h(1) show ?thesis by (simp add: run_event_def event_ok_def)
next
  case EvQuit
  with assms show ?thesis by (simp add: run_event_def)
qed (use dispatch_ok [OF assms] after_event_ok in \<open>fastforce simp: run_event_def\<close>)+

section \<open>The program as one machine\<close>

text \<open>
  A step is an iteration of the loop, the arrival of an event from outside, or a read of
  \<open>ttythread\<close> (the arguments are those of \<open>ttyread\<close>).
\<close>

datatype action =
  Loop env
| Arrive event
| Tty "byte list option" "byte list" "byte list" "int list list"

definition act :: "build \<Rightarrow> byte list \<Rightarrow> action \<Rightarrow> world \<Rightarrow> world option" where
  "act b version a w = (case a of
     Loop v \<Rightarrow> loop_step b version v w
   | Arrive e \<Rightarrow> Some (w\<lparr>queue := queue w @ [e]\<rparr>)
   | Tty t inp s4 rss \<Rightarrow> do {
       (u, s) \<leftarrow> ttyread t inp s4 rss (unread w, terminal w);
       Some (w\<lparr>unread := u, terminal := s\<rparr>) })"

definition action_ok :: "action \<Rightarrow> world \<Rightarrow> bool" where
  "action_ok a w = (case a of
     Loop v \<Rightarrow> env_ok v \<and> (\<forall>e es. queue w = e # es \<longrightarrow> event_ok e (terminal w))
   | Arrive e \<Rightarrow> True
   | Tty t inp s4 rss \<Rightarrow> length s4 = 4 \<and> length (unread w) + length inp \<le> 8192
       \<and> tty.accepts_all t (char_events s4 (fst (scan utf8decode (unread w @ inp))) rss) (terminal w))"

lemma act_ok: "wf_world w \<Longrightarrow> action_ok a w \<Longrightarrow> \<exists>w'. act b version a w = Some w' \<and> wf_world w'"
proof (cases a)
  case (Loop v)
  assume w: "wf_world w" and ok: "action_ok a w"
  with Loop show ?thesis
    using run_event_ok [of "w\<lparr>queue := es\<rparr>" v e b version for e es]
    by (cases "queue w") (auto simp: act_def action_ok_def loop_step_def)
next
  case (Arrive e)
  assume "wf_world w"
  with Arrive show ?thesis by (simp add: act_def)
next
  case (Tty t inp s4 rss)
  assume w: "wf_world w" and ok: "action_ok a w"
  then obtain u s where "ttyread t inp s4 rss (unread w, terminal w) = Some (u, s)" "wf_st s" "length u < 4"
    using ttyread_ok [of s4 "unread w" inp "terminal w" t rss] Tty by (auto simp: action_ok_def wf_world_def)
  with Tty w show ?thesis by (simp add: act_def wf_world_def)
qed

interpretation program: safe_machine "act b version" wf_world action_ok
  by unfold_locales (rule act_ok)

text \<open>
  The loop ends: from a queue of events that are acceptable in every state it reaches an
  empty queue or the end of the program, and nothing goes wrong.
\<close>

definition safe_event :: "event \<Rightarrow> bool" where
  "safe_event e \<longleftrightarrow> (\<forall>s. event_ok e s)"

lemma safe_key [simp]: "safe_event (EvKey k)"
  by (simp add: safe_event_def event_ok_def)

lemma run_event_queue:
  assumes "run_event b version v e w = Some w'"
  shows "\<exists>ks. queue w' = queue w @ map EvKey ks"
proof (cases e)
  case (EvKey k)
  with assms obtain r kb where "key_result b version v e r (push_events (w\<lparr>kbd := kb\<rparr>)) = Some w'"
    by (auto simp: run_event_def)
  then show ?thesis using key_result_queue by (auto simp: push_events_def)
qed (use assms in \<open>auto simp: run_event_def dest!: after_event_queue dispatch_queue\<close>)

lemma run_queue_ok:
  assumes "wf_world w" "\<And>i. env_ok (v i)" "\<forall>e \<in> set (queue w). safe_event e"
  shows "\<exists>w'. run_queue b version v n w = Some w' \<and> wf_world w' \<and> (queue w' = [] \<or> quit w')"
  using assms
proof (induction b version v n w rule: run_queue.induct)
  case (1 b version v n w)
  have p: "pushed (kbd w) = []" using "1.prems"(1) by (simp add: wf_world_def)
  show ?case
  proof (cases "queue w = [] \<or> quit w")
    case True
    with "1.prems"(1) show ?thesis by (subst run_queue.simps) auto
  next
    case False
    then obtain e es where q: "queue w = e # es" by (cases "queue w") auto
    have e: "event_ok e (terminal w)" using "1.prems"(3) q by (simp add: safe_event_def)
    obtain w1 where w1: "run_event b version (v n) e (w\<lparr>queue := es\<rparr>) = Some w1" "wf_world w1"
      using run_event_ok [of "w\<lparr>queue := es\<rparr>" "v n" e b version] "1.prems" e by auto
    have s: "loop_step b version (v n) w = Some w1" using w1(1) q False by (simp add: loop_step_def)
    have "\<forall>e \<in> set (queue w1). safe_event e"
      using run_event_queue [OF w1(1)] "1.prems"(3) q by auto
    from "1.IH" [OF _ s w1(2) "1.prems"(2) this] False p s show ?thesis by (subst run_queue.simps) simp
  qed
qed

section \<open>Typing on the on-screen keyboard\<close>

text \<open>Builds where the enter button has no other meaning.\<close>

definition enter_button :: "build \<Rightarrow> bool" where
  "enter_button b \<longleftrightarrow> KEY_ENTER b \<notin> {KEY_ACTIVATE b, KEY_QUIT b, KEY_UP b, KEY_DOWN b, KEY_LEFT b, KEY_RIGHT b, KEY_SHIFT b,
     KEY_LOCATION b, KEY_BACKSPACE b, KEY_ARROW_UP b, KEY_ARROW_DOWN b, KEY_ARROW_LEFT b, KEY_ARROW_RIGHT b, KEY_TAB b,
     KEY_RETURN b, KEY_TOGGLE b, 96}"

lemma enter_buttons: "enter_button rg35xxplus" "enter_button r36s" "enter_button rgb30" "enter_button h700"
  "enter_button trimuisp" "enter_button generic_pc"
  by (simp_all add: enter_button_def rg35xxplus_def r36s_def rgb30_def h700_def trimuisp_def generic_pc_def)

definition button_press :: "int \<Rightarrow> key_event \<Rightarrow> bool" where
  "button_press k e \<longleftrightarrow> ksym e = k \<and> kdown e \<and> kpressed e \<and> \<not> synth e"

lemma press_enter:
  "enter_button b \<Longrightarrow> button_press (KEY_ENTER b) e \<Longrightarrow> active k \<Longrightarrow> \<not> show_help k \<Longrightarrow>
   handle_keyboard_event b e k = map_option (\<lambda>k. (1, k)) (enter_key k)"
  by (cases "enter_key k") (simp_all add: enter_button_def button_press_def handle_keyboard_event_def press_key_def synth_def)

text \<open>The character a key stands for, with the shift modifiers held.\<close>

definition typed_char :: "kb \<Rightarrow> int \<Rightarrow> int" where
  "typed_char k key = (if flag (mod_state k) KMOD_SHIFT \<and> 97 \<le> key \<and> key \<le> 122 then key - 97 + 65 else key)"

lemma enter_key_char:
  "selected_key k = Some key \<Longrightarrow> \<not> flag (mod_state k) KMOD_CTRL \<Longrightarrow>
   enter_key k = Some (simulate_key (typed_char k key) STATE_TYPED k)"
  by (simp add: enter_key_def typed_char_def)

lemma flip_frame:
  "wf_world w \<Longrightarrow> \<exists>f d. flip b version w = Some (w\<lparr>overlay := d, terminal := (terminal w)\<lparr>frame := f\<rparr>\<rparr>)"
proof -
  assume "wf_world w"
  then obtain d where "draw_keyboard b version (xw_w (terminal w)) (xw_h (terminal w)) (kbd w) = Some d"
    using draw_keyboard_total [of "kbd w" b version "xw_w (terminal w)" "xw_h (terminal w)"] by (auto simp: wf_world_def)
  then have "flip b version w = Some (w\<lparr>overlay := d, terminal := (terminal w)\<lparr>frame := frame (terminal w) @ [Flip]\<rparr>\<rparr>)"
    if "haswin (terminal w)" using that by (simp add: flip_def xflip_def emit_def)
  moreover have "flip b version w = Some (w\<lparr>overlay := overlay w, terminal := (terminal w)\<lparr>frame := frame (terminal w)\<rparr>\<rparr>)"
    if "\<not> haswin (terminal w)" using that by (simp add: flip_def)
  ultimately show ?thesis by blast
qed

lemma synthetic_event:
  assumes "skip_backquote b \<longrightarrow> key \<noteq> 96" "key \<noteq> SDLK_PRINT"
  shows "handle_keyboard_event b (synthetic d key) k = Some (0, k)"
  using assms by (auto simp: handle_keyboard_event_def synthetic_def flag_def)

text \<open>The iteration for a simulated key: the handler of the terminal, then the flip.\<close>

lemma run_synthetic:
  assumes "wf_world w" "skip_backquote b \<longrightarrow> key \<noteq> 96" "key \<noteq> SDLK_PRINT"
    and "handler v (EvKey (synthetic d key)) (terminal w) = Some s" "wf_st s"
  shows "\<exists>f o'. run_event b version v (EvKey (synthetic d key)) w = Some (w\<lparr>overlay := o', terminal := s\<lparr>frame := f\<rparr>\<rparr>)"
proof -
  have p: "push_events w = w" using assms(1) by (simp add: push_events_def wf_world_def)
  have "wf_world (w\<lparr>terminal := s\<rparr>)" using assms(1,5) by (simp add: wf_world_def)
  from flip_frame [OF this] obtain f o' where
    "flip b version (w\<lparr>terminal := s\<rparr>) = Some (w\<lparr>overlay := o', terminal := s\<lparr>frame := f\<rparr>\<rparr>)" by fastforce
  then show ?thesis
    using synthetic_event [OF assms(2,3)] p assms(4)
    by (auto simp: run_event_def key_result_def dispatch_def after_event_def)
qed

lemma unat_small_int: "0 \<le> k \<Longrightarrow> k < 128 \<Longrightarrow> unat (word_of_int k :: 16 word) = nat k"
  "0 \<le> k \<Longrightarrow> k < 128 \<Longrightarrow> unat (word_of_int k :: byte) = nat k"
  by (simp_all add: unat_eq_nat_uint uint_word_of_int)

lemma utf8encode_ascii:
  assumes "0 \<le> k" "k < 128"
  shows "utf8encode (ucast (word_of_int k :: 16 word)) = [word_of_int k]"
proof -
  note w = unat_small_int [OF assms]
  have u: "unat (ucast (word_of_int k :: 16 word) :: 64 word) = nat k" using w(1) assms by (simp add: unsigned_ucast_eq take_bit_nat_eq_self_iff)
  then have le: "unat (ucast (word_of_int k :: 16 word) :: 64 word) \<le> 0x10FFFF" using assms by simp
  show ?thesis
    by (rule utf8encode_cases [OF le]) (use u assms w in \<open>auto simp: word_unat_eq_iff\<close>)
qed

lemma kpress_synthetic:
  assumes "32 \<le> key" "key \<le> 126" "\<not> flag (tmode s) MODE_KBDLOCK"
  shows "kpress junk junk' (synthetic True key) s = Some (ttywrite [word_of_int key] s)"
proof -
  have "(word_of_int key :: 16 word) \<noteq> 0"
    using unat_small_int(1) [of key] assms(1,2) by auto
  then show ?thesis
    using kpress_plain [of "synthetic True key" s junk junk'] plain_ascii [OF assms(1,2)] assms utf8encode_ascii [of key]
    by (simp add: synthetic_def flag_def)
qed

lemma run_queue_step:
  "queue w = e # es \<Longrightarrow> \<not> quit w \<Longrightarrow> pushed (kbd w) = [] \<Longrightarrow> run_event b version (v n) e (w\<lparr>queue := es\<rparr>) = Some w' \<Longrightarrow>
   run_queue b version v n w = run_queue b version v (n + 1) w'"
  by (subst run_queue.simps) (simp add: loop_step_def)

lemma run_queue_empty: "queue w = [] \<Longrightarrow> run_queue b version v n w = Some w"
  by (simp add: run_queue.simps)

text \<open>The whole way: a press of the enter button writes the byte of the selected character.\<close>

lemma press_types:
  assumes w: "wf_world w" "queue w = [EvKey e]" "\<not> quit w" "active (kbd w)" "\<not> show_help (kbd w)"
    and b: "enter_button b" "button_press (KEY_ENTER b) e"
    and k: "selected_key (kbd w) = Some key" "32 \<le> key" "key \<le> 126" "skip_backquote b \<longrightarrow> key \<noteq> 96"
    and m: "\<not> flag (mod_state (kbd w)) KMOD_CTRL" "\<not> flag (tmode (terminal w)) MODE_KBDLOCK"
  shows "\<exists>w' f. run_queue b version v n w = Some w' \<and> queue w' = [] \<and> \<not> quit w'
    \<and> terminal w' = (terminal w)\<lparr>ttyout := ttyout (terminal w) @ [word_of_int (typed_char (kbd w) key)], frame := f\<rparr>
    \<and> kbd w' = (kbd w)\<lparr>sdl_modstate := mod_state (kbd w)\<rparr>"
proof -
  let ?c = "typed_char (kbd w) key" and ?s = "terminal w"
  let ?k = "(kbd w)\<lparr>sdl_modstate := mod_state (kbd w)\<rparr>"
  have c: "32 \<le> ?c" "?c \<le> 126" "skip_backquote b \<longrightarrow> ?c \<noteq> 96" "?c \<noteq> SDLK_PRINT" using k by (auto simp: typed_char_def)
  have pu: "pushed (kbd w) = []" using w(1) by (simp add: wf_world_def)
  have h: "handle_keyboard_event b e (kbd w) = Some (1, ?k\<lparr>pushed := [synthetic True ?c, synthetic False ?c]\<rparr>)"
    unfolding press_enter [OF b w(4,5)] enter_key_char [OF k(1) m(1)] using pu
    by (simp add: simulate_key_def update_modstate_def)
  define w0 where "w0 = w\<lparr>queue := map EvKey [synthetic True ?c, synthetic False ?c], kbd := ?k\<rparr>"
  have wf0: "wf_world w0" using w(1) by (simp add: w0_def wf_world_def wf_kb_def)
  have flips: "\<exists>f d. flip b version (w0\<lparr>overlay := d1, terminal := ?s\<lparr>frame := f1\<rparr>\<rparr>) = Some (w0\<lparr>overlay := d, terminal := ?s\<lparr>frame := f\<rparr>\<rparr>)" for f1 d1
    using flip_frame [of "w0\<lparr>overlay := d1, terminal := ?s\<lparr>frame := f1\<rparr>\<rparr>" b version] w(1) wf0
    by (simp add: wf_world_def)
  have same: "w0 = w0\<lparr>overlay := overlay w, terminal := ?s\<lparr>frame := frame ?s\<rparr>\<rparr>" by (simp add: w0_def)
  obtain fa da where fa: "flip b version w0 = Some (w0\<lparr>overlay := da, terminal := ?s\<lparr>frame := fa\<rparr>\<rparr>)"
    using flips [of "frame ?s" "overlay w"] unfolding same [symmetric] by blast
  obtain fb db where fb: "flip b version (w0\<lparr>overlay := da, terminal := ?s\<lparr>frame := fa\<rparr>\<rparr>) = Some (w0\<lparr>overlay := db, terminal := ?s\<lparr>frame := fb\<rparr>\<rparr>)"
    using flips by blast
  obtain fc dc where fc: "flip b version (w0\<lparr>overlay := db, terminal := ?s\<lparr>frame := fb\<rparr>\<rparr>) = Some (w0\<lparr>overlay := dc, terminal := ?s\<lparr>frame := fc\<rparr>\<rparr>)"
    using flips by blast
  have "push_events (w\<lparr>queue := [], kbd := ?k\<lparr>pushed := [synthetic True ?c, synthetic False ?c]\<rparr>\<rparr>) = w0"
    using pu by (simp add: push_events_def w0_def)
  then have "\<exists>f d. run_event b version (v n) (EvKey e) (w\<lparr>queue := []\<rparr>) = Some (w0\<lparr>overlay := d, terminal := ?s\<lparr>frame := f\<rparr>\<rparr>)"
    using h fa fb fc by (cases "skip_backquote b") (auto simp: run_event_def key_result_def after_event_def)
  then obtain f1 d1 where e1: "run_event b version (v n) (EvKey e) (w\<lparr>queue := []\<rparr>) = Some (w0\<lparr>overlay := d1, terminal := ?s\<lparr>frame := f1\<rparr>\<rparr>)"
    by blast
  define w1 where "w1 = w0\<lparr>overlay := d1, terminal := ?s\<lparr>frame := f1\<rparr>, queue := [EvKey (synthetic False ?c)]\<rparr>"
  have wf1: "wf_world w1" using w(1) wf0 by (simp add: w1_def wf_world_def)
  let ?s2 = "ttywrite [word_of_int ?c] (terminal w1)"
  have "handler (v (n + 1)) (EvKey (synthetic True ?c)) (terminal w1) = Some ?s2"
    using kpress_synthetic [OF c(1,2)] m(2) by (simp add: handler_def w1_def synthetic_def)
  moreover have "wf_st ?s2" using wf1 by (simp add: wf_world_def)
  ultimately obtain f2 d2 where e2: "run_event b version (v (n + 1)) (EvKey (synthetic True ?c)) w1 = Some (w1\<lparr>overlay := d2, terminal := ?s2\<lparr>frame := f2\<rparr>\<rparr>)"
    using run_synthetic [OF wf1 c(3,4)] by blast
  define w2 where "w2 = w1\<lparr>overlay := d2, terminal := ?s2\<lparr>frame := f2\<rparr>, queue := []\<rparr>"
  have wf2: "wf_world w2" using wf1 by (simp add: w2_def wf_world_def)
  have "handler (v (n + 1 + 1)) (EvKey (synthetic False ?c)) (terminal w2) = Some (terminal w2)"
    by (simp add: handler_def synthetic_def)
  then obtain f3 d3 where e3: "run_event b version (v (n + 1 + 1)) (EvKey (synthetic False ?c)) w2 = Some (w2\<lparr>overlay := d3, terminal := (terminal w2)\<lparr>frame := f3\<rparr>\<rparr>)"
    using run_synthetic [OF wf2 c(3,4)] wf2 by (fastforce simp: wf_world_def)
  have "run_queue b version v n w = run_queue b version v (n + 1) (w0\<lparr>overlay := d1, terminal := ?s\<lparr>frame := f1\<rparr>\<rparr>)"
    by (rule run_queue_step) (fact w(2,3) pu e1)+
  also have "\<dots> = run_queue b version v (n + 1 + 1) (w1\<lparr>overlay := d2, terminal := ?s2\<lparr>frame := f2\<rparr>\<rparr>)"
    by (rule run_queue_step [of _ "EvKey (synthetic True ?c)" "[EvKey (synthetic False ?c)]"])
      (use e2 w(3) pu in \<open>simp_all add: w0_def w1_def\<close>)
  also have "\<dots> = run_queue b version v (n + 1 + 1 + 1) (w2\<lparr>overlay := d3, terminal := (terminal w2)\<lparr>frame := f3\<rparr>\<rparr>)"
    by (rule run_queue_step [of _ "EvKey (synthetic False ?c)" "[]"])
      (use e3 w(3) pu in \<open>simp_all add: w0_def w1_def w2_def\<close>)
  also have "\<dots> = Some (w2\<lparr>overlay := d3, terminal := (terminal w2)\<lparr>frame := f3\<rparr>\<rparr>)"
    by (rule run_queue_empty) (simp add: w2_def)
  finally show ?thesis using w(3) by (auto simp: w2_def w1_def w0_def ttywrite_def)
qed

end
