(* ===== verification/Startup.thy ===== *)
theory Startup
  imports Window_Laws
begin

text \<open>
  How simple-terminal starts: the command line (\<open>main\<close>), the commands the child runs before
  the shell (\<open>execsh\<close>) and the first state of the program (\<open>sdlinit\<close>, \<open>tnew\<close>,
  \<open>init_keyboard\<close>), in src/package/simple-terminal/src/main.c.
\<close>

section \<open>The command line\<close>

text \<open>A byte of a C string, whose terminator is 0; undefined past it.\<close>

definition cget :: "byte list \<Rightarrow> nat \<Rightarrow> byte option" where
  "cget s i = (if i < length s then Some (s ! i) else if i = length s then Some 0 else None)"

text \<open>
  The global variables set from the command line. \<open>opt_cmd\<close> holds the \<open>opt_cmd_size\<close> entries
  from \<open>opt_cmd\<close> on; \<open>usages\<close> counts the times the usage was printed.
\<close>

record options =
  opt_class :: "byte list option"
  opt_font :: "byte list option"
  opt_io :: "byte list option"
  opt_title :: "byte list option"
  opt_cmd :: "byte list list"
  opt_active :: bool
  opt_help :: bool
  usages :: nat

text \<open>\<open>argv[i][0] != '-' || argv[i][2] ? -1 : argv[i][1]\<close>, with \<open>None\<close> inside for -1.\<close>

definition option_char :: "byte list \<Rightarrow> byte option option" where
  "option_char s = do {
     c0 \<leftarrow> cget s 0;
     if c0 \<noteq> chr CHR ''-'' then Some None
     else do {
       c2 \<leftarrow> cget s 2;
       if c2 \<noteq> 0 then Some None
       else do { c1 \<leftarrow> cget s 1; Some (Some c1) } } }"

text \<open>
  The entries \<open>opt_cmd[0]\<close> to \<open>opt_cmd[argc - 3]\<close> for \<open>opt_cmd = &argv[i]\<close>, all of which are
  printed: there must be that many strings left.
\<close>

definition commands :: "nat \<Rightarrow> byte list list \<Rightarrow> byte list list option" where
  "commands i argv =
     (if i + (length argv - 2) \<le> length argv then Some (take (length argv - 2) (drop i argv)) else None)"

definition command_option :: "bool \<Rightarrow> nat \<Rightarrow> byte list list \<Rightarrow> options \<Rightarrow> options option" where
  "command_option keyboard i argv opts =
     (if i + 1 < length argv then do {
        cs \<leftarrow> commands (i + 1) argv;
        Some (opts\<lparr>opt_cmd := cs, opt_help := False, opt_active := keyboard\<rparr>) }
      else Some opts)"

text \<open>An option with an argument: the argument, if there is one.\<close>

definition option_arg :: "nat \<Rightarrow> byte list list \<Rightarrow> byte list option \<Rightarrow> byte list option" where
  "option_arg i argv old = (if i + 1 < length argv then Some (argv ! (i + 1)) else old)"

function parse_args :: "nat \<Rightarrow> byte list list \<Rightarrow> options \<Rightarrow> options option" where
  "parse_args i argv opts =
     (if i < length argv then
        case option_char (argv ! i) of
          None \<Rightarrow> None
        | Some None \<Rightarrow> parse_args (i + 1) argv (opts\<lparr>usages := usages opts + 1\<rparr>)
        | Some (Some c) \<Rightarrow>
            if c = chr CHR ''c'' then parse_args (i + 2) argv (opts\<lparr>opt_class := option_arg i argv (opt_class opts)\<rparr>)
            else if c = chr CHR ''d'' then command_option True i argv opts
            else if c = chr CHR ''e'' then command_option False i argv opts
            else if c = chr CHR ''f'' then parse_args (i + 2) argv (opts\<lparr>opt_font := option_arg i argv (opt_font opts)\<rparr>)
            else if c = chr CHR ''o'' then parse_args (i + 2) argv (opts\<lparr>opt_io := option_arg i argv (opt_io opts)\<rparr>)
            else if c = chr CHR ''t'' then parse_args (i + 2) argv (opts\<lparr>opt_title := option_arg i argv (opt_title opts)\<rparr>)
            else if c = chr CHR ''q'' then parse_args (i + 1) argv (opts\<lparr>opt_active := False, opt_help := False\<rparr>)
            else parse_args (i + 1) argv (opts\<lparr>usages := usages opts + 1\<rparr>)
      else Some opts)"
  by pat_completeness auto
termination
  by (relation "measure (\<lambda>(i, argv, opts). length argv - i)") auto

declare parse_args.simps [simp del]

definition no_options :: options where
  "no_options = \<lparr>opt_class = None, opt_font = None, opt_io = None, opt_title = None, opt_cmd = [],
     opt_active = True, opt_help = True, usages = 0\<rparr>"

definition main_args :: "byte list list \<Rightarrow> options option" where
  "main_args argv = parse_args 1 argv no_options"

section \<open>The commands\<close>

text \<open>
  The strings that \<open>execsh\<close> passes to \<open>system\<close>: for each command an echo, built by
  \<open>sprintf\<close> in an array of 255 bytes, and the command itself.
\<close>

definition echo_cmd :: "byte list \<Rightarrow> byte list option" where
  "echo_cmd cmd =
     (let e = bytes ''echo '' @ [0x27, 0x0A] @ bytes ''$ '' @ cmd @ [0x0A, 0x27]
      in if length e + 1 \<le> 255 then Some e else None)"

fun execsh_commands :: "byte list list \<Rightarrow> byte list list option" where
  "execsh_commands [] = Some []"
| "execsh_commands (cmd # cmds) = do {
     e \<leftarrow> echo_cmd cmd;
     r \<leftarrow> execsh_commands cmds;
     Some (e # cmd # r) }"

section \<open>The first state\<close>

text \<open>The static variables before \<open>main\<close>: zero, but for the two that have other initial values.\<close>

definition zero_cursor :: tcursor where
  "zero_cursor = \<lparr>cattr = calloc_glyph, cx = 0, cy = 0, cstate = 0\<rparr>"

definition static_st :: st where
  "static_st = \<lparr>trow = 0, tcol = 0, tline = [], talt = [], tdirty = [], tcur = zero_cursor, ttop = 0, tbot = 0,
     tmode = 0, tesc = 0, ttabs = [],
     csi = \<lparr>cbuf = replicate 256 0, clen = 0, cpriv = False, carg = replicate 16 0, cnarg = 0, cmode = 0\<rparr>,
     str = \<lparr>stype = 0, sbuf = replicate 256 0, slen = 0\<rparr>,
     sel = \<lparr>selmode = False, selbx = 0, selby = 0, selex = 0, seley = 0, selb_x = 0, selb_y = 0,
       sele_x = 0, sele_y = 0, selalt = False, tclick1 = (0, 0), tclick2 = (0, 0)\<rparr>,
     saved = zero_cursor, iofd = -1, iolog = [], ttyout = [], title = [], haswin = False,
     xw_w = 0, xw_h = 0, xw_state = 0, oldx = 0, oldy = 0, palette = replicate 258 (0, 0, 0), frame = [],
     usedfontsize = 0, xw_tw = 0, xw_th = 0, mouse_ob = 0, mouse_ox = 0, mouse_oy = 0, ttysize = []\<rparr>"

definition static_kb :: kb where
  "static_kb = \<lparr>toggled = replicate 6 (replicate 18 0), selected_i = 0, selected_j = 0, shifted = 0, location = False,
     mod_state = 0, active = True, show_help = True, visual_offset = 0, sdl_modstate = 0, pushed = []\<rparr>"

text \<open>\<open>sdlinit\<close>, where SDL starts: font, colours, window, title; the event SDL_VIDEOEXPOSE is pushed.\<close>

definition sdlinit :: "byte list option \<Rightarrow> int \<Rightarrow> int \<Rightarrow> st \<Rightarrow> st option" where
  "sdlinit t width height s = do {
     cs \<leftarrow> initcolormap;
     Some (expose (sdlresettitle t (s\<lparr>usedfontsize := 8, palette := cs, xw_w := width, xw_h := height, haswin := True\<rparr>))) }"

text \<open>
  \<open>main\<close> from the label \<open>run\<close> on, up to the event loop: \<open>fd\<close> is what \<open>ttynew\<close> got for the
  file of option -o, \<open>high_res\<close> whether the variable HIGH_RES was set (on the builds that look).
\<close>

definition start :: "(nat \<Rightarrow> nat \<Rightarrow> glyph) \<Rightarrow> (nat \<Rightarrow> nat \<Rightarrow> glyph) \<Rightarrow> bool \<Rightarrow> int \<Rightarrow> options \<Rightarrow> world option" where
  "start junk junk' high_res fd opts = do {
     let (width, height) = (if high_res then (640, 480) else (320, 240));
     s \<leftarrow> tnew junk junk' ((width - 2) div 6) ((height - 2) div 8) static_st;
     let s = (if opt_io opts \<noteq> None then s\<lparr>iofd := fd\<rparr> else s);
     s \<leftarrow> sdlinit (opt_title opts) width height s;
     let k = init_keyboard (static_kb\<lparr>active := opt_active opts, show_help := opt_help opts\<rparr>);
     Some \<lparr>terminal = s, kbd = k, queue = [EvExpose], quit = False, overlay = [], unread = []\<rparr> }"

section \<open>Laws\<close>

lemma parse_command:
  assumes "i + 1 < length argv" "option_char (argv ! i) = Some (Some c)" "c = chr CHR ''d'' \<or> c = chr CHR ''e''"
  shows "parse_args i argv opts = map_option (\<lambda>cs. opts\<lparr>opt_cmd := cs, opt_help := False, opt_active := (c = chr CHR ''d'')\<rparr>)
    (commands (i + 1) argv)"
proof -
  have "parse_args i argv opts = command_option (c = chr CHR ''d'') i argv opts"
  proof -
    have i: "i < length argv" using assms(1) by simp
    have n: "(chr CHR ''d'' = chr CHR ''c'') = False" "(chr CHR ''e'' = chr CHR ''c'') = False"
      "(chr CHR ''e'' = chr CHR ''d'') = False" by code_simp+
    from assms(3) show ?thesis
      unfolding parse_args.simps [of i argv] if_P [OF i] assms(2) option.case by (elim disjE) (simp_all only: n if_True if_False simp_thms)
  qed
  also have "\<dots> = map_option (\<lambda>cs. opts\<lparr>opt_cmd := cs, opt_help := False, opt_active := (c = chr CHR ''d'')\<rparr>) (commands (i + 1) argv)"
    using assms(1) by (cases "commands (i + 1) argv") (simp_all add: command_option_def)
  finally show ?thesis .
qed

text \<open>A command option that comes first takes exactly the rest of the command line.\<close>

lemma option_char_short: "option_char [chr CHR ''-'', c] = Some (Some c)"
  by (simp add: option_char_def cget_def)

lemma commands_first: "commands 2 (prog # opt # cs) = Some cs"
  by (simp add: commands_def)

text \<open>One that comes later asks for strings behind the end of \<open>argv\<close>.\<close>

lemma commands_later: "2 < i \<Longrightarrow> 2 \<le> length argv \<Longrightarrow> commands i argv = None"
  by (simp add: commands_def)

lemma echo_cmd_Some: "echo_cmd cmd \<noteq> None \<longleftrightarrow> length cmd \<le> 243"
  by (auto simp: echo_cmd_def bytes_def Let_def)

lemma execsh_commands_ok:
  "execsh_commands cmds \<noteq> None \<longleftrightarrow> (\<forall>c \<in> set cmds. length c \<le> 243)"
proof (induction cmds)
  case (Cons c cmds)
  show ?case
  proof (cases "echo_cmd c")
    case None
    then show ?thesis using echo_cmd_Some [of c] by auto
  next
    case (Some e)
    then have "length c \<le> 243" using echo_cmd_Some [of c] by simp
    with Some Cons show ?thesis by (cases "execsh_commands cmds") auto
  qed
qed simp

lemma initcolormap_length: "\<exists>cs. initcolormap = Some cs \<and> length cs = 258"
proof -
  have "map_option length initcolormap = Some 258" by code_simp
  then show ?thesis by (cases initcolormap) auto
qed

lemma wf_static_kb: "wf_kb (init_keyboard (static_kb\<lparr>active := a, show_help := h\<rparr>))"
  by (rule wf_init_keyboard)

lemma static_st_fields: "ok_colors (cattr (saved static_st))" "length (palette static_st) = 258"
  "xw_w static_st = 0" "xw_h static_st = 0" "tesc static_st = 0"
  by (simp_all add: static_st_def zero_cursor_def calloc_glyph_def ok_colors_def)

text \<open>
  The program starts in a well-formed state whatever memory it is given, except that the
  cells of the alternate screen must not claim to be set with colours that do not exist:
  \<open>tnew\<close> does not initialise them.
\<close>

lemma start_ok:
  assumes "junk_ok junk" "\<And>y x. ok_glyph (junk' y x)"
  shows "\<exists>w. start junk junk' high_res fd opts = Some w \<and> wf_world w \<and> \<not> quit w \<and> queue w = [EvExpose]
    \<and> tcol (terminal w) = (if high_res then 106 else 53) \<and> trow (terminal w) = (if high_res then 59 else 29)
    \<and> (\<forall>x y. 0 \<le> x \<and> x < tcol (terminal w) \<and> 0 \<le> y \<and> y < trow (terminal w) \<longrightarrow> view (terminal w) x y = None)"
proof -
  let ?w = "if high_res then 640 else 320 :: int" and ?h = "if high_res then 480 else 240 :: int"
  let ?c = "(?w - 2) div 6" and ?r = "(?h - 2) div 8"
  have d: "?c = (if high_res then 106 else 53)" "?r = (if high_res then 59 else 29)" by simp_all
  obtain s where s: "tnew junk junk' ?c ?r static_st = Some s" "wf_term s" "trow s = ?r" "tcol s = ?c"
    "tesc s = tesc static_st" "\<forall>x y. 0 \<le> x \<and> x < ?c \<and> 0 \<le> y \<and> y < ?r \<longrightarrow> view s x y = None"
  proof -
    have "\<exists>s'. tnew junk junk' ?c ?r static_st = Some s' \<and> wf_term s' \<and> trow s' = ?r \<and> tcol s' = ?c
     \<and> tesc s' = tesc static_st \<and> csi s' = csi static_st \<and> str s' = str static_st
     \<and> (\<forall>x y. 0 \<le> x \<and> x < ?c \<and> 0 \<le> y \<and> y < ?r \<longrightarrow> view s' x y = None)"
      by (rule tnew_ok) (use assms static_st_fields in \<open>simp_all add: d MAX_DIM_def junk_ok_def\<close>)
    then show thesis using that by blast
  qed
  obtain cs where cs: "initcolormap = Some cs" "length cs = 258" using initcolormap_length by blast
  let ?s = "if opt_io opts \<noteq> None then s\<lparr>iofd := fd\<rparr> else s"
  let ?t = "expose (sdlresettitle (opt_title opts) (?s\<lparr>usedfontsize := 8, palette := cs, xw_w := ?w, xw_h := ?h, haswin := True\<rparr>))"
  have t: "wf_term ?t" "tesc ?t = 0" "trow ?t = ?r" "tcol ?t = ?c" "\<And>x y. view ?t x y = view s x y"
    using s(2-5) cs(2) by (simp_all add: wf_term_def wf_geo_def wf_cursor_def wf_scroll_def expose_def sdlresettitle_def
      view_def cell_def static_st_fields MAX_DIM_def)
  let ?k = "init_keyboard (static_kb\<lparr>active := opt_active opts, show_help := opt_help opts\<rparr>)"
  have e: "start junk junk' high_res fd opts = Some \<lparr>terminal = ?t, kbd = ?k, queue = [EvExpose], quit = False, overlay = [], unread = []\<rparr>"
    using s(1) by (cases high_res; cases "opt_io opts") (simp_all add: start_def sdlinit_def cs(1))
  have "wf_world \<lparr>terminal = ?t, kbd = ?k, queue = [EvExpose], quit = False, overlay = [], unread = []\<rparr>"
    using t(1,2) wf_static_kb by (simp add: wf_world_def wf_st_def wf_esc_zero init_keyboard_def static_kb_def)
  with e t(3-5) s(6) d show ?thesis by auto
qed

end
