(* ===== verification/Pixels.thy ===== *)
theory Pixels
  imports Term_State
begin

text \<open>
  The copies from the console surface to the screen in simple-terminal
  (\<open>upscale2x\<close>, \<open>upscale_and_rotate\<close>, \<open>upscale\<close>, \<open>upscale4x3\<close>, \<open>rotate320x240_rw32\<close> in
  src/package/simple-terminal/src/main.c), one of which \<open>xflip\<close> calls in each build. A surface
  is an array of 32-bit words, each with two 16-bit pixels, the left one in the low half, or
  one 32-bit pixel. Pointers are indices.
\<close>

section \<open>Loops over pixels\<close>

text \<open>The stores \<open>dst[o] = v\<close> for a pointer \<open>dst\<close> at index \<open>d\<close>.\<close>

fun stores :: "int \<Rightarrow> (int \<times> 32 word) list \<Rightarrow> (32 word) list \<Rightarrow> (32 word) list option" where
  "stores d [] a = Some a"
| "stores d ((i, v) # ws) a = do { a \<leftarrow> aset a (d + i) v; stores d ws a }"

text \<open>
  \<open>for (y = rows; y > 0; y--, src += srow, dst += drow) for (x = cols; x > 0; x--, src += sstep, dst += dstep)\<close>
  with a body that stores \<open>put s\<close> for the pointer \<open>src\<close> at index \<open>s\<close>.
\<close>

definition pixel_step :: "int \<Rightarrow> int \<Rightarrow> (int \<Rightarrow> (int \<times> 32 word) list option) \<Rightarrow> int \<times> int \<times> (32 word) list \<Rightarrow> (int \<times> int \<times> (32 word) list) option" where
  "pixel_step sstep dstep put sda = (case sda of (s, d, a) \<Rightarrow> do {
     ws \<leftarrow> put s;
     a \<leftarrow> stores d ws a;
     Some (s + sstep, d + dstep, a) })"

definition pixel_loop :: "int \<Rightarrow> int \<Rightarrow> int \<Rightarrow> int \<Rightarrow> int \<Rightarrow> int \<Rightarrow> (int \<Rightarrow> (int \<times> 32 word) list option) \<Rightarrow> int \<Rightarrow> int \<Rightarrow> (32 word) list \<Rightarrow> (32 word) list option" where
  "pixel_loop rows cols srow sstep drow dstep put src dst a = do {
     (s, d, a) \<leftarrow> for_up 1 rows (\<lambda>_ sda. do {
         (s, d, a) \<leftarrow> for_up 1 cols (\<lambda>_. pixel_step sstep dstep put) sda;
         Some (s + srow, d + drow, a) }) (src, dst, a);
     Some a }"

text \<open>The body \<open>pix = *src++\<close> with stores that depend on the word read.\<close>

definition from_pix :: "(32 word) list \<Rightarrow> (32 word \<Rightarrow> (int \<times> 32 word) list) \<Rightarrow> int \<Rightarrow> (int \<times> 32 word) list option" where
  "from_pix src body s = do { pix \<leftarrow> aget src s; Some (body pix) }"

section \<open>The routines\<close>

text \<open>A 16-bit pixel of the low or high half as 32 bits, 00000000RRRRRRRRGGGGGGGGBBBBBBBB.\<close>

definition expand_low :: "32 word \<Rightarrow> 32 word" where
  "expand_low pix =
     (drop_bit 2 pix AND 0b00000000000000000000000000000111) OR
     (drop_bit 1 pix AND 0b00000000000000000000001100000000) OR
     (push_bit 3 pix AND 0b00000000000001110000000011111000) OR
     (push_bit 5 pix AND 0b00000000000000001111110000000000) OR
     (push_bit 8 pix AND 0b00000000111110000000000000000000)"

definition expand_high :: "32 word \<Rightarrow> 32 word" where
  "expand_high pix =
     (drop_bit 8 pix AND 0b00000000111110000000000000000000) OR
     (drop_bit 11 pix AND 0b00000000000000001111110000000000) OR
     (drop_bit 13 pix AND 0b00000000000001110000000011111000) OR
     (drop_bit 17 pix AND 0b00000000000000000000001100000000) OR
     (drop_bit 18 pix AND 0b00000000000000000000000000000111)"

definition upscale2x :: "bool \<Rightarrow> (32 word) list \<Rightarrow> (32 word) list \<Rightarrow> (32 word) list option" where
  "upscale2x high_res src dst =
     (if high_res then
        pixel_loop 480 320 0 1 0 2 (from_pix src (\<lambda>pix. [(0, expand_low pix), (1, expand_high pix)])) 0 0 dst
      else
        pixel_loop 240 160 0 1 640 4 (from_pix src (\<lambda>pix.
          let dpix = expand_low pix; dpix' = expand_high pix in
          [(0, dpix), (1, dpix), (640, dpix), (641, dpix),
           (2, dpix'), (3, dpix'), (642, dpix'), (643, dpix')])) 0 0 dst)"

definition upscale_and_rotate :: "(32 word) list \<Rightarrow> (32 word) list \<Rightarrow> (32 word) list option" where
  "upscale_and_rotate src dst =
     pixel_loop 240 160 0 1 (-640) (-4) (from_pix src (\<lambda>pix.
       let dpix = expand_low pix; dpix' = expand_high pix in
       [(0, dpix), (-1, dpix), (-640, dpix), (-641, dpix),
        (-2, dpix'), (-3, dpix'), (-642, dpix'), (-643, dpix')])) 0 (640 * 480 - 1) dst"

text \<open>Both pixels of a word made the low one, or the high one.\<close>

definition double_low :: "32 word \<Rightarrow> 32 word" where
  "double_low pix = (pix AND 0x0000FFFF) OR push_bit 16 pix"

definition double_high :: "32 word \<Rightarrow> 32 word" where
  "double_high pix = (pix AND 0xFFFF0000) OR drop_bit 16 pix"

text \<open>In the first loop the expression is of 64 bits; the store keeps the low 32, which are \<open>pix\<close>.\<close>

definition keep_pix :: "32 word \<Rightarrow> 32 word" where
  "keep_pix pix = ucast ((ucast pix :: 64 word) AND 0xFFFFFFFF OR push_bit 32 (ucast pix :: 64 word))"

definition upscale :: "bool \<Rightarrow> (32 word) list \<Rightarrow> (32 word) list \<Rightarrow> (32 word) list option" where
  "upscale high_res src dst =
     (if high_res then pixel_loop 480 320 0 1 0 1 (from_pix src (\<lambda>pix. [(0, keep_pix pix)])) 0 0 dst
      else
        pixel_loop 240 160 0 1 320 2 (from_pix src (\<lambda>pix.
          [(0, double_low pix), (1, double_high pix), (320, double_low pix), (321, double_high pix)])) 0 0 dst)"

definition upscale4x3 :: "bool \<Rightarrow> (32 word) list \<Rightarrow> (32 word) list \<Rightarrow> (32 word) list option" where
  "upscale4x3 high_res src dst =
     (if high_res then
        pixel_loop 480 320 0 1 0 2 (from_pix src (\<lambda>pix. [(0, double_low pix), (1, double_high pix)])) 0 0 dst
      else
        pixel_loop 240 160 0 1 1280 4 (from_pix src (\<lambda>pix.
          let dpix1 = double_low pix; dpix2 = double_high pix in
          [(0, dpix1), (1, dpix1), (2, dpix2), (3, dpix2),
           (1280, dpix1), (1281, dpix1), (1282, dpix2), (1283, dpix2)])) 0 0 dst)"

text \<open>The rotation by a quarter turn reads two rows at a time, from the last column to the first.\<close>

definition quarter_body :: "(32 word) list \<Rightarrow> int \<Rightarrow> (int \<times> 32 word) list option" where
  "quarter_body src s = do {
     pix1 \<leftarrow> aget src s;
     pix2 \<leftarrow> aget src (s + 160);
     Some [(0, drop_bit 16 pix1 OR (pix2 AND 0xFFFF0000)), (120, (pix1 AND 0xFFFF) OR push_bit 16 pix2)] }"

definition rotate320x240_rw32 :: "(32 word) list \<Rightarrow> (32 word) list \<Rightarrow> (32 word) list option" where
  "rotate320x240_rw32 src dst =
     pixel_loop 160 120 (- (160 * 240 + 1)) 320 120 1 (quarter_body src) 159 0 dst"

section \<open>The stores of a loop\<close>

text \<open>The array after a list of stores at absolute indices.\<close>

definition upd_all :: "(int \<times> 32 word) list \<Rightarrow> (32 word) list \<Rightarrow> (32 word) list" where
  "upd_all ws a = fold (\<lambda>(i, v) a. a[nat i := v]) ws a"

lemma length_upd_all [simp]: "length (upd_all ws a) = length a"
  by (induction ws arbitrary: a) (auto simp: upd_all_def)

lemma upd_all_append: "upd_all (ws @ vs) a = upd_all vs (upd_all ws a)"
  by (simp add: upd_all_def)

lemma stores_upd:
  "\<forall>(i, v) \<in> set ws. 0 \<le> d + i \<and> d + i < int (length a) \<Longrightarrow>
   stores d ws a = Some (upd_all (map (\<lambda>(i, v). (d + i, v)) ws) a)"
  by (induction d ws a rule: stores.induct) (auto simp: aset_Some upd_all_def)

text \<open>When every store writes what the picture \<open>f\<close> has there, the stored indices show \<open>f\<close>.\<close>

lemma upd_all_nth:
  assumes "\<forall>(i, v) \<in> set ws. 0 \<le> i \<and> v = f (nat i)" "j < length a"
  shows "upd_all ws a ! j = (if int j \<in> fst ` set ws then f j else a ! j)"
  using assms
proof (induction ws arbitrary: a)
  case Nil
  then show ?case by (simp add: upd_all_def)
next
  case (Cons w ws)
  obtain i v where w: "w = (i, v)" by (cases w)
  have i: "0 \<le> i" "v = f (nat i)" using Cons.prems(1) w by auto
  have "upd_all (w # ws) a = upd_all ws (a[nat i := v])" using w by (simp add: upd_all_def)
  with Cons.IH [of "a[nat i := v]"] Cons.prems i w show ?case
    by (auto simp: nth_list_update)
qed

text \<open>The index of a pointer at column \<open>x\<close> of row \<open>y\<close> of such a loop.\<close>

definition place :: "int \<Rightarrow> int \<Rightarrow> int \<Rightarrow> int \<Rightarrow> int \<Rightarrow> int \<Rightarrow> int" where
  "place start cols rowstep step y x = start + y * (cols * step + rowstep) + x * step"

definition row_stores :: "int \<Rightarrow> (int \<Rightarrow> (int \<times> 32 word) list) \<Rightarrow> int \<Rightarrow> nat \<Rightarrow> (int \<times> 32 word) list" where
  "row_stores dstep ws d n =
     concat (map (\<lambda>x. map (\<lambda>(i, v). (d + int x * dstep + i, v)) (ws (int x))) [0..<n])"

lemma pixel_row:
  assumes "0 \<le> cols"
    and "\<And>x. 0 \<le> x \<Longrightarrow> x < cols \<Longrightarrow> put (s + x * sstep) = Some (ws x)"
    and "\<And>x i v. 0 \<le> x \<Longrightarrow> x < cols \<Longrightarrow> (i, v) \<in> set (ws x) \<Longrightarrow> 0 \<le> d + x * dstep + i \<and> d + x * dstep + i < int (length a)"
  shows "for_up 1 cols (\<lambda>_. pixel_step sstep dstep put) (s, d, a) =
    Some (s + cols * sstep, d + cols * dstep, upd_all (row_stores dstep ws d (nat cols)) a)"
proof -
  define g where "g i = (s + i * sstep, d + i * dstep, upd_all (row_stores dstep ws d (nat i)) a)" for i
  have "for_up 1 cols (\<lambda>_. pixel_step sstep dstep put) (g (1 - 1)) = Some (g cols)"
  proof (rule for_up_eq)
    fix i assume i: "1 \<le> i" "i \<le> cols"
    define x where "x = i - 1"
    have x: "0 \<le> x" "x < cols" "i = x + 1" using i by (auto simp: x_def)
    have "\<forall>(j, v) \<in> set (ws x). 0 \<le> d + x * dstep + j \<and> d + x * dstep + j < int (length (upd_all (row_stores dstep ws d (nat x)) a))"
      using assms(3) [OF x(1,2)] by auto
    then have st: "stores (d + x * dstep) (ws x) (upd_all (row_stores dstep ws d (nat x)) a) =
      Some (upd_all (map (\<lambda>(i, v). (d + x * dstep + i, v)) (ws x)) (upd_all (row_stores dstep ws d (nat x)) a))"
      by (rule stores_upd)
    then have "pixel_step sstep dstep put (g x) = Some (s + x * sstep + sstep, d + x * dstep + dstep,
        upd_all (map (\<lambda>(i, v). (d + x * dstep + i, v)) (ws x)) (upd_all (row_stores dstep ws d (nat x)) a))"
      using assms(2) [OF x(1,2)] by (simp add: pixel_step_def g_def)
    moreover have "row_stores dstep ws d (nat i) = row_stores dstep ws d (nat x) @ map (\<lambda>(i, v). (d + x * dstep + i, v)) (ws x)"
      using x by (simp add: row_stores_def nat_add_distrib)
    ultimately show "pixel_step sstep dstep put (g (i - 1)) = Some (g i)"
      using x by (simp add: g_def upd_all_append algebra_simps)
  qed (use assms(1) in simp)
  then show ?thesis by (simp add: g_def upd_all_def row_stores_def)
qed

text \<open>
  The picture after a loop: \<open>ws y x\<close> are the stores of one turn; if each of them stores what
  \<open>f\<close> has at its index, the indices stored show \<open>f\<close> and the others what they did.
\<close>

lemma pixel_loop_picture:
  fixes f :: "nat \<Rightarrow> 32 word"
  assumes dims: "0 \<le> rows" "0 \<le> cols"
    and reads: "\<And>y x. 0 \<le> y \<Longrightarrow> y < rows \<Longrightarrow> 0 \<le> x \<Longrightarrow> x < cols \<Longrightarrow> put (place src cols srow sstep y x) = Some (ws y x)"
    and puts: "\<And>y x i v. 0 \<le> y \<Longrightarrow> y < rows \<Longrightarrow> 0 \<le> x \<Longrightarrow> x < cols \<Longrightarrow> (i, v) \<in> set (ws y x) \<Longrightarrow>
      0 \<le> place dst cols drow dstep y x + i \<and> place dst cols drow dstep y x + i < int (length a)
      \<and> v = f (nat (place dst cols drow dstep y x + i))"
  shows "\<exists>a'. pixel_loop rows cols srow sstep drow dstep put src dst a = Some a' \<and> length a' = length a
    \<and> (\<forall>j < length a. a' ! j = (if \<exists>y x i. 0 \<le> y \<and> y < rows \<and> 0 \<le> x \<and> x < cols
         \<and> i \<in> fst ` set (ws y x) \<and> int j = place dst cols drow dstep y x + i then f j else a ! j))"
proof -
  let ?row = "\<lambda>y. row_stores dstep (ws y) (place dst cols drow dstep y 0) (nat cols)"
  let ?ws = "\<lambda>n. concat (map (\<lambda>y. ?row (int y)) [0..<n])"
  define g where "g i = (place src cols srow sstep i 0, place dst cols drow dstep i 0, upd_all (?ws (nat i)) a)" for i
  let ?body = "\<lambda>_ sda. do { (s, d, a) \<leftarrow> for_up 1 cols (\<lambda>_. pixel_step sstep dstep put) sda; Some (s + srow, d + drow, a) }"
  have "for_up 1 rows ?body (g (1 - 1)) = Some (g rows)"
  proof (rule for_up_eq)
    fix i assume i: "1 \<le> i" "i \<le> rows"
    define y where "y = i - 1"
    have y: "0 \<le> y" "y < rows" "i = y + 1" using i by (auto simp: y_def)
    have "for_up 1 cols (\<lambda>_. pixel_step sstep dstep put) (g y) = Some (place src cols srow sstep y 0 + cols * sstep,
      place dst cols drow dstep y 0 + cols * dstep, upd_all (?row y) (upd_all (?ws (nat y)) a))"
      unfolding g_def
    proof (rule pixel_row)
      fix x assume x: "0 \<le> x" "x < cols"
      from reads [OF y(1,2) x] show "put (place src cols srow sstep y 0 + x * sstep) = Some (ws y x)"
        by (simp add: place_def)
      fix j v assume "(j, v) \<in> set (ws y x)"
      from puts [OF y(1,2) x this] show "0 \<le> place dst cols drow dstep y 0 + x * dstep + j
        \<and> place dst cols drow dstep y 0 + x * dstep + j < int (length (upd_all (?ws (nat y)) a))"
        by (simp add: place_def)
    qed (use dims in auto)
    moreover have "?ws (nat i) = ?ws (nat y) @ ?row y" using y by (simp add: nat_add_distrib)
    ultimately show "?body i (g (i - 1)) = Some (g i)"
      using y by (simp add: g_def upd_all_append place_def algebra_simps)
  qed (use dims in simp)
  then have e: "pixel_loop rows cols srow sstep drow dstep put src dst a = Some (upd_all (?ws (nat rows)) a)"
    by (simp add: pixel_loop_def g_def place_def upd_all_def)
  have mem: "(j, v) \<in> set (?ws (nat rows)) \<longleftrightarrow> (\<exists>y x i. 0 \<le> y \<and> y < rows \<and> 0 \<le> x \<and> x < cols
      \<and> (i, v) \<in> set (ws y x) \<and> j = place dst cols drow dstep y x + i)" (is "?l \<longleftrightarrow> ?r") for j v
  proof
    assume ?l
    then obtain y x i where "y < nat rows" "x < nat cols" "(i, v) \<in> set (ws (int y) (int x))"
      "j = place dst cols drow dstep (int y) 0 + int x * dstep + i" by (auto simp: row_stores_def)
    then show ?r by (intro exI [of _ "int y"] exI [of _ "int x"] exI [of _ i]) (auto simp: place_def)
  next
    assume ?r
    then obtain y x i where *: "0 \<le> y" "y < rows" "0 \<le> x" "x < cols" "(i, v) \<in> set (ws y x)"
      "j = place dst cols drow dstep y x + i" by blast
    have "(j, v) \<in> (\<lambda>(i, v). (place dst cols drow dstep y 0 + int (nat x) * dstep + i, v)) ` set (ws y (int (nat x)))"
      by (rule image_eqI [of _ _ "(i, v)"]) (use * in \<open>auto simp: place_def\<close>)
    then have "(j, v) \<in> set (?row y)"
      using *(3,4) unfolding row_stores_def set_concat set_map by (fastforce intro!: bexI [of _ "nat x"])
    with * show ?l by (auto intro!: bexI [of _ "nat y"])
  qed
  have "\<forall>(j, v) \<in> set (?ws (nat rows)). 0 \<le> j \<and> v = f (nat j)"
    using puts by (auto simp: mem simp del: set_concat)
  note n = upd_all_nth [OF this]
  have "upd_all (?ws (nat rows)) a ! j = (if \<exists>y x i. 0 \<le> y \<and> y < rows \<and> 0 \<le> x \<and> x < cols
         \<and> i \<in> fst ` set (ws y x) \<and> int j = place dst cols drow dstep y x + i then f j else a ! j)"
    if "j < length a" for j
  proof -
    have "int j \<in> fst ` set (?ws (nat rows)) \<longleftrightarrow> (\<exists>v. (int j, v) \<in> set (?ws (nat rows)))" by force
    also have "\<dots> \<longleftrightarrow> (\<exists>y x i. 0 \<le> y \<and> y < rows \<and> 0 \<le> x \<and> x < cols
         \<and> i \<in> fst ` set (ws y x) \<and> int j = place dst cols drow dstep y x + i)"
      unfolding mem by force
    finally show ?thesis using n [OF that] by simp
  qed
  with e show ?thesis by simp
qed

section \<open>Pixels\<close>

text \<open>The colour of a 16-bit pixel (5, 6 and 5 bits), each channel filled up with its own top bits.\<close>

definition scale5 :: "32 word \<Rightarrow> 32 word" where
  "scale5 v = push_bit 3 v OR drop_bit 2 v"

definition scale6 :: "32 word \<Rightarrow> 32 word" where
  "scale6 v = push_bit 2 v OR drop_bit 4 v"

definition rgb888 :: "16 word \<Rightarrow> 32 word" where
  "rgb888 p = (let p = ucast p :: 32 word in
     push_bit 16 (scale5 (drop_bit 11 p)) OR push_bit 8 (scale6 (drop_bit 5 p AND 63)) OR scale5 (p AND 31))"

lemma below_32: "n < 32 \<Longrightarrow> n \<in> {0,1,2,3,4,5,6,7,8,9,10,11,12,13,14,15,16,17,18,19,20,21,22,23,24,25,26,27,28,29,30,31::nat}"
  by (simp, presburger)

lemma scale5_unat:
  assumes "n < 32"
  shows "unat (scale5 (of_nat n)) = n * 8 + n div 4"
  using below_32 [OF assms] unfolding scale5_def
  by (elim insertE emptyE; simp)

lemma expand_low_masks: "expand_low pix = 
     (drop_bit 2 pix AND mask 3) OR
     (drop_bit 1 pix AND push_bit 8 (mask 2)) OR
     (push_bit 3 pix AND (push_bit 16 (mask 3) OR push_bit 3 (mask 5))) OR
     (push_bit 5 pix AND push_bit 10 (mask 6)) OR
     (push_bit 8 pix AND push_bit 19 (mask 5))"
  by (simp add: expand_low_def mask_eq_exp_minus_1)

lemma rgb888_masks: "rgb888 p = (let p = ucast p :: 32 word in
     push_bit 16 (scale5 (drop_bit 11 p)) OR push_bit 8 (scale6 (drop_bit 5 p AND mask 6)) OR scale5 (p AND mask 5))"
  by (simp add: rgb888_def mask_eq_exp_minus_1)

lemma expand_low_rgb: "expand_low pix = rgb888 (ucast pix)"
proof (rule bit_word_eqI)
  fix n assume n: "n < LENGTH(32)"
  then have "n < 32" by simp
  from below_32 [OF this] show "bit (expand_low pix) n = bit (rgb888 (ucast pix)) n"
    unfolding expand_low_masks rgb888_masks scale5_def scale6_def Let_def
    by (elim insertE emptyE; simp add: bit_simps)
qed


text \<open>The pixel at column \<open>x\<close> of row \<open>y\<close> of a surface with \<open>w\<close> 16-bit pixels in a row.\<close>

definition pixel16 :: "(32 word) list \<Rightarrow> int \<Rightarrow> int \<Rightarrow> int \<Rightarrow> 16 word" where
  "pixel16 a w x y = ucast (drop_bit (if even x then 0 else 16) (a ! nat (y * (w div 2) + x div 2)))"

end
