(* ===== verification/Pixel_Laws.thy ===== *)
theory Pixel_Laws
  imports Pixels
begin

text \<open>
  What the copies of the theory Pixels show: the enlarged, converted or turned picture, for
  every contents of the console surface.
\<close>

section \<open>Words of two pixels\<close>

lemma expand_high_low: "expand_high pix = expand_low (drop_bit 16 pix)"
proof -
  have e: "expand_high pix =
     (drop_bit 8 pix AND push_bit 19 (mask 5)) OR
     (drop_bit 11 pix AND push_bit 10 (mask 6)) OR
     (drop_bit 13 pix AND (push_bit 16 (mask 3) OR push_bit 3 (mask 5))) OR
     (drop_bit 17 pix AND push_bit 8 (mask 2)) OR
     (drop_bit 18 pix AND mask 3)"
    by (simp add: expand_high_def mask_eq_exp_minus_1)
  show ?thesis
  proof (rule bit_word_eqI)
    fix n assume n: "n < LENGTH(32)"
    then have "n < 32" by simp
    from below_32 [OF this] show "bit (expand_high pix) n = bit (expand_low (drop_bit 16 pix)) n"
      unfolding e expand_low_masks by (elim insertE emptyE; simp add: bit_simps)
  qed
qed

lemma expand_high_rgb: "expand_high pix = rgb888 (ucast (drop_bit 16 pix))"
  by (simp add: expand_high_low expand_low_rgb)

lemma halves_double:
  "ucast (double_low pix) = (ucast pix :: 16 word)" "ucast (drop_bit 16 (double_low pix)) = (ucast pix :: 16 word)"
  "ucast (double_high pix) = (ucast (drop_bit 16 pix) :: 16 word)"
  "ucast (drop_bit 16 (double_high pix)) = (ucast (drop_bit 16 pix) :: 16 word)"
proof -
  have m: "double_low pix = (pix AND mask 16) OR push_bit 16 pix"
    "double_high pix = (pix AND push_bit 16 (mask 16)) OR drop_bit 16 pix"
    by (simp_all add: double_low_def double_high_def mask_eq_exp_minus_1)
  show "ucast (double_low pix) = (ucast pix :: 16 word)" "ucast (drop_bit 16 (double_low pix)) = (ucast pix :: 16 word)"
    "ucast (double_high pix) = (ucast (drop_bit 16 pix) :: 16 word)"
    "ucast (drop_bit 16 (double_high pix)) = (ucast (drop_bit 16 pix) :: 16 word)"
    unfolding m by (rule bit_word_eqI; auto simp: bit_simps)+
qed

lemma keep_pix_id: "keep_pix pix = pix"
proof -
  have m: "keep_pix pix = ucast ((ucast pix :: 64 word) AND mask 32 OR push_bit 32 (ucast pix :: 64 word))"
    by (simp add: keep_pix_def mask_eq_exp_minus_1)
  show ?thesis unfolding m by (rule bit_word_eqI) (auto simp: bit_simps)
qed

lemma quarter_halves:
  "ucast (drop_bit 16 a OR (b AND 0xFFFF0000)) = (ucast (drop_bit 16 a) :: 16 word)"
  "ucast (drop_bit 16 (drop_bit 16 a OR (b AND 0xFFFF0000))) = (ucast (drop_bit 16 b) :: 16 word)"
  "ucast ((a AND 0xFFFF) OR push_bit 16 b) = (ucast a :: 16 word)"
  "ucast (drop_bit 16 ((a AND 0xFFFF) OR push_bit 16 b)) = (ucast b :: 16 word)"
  for a b :: "32 word"
proof -
  have m: "(0xFFFF :: 32 word) = mask 16" "(0xFFFF0000 :: 32 word) = push_bit 16 (mask 16)"
    by (simp_all add: mask_eq_exp_minus_1)
  show "ucast (drop_bit 16 a OR (b AND 0xFFFF0000)) = (ucast (drop_bit 16 a) :: 16 word)"
    "ucast (drop_bit 16 (drop_bit 16 a OR (b AND 0xFFFF0000))) = (ucast (drop_bit 16 b) :: 16 word)"
    "ucast ((a AND 0xFFFF) OR push_bit 16 b) = (ucast a :: 16 word)"
    "ucast (drop_bit 16 ((a AND 0xFFFF) OR push_bit 16 b)) = (ucast b :: 16 word)"
    unfolding m by (rule bit_word_eqI; auto simp: bit_simps)+
qed

section \<open>Places\<close>

lemma div_mod_row: "0 \<le> r \<Longrightarrow> r < n \<Longrightarrow> (q * n + r) div n = q \<and> (q * n + r) mod n = r" for q r n :: int
  by (metis add.commute div_pos_pos_trivial mod_mult_self3 mod_pos_pos_trivial add_cancel_left_left div_mult_self2 mult.commute less_irrefl order_le_less_trans)

lemma row_col:
  fixes j w h :: int
  assumes "0 \<le> j" "j < h * w" "0 < w"
  shows "0 \<le> j div w \<and> j div w < h \<and> 0 \<le> j mod w \<and> j mod w < w \<and> j = j div w * w + j mod w"
proof -
  have "\<not> h \<le> j div w"
  proof
    assume "h \<le> j div w"
    then have "h * w \<le> j div w * w" using assms(3) by (intro mult_right_mono) auto
    with assms(2) div_mult_mod_eq [of j w] pos_mod_sign [OF assms(3), of j] show False by linarith
  qed
  with assms show ?thesis by (simp add: pos_imp_zdiv_nonneg_iff)
qed

text \<open>The column of a word among those of a group of \<open>k\<close>.\<close>

lemma row_groups:
  fixes j w h k :: int
  assumes "0 \<le> j" "j < h * (w * k)" "0 < w" "0 < k"
  obtains y x c where "0 \<le> y" "y < h" "0 \<le> x" "x < w" "0 \<le> c" "c < k" "j = y * (w * k) + (x * k + c)"
proof -
  have "0 < w * k" using assms by simp
  from row_col [OF assms(1,2) this]
  have y: "0 \<le> j div (w * k)" "j div (w * k) < h" and m: "0 \<le> j mod (w * k)" "j mod (w * k) < w * k"
    and e: "j = j div (w * k) * (w * k) + j mod (w * k)" by auto
  from row_col [OF m assms(4)] e that [OF y, of "j mod (w * k) div k" "j mod (w * k) mod k"] show thesis by auto
qed

lemma from_pix_Some: "0 \<le> s \<Longrightarrow> s < int (length src) \<Longrightarrow> from_pix src body s = Some (body (src ! nat s))"
  by (simp add: from_pix_def aget_Some)

lemma pixel16_pair:
  "pixel16 src w (2 * x) y = ucast (src ! nat (y * (w div 2) + x))"
  "pixel16 src w (2 * x + 1) y = ucast (drop_bit 16 (src ! nat (y * (w div 2) + x)))"
  by (simp_all add: pixel16_def)

lemma source_word:
  assumes "0 \<le> y" "y < rows" "0 \<le> x" "x < cols" "int (length src) = rows * cols"
  shows "0 \<le> y * cols + x" "y * cols + x < int (length src)"
proof -
  have "(y + 1) * cols \<le> rows * cols" using assms by (intro mult_right_mono) auto
  then show "y * cols + x < int (length src)" using assms by (simp add: algebra_simps)
  show "0 \<le> y * cols + x" using assms by simp
qed

text \<open>The loops that read one word per turn, over a picture \<open>f\<close>.\<close>

lemma word_loop_picture:
  fixes f :: "int \<Rightarrow> 32 word"
  assumes dims: "0 \<le> rows" "0 \<le> cols" "int (length src) = rows * cols"
    and puts: "\<And>y x i v. 0 \<le> y \<Longrightarrow> y < rows \<Longrightarrow> 0 \<le> x \<Longrightarrow> x < cols \<Longrightarrow> (i, v) \<in> set (body (src ! nat (y * cols + x))) \<Longrightarrow>
      0 \<le> place dst cols drow dstep y x + i \<and> place dst cols drow dstep y x + i < int (length a)
      \<and> v = f (place dst cols drow dstep y x + i)"
  shows "\<exists>a'. pixel_loop rows cols 0 1 drow dstep (from_pix src body) 0 dst a = Some a' \<and> length a' = length a
    \<and> (\<forall>j < length a. a' ! j = (if \<exists>y x i. 0 \<le> y \<and> y < rows \<and> 0 \<le> x \<and> x < cols
         \<and> i \<in> fst ` set (body (src ! nat (y * cols + x))) \<and> int j = place dst cols drow dstep y x + i then f (int j) else a ! j))"
proof (rule pixel_loop_picture [where f = "\<lambda>j. f (int j)" and ws = "\<lambda>y x. body (src ! nat (y * cols + x))", OF dims(1,2)])
  fix y x assume b: "0 \<le> y" "y < rows" "0 \<le> x" "x < cols"
  then show "from_pix src body (place 0 cols 0 1 y x) = Some (body (src ! nat (y * cols + x)))"
    using source_word [OF b dims(3)] by (simp add: place_def from_pix_Some)
  fix i v assume "(i, v) \<in> set (body (src ! nat (y * cols + x)))"
  from puts [OF b this] show "0 \<le> place dst cols drow dstep y x + i \<and> place dst cols drow dstep y x + i < int (length a)
      \<and> v = f (int (nat (place dst cols drow dstep y x + i)))" by simp
qed

text \<open>The same when the loop stores everywhere.\<close>

lemma word_loop_full:
  fixes f :: "int \<Rightarrow> 32 word"
  assumes "0 \<le> rows" "0 \<le> cols" "int (length src) = rows * cols"
    and "\<And>y x i v. 0 \<le> y \<Longrightarrow> y < rows \<Longrightarrow> 0 \<le> x \<Longrightarrow> x < cols \<Longrightarrow> (i, v) \<in> set (body (src ! nat (y * cols + x))) \<Longrightarrow>
      0 \<le> place dst cols drow dstep y x + i \<and> place dst cols drow dstep y x + i < int (length a)
      \<and> v = f (place dst cols drow dstep y x + i)"
    and cover: "\<And>j. 0 \<le> j \<Longrightarrow> j < int (length a) \<Longrightarrow> \<exists>y x i. 0 \<le> y \<and> y < rows \<and> 0 \<le> x \<and> x < cols
         \<and> i \<in> fst ` set (body (src ! nat (y * cols + x))) \<and> j = place dst cols drow dstep y x + i"
  shows "\<exists>a'. pixel_loop rows cols 0 1 drow dstep (from_pix src body) 0 dst a = Some a' \<and> length a' = length a
    \<and> (\<forall>j < length a'. a' ! j = f (int j))"
  using word_loop_picture [OF assms(1-4)] cover by fastforce

section \<open>The pictures\<close>

text \<open>A square of four 32-bit pixels for every pixel of 320 by 240, in both ways round.\<close>

definition doubled :: "(32 word) list \<Rightarrow> int \<Rightarrow> 32 word" where
  "doubled src i = rgb888 (pixel16 src 320 (i mod 640 div 2) (i div 640 div 2))"

lemma doubled_store:
  assumes "0 \<le> x" "x < 160" "0 \<le> r" "r < 2" "0 \<le> c" "c < 4"
  shows "doubled src (y * 1280 + x * 4 + (r * 640 + c)) =
    (if c < 2 then expand_low (src ! nat (y * 160 + x)) else expand_high (src ! nat (y * 160 + x)))"
proof -
  have e: "y * 1280 + x * 4 + (r * 640 + c) = (2 * y + r) * 640 + (4 * x + c)" by (simp add: algebra_simps)
  have "0 \<le> 4 * x + c" "4 * x + c < 640" using assms by linarith+
  moreover have "(4 * x + c) div 2 = (if c < 2 then 2 * x else 2 * x + 1)" "(2 * y + r) div 2 = y" using assms by presburger+
  ultimately have "doubled src (y * 1280 + x * 4 + (r * 640 + c)) = rgb888 (pixel16 src 320 (if c < 2 then 2 * x else 2 * x + 1) y)"
    using div_mod_row [of "4 * x + c" 640 "2 * y + r"] by (simp add: doubled_def e)
  then show ?thesis by (simp add: pixel16_pair [of src 320, simplified] expand_low_rgb expand_high_rgb)
qed

lemma doubled_cover:
  fixes i :: int
  assumes "0 \<le> i" "i < 640 * 480"
  obtains y x r c where "0 \<le> y" "y < 240" "0 \<le> x" "x < 160" "r = 0 \<or> r = 1" "c = 0 \<or> c = 1 \<or> c = 2 \<or> c = 3"
    "i = y * 1280 + x * 4 + (r * 640 + c)"
proof (rule that [of "i div 640 div 2" "i mod 640 div 4" "i div 640 mod 2" "i mod 640 mod 4"])
  show "i div 640 mod 2 = 0 \<or> i div 640 mod 2 = 1" "i mod 640 mod 4 = 0 \<or> i mod 640 mod 4 = 1 \<or> i mod 640 mod 4 = 2 \<or> i mod 640 mod 4 = 3"
    by presburger+
  show "i = i div 640 div 2 * 1280 + i mod 640 div 4 * 4 + (i div 640 mod 2 * 640 + i mod 640 mod 4)"
    using div_mult_mod_eq [of i 640] div_mult_mod_eq [of "i div 640" 2] div_mult_mod_eq [of "i mod 640" 4] by linarith
qed (use assms in auto)

text \<open>RG35XX+: every pixel becomes a square of four, in 32-bit colour.\<close>

lemma upscale2x_low:
  assumes src: "int (length src) = 240 * 160" and dst: "int (length dst) = 640 * 480"
  shows "\<exists>d. upscale2x False src dst = Some d \<and> length d = length dst \<and> (\<forall>i < length d. d ! i = doubled src (int i))"
proof -
  let ?body = "\<lambda>pix. let dpix = expand_low pix; dpix' = expand_high pix in
          [(0, dpix), (1, dpix), (640, dpix), (641, dpix), (2, dpix'), (3, dpix'), (642, dpix'), (643, dpix')] :: (int \<times> 32 word) list"
  have pl: "place 0 160 640 4 y x = y * 1280 + x * 4" for y x by (simp add: place_def)
  have puts: "0 \<le> place 0 160 640 4 y x + i \<and> place 0 160 640 4 y x + i < int (length dst)
      \<and> v = doubled src (place 0 160 640 4 y x + i)"
    if b: "0 \<le> y" "y < 240" "0 \<le> x" "x < 160" and iv: "(i, v) \<in> set (?body (src ! nat (y * 160 + x)))" for y x i v
  proof -
    note f = doubled_store [OF b(3,4), where y = y and src = src]
    show ?thesis
      using iv f [of 0 0] f [of 0 1] f [of 0 2] f [of 0 3] f [of 1 0] f [of 1 1] f [of 1 2] f [of 1 3] b dst
      by (auto simp: Let_def pl)
  qed
  have cover: "\<exists>y x i. 0 \<le> y \<and> y < 240 \<and> 0 \<le> x \<and> x < 160
      \<and> i \<in> fst ` set (?body (src ! nat (y * 160 + x))) \<and> j = place 0 160 640 4 y x + i" if jj: "0 \<le> j" "j < int (length dst)" for j
  proof -
    obtain y x r c where c: "0 \<le> y" "y < 240" "0 \<le> x" "x < 160" "r = 0 \<or> r = 1" "c = 0 \<or> c = 1 \<or> c = 2 \<or> c = 3"
      "j = y * 1280 + x * 4 + (r * 640 + c)" by (rule doubled_cover [of j]) (use jj dst in auto)
    moreover from this have "r * 640 + c \<in> fst ` set (?body (src ! nat (y * 160 + x)))" by (auto simp: Let_def)
    ultimately show ?thesis unfolding pl by blast
  qed
  show ?thesis
    using word_loop_full [where body = ?body and f = "doubled src", OF _ _ src puts cover] by (simp add: upscale2x_def)
qed

text \<open>Miyoo Mini: the same picture turned by half a turn, the last word first.\<close>

lemma upscale_and_rotate_picture:
  assumes src: "int (length src) = 240 * 160" and dst: "int (length dst) = 640 * 480"
  shows "\<exists>d. upscale_and_rotate src dst = Some d \<and> length d = length dst \<and> (\<forall>i < length d. d ! i = doubled src (307199 - int i))"
proof -
  let ?body = "\<lambda>pix. let dpix = expand_low pix; dpix' = expand_high pix in
          [(0, dpix), (-1, dpix), (-640, dpix), (-641, dpix), (-2, dpix'), (-3, dpix'), (-642, dpix'), (-643, dpix')] :: (int \<times> 32 word) list"
  have pl: "place 307199 160 (-640) (-4) y x = 307199 - (y * 1280 + x * 4)" for y x by (simp add: place_def)
  have puts: "0 \<le> place 307199 160 (-640) (-4) y x + i \<and> place 307199 160 (-640) (-4) y x + i < int (length dst)
      \<and> v = doubled src (307199 - (place 307199 160 (-640) (-4) y x + i))"
    if b: "0 \<le> y" "y < 240" "0 \<le> x" "x < 160" and iv: "(i, v) \<in> set (?body (src ! nat (y * 160 + x)))" for y x i v
  proof -
    note f = doubled_store [OF b(3,4), where y = y and src = src]
    show ?thesis
      using iv f [of 0 0] f [of 0 1] f [of 0 2] f [of 0 3] f [of 1 0] f [of 1 1] f [of 1 2] f [of 1 3] b dst
      by (auto simp: Let_def pl add.assoc)
  qed
  have cover: "\<exists>y x i. 0 \<le> y \<and> y < 240 \<and> 0 \<le> x \<and> x < 160
      \<and> i \<in> fst ` set (?body (src ! nat (y * 160 + x))) \<and> j = place 307199 160 (-640) (-4) y x + i"
    if jj: "0 \<le> j" "j < int (length dst)" for j
  proof -
    obtain y x r c where c: "0 \<le> y" "y < 240" "0 \<le> x" "x < 160" "r = 0 \<or> r = 1" "c = 0 \<or> c = 1 \<or> c = 2 \<or> c = 3"
      "307199 - j = y * 1280 + x * 4 + (r * 640 + c)" by (rule doubled_cover [of "307199 - j"]) (use jj dst in auto)
    moreover from this have "- (r * 640 + c) \<in> fst ` set (?body (src ! nat (y * 160 + x)))" by (auto simp: Let_def)
    moreover from c have "j = 307199 - (y * 1280 + x * 4) + - (r * 640 + c)" by linarith
    ultimately show ?thesis unfolding pl by blast
  qed
  show ?thesis
    using word_loop_full [where body = ?body and f = "\<lambda>i. doubled src (307199 - i)", OF _ _ src puts cover]
    by (simp add: upscale_and_rotate_def)
qed

text \<open>RG35XX+ with HIGH_RES: the colours converted, pixel for pixel.\<close>

lemma upscale2x_high:
  assumes src: "int (length src) = 480 * 320" and dst: "int (length dst) = 640 * 480"
  shows "\<exists>d. upscale2x True src dst = Some d \<and> length d = length dst
    \<and> (\<forall>i < length d. d ! i = rgb888 (pixel16 src 640 (int i mod 640) (int i div 640)))"
proof -
  let ?body = "\<lambda>pix. [(0, expand_low pix), (1, expand_high pix)] :: (int \<times> 32 word) list"
  let ?f = "\<lambda>i. rgb888 (pixel16 src 640 (i mod 640) (i div 640))"
  have pl: "place 0 320 0 2 y x = y * 640 + x * 2" for y x by (simp add: place_def)
  have puts: "0 \<le> place 0 320 0 2 y x + i \<and> place 0 320 0 2 y x + i < int (length dst) \<and> v = ?f (place 0 320 0 2 y x + i)"
    if b: "0 \<le> y" "y < 480" "0 \<le> x" "x < 320" and iv: "(i, v) \<in> set (?body (src ! nat (y * 320 + x)))" for y x i v
  proof -
    have i: "i = 0 \<or> i = 1" using iv by auto
    have e: "place 0 320 0 2 y x + i = y * 640 + (2 * x + i)" by (simp add: pl)
    have "(y * 640 + (2 * x + i)) div 640 = y \<and> (y * 640 + (2 * x + i)) mod 640 = 2 * x + i" by (rule div_mod_row) (use b i in auto)
    then have "?f (place 0 320 0 2 y x + i) = v"
      using iv unfolding e by (auto simp: pixel16_pair [of src 640, simplified] expand_low_rgb expand_high_rgb)
    with b i dst show ?thesis by (auto simp: pl)
  qed
  have cover: "\<exists>y x i. 0 \<le> y \<and> y < 480 \<and> 0 \<le> x \<and> x < 320
      \<and> i \<in> fst ` set (?body (src ! nat (y * 320 + x))) \<and> j = place 0 320 0 2 y x + i" if jj: "0 \<le> j" "j < int (length dst)" for j
  proof -
    obtain y x c where "0 \<le> y" "y < 480" "0 \<le> x" "x < 320" "0 \<le> c" "c < 2" "j = y * (320 * 2) + (x * 2 + c)"
      by (rule row_groups [of j 480 320 2]) (use jj dst in auto)
    then show ?thesis by (intro exI [of _ y] exI [of _ x] exI [of _ c]) (auto simp: pl)
  qed
  show ?thesis
    using word_loop_full [where body = ?body and f = ?f, OF _ _ src puts cover] by (simp add: upscale2x_def)
qed

text \<open>The builds with a 16-bit screen of 640 by 480: every pixel becomes a square of four.\<close>

lemma upscale_low:
  assumes src: "int (length src) = 240 * 160" and dst: "int (length dst) = 480 * 320"
  shows "\<exists>d. upscale False src dst = Some d \<and> length d = length dst
    \<and> (\<forall>x y. 0 \<le> x \<and> x < 640 \<and> 0 \<le> y \<and> y < 480 \<longrightarrow> pixel16 d 640 x y = pixel16 src 320 (x div 2) (y div 2))"
proof -
  let ?body = "\<lambda>pix. [(0, double_low pix), (1, double_high pix), (320, double_low pix), (321, double_high pix)] :: (int \<times> 32 word) list"
  let ?f = "\<lambda>i. (if even (i mod 320) then double_low else double_high) (src ! nat (i div 320 div 2 * 160 + i mod 320 div 2))"
  have pl: "place 0 160 320 2 y x = y * 640 + x * 2" for y x by (simp add: place_def)
  have f: "?f (y * 640 + x * 2 + (r * 320 + c)) = (if c = 0 then double_low else double_high) (src ! nat (y * 160 + x))"
    if "0 \<le> x" "x < 160" "r = 0 \<or> r = 1" "c = 0 \<or> c = 1" for x y r c
  proof -
    have e: "y * 640 + x * 2 + (r * 320 + c) = (2 * y + r) * 320 + (2 * x + c)" by (simp add: algebra_simps)
    have "((2 * y + r) * 320 + (2 * x + c)) div 320 = 2 * y + r \<and> ((2 * y + r) * 320 + (2 * x + c)) mod 320 = 2 * x + c"
      by (rule div_mod_row) (use that in auto)
    with that show ?thesis unfolding e by auto
  qed
  have puts: "0 \<le> place 0 160 320 2 y x + i \<and> place 0 160 320 2 y x + i < int (length dst) \<and> v = ?f (place 0 160 320 2 y x + i)"
    if b: "0 \<le> y" "y < 240" "0 \<le> x" "x < 160" and iv: "(i, v) \<in> set (?body (src ! nat (y * 160 + x)))" for y x i v
  proof -
    note g = f [OF b(3,4), where y = y]
    obtain r c where rc: "r = 0 \<or> r = 1" "c = 0 \<or> c = 1" "i = r * 320 + c" "v = (if c = 0 then double_low else double_high) (src ! nat (y * 160 + x))"
      using iv that [of 0 0] that [of 0 1] that [of 1 0] that [of 1 1] by auto
    from g [OF rc(1,2)] rc b dst show ?thesis unfolding pl by auto
  qed
  have cover: "\<exists>y x i. 0 \<le> y \<and> y < 240 \<and> 0 \<le> x \<and> x < 160
      \<and> i \<in> fst ` set (?body (src ! nat (y * 160 + x))) \<and> j = place 0 160 320 2 y x + i" if jj: "0 \<le> j" "j < int (length dst)" for j
  proof -
    obtain y r m where y: "0 \<le> y" "y < 240" "0 \<le> r" "r < 2" "0 \<le> m" "m < 320" "j = y * (2 * 320) + (r * 320 + m)"
      by (rule row_groups [of j 240 2 320]) (use jj dst in auto)
    moreover from row_col [of m 160 2] y(5,6) have "0 \<le> m div 2" "m div 2 < 160" "m = m div 2 * 2 + m mod 2" by auto
    moreover have "m mod 2 = 0 \<or> m mod 2 = 1" "r = 0 \<or> r = 1" using y by auto
    ultimately show ?thesis by (intro exI [of _ y] exI [of _ "m div 2"] exI [of _ "r * 320 + m mod 2"]) (auto simp: pl)
  qed
  obtain d where d: "upscale False src dst = Some d" "length d = length dst" "\<forall>j < length d. d ! j = ?f (int j)"
    using word_loop_full [where body = ?body and f = ?f, OF _ _ src puts cover] by (auto simp: upscale_def)
  have "pixel16 d 640 x y = pixel16 src 320 (x div 2) (y div 2)" if b: "0 \<le> x" "x < 640" "0 \<le> y" "y < 480" for x y
  proof -
    have x: "0 \<le> x div 2" "x div 2 < 320" using b by auto
    have "y * 320 + x div 2 < 480 * 320" using b(4) x(2) by linarith
    then have "nat (y * 320 + x div 2) < length d" using d(2) dst by (simp add: nat_less_iff)
    then have "d ! nat (y * 320 + x div 2) = (if even (x div 2) then double_low else double_high) (src ! nat (y div 2 * 160 + x div 2 div 2))"
      using d(3) div_mod_row [OF x, of y] x b(3) by simp
    then show ?thesis by (simp add: pixel16_def halves_double)
  qed
  with d(1,2) show ?thesis by blast
qed

text \<open>With HIGH_RES, the surface is copied.\<close>

lemma upscale_high:
  assumes src: "int (length src) = 480 * 320" and dst: "length dst = length src"
  shows "upscale True src dst = Some src"
proof -
  let ?body = "\<lambda>pix. [(0, keep_pix pix)] :: (int \<times> 32 word) list"
  have pl: "place 0 320 0 1 y x = y * 320 + x" for y x by (simp add: place_def)
  have puts: "0 \<le> place 0 320 0 1 y x + i \<and> place 0 320 0 1 y x + i < int (length dst) \<and> v = src ! nat (place 0 320 0 1 y x + i)"
    if b: "0 \<le> y" "y < 480" "0 \<le> x" "x < 320" and iv: "(i, v) \<in> set (?body (src ! nat (y * 320 + x)))" for y x i v
    using source_word [OF b src] iv dst by (auto simp: pl keep_pix_id)
  have cover: "\<exists>y x i. 0 \<le> y \<and> y < 480 \<and> 0 \<le> x \<and> x < 320
      \<and> i \<in> fst ` set (?body (src ! nat (y * 320 + x))) \<and> j = place 0 320 0 1 y x + i" if jj: "0 \<le> j" "j < int (length dst)" for j
    using row_col [of j 480 320] jj src dst by (intro exI [of _ "j div 320"] exI [of _ "j mod 320"] exI [of _ 0]) (auto simp: pl)
  obtain d where d: "upscale True src dst = Some d" "length d = length dst" "\<forall>j < length d. d ! j = src ! j"
    using word_loop_full [where body = ?body and f = "\<lambda>i. src ! nat i", OF _ _ src puts cover] by (auto simp: upscale_def)
  then have "d = src" using dst by (intro nth_equalityI) auto
  with d(1) show ?thesis by simp
qed

text \<open>
  Trimui SP: four pixels in a row for every pixel, on the first and the third of every three
  rows; the row between them keeps what it showed.
\<close>

lemma upscale4x3_low:
  assumes src: "int (length src) = 240 * 160" and dst: "int (length dst) = 720 * 640"
  shows "\<exists>d. upscale4x3 False src dst = Some d \<and> length d = length dst
    \<and> (\<forall>x y. 0 \<le> x \<and> x < 1280 \<and> 0 \<le> y \<and> y < 720 \<longrightarrow> pixel16 d 1280 x y =
         (if y mod 3 = 1 then pixel16 dst 1280 x y else pixel16 src 320 (x div 4) (y div 3)))"
proof -
  let ?body = "\<lambda>pix. let dpix1 = double_low pix; dpix2 = double_high pix in
          [(0, dpix1), (1, dpix1), (2, dpix2), (3, dpix2), (1280, dpix1), (1281, dpix1), (1282, dpix2), (1283, dpix2)] :: (int \<times> 32 word) list"
  let ?f = "\<lambda>i. (if i mod 640 mod 4 < 2 then double_low else double_high) (src ! nat (i div 640 div 3 * 160 + i mod 640 div 4))"
  have pl: "place 0 160 1280 4 y x = y * 1920 + x * 4" for y x by (simp add: place_def)
  have e: "y * 1920 + x * 4 + (r * 1280 + c) = (3 * y + 2 * r) * 640 + (4 * x + c)" for y x r c :: int by (simp add: algebra_simps)
  have dm: "((3 * y + 2 * r) * 640 + (4 * x + c)) div 640 = 3 * y + 2 * r" "((3 * y + 2 * r) * 640 + (4 * x + c)) mod 640 = 4 * x + c"
    if "0 \<le> x" "x < 160" "0 \<le> c" "c < 4" for y x r c :: int
    using div_mod_row [of "4 * x + c" 640 "3 * y + 2 * r"] that by auto
  have f: "?f (y * 1920 + x * 4 + (r * 1280 + c)) = (if c < 2 then double_low else double_high) (src ! nat (y * 160 + x))"
    if "0 \<le> x" "x < 160" "r = 0 \<or> r = 1" "0 \<le> c" "c < 4" for x y r c
  proof -
    have "(4 * x + c) mod 4 = c" "(4 * x + c) div 4 = x" "(3 * y + 2 * r) div 3 = y" using that by auto
    with that show ?thesis unfolding e dm [OF that(1,2,4,5)] by auto
  qed
  have puts: "0 \<le> place 0 160 1280 4 y x + i \<and> place 0 160 1280 4 y x + i < int (length dst) \<and> v = ?f (place 0 160 1280 4 y x + i)"
    if b: "0 \<le> y" "y < 240" "0 \<le> x" "x < 160" and iv: "(i, v) \<in> set (?body (src ! nat (y * 160 + x)))" for y x i v
  proof -
    note g = f [OF b(3,4), where y = y]
    obtain r c where rc: "r = 0 \<or> r = 1" "0 \<le> c" "c < 4" "i = r * 1280 + c" "v = (if c < 2 then double_low else double_high) (src ! nat (y * 160 + x))"
      using iv that [of 0 0] that [of 0 1] that [of 0 2] that [of 0 3] that [of 1 0] that [of 1 1] that [of 1 2] that [of 1 3]
      by (auto simp: Let_def)
    from g [OF rc(1,2,3)] rc b dst show ?thesis unfolding pl by auto
  qed
  have offs: "fst ` set (?body pix) = {0, 1, 2, 3, 1280, 1281, 1282, 1283}" for pix by (simp add: Let_def)
  define hit where "hit j \<longleftrightarrow> (\<exists>y x i. 0 \<le> y \<and> y < 240 \<and> 0 \<le> x \<and> x < 160
         \<and> i \<in> {0, 1, 2, 3, 1280, 1281, 1282, 1283} \<and> int j = place 0 160 1280 4 y x + i)" for j
  obtain d where d: "upscale4x3 False src dst = Some d" "length d = length dst"
    "\<forall>j < length dst. d ! j = (if hit j then ?f (int j) else dst ! j)"
  proof -
    have "\<exists>a'. pixel_loop 240 160 0 1 1280 4 (from_pix src ?body) 0 0 dst = Some a' \<and> length a' = length dst
      \<and> (\<forall>j < length dst. a' ! j = (if \<exists>y x i. 0 \<le> y \<and> y < 240 \<and> 0 \<le> x \<and> x < 160
         \<and> i \<in> {0, 1, 2, 3, 1280, 1281, 1282, 1283} \<and> int j = place 0 160 1280 4 y x + i then ?f (int j) else dst ! j))"
      by (rule word_loop_picture [where body = ?body and f = ?f, OF _ _ src puts, unfolded offs]) simp_all
    with that show thesis unfolding upscale4x3_def if_False hit_def by blast
  qed
  have "pixel16 d 1280 x y = (if y mod 3 = 1 then pixel16 dst 1280 x y else pixel16 src 320 (x div 4) (y div 3))"
    if b: "0 \<le> x" "x < 1280" "0 \<le> y" "y < 720" for x y
  proof -
    have x: "0 \<le> x div 2" "x div 2 < 640" using b by auto
    let ?i = "y * 640 + x div 2"
    have q: "?i div 640 = y" "?i mod 640 = x div 2" using div_mod_row [OF x, of y] by auto
    have "?i < 720 * 640" using b(4) x(2) by linarith
    then have l: "nat ?i < length dst" using dst by (simp add: nat_less_iff)
    show ?thesis
    proof (cases "y mod 3 = 1")
      case True
      have "\<not> hit (nat ?i)"
      proof
        assume "hit (nat ?i)"
        then obtain y' x' i where c: "0 \<le> x'" "x' < 160" "i \<in> {0, 1, 2, 3, 1280, 1281, 1282, 1283}" "int (nat ?i) = place 0 160 1280 4 y' x' + i"
          unfolding hit_def by blast
        define r c where "r = (if i < 1280 then 0 else 1 :: int)" and "c = i - r * 1280"
        have rc: "r = 0 \<or> r = 1" "0 \<le> c" "c < 4" "i = r * 1280 + c" using c(3) by (auto simp: r_def c_def)
        have "?i = (3 * y' + 2 * r) * 640 + (4 * x' + c)" using c(4) b x unfolding rc(4) pl e by simp
        then have "y = 3 * y' + 2 * r" using q(1) dm(1) [OF c(1,2) rc(2,3), of y' r] by simp
        with True rc(1) show False by presburger
      qed
      with d(3) l have "d ! nat ?i = dst ! nat ?i" by simp
      with True show ?thesis by (simp add: pixel16_def)
    next
      case False
      let ?x = "x div 2 div 4" and ?c = "x div 2 mod 4" and ?y = "y div 3" and ?r = "y mod 3 div 2"
      have r: "?r = 0 \<or> ?r = 1" "y = 3 * ?y + 2 * ?r" using False by presburger+
      have c: "0 \<le> ?c" "?c < 4" "x div 2 = 4 * ?x + ?c" "0 \<le> ?x" "?x < 160" "0 \<le> ?y" "?y < 240" using x b by auto
      have "?c = 0 \<or> ?c = 1 \<or> ?c = 2 \<or> ?c = 3" using c(1,2) by linarith
      then have "?r * 1280 + ?c \<in> {0, 1, 2, 3, 1280, 1281, 1282, 1283}" using r(1) by (elim disjE) simp_all
      moreover have "int (nat ?i) = place 0 160 1280 4 ?y ?x + (?r * 1280 + ?c)"
        unfolding pl e using r(2) c(3) b x by simp
      ultimately have "hit (nat ?i)" using c unfolding hit_def by blast
      with d(3) l have "d ! nat ?i = ?f (int (nat ?i))" by simp
      then have "d ! nat ?i = ?f ?i" using b x by simp
      then have "d ! nat ?i = (if ?c < 2 then double_low else double_high) (src ! nat (?y * 160 + x div 4 div 2))"
        unfolding q by (simp add: zdiv_zmult2_eq [symmetric])
      moreover have "?c < 2 \<longleftrightarrow> even (x div 4)" by presburger
      ultimately show ?thesis using False by (simp add: pixel16_def halves_double)
    qed
  qed
  with d(1,2) show ?thesis by blast
qed

text \<open>
  Trimui Smart: the picture turned by a quarter turn. The last column becomes the first row.
\<close>

lemma rotate_picture:
  assumes src: "int (length src) = 240 * 160" and dst: "int (length dst) = 320 * 120"
  shows "\<exists>d. rotate320x240_rw32 src dst = Some d \<and> length d = length dst
    \<and> (\<forall>x y. 0 \<le> x \<and> x < 240 \<and> 0 \<le> y \<and> y < 320 \<longrightarrow> pixel16 d 240 x y = pixel16 src 320 (319 - y) x)"
proof -
  let ?p = "\<lambda>y x. src ! nat (159 - y + x * 320)" and ?q = "\<lambda>y x. src ! nat (159 - y + x * 320 + 160)"
  let ?top = "\<lambda>y x. drop_bit 16 (?p y x) OR (?q y x AND 0xFFFF0000)" and ?low = "\<lambda>y x. (?p y x AND 0xFFFF) OR push_bit 16 (?q y x)"
  let ?ws = "\<lambda>y x. [(0, ?top y x), (120, ?low y x)] :: (int \<times> 32 word) list"
  let ?f = "\<lambda>i. if even (i div 120) then ?top (i div 120 div 2) (i mod 120) else ?low (i div 120 div 2) (i mod 120)"
  have pl: "place 0 120 120 1 y x = (2 * y) * 120 + x" "place 159 120 (- (160 * 240 + 1)) 320 y x = 159 - y + x * 320" for y x
    by (simp_all add: place_def)
  have reads: "quarter_body src (place 159 120 (- (160 * 240 + 1)) 320 y x) = Some (?ws y x)"
    if "0 \<le> y" "y < 160" "0 \<le> x" "x < 120" for y x
  proof -
    have b: "0 \<le> 159 - y + x * 320" "159 - y + x * 320 + 160 < int (length src)" using that src by auto
    then have "aget src (159 - y + x * 320) = Some (?p y x)" "aget src (159 - y + x * 320 + 160) = Some (?q y x)"
      by (simp_all add: aget_Some)
    then show ?thesis unfolding pl quarter_body_def by simp
  qed
  have puts: "0 \<le> place 0 120 120 1 y x + i \<and> place 0 120 120 1 y x + i < int (length dst)
      \<and> v = ?f (int (nat (place 0 120 120 1 y x + i)))"
    if b: "0 \<le> y" "y < 160" "0 \<le> x" "x < 120" and iv: "(i, v) \<in> set (?ws y x)" for y x i v
  proof -
    have dm: "((2 * y + r) * 120 + x) div 120 = 2 * y + r" "((2 * y + r) * 120 + x) mod 120 = x" for r
      using div_mod_row [OF b(3,4), of "2 * y + r"] by auto
    from iv consider "i = 0" "v = ?top y x" | "i = 120" "v = ?low y x" by auto
    then show ?thesis
    proof cases
      case 1
      have "place 0 120 120 1 y x + i = (2 * y + 0) * 120 + x" using 1 by (simp add: pl)
      then show ?thesis using dm [of 0] b dst 1(2) by simp
    next
      case 2
      have "place 0 120 120 1 y x + i = (2 * y + 1) * 120 + x" using 2 by (simp add: pl)
      then show ?thesis using dm [of 1] b dst 2(2) by simp
    qed
  qed
  have offs: "fst ` set (?ws y x) = {0, 120}" for y x by simp
  define hit where "hit j \<longleftrightarrow> (\<exists>y x i. 0 \<le> y \<and> y < 160 \<and> 0 \<le> x \<and> x < 120 \<and> i \<in> {0, 120} \<and> int j = place 0 120 120 1 y x + i)" for j
  obtain d where d: "rotate320x240_rw32 src dst = Some d" "length d = length dst"
    "\<forall>j < length dst. d ! j = (if hit j then ?f (int j) else dst ! j)"
  proof -
    have "\<exists>a'. pixel_loop 160 120 (- (160 * 240 + 1)) 320 120 1 (quarter_body src) 159 0 dst = Some a' \<and> length a' = length dst
      \<and> (\<forall>j < length dst. a' ! j = (if \<exists>y x i. 0 \<le> y \<and> y < 160 \<and> 0 \<le> x \<and> x < 120
         \<and> i \<in> {0, 120} \<and> int j = place 0 120 120 1 y x + i then ?f (int j) else dst ! j))"
      by (rule pixel_loop_picture [where ws = ?ws and f = "\<lambda>j. ?f (int j)", OF _ _ reads puts, unfolded offs]) simp_all
    with that show thesis unfolding rotate320x240_rw32_def hit_def by blast
  qed
  have "pixel16 d 240 x y = pixel16 src 320 (319 - y) x" if b: "0 \<le> x" "x < 240" "0 \<le> y" "y < 320" for x y
  proof -
    have x: "0 \<le> x div 2" "x div 2 < 120" using b by auto
    let ?i = "y * 120 + x div 2"
    have q: "?i div 120 = y" "?i mod 120 = x div 2" using div_mod_row [OF x, of y] by auto
    have "?i < 320 * 120" using b(4) x(2) by linarith
    then have l: "nat ?i < length dst" using dst by (simp add: nat_less_iff)
    have "int (nat ?i) = place 0 120 120 1 (y div 2) (x div 2) + y mod 2 * 120"
    proof -
      have "y * 120 = 2 * (y div 2) * 120 + y mod 2 * 120" using div_mult_mod_eq [of y 2] by linarith
      then show ?thesis unfolding pl using b(3) x(1) by simp
    qed
    moreover have "y mod 2 * 120 \<in> {0, 120}" "0 \<le> y div 2" "y div 2 < 160" using b by auto
    ultimately have "hit (nat ?i)" using x unfolding hit_def by blast
    with d(3) l b x have "d ! nat ?i = ?f ?i" by simp
    then have e: "d ! nat ?i = (if even y then ?top (y div 2) (x div 2) else ?low (y div 2) (x div 2))"
      unfolding q .
    have e': "d ! nat (y * (240 div 2) + x div 2) = (if even y then ?top (y div 2) (x div 2) else ?low (y div 2) (x div 2))"
      using e by simp
    have s: "(319 - y) div 2 = 159 - y div 2" "even (319 - y) \<longleftrightarrow> odd y" by presburger+
    show ?thesis
    proof (cases "even x")
      case True
      then have i: "nat (x * (320 div 2) + (319 - y) div 2) = nat (159 - y div 2 + x div 2 * 320)" unfolding s(1) by auto
      show ?thesis unfolding pixel16_def i using True s(2) e by (simp add: quarter_halves)
    next
      case False
      then have "x * 160 = x div 2 * 320 + 160" by presburger
      then have i: "nat (x * (320 div 2) + (319 - y) div 2) = nat (159 - y div 2 + x div 2 * 320 + 160)" unfolding s(1) by simp
      show ?thesis
        unfolding pixel16_def i e' using False s(2)
        by (cases "even y") (simp_all only: quarter_halves if_True if_False simp_thms drop_bit_0 id_apply)
    qed
  qed
  with d(1,2) show ?thesis by blast
qed

end
