(* ===== verification/Font.thy ===== *)
theory Font
  imports Term_State
begin

text \<open>
  The text of simple-terminal on a surface (src/package/simple-terminal/src/font.c): the table
  \<open>embedded_font\<close>, \<open>draw_char\<close> and \<open>draw_string\<close>. A surface is its width, height, pitch (in
  pixels) and 16-bit pixels.
\<close>

section \<open>Definitions\<close>

text \<open>Eight bytes for each of 128 characters, of which the first six rows are drawn.\<close>

definition embedded_font :: "byte list" where
  "embedded_font =
    [0x00, 0x00, 0x00, 0x00, 0x00, 0x00, 0x00, 0x00, 0x00, 0x00, 0x00, 0x00, 0x00, 0x00, 0x00, 0x00, 0x00, 0x00, 0x00, 0x00, 0x00, 0x00, 0x00, 0x00,
     0x00, 0x00, 0x00, 0x00, 0x00, 0x00, 0x00, 0x00, 0x00, 0x00, 0x00, 0x00, 0x00, 0x00, 0x00, 0x00, 0x00, 0x00, 0x00, 0x00, 0x00, 0x00, 0x00, 0x00,
     0x00, 0x00, 0x00, 0x00, 0x00, 0x00, 0x00, 0x00, 0x00, 0x00, 0x00, 0x00, 0x00, 0x00, 0x00, 0x00, 0x00, 0x00, 0x00, 0x00, 0x00, 0x00, 0x00, 0x00,
     0x00, 0x00, 0x00, 0x00, 0x00, 0x00, 0x00, 0x00, 0x00, 0x00, 0x00, 0x00, 0x00, 0x00, 0x00, 0x00, 0x00, 0x00, 0x00, 0x00, 0x00, 0x00, 0x00, 0x00,
     0x00, 0x00, 0x00, 0x00, 0x00, 0x00, 0x00, 0x00, 0x00, 0x00, 0x00, 0x00, 0x00, 0x00, 0x00, 0x00, 0x00, 0x00, 0x00, 0x00, 0x00, 0x00, 0x00, 0x00,
     0x00, 0x00, 0x00, 0x00, 0x00, 0x00, 0x00, 0x00, 0x00, 0x00, 0x00, 0x00, 0x00, 0x00, 0x00, 0x00, 0x00, 0x00, 0x00, 0x00, 0x00, 0x00, 0x00, 0x00,
     0x00, 0x00, 0x00, 0x00, 0x00, 0x00, 0x00, 0x00, 0x00, 0x00, 0x00, 0x00, 0x00, 0x00, 0x00, 0x00, 0x00, 0x00, 0x00, 0x00, 0x00, 0x00, 0x00, 0x00,
     0x00, 0x00, 0x00, 0x00, 0x00, 0x00, 0x00, 0x00, 0x00, 0x00, 0x00, 0x00, 0x00, 0x00, 0x00, 0x00, 0x00, 0x00, 0x00, 0x00, 0x00, 0x00, 0x00, 0x00,
     0x00, 0x00, 0x00, 0x00, 0x00, 0x00, 0x00, 0x00, 0x00, 0x00, 0x00, 0x00, 0x00, 0x00, 0x00, 0x00, 0x00, 0x00, 0x00, 0x00, 0x00, 0x00, 0x00, 0x00,
     0x00, 0x00, 0x00, 0x00, 0x00, 0x00, 0x00, 0x00, 0x00, 0x00, 0x00, 0x00, 0x00, 0x00, 0x00, 0x00, 0x00, 0x00, 0x00, 0x00, 0x00, 0x00, 0x00, 0x00,
     0x00, 0x00, 0x00, 0x00, 0x00, 0x00, 0x00, 0x00, 0x00, 0x00, 0x00, 0x00, 0x00, 0x00, 0x00, 0x00, 0x00, 0x00, 0x00, 0x00, 0x00, 0x00, 0x00, 0x00,
     0x30, 0x30, 0x30, 0x00, 0x30, 0x00, 0x00, 0x00, 0x50, 0x50, 0x00, 0x00, 0x00, 0x00, 0x00, 0x00, 0x50, 0xf8, 0x50, 0xf8, 0x50, 0x00, 0x00, 0x00,
     0x78, 0xa0, 0x70, 0x28, 0xf0, 0x00, 0x00, 0x00, 0x88, 0x10, 0x20, 0x40, 0x88, 0x00, 0x00, 0x00, 0x40, 0xa0, 0x68, 0x90, 0x68, 0x00, 0x00, 0x00,
     0x20, 0x40, 0x00, 0x00, 0x00, 0x00, 0x00, 0x00, 0x20, 0x40, 0x40, 0x40, 0x20, 0x00, 0x00, 0x00, 0x40, 0x20, 0x20, 0x20, 0x40, 0x00, 0x00, 0x00,
     0x20, 0xa8, 0x70, 0xa8, 0x20, 0x00, 0x00, 0x00, 0x00, 0x20, 0x70, 0x20, 0x00, 0x00, 0x00, 0x00, 0x00, 0x00, 0x00, 0x60, 0x20, 0x40, 0x00, 0x00,
     0x00, 0x00, 0x70, 0x00, 0x00, 0x00, 0x00, 0x00, 0x00, 0x00, 0x00, 0x60, 0x60, 0x00, 0x00, 0x00, 0x08, 0x10, 0x20, 0x40, 0x80, 0x00, 0x00, 0x00,
     0x70, 0xc8, 0xc8, 0xc8, 0x70, 0x00, 0x00, 0x00, 0x30, 0x70, 0x30, 0x30, 0x78, 0x00, 0x00, 0x00, 0xf0, 0x18, 0x70, 0xc0, 0xf8, 0x00, 0x00, 0x00,
     0xf8, 0x18, 0x30, 0x98, 0x70, 0x00, 0x00, 0x00, 0x30, 0x70, 0xd0, 0xf8, 0x10, 0x00, 0x00, 0x00, 0xf8, 0xc0, 0xf0, 0x18, 0xf0, 0x00, 0x00, 0x00,
     0x70, 0xc0, 0xf0, 0xc8, 0x70, 0x00, 0x00, 0x00, 0xf8, 0x18, 0x30, 0x60, 0xc0, 0x00, 0x00, 0x00, 0x70, 0xc8, 0x70, 0xc8, 0x70, 0x00, 0x00, 0x00,
     0x70, 0xc8, 0x78, 0x08, 0x70, 0x00, 0x00, 0x00, 0x60, 0x60, 0x00, 0x60, 0x60, 0x00, 0x00, 0x00, 0x60, 0x60, 0x00, 0x60, 0x20, 0x40, 0x00, 0x00,
     0x10, 0x20, 0x40, 0x20, 0x10, 0x00, 0x00, 0x00, 0x00, 0x70, 0x00, 0x70, 0x00, 0x00, 0x00, 0x00, 0x40, 0x20, 0x10, 0x20, 0x40, 0x00, 0x00, 0x00,
     0x78, 0x18, 0x30, 0x00, 0x30, 0x00, 0x00, 0x00, 0x70, 0xa8, 0xb8, 0x80, 0x70, 0x00, 0x00, 0x00, 0x70, 0xc8, 0xc8, 0xf8, 0xc8, 0x00, 0x00, 0x00,
     0xf0, 0xc8, 0xf0, 0xc8, 0xf0, 0x00, 0x00, 0x00, 0x70, 0xc8, 0xc0, 0xc8, 0x70, 0x00, 0x00, 0x00, 0xf0, 0xc8, 0xc8, 0xc8, 0xf0, 0x00, 0x00, 0x00,
     0xf8, 0xc0, 0xf0, 0xc0, 0xf8, 0x00, 0x00, 0x00, 0xf8, 0xc0, 0xf0, 0xc0, 0xc0, 0x00, 0x00, 0x00, 0x78, 0xc0, 0xd8, 0xc8, 0x78, 0x00, 0x00, 0x00,
     0xc8, 0xc8, 0xf8, 0xc8, 0xc8, 0x00, 0x00, 0x00, 0x78, 0x30, 0x30, 0x30, 0x78, 0x00, 0x00, 0x00, 0xf8, 0x18, 0x18, 0xd8, 0x70, 0x00, 0x00, 0x00,
     0xc8, 0xd0, 0xe0, 0xd0, 0xc8, 0x00, 0x00, 0x00, 0xc0, 0xc0, 0xc0, 0xc0, 0xf8, 0x00, 0x00, 0x00, 0xd8, 0xf8, 0xf8, 0xa8, 0x88, 0x00, 0x00, 0x00,
     0xc8, 0xe8, 0xf8, 0xd8, 0xc8, 0x00, 0x00, 0x00, 0x70, 0xc8, 0xc8, 0xc8, 0x70, 0x00, 0x00, 0x00, 0xf0, 0xc8, 0xc8, 0xf0, 0xc0, 0x00, 0x00, 0x00,
     0x70, 0xc8, 0xc8, 0xc8, 0x70, 0x08, 0x00, 0x00, 0xf0, 0xc8, 0xc8, 0xf0, 0xc8, 0x00, 0x00, 0x00, 0x78, 0xe0, 0x70, 0x38, 0xf0, 0x00, 0x00, 0x00,
     0x78, 0x30, 0x30, 0x30, 0x30, 0x00, 0x00, 0x00, 0xc8, 0xc8, 0xc8, 0xc8, 0x70, 0x00, 0x00, 0x00, 0xc8, 0xc8, 0xc8, 0x70, 0x20, 0x00, 0x00, 0x00,
     0x88, 0xa8, 0xf8, 0xf8, 0xd8, 0x00, 0x00, 0x00, 0xc8, 0xc8, 0x70, 0xc8, 0xc8, 0x00, 0x00, 0x00, 0x68, 0x68, 0x78, 0x30, 0x30, 0x00, 0x00, 0x00,
     0xf8, 0x30, 0x60, 0xc0, 0xf8, 0x00, 0x00, 0x00, 0x60, 0x40, 0x40, 0x40, 0x60, 0x00, 0x00, 0x00, 0x80, 0x40, 0x20, 0x10, 0x08, 0x00, 0x00, 0x00,
     0x60, 0x20, 0x20, 0x20, 0x60, 0x00, 0x00, 0x00, 0x20, 0x50, 0x88, 0x00, 0x00, 0x00, 0x00, 0x00, 0x00, 0x00, 0x00, 0x00, 0x78, 0x00, 0x00, 0x00,
     0x40, 0x20, 0x00, 0x00, 0x00, 0x00, 0x00, 0x00, 0x00, 0x78, 0x98, 0x98, 0x78, 0x00, 0x00, 0x00, 0xc0, 0xf0, 0xc8, 0xc8, 0xf0, 0x00, 0x00, 0x00,
     0x00, 0x78, 0xe0, 0xe0, 0x78, 0x00, 0x00, 0x00, 0x18, 0x78, 0x98, 0x98, 0x78, 0x00, 0x00, 0x00, 0x00, 0x70, 0xd8, 0xe0, 0x70, 0x00, 0x00, 0x00,
     0x38, 0x60, 0xf8, 0x60, 0x60, 0x00, 0x00, 0x00, 0x00, 0x70, 0x98, 0xf8, 0x18, 0x70, 0x00, 0x00, 0xc0, 0xf0, 0xc8, 0xc8, 0xc8, 0x00, 0x00, 0x00,
     0x30, 0x00, 0x70, 0x30, 0x78, 0x00, 0x00, 0x00, 0x18, 0x00, 0x18, 0x18, 0x98, 0x70, 0x00, 0x00, 0xc0, 0xc8, 0xf0, 0xc8, 0xc8, 0x00, 0x00, 0x00,
     0x60, 0x60, 0x60, 0x60, 0x38, 0x00, 0x00, 0x00, 0x00, 0xd0, 0xf8, 0xa8, 0xa8, 0x00, 0x00, 0x00, 0x00, 0xf0, 0xc8, 0xc8, 0xc8, 0x00, 0x00, 0x00,
     0x00, 0x70, 0xc8, 0xc8, 0x70, 0x00, 0x00, 0x00, 0x00, 0xf0, 0xc8, 0xc8, 0xf0, 0xc0, 0x00, 0x00, 0x00, 0x78, 0x98, 0x98, 0x78, 0x18, 0x00, 0x00,
     0x00, 0xf0, 0xc8, 0xc0, 0xc0, 0x00, 0x00, 0x00, 0x00, 0x78, 0xe0, 0x38, 0xf0, 0x00, 0x00, 0x00, 0x60, 0xf8, 0x60, 0x60, 0x38, 0x00, 0x00, 0x00,
     0x00, 0x98, 0x98, 0x98, 0x78, 0x00, 0x00, 0x00, 0x00, 0xc8, 0xc8, 0xd0, 0xe0, 0x00, 0x00, 0x00, 0x00, 0x88, 0xa8, 0xf8, 0xd8, 0x00, 0x00, 0x00,
     0x00, 0xd8, 0x70, 0x70, 0xd8, 0x00, 0x00, 0x00, 0x00, 0x98, 0x98, 0x78, 0x18, 0x70, 0x00, 0x00, 0x00, 0xf8, 0x30, 0x60, 0xf8, 0x00, 0x00, 0x00,
     0x30, 0x20, 0x60, 0x20, 0x30, 0x00, 0x00, 0x00, 0x20, 0x20, 0x20, 0x20, 0x20, 0x00, 0x00, 0x00, 0x60, 0x20, 0x30, 0x20, 0x60, 0x00, 0x00, 0x00,
     0x00, 0x28, 0x50, 0x00, 0x00, 0x00, 0x00, 0x00, 0x00, 0x00, 0x00, 0x00, 0x00, 0x00, 0x00, 0x00]"

record surface =
  surf_w :: int
  surf_h :: int
  surf_pitch :: int
  surf_pixels :: "16 word list"

text \<open>One pixel of a character: bit \<open>col\<close> of the row \<open>i\<close>, whose byte is \<open>b\<close>.\<close>

definition draw_dot :: "bool \<Rightarrow> int \<Rightarrow> int \<Rightarrow> 16 word \<Rightarrow> int \<Rightarrow> byte \<Rightarrow> int \<Rightarrow> surface \<Rightarrow> surface option" where
  "draw_dot flip x y color i b col sf =
     (let xs = x + 7 - col; f = of_bool flip in
      if bit b (nat col) \<and> y + i < surf_h sf \<and> xs < surf_w sf then do {
        px \<leftarrow> aset (surf_pixels sf) ((y + f * 4 + (1 - 2 * f) * i) * surf_pitch sf + xs) color;
        Some (sf\<lparr>surf_pixels := px\<rparr>) }
      else Some sf)"

text \<open>The symbols from 128 on are those below turned upside down.\<close>

definition draw_char :: "byte \<Rightarrow> int \<Rightarrow> int \<Rightarrow> 16 word \<Rightarrow> surface \<Rightarrow> surface option" where
  "draw_char symbol x y color sf =
     (let flip = (symbol > 127); symbol = (if flip then symbol - 128 else symbol) in
      for_up 0 5 (\<lambda>i sf. do {
        b \<leftarrow> aget embedded_font (uint symbol * 8 + i);
        for_up 2 7 (draw_dot flip x y color i b) sf }) sf)"

text \<open>The loop of \<open>draw_string\<close>; the list holds the bytes before the terminator.\<close>

fun draw_string_loop :: "int \<Rightarrow> byte list \<Rightarrow> int \<Rightarrow> int \<Rightarrow> 16 word \<Rightarrow> surface \<Rightarrow> surface option" where
  "draw_string_loop orig_x [] x y color sf = Some sf"
| "draw_string_loop orig_x (c # cs) x y color sf =
     (if c = 10 then draw_string_loop orig_x cs orig_x (y + 8) color sf
      else do { sf \<leftarrow> draw_char c x y color sf; draw_string_loop orig_x cs (x + 6) y color sf })"

definition draw_string :: "byte list \<Rightarrow> int \<Rightarrow> int \<Rightarrow> 16 word \<Rightarrow> surface \<Rightarrow> surface option" where
  "draw_string cs orig_x orig_y color sf = draw_string_loop orig_x cs orig_x orig_y color sf"

section \<open>Laws\<close>

lemma length_embedded_font: "length embedded_font = 1024"
  by (simp add: embedded_font_def)

definition wf_surface :: "surface \<Rightarrow> bool" where
  "wf_surface sf \<longleftrightarrow> surf_w sf \<le> surf_pitch sf \<and> surf_h sf * surf_pitch sf \<le> int (length (surf_pixels sf))"

text \<open>The dots a character has set, and where they fall.\<close>

definition dot_on :: "byte \<Rightarrow> int \<Rightarrow> int \<Rightarrow> surface \<Rightarrow> int \<Rightarrow> int \<Rightarrow> bool" where
  "dot_on c x y sf i col \<longleftrightarrow> bit (embedded_font ! nat (uint c * 8 + i)) (nat col) \<and> y + i < surf_h sf \<and> x + 7 - col < surf_w sf"

definition dot_place :: "int \<Rightarrow> int \<Rightarrow> surface \<Rightarrow> int \<Rightarrow> int \<Rightarrow> int" where
  "dot_place x y sf i col = (y + i) * surf_pitch sf + (x + 7 - col)"

text \<open>The surface after the dots of the set \<open>D\<close> (rows and columns of the character).\<close>

definition dotted :: "byte \<Rightarrow> int \<Rightarrow> int \<Rightarrow> 16 word \<Rightarrow> (int \<times> int) set \<Rightarrow> surface \<Rightarrow> surface \<Rightarrow> bool" where
  "dotted c x y color D sf sf' \<longleftrightarrow> sf' = sf\<lparr>surf_pixels := surf_pixels sf'\<rparr> \<and> length (surf_pixels sf') = length (surf_pixels sf)
     \<and> (\<forall>k < length (surf_pixels sf). surf_pixels sf' ! k =
          (if \<exists>(i, col) \<in> D. dot_on c x y sf i col \<and> int k = dot_place x y sf i col then color else surf_pixels sf ! k))"

lemma dot_step:
  assumes "wf_surface sf" "0 \<le> x" "0 \<le> y" "0 \<le> i" "2 \<le> col" "col \<le> 7" "dotted c x y color D sf sf'"
  shows "\<exists>sf''. draw_dot False x y color i (embedded_font ! nat (uint c * 8 + i)) col sf' = Some sf''
    \<and> dotted c x y color (insert (i, col) D) sf sf''"
proof -
  have e: "sf' = sf\<lparr>surf_pixels := surf_pixels sf'\<rparr>" and l: "length (surf_pixels sf') = length (surf_pixels sf)"
    using assms(7) by (auto simp: dotted_def)
  have g: "surf_w sf' = surf_w sf" "surf_h sf' = surf_h sf" "surf_pitch sf' = surf_pitch sf" by (subst e, simp)+
  show ?thesis
  proof (cases "dot_on c x y sf i col")
    case True
    then have b: "y + i < surf_h sf" "x + 7 - col < surf_w sf" by (auto simp: dot_on_def)
    have w: "surf_w sf \<le> surf_pitch sf" "surf_h sf * surf_pitch sf \<le> int (length (surf_pixels sf))"
      using assms(1) by (auto simp: wf_surface_def)
    have "(y + i + 1) * surf_pitch sf \<le> surf_h sf * surf_pitch sf" using b w assms by (intro mult_right_mono) auto
    then have hi: "dot_place x y sf i col < int (length (surf_pixels sf))" using b w by (simp add: dot_place_def algebra_simps)
    have "0 \<le> (y + i) * surf_pitch sf" using assms b w by (intro mult_nonneg_nonneg) auto
    then have lo: "0 \<le> dot_place x y sf i col" using assms b by (simp add: dot_place_def)
    have "draw_dot False x y color i (embedded_font ! nat (uint c * 8 + i)) col sf' =
      Some (sf'\<lparr>surf_pixels := (surf_pixels sf')[nat (dot_place x y sf i col) := color]\<rparr>)"
      using True lo hi l by (simp add: draw_dot_def g dot_on_def dot_place_def aset_Some)
    moreover have "dotted c x y color (insert (i, col) D) sf (sf'\<lparr>surf_pixels := (surf_pixels sf')[nat (dot_place x y sf i col) := color]\<rparr>)"
      unfolding dotted_def
    proof (intro conjI allI impI)
      show "sf'\<lparr>surf_pixels := (surf_pixels sf')[nat (dot_place x y sf i col) := color]\<rparr> = sf\<lparr>surf_pixels :=
        surf_pixels (sf'\<lparr>surf_pixels := (surf_pixels sf')[nat (dot_place x y sf i col) := color]\<rparr>)\<rparr>"
        by (subst e) simp
      fix k assume k: "k < length (surf_pixels sf)"
      show "surf_pixels (sf'\<lparr>surf_pixels := (surf_pixels sf')[nat (dot_place x y sf i col) := color]\<rparr>) ! k =
        (if \<exists>(i, col) \<in> insert (i, col) D. dot_on c x y sf i col \<and> int k = dot_place x y sf i col then color else surf_pixels sf ! k)"
        using k lo l True assms(7) by (cases "int k = dot_place x y sf i col") (auto simp: dotted_def nth_list_update)
    qed (simp add: l)
    ultimately show ?thesis by blast
  next
    case False
    then have "draw_dot False x y color i (embedded_font ! nat (uint c * 8 + i)) col sf' = Some sf'"
      by (auto simp: draw_dot_def g dot_on_def)
    moreover have "dotted c x y color (insert (i, col) D) sf sf'" using assms(7) False by (simp add: dotted_def)
    ultimately show ?thesis by blast
  qed
qed

text \<open>A plain character sets the dots of its glyph that fall on the surface, and nothing else.\<close>

lemma draw_char_ok:
  assumes "wf_surface sf" "0 \<le> x" "0 \<le> y" "c \<le> 127"
  shows "\<exists>sf'. draw_char c x y color sf = Some sf' \<and> dotted c x y color ({0..5} \<times> {2..7}) sf sf'"
proof -
  have u: "0 \<le> uint c" "uint c < 128" using assms(4) by (auto simp: word_le_def)
  let ?P = "\<lambda>i. dotted c x y color ({0..<i} \<times> {2..7}) sf"
  have "\<exists>sf'. for_up 0 5 (\<lambda>i sf. do { b \<leftarrow> aget embedded_font (uint c * 8 + i); for_up 2 7 (draw_dot False x y color i b) sf }) sf = Some sf'
    \<and> ?P (max 0 (5 + 1)) sf'"
  proof (rule for_up_inv)
    show "?P 0 sf" by (simp add: dotted_def)
  next
    fix i sf1 assume i: "0 \<le> i" "i \<le> 5" and p: "?P i sf1"
    let ?b = "embedded_font ! nat (uint c * 8 + i)"
    have a: "aget embedded_font (uint c * 8 + i) = Some ?b" using u i by (simp add: aget_Some length_embedded_font)
    let ?Q = "\<lambda>col. dotted c x y color ({0..<i} \<times> {2..7} \<union> {i} \<times> {2..<col}) sf"
    have "\<exists>sf'. for_up 2 7 (draw_dot False x y color i ?b) sf1 = Some sf' \<and> ?Q (max 2 (7 + 1)) sf'"
    proof (rule for_up_inv)
      show "?Q 2 sf1" using p by simp
    next
      fix col sf2 assume col: "2 \<le> col" "col \<le> 7" and q: "?Q col sf2"
      have "insert (i, col) ({0..<i} \<times> {2..7} \<union> {i} \<times> {2..<col}) = {0..<i} \<times> {2..7} \<union> {i} \<times> {2..<col + 1}"
        using col by auto
      with dot_step [OF assms(1-3) i(1) col q] show "\<exists>sf'. draw_dot False x y color i ?b col sf2 = Some sf' \<and> ?Q (col + 1) sf'"
        by simp
    qed
    moreover have "{0..<i} \<times> {2..7} \<union> {i} \<times> {2..<8} = {0..<i + 1} \<times> {2..7::int}" using i by auto
    ultimately show "\<exists>sf'. do { b \<leftarrow> aget embedded_font (uint c * 8 + i); for_up 2 7 (draw_dot False x y color i b) sf1 } = Some sf' \<and> ?P (i + 1) sf'"
      using a by simp
  qed
  moreover have "{0..<6} = {0..5::int}" by auto
  moreover have "\<not> c > 127" using assms(4) by simp
  ultimately show ?thesis by (simp add: draw_char_def)
qed

text \<open>
  The bound checked is that of the plain character: the symbol 0xDE on one of the last four
  rows writes below the surface.
\<close>

definition small_surface :: surface where
  "small_surface = \<lparr>surf_w = 8, surf_h = 8, surf_pitch = 8, surf_pixels = replicate 64 0\<rparr>"

lemma flipped_char_overruns: "wf_surface small_surface \<and> draw_char 0xDE 0 7 1 small_surface = None"
  by code_simp

end
