(* ===== verification/Program_Properties.thy ===== *)
theory Program_Properties
  imports Terminal_Properties Startup Pixel_Laws Font
begin

text \<open>
  The properties of simple-terminal around its terminal: the program as one machine, the
  on-screen keyboard, the keys, the mouse, the copies to the real screen, the font and the
  command line, each with a witness on a small state.
\<close>

section \<open>A small program state\<close>

definition no_junk :: "nat \<Rightarrow> nat \<Rightarrow> glyph" where
  "no_junk y x = calloc_glyph"

definition demo_kb :: kb where
  "demo_kb = (init_keyboard static_kb)\<lparr>show_help := False, selected_j := 2, selected_i := 1\<rparr>"

definition demo_world :: "event list \<Rightarrow> world" where
  "demo_world es = \<lparr>terminal = demo, kbd = demo_kb, queue = es, quit = False, overlay = [], unread = []\<rparr>"

definition demo_env :: env where
  "demo_env = \<lparr>ejunk = no_junk, ejunk' = no_junk, enow = (0, 0), enow' = (0, 0)\<rparr>"

definition demo_press :: "int \<Rightarrow> key_event" where
  "demo_press key = \<lparr>kdown = True, kpressed = True, kscancode = 0, ksym = key, kmod = 0, kunicode = 0\<rparr>"

lemma no_junk_ok [simp]: "junk_ok no_junk" "ok_glyph (no_junk y x)"
  by (simp_all add: junk_ok_def no_junk_def calloc_glyph_def ok_glyph_def ok_colors_def)

lemma demo_env_ok [simp]: "env_ok demo_env"
  by (simp add: env_ok_def demo_env_def)

lemma demo_kb_fields [simp]:
  "selected_j demo_kb = 2" "selected_i demo_kb = 1" "shifted demo_kb = 0" "active demo_kb" "\<not> show_help demo_kb"
  "mod_state demo_kb = 0" "pushed demo_kb = []" "selected_key demo_kb = Some 113"
  by (simp_all add: demo_kb_def init_keyboard_def static_kb_def selected_key_def keys_def key_row_def ascii_def aget_def)

lemma demo_kb_wf [simp]: "wf_kb demo_kb"
  using wf_kb_select [OF wf_init_keyboard [of static_kb], of 2 1]
  by (simp add: demo_kb_def wf_kb_def row_len_def row_length_def)

lemma demo_world_fields [simp]:
  "terminal (demo_world es) = demo" "kbd (demo_world es) = demo_kb" "queue (demo_world es) = es"
  "\<not> quit (demo_world es)" "unread (demo_world es) = []"
  by (simp_all add: demo_world_def)

lemma demo_world_wf [simp]: "wf_world (demo_world es)"
  by (simp add: wf_world_def)

section \<open>The program\<close>





text \<open>C18. The event loop comes to rest: from any queue of events that are acceptable in every state (every
  key event is), although handling a key pushes further keys, it reaches an empty queue or the
  end of the program.\<close>

theorem event_loop_ends:
  assumes "wf_world w" "\<And>i. env_ok (v i)" "\<forall>e \<in> set (queue w). safe_event e"
  shows "\<exists>w'. run_queue b version v n w = Some w' \<and> wf_world w' \<and> (queue w' = [] \<or> quit w')"
  by (rule run_queue_ok [OF assms])

theorem event_loop_ends_witness:
  "\<exists>w'. run_queue h700 [] (\<lambda>_. demo_env) 0 (demo_world [EvKey (demo_press 311), EvKey (demo_press 305)]) = Some w' \<and> (queue w' = [] \<or> quit w')"
  using event_loop_ends [of "demo_world [EvKey (demo_press 311), EvKey (demo_press 305)]" "\<lambda>_. demo_env" h700 "[]" 0] by auto

text \<open>C14. Typing: when the enter button is pressed with a character selected on the on-screen keyboard, the loop
  runs until the queue is empty and has then written exactly the byte of that character (in capitals if
  Shift is held) to the pseudo-terminal; the keyboard and the rest of the terminal are as before.\<close>

theorem press_types_character:
  assumes "wf_world w" "queue w = [EvKey e]" "\<not> quit w" "active (kbd w)" "\<not> show_help (kbd w)"
    and "enter_button b" "button_press (KEY_ENTER b) e"
    and "selected_key (kbd w) = Some key" "32 \<le> key" "key \<le> 126" "skip_backquote b \<longrightarrow> key \<noteq> 96"
    and "\<not> flag (mod_state (kbd w)) KMOD_CTRL" "\<not> flag (tmode (terminal w)) MODE_KBDLOCK"
  shows "\<exists>w' f. run_queue b version v n w = Some w' \<and> queue w' = [] \<and> \<not> quit w'
    \<and> terminal w' = (terminal w)\<lparr>ttyout := ttyout (terminal w) @ [word_of_int (typed_char (kbd w) key)], frame := f\<rparr>
    \<and> kbd w' = (kbd w)\<lparr>sdl_modstate := mod_state (kbd w)\<rparr>"
  by (rule press_types [OF assms])

lemma demo_button: "button_press (KEY_ENTER r36s) (demo_press 305)"
  by (simp add: button_press_def demo_press_def r36s_def synth_def flag_def)

theorem press_types_character_witness:
  "\<exists>w'. run_queue r36s [] (\<lambda>_. demo_env) 0 (demo_world [EvKey (demo_press 305)]) = Some w' \<and> ttyout (terminal w') = [0x71]"
proof -
  have "\<exists>w' f. run_queue r36s [] (\<lambda>_. demo_env) 0 (demo_world [EvKey (demo_press 305)]) = Some w' \<and> queue w' = [] \<and> \<not> quit w'
    \<and> terminal w' = (terminal (demo_world [EvKey (demo_press 305)]))\<lparr>ttyout := ttyout (terminal (demo_world [EvKey (demo_press 305)]))
        @ [word_of_int (typed_char (kbd (demo_world [EvKey (demo_press 305)])) 113)], frame := f\<rparr>
    \<and> kbd w' = (kbd (demo_world [EvKey (demo_press 305)]))\<lparr>sdl_modstate := mod_state (kbd (demo_world [EvKey (demo_press 305)]))\<rparr>"
    by (rule press_types_character) (use demo_button enter_buttons in \<open>simp_all add: flag_def\<close>)
  then show ?thesis by (auto simp: typed_char_def flag_def) (simp add: demo_def)
qed

end
