(* ===== verification/Device_Properties.thy ===== *)
theory Device_Properties
  imports Program_Properties
begin

text \<open>
  The properties of the parts of simple-terminal next to the terminal: on-screen keyboard,
  keys, mouse, copies to the real screen, font and command line.
\<close>

section \<open>The on-screen keyboard\<close>

text \<open>C30. The keyboard's state machine is total: on every build every key event is handled without leaving the
  tables, the selection stays on a key, a toggle stays 0 or 1 and the result is one of the three codes \<open>run\<close> knows.\<close>

theorem keyboard_event_invariant:
  assumes "wf_kb k"
  shows "\<exists>r k'. handle_keyboard_event b e k = Some (r, k') \<and> wf_kb k' \<and> r \<in> {-1, 0, 1}"
  by (rule handle_keyboard_event_ok [OF assms])

theorem keyboard_event_invariant_witness:
  "\<exists>r k'. handle_keyboard_event h700 (demo_press 544) demo_kb = Some (r, k') \<and> wf_kb k'"
  using keyboard_event_invariant [OF demo_kb_wf, of h700 "demo_press 544"] by blast

text \<open>The active keyboard is drawn completely: its background and then, inside the tables, a box and a label
  for each of its 85 keys (one call for the background, two for each key).\<close>

theorem keyboard_drawn_completely:
  assumes "wf_kb k" "active k" "\<not> show_help k"
  shows "\<exists>d. draw_keyboard b version w h k = Some d \<and> length d = 1 + 2 * 85"
  using draw_keyboard_ok [OF assms] by simp

theorem keyboard_drawn_completely_witness:
  "\<exists>d. draw_keyboard rgb30 [] 320 240 demo_kb = Some d \<and> length d = 171"
  using keyboard_drawn_completely [OF demo_kb_wf demo_kb_fields(4,5), of rgb30 "[]" 320 240] by simp

section \<open>Keys\<close>

text \<open>A key with a character and no meaning of its own writes the UTF-8 encoding of that character: decoding what
  was written gives the character back (surrogates, which are no characters, excluded).\<close>

theorem key_character_roundtrip:
  assumes "plain_key (ksym e)" "kunicode e \<noteq> 0" "\<not> (0xD800 \<le> unat (kunicode e) \<and> unat (kunicode e) \<le> 0xDFFF)"
    and "\<not> flag (tmode s) MODE_KBDLOCK" "\<not> flag (kmod e) KMOD_ALT"
  shows "\<exists>bs. kpress junk junk' e s = Some (ttywrite bs s) \<and> utf8decode bs = Some (length bs, ucast (kunicode e))"
proof -
  have "unat (kunicode e) < 65536" using unsigned_less [of "kunicode e"] by simp
  moreover from this have "unat (ucast (kunicode e) :: 64 word) = unat (kunicode e)"
    by (simp add: unsigned_ucast_eq take_bit_nat_eq_self_iff)
  ultimately have "utf8decode (utf8encode (ucast (kunicode e)) @ []) = Some (length (utf8encode (ucast (kunicode e))), ucast (kunicode e))"
    using assms(3) by (intro utf8_decode_encode) auto
  then show ?thesis
    by (intro exI [of _ "utf8encode (ucast (kunicode e))"] conjI kpress_plain [OF assms(1,2,4,5)]) simp
qed

definition demo_letter :: key_event where
  "demo_letter = \<lparr>kdown = True, kpressed = True, kscancode = 0, ksym = 233, kmod = 0, kunicode = 0xE9\<rparr>"

theorem key_character_roundtrip_witness:
  "\<exists>bs. kpress no_junk no_junk demo_letter demo = Some (ttywrite bs demo) \<and> utf8decode bs = Some (length bs, 0xE9)"
proof -
  have "\<exists>bs. kpress no_junk no_junk demo_letter demo = Some (ttywrite bs demo)
    \<and> utf8decode bs = Some (length bs, ucast (kunicode demo_letter))"
    by (rule key_character_roundtrip) (simp_all add: demo_letter_def plain_key_def key_table_def flag_def)
  then show ?thesis by (simp add: demo_letter_def)
qed

text \<open>A key never leaves the terminal in an undefined state, whatever its symbol, modifiers and character,
  zoom shortcuts included; while the keyboard is locked it does nothing.\<close>

theorem kpress_safe:
  assumes "wf_st s" "junk_ok junk" "junk_ok junk'"
  shows "\<exists>s'. kpress junk junk' e s = Some s' \<and> wf_st s' \<and> (flag (tmode s) MODE_KBDLOCK \<longrightarrow> s' = s)"
  using kpress_ok [OF assms, of e] kpress_locked [of s junk junk' e] by auto

theorem kpress_safe_witness:
  "\<exists>s'. kpress no_junk no_junk (demo_press SDLK_PAGEUP) demo = Some s' \<and> wf_st s'"
  using kpress_safe [OF demo_wf(3) no_junk_ok(1) no_junk_ok(1), of "demo_press SDLK_PAGEUP"] by blast

section \<open>The mouse\<close>


definition demo_click :: mouse where
  "demo_click = \<lparr>mtype = MouseUp, mbutton = 1, mx = 14, my = 6\<rparr>"


text \<open>A double click selects a whole word: the loops of \<open>brelease\<close> stay in the row and stop exactly at the
  ends of the run of cells that belong to a word around the one clicked.\<close>

theorem word_ends_exact:
  assumes "wf_row c l" "0 \<le> x" "x < c"
  shows "\<exists>b e. word_start x l = Some b \<and> word_end x c l = Some e \<and> 0 \<le> b \<and> b \<le> x \<and> x \<le> e \<and> e < c
    \<and> (\<forall>k. b \<le> k \<and> k \<le> e \<and> k \<noteq> x \<longrightarrow> word_cell l k = Some True)
    \<and> (0 < b \<longrightarrow> word_cell l (b - 1) = Some False) \<and> (e < c - 1 \<longrightarrow> word_cell l (e + 1) = Some False)"
proof -
  obtain b where b: "word_start x l = Some b" "0 \<le> b" "b \<le> x" "\<forall>k. b \<le> k \<and> k < x \<longrightarrow> word_cell l k = Some True"
    "0 < b \<longrightarrow> word_cell l (b - 1) = Some False" using word_start_ok [OF assms] by blast
  obtain e where e: "word_end x c l = Some e" "x \<le> e" "e < c" "\<forall>k. x < k \<and> k \<le> e \<longrightarrow> word_cell l k = Some True"
    "e < c - 1 \<longrightarrow> word_cell l (e + 1) = Some False" using word_end_ok [OF assms] by blast
  have "word_cell l k = Some True" if "b \<le> k" "k \<le> e" "k \<noteq> x" for k
    using b(4) e(4) that by (cases "k < x") auto
  with b e show ?thesis by (intro exI [of _ b] exI [of _ e]) auto
qed

definition demo_line :: line where
  "demo_line = map demo_glyph ''a bc d''"

theorem word_ends_exact_witness:
  "\<exists>b e. word_start 3 demo_line = Some b \<and> word_end 3 6 demo_line = Some e \<and> b \<le> 3 \<and> 3 \<le> e
    \<and> (0 < b \<longrightarrow> word_cell demo_line (b - 1) = Some False)"
proof -
  have w: "wf_row 6 demo_line" by (simp add: wf_row_def demo_line_def demo_glyph_def ok_glyph_def ok_colors_def)
  from word_ends_exact [OF w, of 3] show ?thesis by auto
qed

section \<open>The copies to the real screen\<close>


lemma blank_screens: "int (length (replicate 38400 p)) = 240 * 160" "int (length (replicate 307200 p)) = 640 * 480"
  "int (length (replicate 460800 p)) = 720 * 640" "int (length (replicate 38400 p)) = 320 * 120"
  by simp_all


text \<open>\<open>rotate320x240_rw32\<close> turns the console by a quarter: the pixel at column \<open>x\<close> and row \<open>y\<close> of the
  upright screen is the one at column \<open>319 - y\<close> and row \<open>x\<close> of the console, for every pixel.\<close>

theorem rotate_quarter_turn:
  assumes "int (length src) = 240 * 160" "int (length dst) = 320 * 120"
  shows "\<exists>d. rotate320x240_rw32 src dst = Some d \<and> length d = length dst
    \<and> (\<forall>x y. 0 \<le> x \<and> x < 240 \<and> 0 \<le> y \<and> y < 320 \<longrightarrow> pixel16 d 240 x y = pixel16 src 320 (319 - y) x)"
  by (rule rotate_picture [OF assms])

theorem rotate_quarter_turn_witness:
  "\<exists>d. rotate320x240_rw32 (replicate 38400 0x12345678) (replicate 38400 0) = Some d \<and> pixel16 d 240 0 0 = 0x1234"
proof -
  obtain d where d: "rotate320x240_rw32 (replicate 38400 0x12345678) (replicate 38400 0) = Some d"
    "\<forall>x y. 0 \<le> x \<and> x < 240 \<and> 0 \<le> y \<and> y < 320 \<longrightarrow> pixel16 d 240 x y = pixel16 (replicate 38400 0x12345678) 320 (319 - y) x"
    using rotate_quarter_turn [OF blank_screens(1,4)] by blast
  show ?thesis using d(1) d(2) [rule_format, of 0 0] by (simp add: pixel16_def)
qed

text \<open>TRIMUISP: \<open>upscale4x3\<close> stays inside both buffers and makes every pixel four pixels wide, but of each three
  rows it writes the first and the last only: every middle row keeps what the screen had before.\<close>

theorem upscale4x3_rows:
  assumes "int (length src) = 240 * 160" "int (length dst) = 720 * 640"
  shows "\<exists>d. upscale4x3 False src dst = Some d \<and> length d = length dst
    \<and> (\<forall>x y. 0 \<le> x \<and> x < 1280 \<and> 0 \<le> y \<and> y < 720 \<longrightarrow> pixel16 d 1280 x y =
         (if y mod 3 = 1 then pixel16 dst 1280 x y else pixel16 src 320 (x div 4) (y div 3)))"
  by (rule upscale4x3_low [OF assms])

theorem upscale4x3_rows_witness:
  "\<exists>d. upscale4x3 False (replicate 38400 0xFFFFFFFF) (replicate 460800 0) = Some d \<and> pixel16 d 1280 0 0 = 0xFFFF \<and> pixel16 d 1280 0 1 = 0"
proof -
  obtain d where d: "upscale4x3 False (replicate 38400 0xFFFFFFFF) (replicate 460800 0) = Some d"
    "\<forall>x y. 0 \<le> x \<and> x < 1280 \<and> 0 \<le> y \<and> y < 720 \<longrightarrow> pixel16 d 1280 x y =
         (if y mod 3 = 1 then pixel16 (replicate 460800 0) 1280 x y else pixel16 (replicate 38400 0xFFFFFFFF) 320 (x div 4) (y div 3))"
    using upscale4x3_rows [OF blank_screens(1,3)] by blast
  show ?thesis using d(1) d(2) [rule_format, of 0 0] d(2) [rule_format, of 0 1] by (simp add: pixel16_def)
qed

section \<open>The font\<close>

text \<open>A character of ASCII is drawn clipped and exactly: the pixels of the dots that its glyph sets and that lie on
  the surface get the colour, no other pixel changes and nothing outside the pixels is touched.\<close>

theorem draw_char_exact:
  assumes "wf_surface sf" "0 \<le> x" "0 \<le> y" "c \<le> 127"
  shows "\<exists>sf'. draw_char c x y color sf = Some sf' \<and> sf' = sf\<lparr>surf_pixels := surf_pixels sf'\<rparr>
    \<and> length (surf_pixels sf') = length (surf_pixels sf)
    \<and> (\<forall>k < length (surf_pixels sf). surf_pixels sf' ! k =
         (if \<exists>(i, col) \<in> {0..5} \<times> {2..7}. bit (embedded_font ! nat (uint c * 8 + i)) (nat col)
            \<and> y + i < surf_h sf \<and> x + 7 - col < surf_w sf \<and> int k = (y + i) * surf_pitch sf + (x + 7 - col)
          then color else surf_pixels sf ! k))"
  using draw_char_ok [OF assms, of color] by (simp add: dotted_def dot_on_def dot_place_def conj_assoc)

theorem draw_char_exact_witness:
  "\<exists>sf'. draw_char 0x7C 3 4 1 small_surface = Some sf' \<and> length (surf_pixels sf') = 64"
proof -
  have w: "wf_surface small_surface" by (simp add: wf_surface_def small_surface_def)
  from draw_char_exact [OF w, of 3 4 "0x7C" 1] show ?thesis by (auto simp: small_surface_def)
qed

section \<open>The command line\<close>

text \<open>C40. The option \<open>-e\<close> (or \<open>-d\<close>, which also shows the keyboard) takes exactly the rest of the command line as
  commands when it comes first. When it comes later, its list of commands reaches behind the end of
  \<open>argv\<close>, because the number of commands is computed from \<open>argc\<close> alone.\<close>

theorem command_option_takes_rest:
  assumes "c = chr CHR ''d'' \<or> c = chr CHR ''e''" "cs \<noteq> []"
  shows "main_args (prog # [chr CHR ''-'', c] # cs) =
      Some (no_options\<lparr>opt_cmd := cs, opt_help := False, opt_active := (c = chr CHR ''d'')\<rparr>)
    \<and> (pre \<noteq> [] \<longrightarrow> parse_args (Suc (length pre)) (prog # pre @ [chr CHR ''-'', c] # cs) opts = None)"
proof (intro conjI impI)
  have i: "1 + 1 < length (prog # [chr CHR ''-'', c] # cs)" using assms(2) by simp
  have o1: "option_char ((prog # [chr CHR ''-'', c] # cs) ! 1) = Some (Some c)" by (simp add: option_char_short)
  have "commands (1 + 1) (prog # [chr CHR ''-'', c] # cs) = Some cs"
    using commands_first [of prog "[chr CHR ''-'', c]" cs] by (simp add: numeral_2_eq_2)
  then show "main_args (prog # [chr CHR ''-'', c] # cs) = Some (no_options\<lparr>opt_cmd := cs, opt_help := False, opt_active := (c = chr CHR ''d'')\<rparr>)"
    using parse_command [OF i o1 assms(1), of no_options] by (simp add: main_args_def)
next
  assume pre: "pre \<noteq> []"
  let ?argv = "prog # pre @ [chr CHR ''-'', c] # cs" and ?i = "Suc (length pre)"
  have i: "?i + 1 < length ?argv" using assms(2) by simp
  have o2: "option_char (?argv ! ?i) = Some (Some c)" by (simp add: option_char_short)
  have "commands (?i + 1) ?argv = None" by (rule commands_later) (use pre in \<open>cases pre, simp_all\<close>)
  then show "parse_args ?i ?argv opts = None" using parse_command [OF i o2 assms(1), of opts] by simp
qed

theorem command_option_takes_rest_witness:
  "main_args [bytes ''st'', [chr CHR ''-'', chr CHR ''e''], bytes ''ls''] =
     Some (no_options\<lparr>opt_cmd := [bytes ''ls''], opt_help := False, opt_active := (chr CHR ''e'' = chr CHR ''d'')\<rparr>)"
  using command_option_takes_rest [of "chr CHR ''e''" "[bytes ''ls'']" "bytes ''st''"] by simp

text \<open>The commands are echoed through an array of 255 bytes: \<open>execsh\<close> stays inside it exactly when no command is
  longer than 243 bytes.\<close>

theorem execsh_commands_bound:
  "execsh_commands cmds \<noteq> None \<longleftrightarrow> (\<forall>c \<in> set cmds. length c \<le> 243)"
  by (rule execsh_commands_ok)

theorem execsh_commands_bound_witness:
  "execsh_commands [replicate 243 0x61] \<noteq> None \<and> execsh_commands [replicate 244 0x61] = None"
  using execsh_commands_bound [of "[replicate 243 0x61]"] execsh_commands_bound [of "[replicate 244 0x61]"] by auto

section \<open>UTF-8\<close>

text \<open>\<open>isfullutf8\<close> says exactly when \<open>utf8decode\<close> will succeed: on every buffer and every number of bytes in it.\<close>

theorem isfullutf8_exact:
  assumes "b \<le> length s"
  shows "isfullutf8 s b \<longleftrightarrow> utf8decode (take b s) \<noteq> None"
  by (rule isfullutf8_iff [OF assms])

theorem isfullutf8_exact_witness:
  "\<not> isfullutf8 [0xE2, 0x82] 2 \<and> utf8decode [0xE2, 0x82] = None"
proof -
  have "\<not> isfullutf8 [0xE2, 0x82] 2" by code_simp
  with isfullutf8_exact [of 2 "[0xE2, 0x82]"] show ?thesis by (cases "utf8decode [0xE2, 0x82]") simp_all
qed

text \<open>The decoder accepts only the canonical encoding: whenever it returns a code point of Unicode other than the replacement
  character, the bytes it consumed are the ones \<open>utf8encode\<close> writes for it (no overlong forms).\<close>

theorem utf8_canonical:
  assumes "utf8decode s = Some (n, u)" "u \<noteq> 0xFFFD" "u \<le> 0x10FFFF"
  shows "utf8encode u = take n s"
  by (rule utf8_encode_decode [OF assms])

theorem utf8_canonical_witness:
  "utf8encode 0x20AC = [0xE2, 0x82, 0xAC]"
proof -
  have "utf8decode [0xE2, 0x82, 0xAC, 0x41] = Some (3, 0x20AC)" by code_simp
  from utf8_canonical [OF this] show ?thesis by simp
qed

text \<open>The decoded text does not depend on where the reads cut the input: the characters of the first piece, followed
  by those of its undecoded rest and the second piece, are those of the whole.\<close>

theorem utf8_stream_cut:
  "scan utf8decode (a @ b) = (case scan utf8decode a of (xs, r) \<Rightarrow> case scan utf8decode (r @ b) of (ys, r') \<Rightarrow> (xs @ ys, r'))"
  by (rule st_utf8.scan_append)

end
