(* ===== verification/Expr.thy ===== *)
theory Expr
  imports Prelude
begin

text \<open>
  Dependency expressions of the configuration language: src/support/kconfig/expr.c, with the
  symbols of expr.h and symbol.c as far as expressions read them.

  An expression is a tree that owns its nodes, so the functions that rewrite it in place are
  functions from the old tree to the new one. The nodes E_LIST and E_RANGE stand for the values of a choice
  and the bounds of a range, never inside a dependency; they and the null pointer are left
  out here. Memory is not modelled: a copy is the expression itself.
\<close>

section \<open>Values\<close>

datatype tristate = Tno | Tmod | Tyes

fun tri_num :: "tristate \<Rightarrow> nat" where
  "tri_num Tno = 0" | "tri_num Tmod = 1" | "tri_num Tyes = 2"

lemma tri_num_inj [simp]: "tri_num a = tri_num b \<longleftrightarrow> a = b"
  by (cases a; cases b) simp_all

instantiation tristate :: linorder
begin

definition less_eq_tristate :: "tristate \<Rightarrow> tristate \<Rightarrow> bool" where
  "less_eq_tristate a b \<longleftrightarrow> tri_num a \<le> tri_num b"

definition less_tristate :: "tristate \<Rightarrow> tristate \<Rightarrow> bool" where
  "less_tristate a b \<longleftrightarrow> tri_num a < tri_num b"

instance
  by standard (auto simp: less_eq_tristate_def less_tristate_def)

end

definition EXPR_OR :: "tristate \<Rightarrow> tristate \<Rightarrow> tristate" where
  "EXPR_OR dep1 dep2 = (if dep1 > dep2 then dep1 else dep2)"

definition EXPR_AND :: "tristate \<Rightarrow> tristate \<Rightarrow> tristate" where
  "EXPR_AND dep1 dep2 = (if dep1 < dep2 then dep1 else dep2)"

text \<open>\<open>2 - dep\<close> on the numbers of the enumeration.\<close>

fun EXPR_NOT :: "tristate \<Rightarrow> tristate" where
  "EXPR_NOT Tno = Tyes" | "EXPR_NOT Tmod = Tmod" | "EXPR_NOT Tyes = Tno"

section \<open>Symbols\<close>

datatype symbol_type = S_UNKNOWN | S_BOOLEAN | S_TRISTATE | S_INT | S_HEX | S_STRING | S_OTHER

text \<open>A pointer to a symbol: one of the four static symbols or one of the table.\<close>

datatype symref = symbol_yes | symbol_mod | symbol_no | symbol_empty | Sym nat

text \<open>
  The fields of a symbol that expressions read, after \<open>sym_calc_value\<close>: \<open>scurr_val\<close> and
  \<open>scurr_tri\<close> are the current value, \<open>sconst\<close> the flag SYMBOL_CONST.
\<close>

record symbol =
  sname :: string
  stype :: symbol_type
  scurr_val :: string
  scurr_tri :: tristate
  sconst :: bool

record symtab =
  syms :: "symref \<Rightarrow> symbol"
  modules_sym :: symref

text \<open>The initialisers of \<open>symbol_yes\<close>, \<open>symbol_mod\<close>, \<open>symbol_no\<close> and \<open>symbol_empty\<close>; their type is 0.\<close>

definition static_symbol :: "string \<Rightarrow> tristate \<Rightarrow> bool \<Rightarrow> symbol" where
  "static_symbol name tri const = \<lparr>sname = name, stype = S_UNKNOWN, scurr_val = name, scurr_tri = tri, sconst = const\<rparr>"

definition static_symbols :: "(symref \<times> symbol) list" where
  "static_symbols =
     [(symbol_yes, static_symbol ''y'' Tyes True), (symbol_mod, static_symbol ''m'' Tmod True),
      (symbol_no, static_symbol ''n'' Tno True), (symbol_empty, static_symbol '''' Tno False)]"

definition sym_get_string_value :: "symtab \<Rightarrow> symref \<Rightarrow> string" where
  "sym_get_string_value G s =
     (let sym = syms G s in
      if stype sym = S_BOOLEAN \<or> stype sym = S_TRISTATE then
        (case scurr_tri sym of
           Tno \<Rightarrow> ''n''
         | Tmod \<Rightarrow> if scurr_tri (syms G (modules_sym G)) = Tno then ''n'' else ''m''
         | Tyes \<Rightarrow> ''y'')
      else scurr_val sym)"

section \<open>Expressions\<close>

datatype gate = E_OR | E_AND

datatype rel = E_EQUAL | E_UNEQUAL | E_LTH | E_LEQ | E_GTH | E_GEQ

text \<open>One constructor for each function that allocates: \<open>expr_alloc_two\<close>, \<open>expr_alloc_one\<close>, \<open>expr_alloc_comp\<close>, \<open>expr_alloc_symbol\<close>.\<close>

datatype expr =
  Two gate expr expr
| Not expr
| Comp rel symref symref
| Symb symref

fun is_gate :: "gate \<Rightarrow> expr \<Rightarrow> bool" where
  "is_gate t (Two u l r) \<longleftrightarrow> u = t"
| "is_gate t _ \<longleftrightarrow> False"

text \<open>\<open>expr_alloc_and\<close> and \<open>expr_alloc_or\<close> take null pointers.\<close>

definition expr_alloc_gate :: "gate \<Rightarrow> expr option \<Rightarrow> expr option \<Rightarrow> expr option" where
  "expr_alloc_gate t e1 e2 = (case e1 of
     None \<Rightarrow> e2
   | Some e1' \<Rightarrow> (case e2 of Some e2' \<Rightarrow> Some (Two t e1' e2') | None \<Rightarrow> e1))"

section \<open>Values of expressions\<close>

text \<open>The sign of \<open>strcmp\<close>; characters are compared as unsigned bytes.\<close>

fun strcmp :: "string \<Rightarrow> string \<Rightarrow> int" where
  "strcmp [] [] = 0"
| "strcmp [] (d # ds) = -1"
| "strcmp (c # cs) [] = 1"
| "strcmp (c # cs) (d # ds) =
     (if c = d then strcmp cs ds else if (of_char c :: nat) < of_char d then -1 else 1)"

text \<open>
  The number at the start of a string, as \<open>strtoll\<close> and \<open>strtoull\<close> read it: white space, a
  sign, a prefix for base 16 (also for base 0, where 0 alone is the prefix of base 8), digits. The result is
  the sign, the magnitude and the rest of the string; \<open>None\<close> when there is no digit.
\<close>

definition digit_value :: "char \<Rightarrow> nat option" where
  "digit_value c =
     (let n = of_char c :: nat in
      if 48 \<le> n \<and> n \<le> 57 then Some (n - 48)
      else if 97 \<le> n \<and> n \<le> 122 then Some (n - 87)
      else if 65 \<le> n \<and> n \<le> 90 then Some (n - 55)
      else None)"

definition is_digit :: "nat \<Rightarrow> char \<Rightarrow> bool" where
  "is_digit base c \<longleftrightarrow> (case digit_value c of Some v \<Rightarrow> v < base | None \<Rightarrow> False)"

definition isspace :: "char \<Rightarrow> bool" where
  "isspace c \<longleftrightarrow> (of_char c :: nat) = 32 \<or> (9 \<le> (of_char c :: nat) \<and> (of_char c :: nat) \<le> 13)"

definition isxdigit :: "char \<Rightarrow> bool" where
  "isxdigit c = is_digit 16 c"

fun digits_value :: "nat \<Rightarrow> nat \<Rightarrow> string \<Rightarrow> nat" where
  "digits_value base acc [] = acc"
| "digits_value base acc (c # cs) =
     digits_value base (acc * base + (case digit_value c of Some v \<Rightarrow> v | None \<Rightarrow> 0)) cs"

fun strip_sign :: "string \<Rightarrow> bool \<times> string" where
  "strip_sign (c # cs) = (if c = CHR ''-'' then (True, cs) else if c = CHR ''+'' then (False, cs) else (False, c # cs))"
| "strip_sign [] = (False, [])"

fun strip_prefix :: "nat \<Rightarrow> string \<Rightarrow> nat \<times> string" where
  "strip_prefix base (z # x # c # cs) =
     (if (base = 0 \<or> base = 16) \<and> z = CHR ''0'' \<and> (x = CHR ''x'' \<or> x = CHR ''X'') \<and> is_digit 16 c then (16, c # cs)
      else if base = 0 then (if z = CHR ''0'' then 8 else 10, z # x # c # cs)
      else (base, z # x # c # cs))"
| "strip_prefix base cs = (if base = 0 then (if cs \<noteq> [] \<and> hd cs = CHR ''0'' then 8 else 10, cs) else (base, cs))"

definition strto :: "nat \<Rightarrow> string \<Rightarrow> (bool \<times> nat \<times> string) option" where
  "strto base str =
     (let (neg, s) = strip_sign (dropWhile isspace str);
          (b, s) = strip_prefix base s;
          ds = takeWhile (is_digit b) s
      in if ds = [] then None else Some (neg, digits_value b 0 ds, dropWhile (is_digit b) s))"

text \<open>
  \<open>strtoll\<close> and \<open>strtoull\<close>: the value, the rest, and whether \<open>errno\<close> is set; a number out of range gives the nearest bound,
  and \<open>strtoull\<close> negates in 64 bits. Without digits the value is 0 and the rest is the whole
  string.
\<close>

definition strtoll :: "string \<Rightarrow> nat \<Rightarrow> int \<times> string \<times> bool" where
  "strtoll str base = (case strto base str of
     None \<Rightarrow> (0, str, False)
   | Some (neg, n, rest) \<Rightarrow>
       let v = (if neg then - int n else int n) in
       if v < - (2 ^ 63) then (- (2 ^ 63), rest, True)
       else if v > 2 ^ 63 - 1 then (2 ^ 63 - 1, rest, True)
       else (v, rest, False))"

definition strtoull :: "string \<Rightarrow> nat \<Rightarrow> 64 word \<times> string \<times> bool" where
  "strtoull str base = (case strto base str of
     None \<Rightarrow> (0, str, False)
   | Some (neg, n, rest) \<Rightarrow>
       if n > 2 ^ 64 - 1 then (- 1, rest, True)
       else (if neg then - word_of_nat n else word_of_nat n, rest, False))"

datatype string_value_kind = k_string | k_signed | k_unsigned | k_invalid

text \<open>
  \<open>expr_parse_string\<close>; the union is its 64 bits. The test of \<open>tail[-1]\<close> looks at the
  character before the rest.
\<close>

definition whole_number :: "string \<Rightarrow> string \<Rightarrow> bool \<Rightarrow> string_value_kind \<Rightarrow> string_value_kind" where
  "whole_number str tail err kind =
     (if \<not> err \<and> tail = [] \<and> length tail < length str \<and> isxdigit (str ! (length str - length tail - 1))
      then kind else k_string)"

definition expr_parse_string :: "string \<Rightarrow> symbol_type \<Rightarrow> string_value_kind \<times> 64 word" where
  "expr_parse_string str type = (case type of
     S_BOOLEAN \<Rightarrow> (k_signed, if str = ''n'' then 0 else if str = ''m'' then 1 else if str = ''y'' then 2 else - 1)
   | S_TRISTATE \<Rightarrow> (k_signed, if str = ''n'' then 0 else if str = ''m'' then 1 else if str = ''y'' then 2 else - 1)
   | S_INT \<Rightarrow> (case strtoll str 10 of (v, tail, err) \<Rightarrow> (whole_number str tail err k_signed, word_of_int v))
   | S_HEX \<Rightarrow> (case strtoull str 16 of (v, tail, err) \<Rightarrow> (whole_number str tail err k_unsigned, v))
   | S_STRING \<Rightarrow> (case strtoll str 0 of (v, tail, err) \<Rightarrow> (whole_number str tail err k_signed, word_of_int v))
   | S_UNKNOWN \<Rightarrow> (case strtoll str 0 of (v, tail, err) \<Rightarrow> (whole_number str tail err k_signed, word_of_int v))
   | S_OTHER \<Rightarrow> (k_invalid, 0))"

text \<open>The sign of a difference, as the source computes it.\<close>

definition cmp_sign :: "'a::linorder \<Rightarrow> 'a \<Rightarrow> int" where
  "cmp_sign a b = of_bool (a > b) - of_bool (a < b)"

text \<open>
  \<open>res\<close> in \<open>expr_calc_value\<close>, from the types and the strings of the two symbols; \<open>None\<close> when they cannot be
  compared by order.
\<close>

definition compare_values :: "rel \<Rightarrow> symbol_type \<Rightarrow> string \<Rightarrow> symbol_type \<Rightarrow> string \<Rightarrow> int option" where
  "compare_values r t1 str1 t2 str2 =
     (let (k1, lval) = (if t1 \<noteq> S_STRING \<or> t2 \<noteq> S_STRING then expr_parse_string str1 t1 else (k_string, 0));
          (k2, rval) = (if t1 \<noteq> S_STRING \<or> t2 \<noteq> S_STRING then expr_parse_string str2 t2 else (k_string, 0))
      in if k1 = k_string \<or> k2 = k_string then Some (strcmp str1 str2)
         else if k1 = k_invalid \<or> k2 = k_invalid then
           (if r \<noteq> E_EQUAL \<and> r \<noteq> E_UNEQUAL then None else Some (strcmp str1 str2))
         else if k1 = k_unsigned \<or> k2 = k_unsigned then Some (cmp_sign lval rval)
         else Some (cmp_sign (sint lval) (sint rval)))"

definition compare_symbols :: "symtab \<Rightarrow> rel \<Rightarrow> symref \<Rightarrow> symref \<Rightarrow> int option" where
  "compare_symbols G r a b =
     compare_values r (stype (syms G a)) (sym_get_string_value G a) (stype (syms G b)) (sym_get_string_value G b)"

definition tri_of :: "bool \<Rightarrow> tristate" where
  "tri_of b = (if b then Tyes else Tno)"

definition relation :: "rel \<Rightarrow> int \<Rightarrow> bool" where
  "relation r res = (case r of
     E_EQUAL \<Rightarrow> res = 0 | E_GEQ \<Rightarrow> res \<ge> 0 | E_GTH \<Rightarrow> res > 0
   | E_LEQ \<Rightarrow> res \<le> 0 | E_LTH \<Rightarrow> res < 0 | E_UNEQUAL \<Rightarrow> res \<noteq> 0)"

fun expr_calc_value :: "symtab \<Rightarrow> expr \<Rightarrow> tristate" where
  "expr_calc_value G (Symb s) = scurr_tri (syms G s)"
| "expr_calc_value G (Two E_AND l r) = EXPR_AND (expr_calc_value G l) (expr_calc_value G r)"
| "expr_calc_value G (Two E_OR l r) = EXPR_OR (expr_calc_value G l) (expr_calc_value G r)"
| "expr_calc_value G (Not e) = EXPR_NOT (expr_calc_value G e)"
| "expr_calc_value G (Comp r a b) =
     (case compare_symbols G r a b of None \<Rightarrow> Tno | Some res \<Rightarrow> tri_of (relation r res))"

section \<open>Searching two lists\<close>

lemma find_append: "find P (xs @ ys) = (case find P xs of Some x \<Rightarrow> Some x | None \<Rightarrow> find P ys)"
  by (induction xs) auto

end
