(* ===== verification/Expr_Simplify.thy ===== *)
theory Expr_Simplify
  imports Expr
begin

text \<open>
  The functions of src/support/kconfig/expr.c that compare, simplify and rewrite
  expressions. A function that rewrites two expressions in place returns both. The counter
  \<open>trans_count\<close> is an argument and a result where the source reads it
  (\<open>expr_eliminate_dups\<close>); \<open>expr_eq\<close> restores it, and nothing else depends on it.
\<close>

section \<open>Constants\<close>

text \<open>The neutral operand of a gate: what eliminated operands are replaced with.\<close>

fun unit_symbol :: "gate \<Rightarrow> expr" where
  "unit_symbol E_OR = Symb symbol_no"
| "unit_symbol E_AND = Symb symbol_yes"

text \<open>The two cases of \<open>expr_eliminate_yn\<close>, on operands that are done.\<close>

fun join_yn :: "gate \<Rightarrow> expr \<Rightarrow> expr \<Rightarrow> expr" where
  "join_yn E_AND l r =
     (if l = Symb symbol_no then Symb symbol_no
      else if l = Symb symbol_yes then r
      else if r = Symb symbol_no then Symb symbol_no
      else if r = Symb symbol_yes then l
      else Two E_AND l r)"
| "join_yn E_OR l r =
     (if l = Symb symbol_no then r
      else if l = Symb symbol_yes then Symb symbol_yes
      else if r = Symb symbol_no then l
      else if r = Symb symbol_yes then Symb symbol_yes
      else Two E_OR l r)"

fun expr_eliminate_yn :: "expr \<Rightarrow> expr" where
  "expr_eliminate_yn (Two t l r) = join_yn t (expr_eliminate_yn l) (expr_eliminate_yn r)"
| "expr_eliminate_yn e = e"

section \<open>Common operands\<close>

text \<open>
  \<open>__expr_eliminate_eq\<close> for two operands, for an operand and a tree, and for two trees; \<open>eq\<close> is
  \<open>expr_eq\<close>.
\<close>

definition eliminate_pair :: "(expr \<Rightarrow> expr \<Rightarrow> bool) \<Rightarrow> gate \<Rightarrow> expr \<Rightarrow> expr \<Rightarrow> expr \<times> expr" where
  "eliminate_pair eq t e1 e2 =
     (if e1 = e2 \<and> (e1 = Symb symbol_yes \<or> e1 = Symb symbol_no) then (e1, e2)
      else if \<not> eq e1 e2 then (e1, e2)
      else (unit_symbol t, unit_symbol t))"

fun eliminate_leaf :: "(expr \<Rightarrow> expr \<Rightarrow> bool) \<Rightarrow> gate \<Rightarrow> expr \<Rightarrow> expr \<Rightarrow> expr \<times> expr" where
  "eliminate_leaf eq t e1 (Two u l r) =
     (if u = t then
        (let (e1, l) = eliminate_leaf eq t e1 l;
             (e1, r) = eliminate_leaf eq t e1 r
         in (e1, Two u l r))
      else eliminate_pair eq t e1 (Two u l r))"
| "eliminate_leaf eq t e1 e2 = eliminate_pair eq t e1 e2"

fun eliminate_eq_walk :: "(expr \<Rightarrow> expr \<Rightarrow> bool) \<Rightarrow> gate \<Rightarrow> expr \<Rightarrow> expr \<Rightarrow> expr \<times> expr" where
  "eliminate_eq_walk eq t (Two u l r) e2 =
     (if u = t then
        (let (l, e2) = eliminate_eq_walk eq t l e2;
             (r, e2) = eliminate_eq_walk eq t r e2
         in (Two u l r, e2))
      else eliminate_leaf eq t (Two u l r) e2)"
| "eliminate_eq_walk eq t e1 e2 = eliminate_leaf eq t e1 e2"

text \<open>\<open>expr_eliminate_eq\<close>: for the gate of the first, then for the gate of the second if it is another.\<close>

definition eliminate_eq :: "(expr \<Rightarrow> expr \<Rightarrow> bool) \<Rightarrow> expr \<Rightarrow> expr \<Rightarrow> expr \<times> expr" where
  "eliminate_eq eq e1 e2 =
     (let (e1, e2) = (case e1 of Two t _ _ \<Rightarrow> eliminate_eq_walk eq t e1 e2 | _ \<Rightarrow> (e1, e2));
          (e1, e2) = (case e2 of Two t _ _ \<Rightarrow> if is_gate t e1 then (e1, e2) else eliminate_eq_walk eq t e1 e2
                      | _ \<Rightarrow> (e1, e2))
      in (expr_eliminate_yn e1, expr_eliminate_yn e2))"

text \<open>
  \<open>expr_eq\<close> and \<open>expr_eliminate_eq\<close> call each other: the operands that are compared have less
  depth than the expression, so the recursion is on a number not below the depth.
\<close>

fun expr_eq_n :: "nat \<Rightarrow> expr \<Rightarrow> expr \<Rightarrow> bool" where
  "expr_eq_n 0 e1 e2 = False"
| "expr_eq_n (Suc n) e1 e2 = (case (e1, e2) of
     (Comp r a b, Comp r' a' b') \<Rightarrow> r = r' \<and> a = a' \<and> b = b'
   | (Symb a, Symb b) \<Rightarrow> a = b
   | (Not a, Not b) \<Rightarrow> expr_eq_n n a b
   | (Two t _ _, Two u _ _) \<Rightarrow>
       t = u \<and> (case eliminate_eq (expr_eq_n n) e1 e2 of (Symb a, Symb b) \<Rightarrow> a = b | _ \<Rightarrow> False)
   | _ \<Rightarrow> False)"

fun depth :: "expr \<Rightarrow> nat" where
  "depth (Two t l r) = Suc (max (depth l) (depth r))"
| "depth (Not e) = Suc (depth e)"
| "depth _ = 0"

definition expr_eq :: "expr \<Rightarrow> expr \<Rightarrow> bool" where
  "expr_eq e1 e2 = expr_eq_n (Suc (depth e1)) e1 e2"

definition expr_eliminate_eq :: "expr option \<Rightarrow> expr option \<Rightarrow> expr option \<times> expr option" where
  "expr_eliminate_eq ep1 ep2 = (case (ep1, ep2) of
     (Some e1, Some e2) \<Rightarrow> (case eliminate_eq expr_eq e1 e2 of (e1, e2) \<Rightarrow> (Some e1, Some e2))
   | _ \<Rightarrow> (ep1, ep2))"

section \<open>Joining two operands\<close>

text \<open>The symbol two joinable operands are about; \<open>None\<close> where the functions return NULL before they look further.\<close>

definition join_symbol :: "expr \<Rightarrow> expr \<Rightarrow> symref option" where
  "join_symbol e1 e2 =
     (let sym1 = (case e1 of
                    Comp E_EQUAL a b \<Rightarrow> Some a | Comp E_UNEQUAL a b \<Rightarrow> Some a | Symb a \<Rightarrow> Some a
                  | Not (Comp E_EQUAL a b) \<Rightarrow> Some a | Not (Comp E_UNEQUAL a b) \<Rightarrow> Some a | Not (Symb a) \<Rightarrow> Some a
                  | _ \<Rightarrow> None);
          sym2 = (case e2 of
                    Comp E_EQUAL a b \<Rightarrow> Some a | Comp E_UNEQUAL a b \<Rightarrow> Some a | Symb a \<Rightarrow> Some a
                  | Not (Symb a) \<Rightarrow> Some a
                  | _ \<Rightarrow> None)
      in if sym1 = sym2 then sym1 else None)"

text \<open>Two comparisons of the given relations with the two given symbols, in either order.\<close>

definition both_ways :: "rel \<Rightarrow> symref \<Rightarrow> symref \<Rightarrow> expr \<Rightarrow> expr \<Rightarrow> bool" where
  "both_ways r x y e1 e2 = (case (e1, e2) of
     (Comp r1 _ x1, Comp r2 _ x2) \<Rightarrow> r1 = r \<and> r2 = r \<and> ((x1 = x \<and> x2 = y) \<or> (x1 = y \<and> x2 = x))
   | _ \<Rightarrow> False)"

text \<open>A symbol and a comparison of the given relation with the given symbol, in either order.\<close>

definition symbol_and_comp :: "rel \<Rightarrow> symref \<Rightarrow> expr \<Rightarrow> expr \<Rightarrow> bool" where
  "symbol_and_comp r x e1 e2 = (case (e1, e2) of
     (Symb _, Comp r2 _ x2) \<Rightarrow> r2 = r \<and> x2 = x
   | (Comp r1 _ x1, Symb _) \<Rightarrow> r1 = r \<and> x1 = x
   | _ \<Rightarrow> False)"

definition symbol_and_not :: "expr \<Rightarrow> expr \<Rightarrow> bool" where
  "symbol_and_not e1 e2 = (case (e1, e2) of
     (Not (Symb _), Symb _) \<Rightarrow> True | (Symb _, Not (Symb _)) \<Rightarrow> True | _ \<Rightarrow> False)"

definition expr_join_or :: "symtab \<Rightarrow> expr \<Rightarrow> expr \<Rightarrow> expr option" where
  "expr_join_or G e1 e2 =
     (if expr_eq e1 e2 then Some e1
      else case join_symbol e1 e2 of
        None \<Rightarrow> None
      | Some s \<Rightarrow>
          (let ty = stype (syms G s) in
           if ty \<noteq> S_BOOLEAN \<and> ty \<noteq> S_TRISTATE then None
           else if ty = S_TRISTATE \<and> both_ways E_EQUAL symbol_yes symbol_mod e1 e2 then Some (Comp E_UNEQUAL s symbol_no)
           else if ty = S_TRISTATE \<and> both_ways E_EQUAL symbol_yes symbol_no e1 e2 then Some (Comp E_UNEQUAL s symbol_mod)
           else if ty = S_TRISTATE \<and> both_ways E_EQUAL symbol_mod symbol_no e1 e2 then Some (Comp E_UNEQUAL s symbol_yes)
           else if ty = S_BOOLEAN \<and> symbol_and_not e1 e2 then Some (Symb symbol_yes)
           else None))"

text \<open>\<open>(a='b') && (a!='c')\<close> for constants.\<close>

definition join_const :: "symtab \<Rightarrow> symref \<Rightarrow> symref \<Rightarrow> symref \<Rightarrow> expr option" where
  "join_const G s b c =
     (if sconst (syms G c) \<and> sconst (syms G b)
      then Some (if b \<noteq> c then Comp E_EQUAL s b else Symb symbol_no) else None)"

definition join_consts :: "symtab \<Rightarrow> symref \<Rightarrow> expr \<Rightarrow> expr \<Rightarrow> expr option" where
  "join_consts G s e1 e2 = (case (e1, e2) of
     (Comp E_EQUAL _ b, Comp E_UNEQUAL _ c) \<Rightarrow> join_const G s b c
   | (Comp E_UNEQUAL _ c, Comp E_EQUAL _ b) \<Rightarrow> join_const G s b c
   | _ \<Rightarrow> None)"

definition expr_join_and :: "symtab \<Rightarrow> expr \<Rightarrow> expr \<Rightarrow> expr option" where
  "expr_join_and G e1 e2 =
     (if expr_eq e1 e2 then Some e1
      else case join_symbol e1 e2 of
        None \<Rightarrow> None
      | Some s \<Rightarrow>
          (let ty = stype (syms G s) in
           if ty \<noteq> S_BOOLEAN \<and> ty \<noteq> S_TRISTATE then None
           else if symbol_and_comp E_EQUAL symbol_yes e1 e2 then Some (Comp E_EQUAL s symbol_yes)
           else if symbol_and_comp E_UNEQUAL symbol_no e1 e2 then Some (Symb s)
           else if symbol_and_comp E_UNEQUAL symbol_mod e1 e2 then Some (Comp E_EQUAL s symbol_yes)
           else if ty \<noteq> S_TRISTATE then None
           else if join_consts G s e1 e2 \<noteq> None then join_consts G s e1 e2
           else if both_ways E_UNEQUAL symbol_yes symbol_no e1 e2 then Some (Comp E_EQUAL s symbol_mod)
           else if both_ways E_UNEQUAL symbol_yes symbol_mod e1 e2 then Some (Comp E_EQUAL s symbol_no)
           else if both_ways E_UNEQUAL symbol_mod symbol_no e1 e2 then Some (Comp E_EQUAL s symbol_yes)
           else None))"

fun expr_join :: "symtab \<Rightarrow> gate \<Rightarrow> expr \<Rightarrow> expr \<Rightarrow> expr option" where
  "expr_join G E_OR e1 e2 = expr_join_or G e1 e2"
| "expr_join G E_AND e1 e2 = expr_join_and G e1 e2"

section \<open>Duplicate operands\<close>

text \<open>
  \<open>expr_eliminate_dups1(type, &e, &e)\<close> walks the same tree twice at once. The operands of the level \<open>type\<close> keep
  their places (what replaces one is never a node of that gate), so the two walks are two
  nested loops over the list of operands; pointers are equal when the places are.
\<close>

fun operands :: "gate \<Rightarrow> expr \<Rightarrow> expr list" where
  "operands t (Two u l r) = (if u = t then operands t l @ operands t r else [Two u l r])"
| "operands t e = [e]"

text \<open>The tree with the operands of a list in place of its own; and the operands left over.\<close>

fun refill :: "gate \<Rightarrow> expr \<Rightarrow> expr list \<Rightarrow> expr \<times> expr list" where
  "refill t (Two u l r) xs =
     (if u = t then
        (let (l, xs) = refill t l xs; (r, xs) = refill t r xs in (Two u l r, xs))
      else (hd xs, tl xs))"
| "refill t e xs = (hd xs, tl xs)"

text \<open>One pair of operands. \<open>nested\<close> is the call for the operand's own gate.\<close>

definition dups_pair :: "symtab \<Rightarrow> (gate \<Rightarrow> expr \<Rightarrow> nat \<Rightarrow> expr \<times> nat) \<Rightarrow> gate \<Rightarrow> nat \<Rightarrow> nat \<Rightarrow> expr list \<times> nat \<Rightarrow> expr list \<times> nat" where
  "dups_pair G nested t i j xc = (case xc of (xs, c) \<Rightarrow>
     if i = j then (xs, c)
     else
       let (x, c) = (case xs ! i of Two u _ _ \<Rightarrow> nested u (xs ! i) c | _ \<Rightarrow> (xs ! i, c));
           xs = xs[i := x]
       in case expr_join G t (xs ! i) (xs ! j) of
            Some tmp \<Rightarrow> (xs[i := unit_symbol t, j := tmp], c + 1)
          | None \<Rightarrow> (xs, c))"

text \<open>The two loops, and the recursion into operands, which are smaller than the level.\<close>

definition dups_loop :: "symtab \<Rightarrow> (gate \<Rightarrow> expr \<Rightarrow> nat \<Rightarrow> expr \<times> nat) \<Rightarrow> gate \<Rightarrow> expr list \<times> nat \<Rightarrow> expr list \<times> nat" where
  "dups_loop G nested t xc =
     (let n = length (fst xc) in
      fold (\<lambda>i. fold (dups_pair G nested t i) [0..<n]) [0..<n] xc)"

fun dups_level :: "symtab \<Rightarrow> nat \<Rightarrow> gate \<Rightarrow> expr \<Rightarrow> nat \<Rightarrow> expr \<times> nat" where
  "dups_level G 0 t e c = (e, c)"
| "dups_level G (Suc n) t e c =
     (case dups_loop G (dups_level G n) t (operands t e, c) of (xs, c) \<Rightarrow> (fst (refill t e xs), c))"

definition expr_eliminate_dups1 :: "symtab \<Rightarrow> gate \<Rightarrow> expr \<Rightarrow> nat \<Rightarrow> expr \<times> nat" where
  "expr_eliminate_dups1 G t e c = dups_level G (size e) t e c"

section \<open>Rewriting\<close>

text \<open>\<open>expr_trans_bool\<close>: \<open>FOO!=n\<close> to \<open>FOO\<close> for a tristate symbol.\<close>

fun expr_trans_bool :: "symtab \<Rightarrow> expr \<Rightarrow> expr" where
  "expr_trans_bool G (Two t l r) = Two t (expr_trans_bool G l) (expr_trans_bool G r)"
| "expr_trans_bool G (Not e) = Not (expr_trans_bool G e)"
| "expr_trans_bool G (Comp r a b) =
     (if r = E_UNEQUAL \<and> stype (syms G a) = S_TRISTATE \<and> b = symbol_no then Symb a else Comp r a b)"
| "expr_trans_bool G (Symb a) = Symb a"

text \<open>\<open>expr_transform\<close> on a comparison.\<close>

definition transform_comp :: "symtab \<Rightarrow> rel \<Rightarrow> symref \<Rightarrow> symref \<Rightarrow> expr" where
  "transform_comp G r a b =
     (if stype (syms G a) \<noteq> S_BOOLEAN then Comp r a b
      else if r = E_EQUAL then
        (if b = symbol_no then Not (Symb a)
         else if b = symbol_mod then Symb symbol_no
         else if b = symbol_yes then Symb a
         else Comp r a b)
      else if r = E_UNEQUAL then
        (if b = symbol_no then Symb a
         else if b = symbol_mod then Symb symbol_yes
         else if b = symbol_yes then Not (Symb a)
         else Comp r a b)
      else Comp r a b)"

fun negated :: "rel \<Rightarrow> rel" where
  "negated E_EQUAL = E_UNEQUAL" | "negated E_UNEQUAL = E_EQUAL"
| "negated E_LEQ = E_GTH" | "negated E_GEQ = E_LTH"
| "negated E_LTH = E_GEQ" | "negated E_GTH = E_LEQ"

fun other_gate :: "gate \<Rightarrow> gate" where
  "other_gate E_OR = E_AND" | "other_gate E_AND = E_OR"

function expr_transform :: "symtab \<Rightarrow> expr \<Rightarrow> expr" where
  "expr_transform G (Comp r a b) = transform_comp G r a b"
| "expr_transform G (Symb a) = Symb a"
| "expr_transform G (Two t l r) = Two t (expr_transform G l) (expr_transform G r)"
| "expr_transform G (Not e) = (case expr_transform G e of
     Not a \<Rightarrow> expr_transform G a
   | Comp r a b \<Rightarrow> Comp (negated r) a b
   | Two t l r \<Rightarrow> expr_transform G (Two (other_gate t) (Not l) (Not r))
   | Symb a \<Rightarrow>
       if a = symbol_yes then Symb symbol_no
       else if a = symbol_mod then Symb symbol_mod
       else if a = symbol_no then Symb symbol_yes
       else Not (Symb a))"
  by pat_completeness auto

text \<open>
  A weight that no rewriting increases and that every recursive call makes smaller: a
  negation doubles, so that moving it inwards loses the one of the gate.
\<close>

fun weight :: "expr \<Rightarrow> nat" where
  "weight (Two t l r) = weight l + weight r + 1"
| "weight (Not e) = 2 * weight e"
| "weight (Comp r a b) = 2"
| "weight (Symb a) = 1"

lemma weight_pos [simp]: "0 < weight e"
  by (induction e) simp_all

lemma weight_transform_comp: "weight (transform_comp G r a b) \<le> 2"
  by (simp add: transform_comp_def)

lemma weight_transform: "expr_transform_dom (G, e) \<Longrightarrow> weight (expr_transform G e) \<le> weight e"
proof (induction G e rule: expr_transform.pinduct)
  case (1 G r a b)
  then show ?case by (simp add: expr_transform.psimps weight_transform_comp)
next
  case (4 G e)
  show ?case
  proof (cases "expr_transform G e")
    case (Two t l r)
    with 4 show ?thesis by (simp add: expr_transform.psimps)
  qed (use 4 in \<open>simp_all add: expr_transform.psimps\<close>)
qed (simp_all add: expr_transform.psimps)

termination expr_transform
proof (relation "measure (\<lambda>(G, e). weight e)")
  fix G e t l r
  assume "expr_transform_dom (G, e)" "expr_transform G e = Two t l r"
  with weight_transform [of G e]
  show "((G, Two (other_gate t) (Not l) (Not r)), G, Not e) \<in> measure (\<lambda>(G, e). weight e)" by simp
next
  fix G e a
  assume "expr_transform_dom (G, e)" "expr_transform G e = Not a"
  with weight_transform [of G e] weight_pos [of e]
  show "((G, a), G, Not e) \<in> measure (\<lambda>(G, e). weight e)" by (simp del: weight_pos)
qed simp_all

section \<open>Occurrences and comparisons\<close>

fun expr_contains_symbol :: "expr \<Rightarrow> symref \<Rightarrow> bool" where
  "expr_contains_symbol (Two t l r) s \<longleftrightarrow> expr_contains_symbol l s \<or> expr_contains_symbol r s"
| "expr_contains_symbol (Symb a) s \<longleftrightarrow> a = s"
| "expr_contains_symbol (Comp r a b) s \<longleftrightarrow> a = s \<or> b = s"
| "expr_contains_symbol (Not e) s \<longleftrightarrow> expr_contains_symbol e s"

fun expr_depends_symbol :: "expr \<Rightarrow> symref \<Rightarrow> bool" where
  "expr_depends_symbol (Two E_AND l r) s \<longleftrightarrow> expr_depends_symbol l s \<or> expr_depends_symbol r s"
| "expr_depends_symbol (Symb a) s \<longleftrightarrow> a = s"
| "expr_depends_symbol (Comp E_EQUAL a b) s \<longleftrightarrow> a = s \<and> (b = symbol_yes \<or> b = symbol_mod)"
| "expr_depends_symbol (Comp E_UNEQUAL a b) s \<longleftrightarrow> a = s \<and> b = symbol_no"
| "expr_depends_symbol _ s \<longleftrightarrow> False"

text \<open>
  \<open>expr_trans_compare\<close>; \<open>uneq\<close> says that its type is E_UNEQUAL (else E_EQUAL). With \<open>symbol_mod\<close> a gate stays as it
  is. \<open>None\<close> is the null pointer it returns for any other symbol.
\<close>

definition not_if :: "bool \<Rightarrow> expr \<Rightarrow> expr" where
  "not_if b e = (if b then Not e else e)"

fun expr_trans_compare :: "expr \<Rightarrow> bool \<Rightarrow> symref \<Rightarrow> expr option" where
  "expr_trans_compare (Two t l r) uneq s = do {
     e1 \<leftarrow> expr_trans_compare l False s;
     e2 \<leftarrow> expr_trans_compare r False s;
     Some (not_if uneq
       (if s = symbol_yes then Two t e1 e2
        else if s = symbol_no then Two (other_gate t) e1 e2
        else Two t l r)) }"
| "expr_trans_compare (Not e) uneq s = expr_trans_compare e (\<not> uneq) s"
| "expr_trans_compare (Comp r a b) uneq s =
     (if s = symbol_yes then Some (not_if uneq (Comp r a b))
      else if s = symbol_mod then Some (Symb (if uneq then symbol_yes else symbol_no))
      else if s = symbol_no then Some (not_if (\<not> uneq) (Comp r a b))
      else None)"
| "expr_trans_compare (Symb a) uneq s = Some (Comp (if uneq then E_UNEQUAL else E_EQUAL) a s)"

end
