(* ===== verification/Expr_Laws.thy ===== *)
theory Expr_Laws
  imports Expr_Simplify
begin

text \<open>
  What the simplifications of expr.c do to the value of an expression: \<open>expr_eliminate_yn\<close> and
  \<open>expr_eliminate_dups\<close> keep it, \<open>expr_eq\<close> holds of expressions of one value only, and
  \<open>expr_eliminate_eq\<close> takes a common part out of two expressions. The loop of \<open>expr_eliminate_dups\<close>
  ends because every pass that joins operands lets the next \<open>expr_eliminate_yn\<close> make the
  expression smaller.
\<close>

section \<open>Gates\<close>

definition gate_val :: "gate \<Rightarrow> tristate \<Rightarrow> tristate \<Rightarrow> tristate" where
  "gate_val t a b = (case t of E_OR \<Rightarrow> EXPR_OR a b | E_AND \<Rightarrow> EXPR_AND a b)"

lemma calc_Two [simp]: "expr_calc_value G (Two t l r) = gate_val t (expr_calc_value G l) (expr_calc_value G r)"
  by (cases t) (simp_all add: gate_val_def)

declare expr_calc_value.simps(2,3) [simp del]

lemma gate_val_assoc: "gate_val t (gate_val t a b) c = gate_val t a (gate_val t b c)"
  by (cases t; cases a; cases b; cases c) (simp_all add: gate_val_def EXPR_OR_def EXPR_AND_def less_tristate_def)

lemma gate_val_comm: "gate_val t a b = gate_val t b a"
  by (cases t; cases a; cases b) (simp_all add: gate_val_def EXPR_OR_def EXPR_AND_def less_tristate_def)

lemma gate_val_idem [simp]: "gate_val t a a = a"
  by (cases t) (simp_all add: gate_val_def EXPR_OR_def EXPR_AND_def)

definition unit_val :: "gate \<Rightarrow> tristate" where
  "unit_val t = (case t of E_OR \<Rightarrow> Tno | E_AND \<Rightarrow> Tyes)"

lemma gate_val_unit [simp]: "gate_val t (unit_val t) a = a" "gate_val t a (unit_val t) = a"
  by (cases t; cases a; simp add: gate_val_def unit_val_def EXPR_OR_def EXPR_AND_def less_tristate_def)+

lemma gate_val_simps [simp]:
  "gate_val E_AND Tno a = Tno" "gate_val E_AND a Tno = Tno" "gate_val E_AND Tyes a = a" "gate_val E_AND a Tyes = a"
  "gate_val E_OR Tyes a = Tyes" "gate_val E_OR a Tyes = Tyes" "gate_val E_OR Tno a = a" "gate_val E_OR a Tno = a"
  by (cases a; simp add: gate_val_def EXPR_OR_def EXPR_AND_def less_tristate_def)+

lemma EXPR_NOT_gate: "EXPR_NOT (gate_val t a b) = gate_val (other_gate t) (EXPR_NOT a) (EXPR_NOT b)"
  by (cases t; cases a; cases b) (simp_all add: gate_val_def EXPR_OR_def EXPR_AND_def less_tristate_def)

lemma EXPR_NOT_NOT [simp]: "EXPR_NOT (EXPR_NOT a) = a"
  by (cases a) simp_all

text \<open>The order of a gate: at the operands of a level it is a conjunction.\<close>

definition below :: "gate \<Rightarrow> tristate \<Rightarrow> tristate \<Rightarrow> bool" where
  "below t k a \<longleftrightarrow> (case t of E_OR \<Rightarrow> a \<le> k | E_AND \<Rightarrow> k \<le> a)"

lemma below_gate [simp]: "below t k (gate_val t a b) \<longleftrightarrow> below t k a \<and> below t k b"
  by (cases t) (auto simp: below_def gate_val_def EXPR_OR_def EXPR_AND_def)

lemma below_unit [simp]: "below t k (unit_val t)"
  by (cases t; cases k) (simp_all add: below_def unit_val_def less_eq_tristate_def)

lemma below_eq: "(\<And>k. below t k a \<longleftrightarrow> below t k b) \<Longrightarrow> a = b"
  by (cases t) (auto simp: below_def intro: antisym)

section \<open>The static symbols\<close>

definition statics :: "symtab \<Rightarrow> bool" where
  "statics G \<longleftrightarrow> (\<forall>(s, sym) \<in> set static_symbols. syms G s = sym)"

lemma statics_simps:
  assumes "statics G"
  shows "scurr_tri (syms G symbol_yes) = Tyes" "scurr_tri (syms G symbol_no) = Tno" "scurr_tri (syms G symbol_mod) = Tmod"
    "stype (syms G symbol_yes) = S_UNKNOWN" "stype (syms G symbol_no) = S_UNKNOWN" "stype (syms G symbol_mod) = S_UNKNOWN"
    "scurr_val (syms G symbol_yes) = ''y''" "scurr_val (syms G symbol_no) = ''n''" "scurr_val (syms G symbol_mod) = ''m''"
    "sconst (syms G symbol_yes)" "sconst (syms G symbol_no)" "sconst (syms G symbol_mod)"
  using assms by (simp_all add: statics_def static_symbols_def static_symbol_def)

lemma calc_unit: "statics G \<Longrightarrow> expr_calc_value G (unit_symbol t) = unit_val t"
  by (cases t) (simp_all add: statics_simps unit_val_def)

lemma calc_join_yn: "statics G \<Longrightarrow> expr_calc_value G (join_yn t l r) = gate_val t (expr_calc_value G l) (expr_calc_value G r)"
  by (cases t) (simp_all add: statics_simps)

lemma calc_yn: "statics G \<Longrightarrow> expr_calc_value G (expr_eliminate_yn e) = expr_calc_value G e"
  by (induction e) (simp_all add: calc_join_yn)

section \<open>Constants are eliminated completely\<close>

text \<open>No gate has a constant as operand.\<close>

fun normal :: "expr \<Rightarrow> bool" where
  "normal (Two t l r) \<longleftrightarrow> l \<notin> {Symb symbol_yes, Symb symbol_no} \<and> r \<notin> {Symb symbol_yes, Symb symbol_no} \<and> normal l \<and> normal r"
| "normal _ \<longleftrightarrow> True"

lemma normal_join_yn: "normal l \<Longrightarrow> normal r \<Longrightarrow> normal (join_yn t l r)"
  by (cases t) simp_all

lemma normal_yn: "normal (expr_eliminate_yn e)"
  by (induction e) (simp_all add: normal_join_yn)

lemma yn_normal: "normal e \<Longrightarrow> expr_eliminate_yn e = e"
proof (induction e)
  case (Two t l r)
  then show ?case by (cases t) auto
qed simp_all

lemma size_join_yn: "size (join_yn t l r) \<le> size l + size r + 1"
  by (cases t) simp_all

lemma size_join_yn_const:
  "l \<in> {Symb symbol_yes, Symb symbol_no} \<or> r \<in> {Symb symbol_yes, Symb symbol_no} \<Longrightarrow> size (join_yn t l r) \<le> size l + size r"
  by (cases t) auto

lemma size_yn: "size (expr_eliminate_yn e) \<le> size e"
proof (induction e)
  case (Two t l r)
  then show ?case using size_join_yn [of t "expr_eliminate_yn l" "expr_eliminate_yn r"] by simp
qed simp_all

lemma size_yn_less: "\<not> normal e \<Longrightarrow> size (expr_eliminate_yn e) < size e"
proof (induction e)
  case (Two t l r)
  note j = size_join_yn [of t "expr_eliminate_yn l" "expr_eliminate_yn r"]
  consider "\<not> normal l" | "\<not> normal r" | "l \<in> {Symb symbol_yes, Symb symbol_no} \<or> r \<in> {Symb symbol_yes, Symb symbol_no}"
    using Two.prems by auto
  then show ?case
  proof cases
    case 3
    then have "expr_eliminate_yn l \<in> {Symb symbol_yes, Symb symbol_no} \<or> expr_eliminate_yn r \<in> {Symb symbol_yes, Symb symbol_no}"
      by auto
    from size_join_yn_const [OF this, of t] show ?thesis using size_yn [of l] size_yn [of r] by simp
  qed (use Two.IH j size_yn [of l] size_yn [of r] in simp_all)
qed simp_all

section \<open>Common operands\<close>

text \<open>A common part \<open>v\<close> has been taken out of both expressions.\<close>

definition taken :: "symtab \<Rightarrow> gate \<Rightarrow> expr \<Rightarrow> expr \<Rightarrow> expr \<times> expr \<Rightarrow> bool" where
  "taken G t e1 e2 r \<longleftrightarrow> (\<exists>v. expr_calc_value G e1 = gate_val t v (expr_calc_value G (fst r))
     \<and> expr_calc_value G e2 = gate_val t v (expr_calc_value G (snd r)))"

lemma taken_refl: "taken G t e1 e2 (e1, e2)"
  by (auto simp: taken_def intro: exI [of _ "unit_val t"])

lemma taken_trans: "taken G t e1 e2 (f1, f2) \<Longrightarrow> taken G t f1 f2 r \<Longrightarrow> taken G t e1 e2 r"
  unfolding taken_def fst_conv snd_conv by (elim exE conjE) (metis gate_val_assoc)

lemma taken_sym: "taken G t e1 e2 (f1, f2) \<Longrightarrow> taken G t e2 e1 (f2, f1)"
  by (auto simp: taken_def)

lemma taken_left: "taken G t l e2 (l', f2) \<Longrightarrow> taken G t (Two t l r) e2 (Two t l' r, f2)"
  by (auto simp: taken_def gate_val_assoc)

lemma taken_right: "taken G t r e2 (r', f2) \<Longrightarrow> taken G t (Two t l r) e2 (Two t l r', f2)"
  unfolding taken_def fst_conv snd_conv calc_Two by (elim exE conjE) (metis gate_val_assoc gate_val_comm)

definition sound_eq :: "symtab \<Rightarrow> (expr \<Rightarrow> expr \<Rightarrow> bool) \<Rightarrow> bool" where
  "sound_eq G eq \<longleftrightarrow> (\<forall>x y. eq x y \<longrightarrow> expr_calc_value G x = expr_calc_value G y)"

lemma taken_pair:
  assumes "statics G" "sound_eq G eq"
  shows "taken G t e1 e2 (eliminate_pair eq t e1 e2)"
proof (cases "(e1 = e2 \<and> (e1 = Symb symbol_yes \<or> e1 = Symb symbol_no)) \<or> \<not> eq e1 e2")
  case False
  then have "eliminate_pair eq t e1 e2 = (unit_symbol t, unit_symbol t)" "expr_calc_value G e1 = expr_calc_value G e2"
    using assms(2) by (auto simp: eliminate_pair_def sound_eq_def)
  then show ?thesis by (auto simp: taken_def calc_unit [OF assms(1)])
qed (auto simp: eliminate_pair_def taken_refl)

lemma taken_leaf:
  assumes "statics G" "sound_eq G eq"
  shows "taken G t e1 e2 (eliminate_leaf eq t e1 e2)"
proof (induction e2 arbitrary: e1)
  case (Two u l r)
  show ?case
  proof (cases "u = t")
    case True
    obtain f1 l' where l: "eliminate_leaf eq t e1 l = (f1, l')" by fastforce
    obtain f2 r' where r: "eliminate_leaf eq t f1 r = (f2, r')" by fastforce
    have "taken G t e1 l (f1, l')" "taken G t f1 r (f2, r')" using Two l r by (metis, metis)
    then have "taken G t e1 (Two t l r) (f1, Two t l' r)" "taken G t f1 (Two t l' r) (f2, Two t l' r')"
      using taken_left taken_right taken_sym by blast+
    from taken_trans [OF this] show ?thesis using True l r by simp
  qed (simp add: taken_pair [OF assms])
qed (simp_all add: taken_pair [OF assms])

lemma taken_walk:
  assumes "statics G" "sound_eq G eq"
  shows "taken G t e1 e2 (eliminate_eq_walk eq t e1 e2)"
proof (induction e1 arbitrary: e2)
  case (Two u l r)
  show ?case
  proof (cases "u = t")
    case True
    obtain l' f1 where l: "eliminate_eq_walk eq t l e2 = (l', f1)" by fastforce
    obtain r' f2 where r: "eliminate_eq_walk eq t r f1 = (r', f2)" by fastforce
    have "taken G t l e2 (l', f1)" "taken G t r f1 (r', f2)" using Two l r by (metis, metis)
    then have "taken G t (Two t l r) e2 (Two t l' r, f1)" "taken G t (Two t l' r) f1 (Two t l' r', f2)"
      using taken_left taken_right by blast+
    from taken_trans [OF this] show ?thesis using True l r by simp
  qed (simp add: taken_leaf [OF assms])
qed (simp_all add: taken_leaf [OF assms])

text \<open>Both expressions are one function, made of at most two gates, of what is left of them.\<close>

definition rebuilt :: "symtab \<Rightarrow> expr \<Rightarrow> expr \<Rightarrow> expr \<times> expr \<Rightarrow> bool" where
  "rebuilt G e1 e2 r \<longleftrightarrow> (\<exists>t v u w.
     expr_calc_value G e1 = gate_val t v (gate_val u w (expr_calc_value G (fst r)))
     \<and> expr_calc_value G e2 = gate_val t v (gate_val u w (expr_calc_value G (snd r))))"

lemma rebuilt_taken: "taken G t e1 e2 (f1, f2) \<Longrightarrow> taken G u f1 f2 r \<Longrightarrow> rebuilt G e1 e2 r"
  unfolding taken_def rebuilt_def fst_conv snd_conv by (elim exE conjE) (simp only:, blast)

lemma eliminate_eq_rebuilt:
  assumes "statics G" "sound_eq G eq"
  shows "rebuilt G e1 e2 (eliminate_eq eq e1 e2)"
proof -
  obtain f1 f2 where f: "(case e1 of Two t _ _ \<Rightarrow> eliminate_eq_walk eq t e1 e2 | _ \<Rightarrow> (e1, e2)) = (f1, f2)" by fastforce
  have "\<exists>t. taken G t e1 e2 (f1, f2)"
  proof (cases e1)
    case (Two t l r)
    with f taken_walk [OF assms, of t e1 e2] show ?thesis by auto
  qed (use f taken_refl [of G E_OR e1 e2] in auto)
  then obtain t where t: "taken G t e1 e2 (f1, f2)" by blast
  obtain g1 g2 where g: "(case f2 of Two t _ _ \<Rightarrow> if is_gate t f1 then (f1, f2) else eliminate_eq_walk eq t f1 f2
                      | _ \<Rightarrow> (f1, f2)) = (g1, g2)" by fastforce
  have "\<exists>u. taken G u f1 f2 (g1, g2)"
  proof (cases f2)
    case (Two u l r)
    with g taken_walk [OF assms, of u f1 f2] taken_refl [of G u f1 f2] show ?thesis
      by (cases "is_gate u f1") auto
  qed (use g taken_refl [of G E_OR f1 f2] in auto)
  then obtain u where "taken G u f1 f2 (g1, g2)" by blast
  from rebuilt_taken [OF t this] show ?thesis
    using f g by (simp add: eliminate_eq_def rebuilt_def calc_yn [OF assms(1)] split: prod.split)
qed

lemma sound_eq_n: "statics G \<Longrightarrow> sound_eq G (expr_eq_n n)"
proof (induction n)
  case (Suc n)
  have "expr_calc_value G x = expr_calc_value G y" if e: "expr_eq_n (Suc n) x y" for x y
  proof (cases "\<exists>t l r u m s. x = Two t l r \<and> y = Two u m s")
    case True
    with e obtain a where "eliminate_eq (expr_eq_n n) x y = (Symb a, Symb a)"
      by (auto split: prod.splits expr.splits)
    with eliminate_eq_rebuilt [OF Suc.prems Suc.IH [OF Suc.prems], of x y] show ?thesis by (auto simp: rebuilt_def)
  next
    case False
    with e Suc show ?thesis by (auto simp: sound_eq_def split: expr.splits)
  qed
  then show ?case by (simp add: sound_eq_def)
qed (simp add: sound_eq_def)

lemma expr_eq_sound: "statics G \<Longrightarrow> expr_eq x y \<Longrightarrow> expr_calc_value G x = expr_calc_value G y"
  using sound_eq_n [of G "Suc (depth x)"] unfolding expr_eq_def sound_eq_def by blast

section \<open>The bound on the recursion does not matter\<close>

lemma depth_unit [simp]: "depth (unit_symbol t) = 0"
  by (cases t) simp_all

lemma depth_operands: "x \<in> set (operands t (Two t l r)) \<Longrightarrow> depth x < depth (Two t l r)"
proof -
  have "x \<in> set (operands t e) \<Longrightarrow> depth x \<le> depth e" for e
    by (induction e) (auto split: if_splits)
  from this [of l] this [of r] show "x \<in> set (operands t (Two t l r)) \<Longrightarrow> depth x < depth (Two t l r)" by auto
qed

definition agree :: "nat \<Rightarrow> (expr \<Rightarrow> expr \<Rightarrow> bool) \<Rightarrow> (expr \<Rightarrow> expr \<Rightarrow> bool) \<Rightarrow> bool" where
  "agree d eq eq' \<longleftrightarrow> (\<forall>x y. depth x < d \<longrightarrow> eq x y = eq' x y)"

lemma leaf_cong:
  assumes "agree d eq eq'"
  shows "depth e1 < d \<Longrightarrow> eliminate_leaf eq t e1 e2 = eliminate_leaf eq' t e1 e2 \<and> depth (fst (eliminate_leaf eq t e1 e2)) < d"
proof (induction e2 arbitrary: e1)
  case (Two u l r)
  show ?case
  proof (cases "u = t")
    case True
    obtain f l' where l: "eliminate_leaf eq t e1 l = (f, l')" by fastforce
    with Two.IH(1) [OF Two.prems] have l2: "eliminate_leaf eq' t e1 l = (f, l')" "depth f < d" by auto
    obtain g r' where r: "eliminate_leaf eq t f r = (g, r')" by fastforce
    with Two.IH(2) [OF l2(2)] have "eliminate_leaf eq' t f r = (g, r')" "depth g < d" by auto
    with True l l2 r show ?thesis by simp
  qed (use assms Two.prems in \<open>auto simp: eliminate_pair_def agree_def\<close>)
qed (use assms in \<open>auto simp: eliminate_pair_def agree_def\<close>)

lemma walk_cong:
  assumes "agree d eq eq'"
  shows "\<forall>x \<in> set (operands t e1). depth x < d \<Longrightarrow> eliminate_eq_walk eq t e1 e2 = eliminate_eq_walk eq' t e1 e2"
proof (induction e1 arbitrary: e2)
  case (Two u l r)
  then show ?case using leaf_cong [OF assms, of "Two u l r" t e2] by (cases "u = t") (auto split: prod.split)
qed (use leaf_cong [OF assms] in auto)

lemma walk_gates:
  "is_gate t e1 \<Longrightarrow> is_gate t (fst (eliminate_eq_walk eq t e1 e2))"
  "is_gate t e2 \<Longrightarrow> is_gate t (snd (eliminate_leaf eq t e1 e2))"
  by (cases e1; auto split: prod.split) (cases e2; auto split: prod.split)

lemma walk_gate2: "is_gate t e2 \<Longrightarrow> is_gate t (snd (eliminate_eq_walk eq t e1 e2))"
proof (induction e1 arbitrary: e2)
  case (Two u l r)
  then show ?case using walk_gates(2) [of t e2 eq "Two u l r"] by (cases "u = t") (auto split: prod.split, metis snd_conv)
qed (use walk_gates(2) in auto)

lemma eliminate_eq_same:
  "eliminate_eq eq (Two t l r) (Two t m s) =
     (case eliminate_eq_walk eq t (Two t l r) (Two t m s) of (e1, e2) \<Rightarrow> (expr_eliminate_yn e1, expr_eliminate_yn e2))"
proof -
  obtain e1 e2 where w: "eliminate_eq_walk eq t (Two t l r) (Two t m s) = (e1, e2)" by fastforce
  with walk_gates(1) [of t "Two t l r" eq "Two t m s"] walk_gate2 [of t "Two t m s" eq "Two t l r"]
  have "is_gate t e1" "is_gate t e2" by simp_all
  moreover have "eliminate_eq eq (Two t l r) (Two t m s) =
    (case (case e2 of Two t _ _ \<Rightarrow> if is_gate t e1 then (e1, e2) else eliminate_eq_walk eq t e1 e2 | _ \<Rightarrow> (e1, e2))
     of (e1, e2) \<Rightarrow> (expr_eliminate_yn e1, expr_eliminate_yn e2))"
    by (simp only: eliminate_eq_def expr.case w Let_def prod.case)
  ultimately show ?thesis unfolding w by (cases e2) simp_all
qed

lemma expr_eq_n_enough: "depth x < n \<Longrightarrow> depth x < m \<Longrightarrow> expr_eq_n n x y = expr_eq_n m x y"
proof (induction "depth x" arbitrary: x y n m rule: less_induct)
  case less
  obtain n' m' where nm: "n = Suc n'" "m = Suc m'" using less.prems by (cases n; cases m) auto
  show ?case
  proof (cases x)
    case (Two t l r)
    have "expr_eq_n n' z w = expr_eq_n m' z w" if "depth z < depth x" for z w
      by (rule less.hyps [OF that]) (use that less.prems nm in linarith)+
    then have "agree (depth x) (expr_eq_n n') (expr_eq_n m')" unfolding agree_def by blast
    then have "eliminate_eq_walk (expr_eq_n n') t x e2 = eliminate_eq_walk (expr_eq_n m') t x e2" for e2
      by (rule walk_cong) (use depth_operands [of _ t l r] Two in simp)
    then have "eliminate_eq (expr_eq_n n') x (Two t k s) = eliminate_eq (expr_eq_n m') x (Two t k s)" for k s
      by (simp add: Two eliminate_eq_same)
    with Two nm show ?thesis by (cases y) auto
  next
    case (Not a)
    with less.hyps [of a n' m'] less.prems nm show ?thesis by (cases y) auto
  qed (simp_all add: nm)
qed

text \<open>The equations of \<open>expr_eq\<close> as the source has them.\<close>

lemma expr_eq_simps:
  "expr_eq (Comp q a b) (Comp q' a' b') \<longleftrightarrow> q = q' \<and> a = a' \<and> b = b'"
  "expr_eq (Symb a) (Symb b) \<longleftrightarrow> a = b"
  "expr_eq (Not x) (Not y) \<longleftrightarrow> expr_eq x y"
  "expr_eq (Two t l r) (Two u m s) \<longleftrightarrow>
     t = u \<and> (case eliminate_eq expr_eq (Two t l r) (Two u m s) of (Symb a, Symb b) \<Rightarrow> a = b | _ \<Rightarrow> False)"
proof -
  let ?x = "Two t l r"
  have "agree (depth ?x) (expr_eq_n (depth ?x)) expr_eq"
    unfolding agree_def expr_eq_def by (intro allI impI expr_eq_n_enough) simp_all
  then have "eliminate_eq_walk (expr_eq_n (depth ?x)) t ?x e2 = eliminate_eq_walk expr_eq t ?x e2" for e2
    by (rule walk_cong) (use depth_operands [of _ t l r] in simp)
  then have "eliminate_eq (expr_eq_n (depth ?x)) ?x (Two t k s) = eliminate_eq expr_eq ?x (Two t k s)" for k s
    by (simp only: eliminate_eq_same)
  then show "expr_eq ?x (Two u m s) \<longleftrightarrow>
     t = u \<and> (case eliminate_eq expr_eq ?x (Two u m s) of (Symb a, Symb b) \<Rightarrow> a = b | _ \<Rightarrow> False)"
    unfolding expr_eq_def by (auto simp del: depth.simps)
qed (simp_all add: expr_eq_def)

end
