(* ===== verification/Expr_Dups.thy ===== *)
theory Expr_Dups
  imports Expr_Laws
begin

text \<open>
  The joining of operands in expr.c: the value it keeps, and the loop of \<open>expr_eliminate_dups\<close>.
\<close>

section \<open>Calculated symbols\<close>

text \<open>
  What \<open>sym_calc_value\<close> leaves in the table: the static symbols are as declared, a boolean
  symbol is not \<open>mod\<close>, a tristate symbol only when modules are on, and no two constants are
  equal to a tristate symbol (in the language these are y, m and n). S_OTHER
  is no type of a symbol in an expression.
\<close>

definition wf_symtab :: "symtab \<Rightarrow> bool" where
  "wf_symtab G \<longleftrightarrow> statics G
     \<and> (\<forall>s. stype (syms G s) \<noteq> S_OTHER)
     \<and> (\<forall>s. stype (syms G s) = S_BOOLEAN \<longrightarrow> scurr_tri (syms G s) \<noteq> Tmod)
     \<and> (\<forall>s. stype (syms G s) = S_TRISTATE \<longrightarrow> scurr_tri (syms G s) = Tmod \<longrightarrow> scurr_tri (syms G (modules_sym G)) \<noteq> Tno)
     \<and> (\<forall>s b c. stype (syms G s) = S_TRISTATE \<longrightarrow> sconst (syms G b) \<longrightarrow> sconst (syms G c) \<longrightarrow> b \<noteq> c \<longrightarrow>
          expr_calc_value G (Comp E_EQUAL s b) = Tno \<or> expr_calc_value G (Comp E_EQUAL s c) = Tno)"

lemma wf_statics [simp]: "wf_symtab G \<Longrightarrow> statics G"
  by (simp add: wf_symtab_def)

definition logical :: "symtab \<Rightarrow> symref \<Rightarrow> bool" where
  "logical G s \<longleftrightarrow> stype (syms G s) = S_BOOLEAN \<or> stype (syms G s) = S_TRISTATE"

fun tri_name :: "tristate \<Rightarrow> string" where
  "tri_name Tno = ''n''" | "tri_name Tmod = ''m''" | "tri_name Tyes = ''y''"

lemma string_value_logical:
  "wf_symtab G \<Longrightarrow> logical G s \<Longrightarrow> sym_get_string_value G s = tri_name (scurr_tri (syms G s))"
  by (cases "scurr_tri (syms G s)") (auto simp: wf_symtab_def logical_def sym_get_string_value_def Let_def)

lemma strcmp_0 [simp]: "strcmp a b = 0 \<longleftrightarrow> a = b"
  by (induction a b rule: strcmp.induct) auto

text \<open>The strings of the constants are no numbers, so comparing with them compares strings.\<close>

lemma parse_constants: "fst (expr_parse_string ''y'' S_UNKNOWN) = k_string" "fst (expr_parse_string ''m'' S_UNKNOWN) = k_string"
  "fst (expr_parse_string ''n'' S_UNKNOWN) = k_string"
  by code_simp+

lemma compare_string:
  assumes "fst (expr_parse_string (sym_get_string_value G c) (stype (syms G c))) = k_string"
  shows "compare_symbols G r a c = Some (strcmp (sym_get_string_value G a) (sym_get_string_value G c))"
  using assms
  by (cases "expr_parse_string (sym_get_string_value G a) (stype (syms G a))";
      cases "expr_parse_string (sym_get_string_value G c) (stype (syms G c))") (simp add: compare_symbols_def compare_values_def Let_def)

lemma string_value_static:
  "statics G \<Longrightarrow> c = symbol_yes \<or> c = symbol_mod \<or> c = symbol_no \<Longrightarrow> sym_get_string_value G c = tri_name (scurr_tri (syms G c))"
  by (elim disjE) (simp_all add: sym_get_string_value_def statics_simps)

lemma compare_constant:
  assumes "statics G" "c = symbol_yes \<or> c = symbol_mod \<or> c = symbol_no"
  shows "compare_symbols G r a c = Some (strcmp (sym_get_string_value G a) (sym_get_string_value G c))"
  by (rule compare_string) (use assms parse_constants in \<open>auto simp: string_value_static statics_simps\<close>)

lemma tri_name_inj [simp]: "tri_name a = tri_name b \<longleftrightarrow> a = b"
  by (cases a; cases b) simp_all

lemma calc_equal_constant:
  assumes "wf_symtab G" "logical G a \<or> a = symbol_yes \<or> a = symbol_mod \<or> a = symbol_no" "c = symbol_yes \<or> c = symbol_mod \<or> c = symbol_no"
  shows "expr_calc_value G (Comp E_EQUAL a c) = tri_of (scurr_tri (syms G a) = scurr_tri (syms G c))"
    "expr_calc_value G (Comp E_UNEQUAL a c) = tri_of (scurr_tri (syms G a) \<noteq> scurr_tri (syms G c))"
proof -
  have "sym_get_string_value G a = tri_name (scurr_tri (syms G a))" "sym_get_string_value G c = tri_name (scurr_tri (syms G c))"
    using assms(2,3) string_value_logical [OF assms(1)] string_value_static [OF wf_statics [OF assms(1)]] by metis+
  with compare_constant [OF wf_statics [OF assms(1)] assms(3)]
  show "expr_calc_value G (Comp E_EQUAL a c) = tri_of (scurr_tri (syms G a) = scurr_tri (syms G c))"
    "expr_calc_value G (Comp E_UNEQUAL a c) = tri_of (scurr_tri (syms G a) \<noteq> scurr_tri (syms G c))"
    by (simp_all add: relation_def)
qed

text \<open>\<open>=\<close> and \<open>!=\<close> are opposites for all symbols.\<close>

lemma calc_unequal: "expr_calc_value G (Comp E_UNEQUAL a b) = EXPR_NOT (expr_calc_value G (Comp E_EQUAL a b))"
proof -
  have "compare_symbols G E_UNEQUAL a b = compare_symbols G E_EQUAL a b" "compare_symbols G E_EQUAL a b \<noteq> None"
    by (auto simp: compare_symbols_def compare_values_def Let_def split: prod.splits)
  then show ?thesis by (auto simp: relation_def tri_of_def)
qed

lemma calc_comp_cases: "expr_calc_value G (Comp r a b) = Tno \<or> expr_calc_value G (Comp r a b) = Tyes"
  by (auto simp: tri_of_def split: option.split)

section \<open>Joining keeps the value\<close>

lemma both_waysD:
  assumes "both_ways r x y e1 e2" "join_symbol e1 e2 = Some s"
  obtains "e1 = Comp r s x" "e2 = Comp r s y" | "e1 = Comp r s y" "e2 = Comp r s x"
  using assms by (cases e1; cases e2) (auto simp: both_ways_def join_symbol_def Let_def split: rel.splits if_splits expr.splits)

lemma symbol_and_compD:
  assumes "symbol_and_comp r x e1 e2" "join_symbol e1 e2 = Some s"
  obtains "e1 = Symb s" "e2 = Comp r s x" | "e1 = Comp r s x" "e2 = Symb s"
  using assms by (cases e1; cases e2) (auto simp: symbol_and_comp_def join_symbol_def Let_def split: rel.splits if_splits expr.splits)

lemma symbol_and_notD:
  assumes "symbol_and_not e1 e2" "join_symbol e1 e2 = Some s"
  obtains "e1 = Not (Symb s)" "e2 = Symb s" | "e1 = Symb s" "e2 = Not (Symb s)"
  using assms by (cases e1; cases e2) (auto simp: symbol_and_not_def join_symbol_def Let_def split: expr.splits if_splits)

lemma join_constsD:
  assumes "join_consts G s e1 e2 = Some e" "join_symbol e1 e2 = Some s"
  obtains b c where "e1 = Comp E_EQUAL s b \<and> e2 = Comp E_UNEQUAL s c \<or> e1 = Comp E_UNEQUAL s c \<and> e2 = Comp E_EQUAL s b"
    "sconst (syms G b)" "sconst (syms G c)" "e = (if b \<noteq> c then Comp E_EQUAL s b else Symb symbol_no)"
  using assms
  by (cases e1; cases e2) (auto simp: join_consts_def join_const_def join_symbol_def Let_def split: rel.splits if_splits)

lemma calc_join_consts:
  assumes "wf_symtab G" "stype (syms G s) = S_TRISTATE" "join_consts G s e1 e2 = Some e" "join_symbol e1 e2 = Some s"
  shows "expr_calc_value G e = gate_val E_AND (expr_calc_value G e1) (expr_calc_value G e2)"
proof -
  from join_constsD [OF assms(3,4)] obtain b c where bc:
    "e1 = Comp E_EQUAL s b \<and> e2 = Comp E_UNEQUAL s c \<or> e1 = Comp E_UNEQUAL s c \<and> e2 = Comp E_EQUAL s b"
    "sconst (syms G b)" "sconst (syms G c)" "e = (if b \<noteq> c then Comp E_EQUAL s b else Symb symbol_no)" by blast
  have v: "gate_val E_AND (expr_calc_value G e1) (expr_calc_value G e2) =
    gate_val E_AND (expr_calc_value G (Comp E_EQUAL s b)) (EXPR_NOT (expr_calc_value G (Comp E_EQUAL s c)))"
    using bc(1) gate_val_comm unfolding calc_unequal [symmetric] by metis
  show ?thesis
  proof (cases "b = c")
    case True
    then have "expr_calc_value G e = Tno" using bc(4) statics_simps(2) assms(1) by simp
    with True v calc_comp_cases [of G E_EQUAL s c] show ?thesis by (auto simp del: expr_calc_value.simps)
  next
    case False
    then have "expr_calc_value G (Comp E_EQUAL s b) = Tno \<or> expr_calc_value G (Comp E_EQUAL s c) = Tno"
      using assms(1,2) bc(2,3) unfolding wf_symtab_def by blast
    with False v bc(4) show ?thesis by (auto simp del: expr_calc_value.simps)
  qed
qed

lemma tri_cases: "wf_symtab G \<Longrightarrow> stype (syms G s) = S_BOOLEAN \<Longrightarrow> scurr_tri (syms G s) = Tno \<or> scurr_tri (syms G s) = Tyes"
  by (cases "scurr_tri (syms G s)") (auto simp: wf_symtab_def)

lemma calc_symbol_consts:
  assumes "wf_symtab G"
  shows "expr_calc_value G (Symb symbol_yes) = Tyes" "expr_calc_value G (Symb symbol_no) = Tno"
  using assms by (simp_all add: statics_simps)

lemma calc_join_or:
  assumes "wf_symtab G" "expr_join_or G e1 e2 = Some e"
  shows "expr_calc_value G e = gate_val E_OR (expr_calc_value G e1) (expr_calc_value G e2)"
proof (cases "expr_eq e1 e2")
  case True
  with assms expr_eq_sound [of G e1 e2] show ?thesis by (auto simp: expr_join_or_def)
next
  case False
  with assms(2) obtain s where s: "join_symbol e1 e2 = Some s" by (auto simp: expr_join_or_def split: option.splits)
  let ?ty = "stype (syms G s)"
  have l: "logical G s" using assms(2) False s by (auto simp: expr_join_or_def logical_def Let_def split: if_splits)
  note c = calc_equal_constant [OF assms(1) disjI1 [OF l]]
  consider (1) "both_ways E_EQUAL symbol_yes symbol_mod e1 e2" "e = Comp E_UNEQUAL s symbol_no"
    | (2) "both_ways E_EQUAL symbol_yes symbol_no e1 e2" "e = Comp E_UNEQUAL s symbol_mod"
    | (3) "both_ways E_EQUAL symbol_mod symbol_no e1 e2" "e = Comp E_UNEQUAL s symbol_yes"
    | (4) "?ty = S_BOOLEAN" "symbol_and_not e1 e2" "e = Symb symbol_yes"
    using assms(2) False s by (auto simp: expr_join_or_def Let_def split: if_splits)
  then show ?thesis
  proof cases
    case 4
    then show ?thesis using symbol_and_notD [OF 4(2) s] tri_cases [OF assms(1) 4(1)] calc_symbol_consts [OF assms(1)]
      by fastforce
  qed (erule both_waysD [OF _ s];
      cases "scurr_tri (syms G s)"; simp add: c statics_simps [OF wf_statics [OF assms(1)]] tri_of_def del: expr_calc_value.simps)+
qed

lemma calc_join_and:
  assumes "wf_symtab G" "expr_join_and G e1 e2 = Some e"
  shows "expr_calc_value G e = gate_val E_AND (expr_calc_value G e1) (expr_calc_value G e2)"
proof (cases "expr_eq e1 e2")
  case True
  with assms expr_eq_sound [of G e1 e2] show ?thesis by (auto simp: expr_join_and_def)
next
  case False
  with assms(2) obtain s where s: "join_symbol e1 e2 = Some s" by (auto simp: expr_join_and_def split: option.splits)
  have l: "logical G s" using assms(2) False s by (auto simp: expr_join_and_def logical_def Let_def split: if_splits)
  note c = calc_equal_constant [OF assms(1) disjI1 [OF l]]
  note st = statics_simps [OF wf_statics [OF assms(1)]]
  consider (1) "symbol_and_comp E_EQUAL symbol_yes e1 e2" "e = Comp E_EQUAL s symbol_yes"
    | (2) "symbol_and_comp E_UNEQUAL symbol_no e1 e2" "e = Symb s"
    | (3) "symbol_and_comp E_UNEQUAL symbol_mod e1 e2" "e = Comp E_EQUAL s symbol_yes"
    | (4) "stype (syms G s) = S_TRISTATE" "join_consts G s e1 e2 = Some e"
    | (5) "both_ways E_UNEQUAL symbol_yes symbol_no e1 e2" "e = Comp E_EQUAL s symbol_mod"
    | (6) "both_ways E_UNEQUAL symbol_yes symbol_mod e1 e2" "e = Comp E_EQUAL s symbol_no"
    | (7) "both_ways E_UNEQUAL symbol_mod symbol_no e1 e2" "e = Comp E_EQUAL s symbol_yes"
    using assms(2) False s by (auto simp: expr_join_and_def Let_def split: if_splits)
  then show ?thesis
  proof cases
    case 4
    from calc_join_consts [OF assms(1) 4 s] show ?thesis .
  next
    case 1 then show ?thesis
      by - (erule symbol_and_compD [OF _ s]; cases "scurr_tri (syms G s)"; simp add: c st tri_of_def del: expr_calc_value.simps(5))
  next
    case 2 then show ?thesis
      by - (erule symbol_and_compD [OF _ s]; cases "scurr_tri (syms G s)"; simp add: c st tri_of_def del: expr_calc_value.simps(5))
  next
    case 3 then show ?thesis
      by - (erule symbol_and_compD [OF _ s]; cases "scurr_tri (syms G s)"; simp add: c st tri_of_def del: expr_calc_value.simps(5))
  qed (erule both_waysD [OF _ s]; cases "scurr_tri (syms G s)"; simp add: c st tri_of_def del: expr_calc_value.simps)+
qed

lemma calc_join: "wf_symtab G \<Longrightarrow> expr_join G t e1 e2 = Some e \<Longrightarrow> expr_calc_value G e = gate_val t (expr_calc_value G e1) (expr_calc_value G e2)"
  by (cases t) (simp_all add: calc_join_or calc_join_and)

section \<open>Operands of a level\<close>

lemma refill_append:
  "length xs = length (operands t e) \<Longrightarrow> refill t e (xs @ ys) = (fst (refill t e xs), ys)"
proof (induction e arbitrary: xs ys)
  case (Two u l r)
  show ?case
  proof (cases "u = t")
    case True
    let ?n = "length (operands t l)"
    have xs: "xs = take ?n xs @ drop ?n xs" "length (take ?n xs) = ?n" "length (drop ?n xs) = length (operands t r)"
      using Two.prems True by auto
    have "refill t l (take ?n xs @ drop ?n xs @ ys) = (fst (refill t l (take ?n xs)), drop ?n xs @ ys)"
      "refill t l (take ?n xs @ drop ?n xs) = (fst (refill t l (take ?n xs)), drop ?n xs)"
      by (rule Two.IH(1) [OF xs(2)])+
    then have "refill t l (xs @ ys) = (fst (refill t l (take ?n xs)), drop ?n xs @ ys)"
      "refill t l xs = (fst (refill t l (take ?n xs)), drop ?n xs)"
      unfolding append_assoc [symmetric] by (simp_all flip: xs(1))
    with Two.IH(2) [OF xs(3)] True show ?thesis by (simp split: prod.split)
  next
    case False
    with Two.prems show ?thesis by (cases xs) auto
  qed
qed (auto simp: length_Suc_conv)

lemma refill_Two:
  assumes "length xs = length (operands t l) + length (operands t r)"
  shows "fst (refill t (Two t l r) xs) =
    Two t (fst (refill t l (take (length (operands t l)) xs))) (fst (refill t r (drop (length (operands t l)) xs)))"
proof -
  let ?n = "length (operands t l)"
  have "refill t l xs = (fst (refill t l (take ?n xs)), drop ?n xs)"
    using refill_append [of "take ?n xs" t l "drop ?n xs"] assms by simp
  then show ?thesis by (simp split: prod.split)
qed

lemma length_operands: "0 < length (operands t e)"
  by (induction e) auto

text \<open>A property of the tree follows from the property of its operands.\<close>

lemma refill_induct [consumes 1, case_names leaf gate]:
  assumes "length xs = length (operands t e)"
    and leaf: "\<And>e x. \<not> is_gate t e \<Longrightarrow> P e [x] x"
    and gate: "\<And>l r xs ys l' r'. length xs = length (operands t l) \<Longrightarrow> length ys = length (operands t r) \<Longrightarrow>
      P l xs l' \<Longrightarrow> P r ys r' \<Longrightarrow> P (Two t l r) (xs @ ys) (Two t l' r')"
  shows "P e xs (fst (refill t e xs))"
  using assms(1)
proof (induction e arbitrary: xs)
  case (Two u l r)
  show ?case
  proof (cases "u = t")
    case True
    let ?n = "length (operands t l)"
    have "length (take ?n xs) = ?n" "length (drop ?n xs) = length (operands t r)" using Two.prems True by auto
    from gate [OF this Two.IH(1) [OF this(1)] Two.IH(2) [OF this(2)]] refill_Two [of xs t l r] Two.prems True show ?thesis by simp
  next
    case False
    with Two.prems obtain x where "xs = [x]" by (cases xs) auto
    with False leaf [of "Two u l r" x] show ?thesis by simp
  qed
next
  case (Not e)
  then obtain x where "xs = [x]" by (cases xs) auto
  with leaf [of "Not e" x] show ?case by simp
next
  case (Comp r a b)
  then obtain x where "xs = [x]" by (cases xs) auto
  with leaf [of "Comp r a b" x] show ?case by simp
next
  case (Symb s)
  then obtain x where "xs = [x]" by (cases xs) auto
  with leaf [of "Symb s" x] show ?case by simp
qed

lemma refill_below:
  "length xs = length (operands t e) \<Longrightarrow>
   below t k (expr_calc_value G (fst (refill t e xs))) \<longleftrightarrow> (\<forall>x \<in> set xs. below t k (expr_calc_value G x))"
  by (rule refill_induct [where P = "\<lambda>e xs e'. below t k (expr_calc_value G e') \<longleftrightarrow> (\<forall>x \<in> set xs. below t k (expr_calc_value G x))"])
    auto

lemma refill_size:
  "length xs = length (operands t e) \<Longrightarrow>
   size (fst (refill t e xs)) + 1 = sum_list (map size xs) + length xs"
  by (rule refill_induct [where P = "\<lambda>e xs e'. size e' + 1 = sum_list (map size xs) + length xs"]) auto

lemma refill_same: "fst (refill t e (operands t e)) = e"
proof (induction e)
  case (Two u l r)
  then show ?case using refill_Two [of "operands t l @ operands t r" t l r] by (cases "u = t") auto
qed simp_all

section \<open>The loops\<close>

text \<open>
  What a step may do to operands and counter: the value and the number of operands stay, the
  size does not grow; an unchanged counter means unchanged operands, a changed one that there is a
  constant to eliminate.
\<close>

definition progress :: "symtab \<Rightarrow> gate \<Rightarrow> expr list \<times> nat \<Rightarrow> expr list \<times> nat \<Rightarrow> bool" where
  "progress G t xc yc \<longleftrightarrow> length (fst yc) = length (fst xc)
     \<and> (wf_symtab G \<longrightarrow> (\<forall>k. (\<forall>x \<in> set (fst yc). below t k (expr_calc_value G x)) \<longleftrightarrow> (\<forall>x \<in> set (fst xc). below t k (expr_calc_value G x))))
     \<and> sum_list (map size (fst yc)) \<le> sum_list (map size (fst xc))
     \<and> snd xc \<le> snd yc
     \<and> (snd yc = snd xc \<longrightarrow> fst yc = fst xc)
     \<and> (snd xc < snd yc \<longrightarrow> 2 \<le> length (fst yc) \<and> (\<exists>x \<in> set (fst yc). x = unit_symbol t \<or> \<not> normal x))"

lemma progress_refl: "progress G t xc xc"
  by (simp add: progress_def)

lemma progress_trans: "progress G t xc yc \<Longrightarrow> progress G t yc zc \<Longrightarrow> progress G t xc zc"
proof (cases "snd zc = snd yc")
  case False
  assume p: "progress G t xc yc" and q: "progress G t yc zc"
  have "snd yc < snd zc" using q False by (simp add: progress_def)
  with p q have "snd xc < snd zc" "2 \<le> length (fst zc) \<and> (\<exists>x \<in> set (fst zc). x = unit_symbol t \<or> \<not> normal x)"
    by (simp_all add: progress_def)
  moreover have "length (fst zc) = length (fst xc)" "sum_list (map size (fst zc)) \<le> sum_list (map size (fst xc))"
    "wf_symtab G \<longrightarrow> (\<forall>k. (\<forall>x \<in> set (fst zc). below t k (expr_calc_value G x)) \<longleftrightarrow> (\<forall>x \<in> set (fst xc). below t k (expr_calc_value G x)))"
    using p q by (simp_all add: progress_def)
  ultimately show ?thesis unfolding progress_def by simp
next
  case True
  assume p: "progress G t xc yc" and q: "progress G t yc zc"
  then have "zc = yc" using True by (simp add: progress_def prod_eq_iff)
  with p show ?thesis by simp
qed

lemma progress_fold:
  "(\<And>a xc. a \<in> set as \<Longrightarrow> length (fst xc) = n \<Longrightarrow> progress G t xc (f a xc)) \<Longrightarrow> length (fst xc) = n \<Longrightarrow>
   progress G t xc (fold f as xc) \<and> (snd (fold f as xc) = snd xc \<longrightarrow> (\<forall>a \<in> set as. f a xc = xc))"
proof (induction as arbitrary: xc)
  case (Cons a as)
  have p: "progress G t xc (f a xc)" using Cons.prems by simp
  then have l: "length (fst (f a xc)) = n" using Cons.prems(2) by (simp add: progress_def)
  note IH = Cons.IH [of "f a xc", OF _ l] Cons.prems(1)
  then have q: "progress G t (f a xc) (fold f as (f a xc))"
    "snd (fold f as (f a xc)) = snd (f a xc) \<longrightarrow> (\<forall>b \<in> set as. f b (f a xc) = f a xc)" by auto
  have "f a xc = xc \<and> (\<forall>b \<in> set as. f b xc = xc)" if "snd (fold f as (f a xc)) = snd xc"
  proof -
    have "snd (f a xc) = snd xc" using that p q(1) by (simp add: progress_def)
    then have "f a xc = xc" using p by (simp add: progress_def prod_eq_iff)
    with q(2) that show ?thesis by simp
  qed
  with progress_trans [OF p q(1)] show ?case by simp
qed (simp add: progress_refl)

text \<open>The same for the expression of a level, with the counter before and after.\<close>

definition level_ok :: "symtab \<Rightarrow> expr \<times> nat \<Rightarrow> expr \<times> nat \<Rightarrow> bool" where
  "level_ok G ec fd \<longleftrightarrow> (wf_symtab G \<longrightarrow> expr_calc_value G (fst fd) = expr_calc_value G (fst ec))
     \<and> size (fst fd) \<le> size (fst ec) \<and> snd ec \<le> snd fd
     \<and> (snd fd = snd ec \<longrightarrow> fst fd = fst ec)
     \<and> (snd ec < snd fd \<longrightarrow> \<not> normal (fst fd))"

lemma size_join: "expr_join G t e1 e2 = Some e \<Longrightarrow> size e \<le> size e1"
  by (cases t) (auto simp: expr_join_or_def expr_join_and_def join_consts_def join_const_def Let_def
      split: if_splits option.splits expr.splits rel.splits)

lemma size_unit [simp]: "size (unit_symbol t) = 0"
  by (cases t) simp_all

lemma sum_two:
  assumes "i < length xs" "j < length xs" "i \<noteq> j" "size u = 0" "size v \<le> size (xs ! i)"
  shows "sum_list (map size (xs[i := u, j := v])) \<le> sum_list (map size (xs :: expr list))"
proof -
  have "size (xs ! j) \<le> sum_list (map size (xs[i := u]))" "size (xs ! i) \<le> sum_list (map size xs)"
    using assms member_le_sum_list [of "size (xs ! i)" "map size xs"] member_le_sum_list [of "size (xs ! j)" "map size (xs[i := u])"]
      nth_mem [of j "xs[i := u]"] by auto
  then show ?thesis using assms by (simp add: map_update sum_list_update)
qed

lemma all_two:
  "i < length xs \<Longrightarrow> j < length xs \<Longrightarrow> i \<noteq> j \<Longrightarrow> P u \<Longrightarrow> (P v \<longleftrightarrow> P (xs ! i) \<and> P (xs ! j)) \<Longrightarrow>
   (\<forall>x \<in> set (xs[i := u, j := v]). P x) \<longleftrightarrow> (\<forall>x \<in> set xs. P x)"
  unfolding all_set_conv_all_nth by (auto simp: nth_list_update)

lemma all_one: "i < length xs \<Longrightarrow> P x = P (xs ! i) \<Longrightarrow> (\<forall>y \<in> set (xs[i := x]). P y) \<longleftrightarrow> (\<forall>y \<in> set xs. P y)"
  unfolding all_set_conv_all_nth by (auto simp: nth_list_update)

lemma pair_nested:
  assumes "i < length xs" "2 \<le> length xs" "level_ok G (xs ! i, c) (x, d)"
  shows "progress G t (xs, c) (xs[i := x], d)"
proof -
  have "sum_list (map size (xs[i := x])) \<le> sum_list (map size xs)"
    using assms member_le_sum_list [of "size (xs ! i)" "map size xs"] by (auto simp: map_update sum_list_update level_ok_def nth_mem)
  moreover have "x \<in> set (xs[i := x])" using assms(1) by (rule set_update_memI)
  moreover have "wf_symtab G \<Longrightarrow> (\<forall>y \<in> set (xs[i := x]). below t k (expr_calc_value G y)) \<longleftrightarrow> (\<forall>y \<in> set xs. below t k (expr_calc_value G y))" for k
    by (rule all_one) (use assms in \<open>simp_all add: level_ok_def\<close>)
  ultimately show ?thesis using assms unfolding progress_def level_ok_def by auto
qed

lemma pair_join:
  assumes "i < length xs" "j < length xs" "i \<noteq> j" "expr_join G t (xs ! i) (xs ! j) = Some e"
  shows "progress G t (xs, c) (xs[i := unit_symbol t, j := e], c + 1)"
proof -
  have "unit_symbol t \<in> set (xs[i := unit_symbol t, j := e])"
    using assms(1-3) by (metis length_list_update nth_list_update_eq nth_list_update_neq nth_mem)
  moreover have "(\<forall>y \<in> set (xs[i := unit_symbol t, j := e]). below t k (expr_calc_value G y)) \<longleftrightarrow> (\<forall>y \<in> set xs. below t k (expr_calc_value G y))"
    if "wf_symtab G" for k
    by (rule all_two) (use assms that calc_unit [of G t] calc_join [of G t "xs ! i" "xs ! j" e] in simp_all)
  moreover have "2 \<le> length xs" using assms(1-3) by linarith
  ultimately show ?thesis
    using assms sum_two [of i xs j "unit_symbol t" e] size_join [OF assms(4)] unfolding progress_def by auto
qed

lemma progress_pair:
  assumes "\<And>u e c. is_gate u e \<Longrightarrow> level_ok G (e, c) (nested u e c)" "i < length (fst xc)" "j < length (fst xc)"
  shows "progress G t xc (dups_pair G nested t i j xc)"
proof (cases "i = j")
  case False
  obtain xs c where xc: "xc = (xs, c)" by fastforce
  obtain x d where xd: "(case xs ! i of Two u _ _ \<Rightarrow> nested u (xs ! i) c | _ \<Rightarrow> (xs ! i, c)) = (x, d)" by fastforce
  have len: "i < length xs" "j < length xs" "2 \<le> length xs" using assms(2,3) False xc by auto
  have "level_ok G (xs ! i, c) (x, d)"
  proof (cases "xs ! i")
    case (Two u l r)
    with xd assms(1) [of u "xs ! i" c] show ?thesis by simp
  qed (use xd in \<open>auto simp: level_ok_def\<close>)
  note p = pair_nested [OF len(1,3) this]
  show ?thesis
  proof (cases "expr_join G t (xs[i := x] ! i) (xs[i := x] ! j)")
    case None
    then show ?thesis using p False by (simp add: xc dups_pair_def xd Let_def)
  next
    case (Some e)
    with pair_join [of i "xs[i := x]" j G t e d] len False
    have "progress G t (xs[i := x], d) (xs[i := x, i := unit_symbol t, j := e], d + 1)" by simp
    from progress_trans [OF p this] Some False show ?thesis by (simp add: xc dups_pair_def xd Let_def)
  qed
qed (simp add: dups_pair_def progress_refl split: prod.split)

lemma progress_loop:
  assumes "\<And>u e c. is_gate u e \<Longrightarrow> level_ok G (e, c) (nested u e c)"
  shows "progress G t xc (dups_loop G nested t xc)"
    and "snd (dups_loop G nested t xc) = snd xc \<Longrightarrow> i < length (fst xc) \<Longrightarrow> j < length (fst xc) \<Longrightarrow> dups_pair G nested t i j xc = xc"
proof -
  let ?n = "length (fst xc)"
  have inner: "progress G t yc (fold (dups_pair G nested t a) [0..<?n] yc) \<and>
    (snd (fold (dups_pair G nested t a) [0..<?n] yc) = snd yc \<longrightarrow> (\<forall>b \<in> set [0..<?n]. dups_pair G nested t a b yc = yc))"
    if "a \<in> set [0..<?n]" "length (fst yc) = ?n" for a yc
    by (rule progress_fold [where n = ?n]) (use that progress_pair [OF assms] in auto)
  then have outer: "progress G t xc (dups_loop G nested t xc) \<and> (snd (dups_loop G nested t xc) = snd xc \<longrightarrow>
    (\<forall>a \<in> set [0..<?n]. fold (dups_pair G nested t a) [0..<?n] xc = xc))"
    unfolding dups_loop_def Let_def by (intro progress_fold [where n = ?n]) auto
  then show "progress G t xc (dups_loop G nested t xc)" by blast
  show "dups_pair G nested t i j xc = xc" if "snd (dups_loop G nested t xc) = snd xc" "i < ?n" "j < ?n"
    using outer that inner [of i xc] by auto
qed

definition reducible :: "gate \<Rightarrow> expr list \<Rightarrow> bool" where
  "reducible t xs \<longleftrightarrow> (\<exists>x \<in> set xs. \<not> normal x \<or> (x = unit_symbol t \<and> 2 \<le> length xs))"

lemma not_normal_Two:
  assumes "length xs = 1 \<longrightarrow> [l] = xs" "reducible t xs \<longrightarrow> \<not> normal l" "x \<in> set xs" "x = unit_symbol t \<or> \<not> normal x"
  shows "\<not> normal (Two t l r)" "\<not> normal (Two t r l)"
proof -
  have u: "unit_symbol t \<in> {Symb symbol_yes, Symb symbol_no}" by (cases t) simp_all
  have "\<not> normal l \<or> l = unit_symbol t"
  proof (cases "2 \<le> length xs \<or> \<not> normal x")
    case True
    then show ?thesis using assms by (auto simp: reducible_def)
  next
    case False
    then have "length xs = 1" using assms(3) by (cases xs; cases "tl xs") auto
    then show ?thesis using False assms(1,3,4) by auto
  qed
  with u show "\<not> normal (Two t l r)" "\<not> normal (Two t r l)" by auto
qed

lemma refill_not_normal:
  assumes "length xs = length (operands t e)"
  shows "(length xs = 1 \<longrightarrow> [fst (refill t e xs)] = xs) \<and> (reducible t xs \<longrightarrow> \<not> normal (fst (refill t e xs)))"
proof (rule refill_induct [OF assms, where P = "\<lambda>e xs e'. (length xs = 1 \<longrightarrow> [e'] = xs) \<and> (reducible t xs \<longrightarrow> \<not> normal e')"])
  fix l r xs ys l' r'
  assume len: "length xs = length (operands t l)" "length ys = length (operands t r)"
    and l: "(length xs = 1 \<longrightarrow> [l'] = xs) \<and> (reducible t xs \<longrightarrow> \<not> normal l')"
    and r: "(length ys = 1 \<longrightarrow> [r'] = ys) \<and> (reducible t ys \<longrightarrow> \<not> normal r')"
  have "\<not> normal (Two t l' r')" if "reducible t (xs @ ys)"
  proof -
    from that obtain x where x: "x \<in> set xs \<or> x \<in> set ys" "x = unit_symbol t \<or> \<not> normal x" by (auto simp: reducible_def)
    with not_normal_Two(1) [of xs l' t x r'] not_normal_Two(2) [of ys r' t x l'] l r show ?thesis by blast
  qed
  moreover have "0 < length xs" "0 < length ys" using len length_operands [of t l] length_operands [of t r] by simp_all
  then have "length (xs @ ys) \<noteq> 1" by (simp del: length_greater_0_conv)
  ultimately show "(length (xs @ ys) = 1 \<longrightarrow> [Two t l' r'] = xs @ ys) \<and> (reducible t (xs @ ys) \<longrightarrow> \<not> normal (Two t l' r'))" by simp
qed (simp add: reducible_def)

lemma level_ok_dups: "level_ok G (e, c) (dups_level G n t e c)"
proof (induction n arbitrary: t e c)
  case (Suc n)
  obtain xs d where xd: "dups_loop G (dups_level G n) t (operands t e, c) = (xs, d)" by fastforce
  have p: "progress G t (operands t e, c) (xs, d)"
    using progress_loop(1) [of G "dups_level G n" t "(operands t e, c)"] Suc.IH xd by simp
  then have len: "length xs = length (operands t e)" by (simp add: progress_def)
  let ?f = "fst (refill t e xs)"
  have "expr_calc_value G ?f = expr_calc_value G e" if w: "wf_symtab G"
  proof (rule below_eq [of t])
    fix k
    have "below t k (expr_calc_value G e) \<longleftrightarrow> (\<forall>x \<in> set (operands t e). below t k (expr_calc_value G x))"
      using refill_below [of "operands t e" t e k G] by (simp add: refill_same)
    with p w refill_below [OF len, of k G] show "below t k (expr_calc_value G ?f) \<longleftrightarrow> below t k (expr_calc_value G e)"
      by (simp add: progress_def)
  qed
  moreover have "size ?f \<le> size e"
    using refill_size [OF len] refill_size [of "operands t e" t e] p len by (simp add: refill_same progress_def)
  moreover have "\<not> normal ?f" if "c < d"
    using refill_not_normal [OF len] p that by (auto simp: progress_def reducible_def)
  ultimately show ?case using p xd refill_same by (auto simp: level_ok_def progress_def)
qed (simp add: level_ok_def)

section \<open>The bound on the recursion does not matter\<close>

lemma size_operands: "x \<in> set (operands t (Two t l r)) \<Longrightarrow> size x < size (Two t l r)"
proof -
  have "x \<in> set (operands t e) \<Longrightarrow> size x \<le> size e" for e
    by (induction e) (auto split: if_splits)
  from this [of l] this [of r] show "x \<in> set (operands t (Two t l r)) \<Longrightarrow> size x < size (Two t l r)" by auto
qed

definition same_nested :: "symtab \<Rightarrow> nat \<Rightarrow> (gate \<Rightarrow> expr \<Rightarrow> nat \<Rightarrow> expr \<times> nat) \<Rightarrow> (gate \<Rightarrow> expr \<Rightarrow> nat \<Rightarrow> expr \<times> nat) \<Rightarrow> bool" where
  "same_nested G n f g \<longleftrightarrow> (\<forall>u x c. level_ok G (x, c) (f u x c)) \<and> (\<forall>u x c. is_gate u x \<longrightarrow> size x \<le> n \<longrightarrow> f u x c = g u x c)"

lemma all_update: "\<forall>x \<in> set xs. P x \<Longrightarrow> P y \<Longrightarrow> \<forall>x \<in> set (xs[i := y]). P x"
  using set_update_subset_insert [of xs i y] by blast

lemma nested_same:
  assumes "same_nested G n f g" "size y \<le> n"
  shows "(case y of Two u _ _ \<Rightarrow> f u y c | _ \<Rightarrow> (y, c)) = (case y of Two u _ _ \<Rightarrow> g u y c | _ \<Rightarrow> (y, c))
    \<and> size (fst (case y of Two u _ _ \<Rightarrow> f u y c | _ \<Rightarrow> (y, c))) \<le> n"
proof (cases y)
  case (Two u l r)
  then have "level_ok G (y, c) (f u y c)" "f u y c = g u y c"
    using assms unfolding same_nested_def by (blast, simp)
  with Two assms(2) show ?thesis by (simp add: level_ok_def)
qed (use assms(2) in simp_all)

lemma dups_pair_same:
  assumes "same_nested G n f g" "i < length (fst xc)" "j < length (fst xc)" "\<forall>x \<in> set (fst xc). size x \<le> n"
  shows "dups_pair G f t i j xc = dups_pair G g t i j xc
    \<and> length (fst (dups_pair G f t i j xc)) = length (fst xc) \<and> (\<forall>x \<in> set (fst (dups_pair G f t i j xc)). size x \<le> n)"
proof -
  obtain xs c where xc: "xc = (xs, c)" by fastforce
  have i: "size (xs ! i) \<le> n" using assms(2,4) xc nth_mem [of i xs] by simp
  obtain x d where xd: "(case xs ! i of Two u _ _ \<Rightarrow> f u (xs ! i) c | _ \<Rightarrow> (xs ! i, c)) = (x, d)" by fastforce
  have xd': "(case xs ! i of Two u _ _ \<Rightarrow> g u (xs ! i) c | _ \<Rightarrow> (xs ! i, c)) = (x, d) \<and> size x \<le> n"
    using nested_same [OF assms(1) i, of c] xd by (metis fst_conv)
  let ?ys = "xs[i := x]"
  have ys: "\<forall>x \<in> set ?ys. size x \<le> n" by (rule all_update) (use assms(4) xc xd' in simp_all)
  have len: "i < length xs" "j < length xs" using assms(2,3) xc by simp_all
  show ?thesis
  proof (cases "i = j \<or> expr_join G t (?ys ! i) (?ys ! j) = None")
    case True
    then show ?thesis using assms(4) ys xd xd' by (auto simp: xc dups_pair_def Let_def)
  next
    case False
    then obtain e where e: "expr_join G t (?ys ! i) (?ys ! j) = Some e" by auto
    have "size e \<le> n" using size_join [OF e] xd' len by simp
    then have "\<forall>x \<in> set (?ys[i := unit_symbol t, j := e]). size x \<le> n" using ys by - (rule all_update, rule all_update, simp_all)
    with False e xd xd' show ?thesis by (simp add: xc dups_pair_def Let_def)
  qed
qed

lemma fold_same:
  assumes "\<And>a xc. a \<in> set as \<Longrightarrow> P xc \<Longrightarrow> f a xc = g a xc \<and> P (f a xc)" "P xc"
  shows "fold f as xc = fold g as xc \<and> P (fold f as xc)"
  using assms
proof (induction as arbitrary: xc)
  case (Cons a as)
  have a: "f a xc = g a xc \<and> P (f a xc)" by (rule Cons.prems(1)) (simp_all add: Cons.prems(2))
  then have "fold f as (f a xc) = fold g as (f a xc) \<and> P (fold f as (f a xc))"
    using Cons.IH [of "f a xc"] Cons.prems(1) by (meson list.set_intros(2))
  with a show ?case by (elim conjE) simp
qed simp

lemma dups_loop_same:
  assumes "same_nested G n f g" "\<forall>x \<in> set (fst xc). size x \<le> n"
  shows "dups_loop G f t xc = dups_loop G g t xc"
proof -
  let ?P = "\<lambda>yc :: expr list \<times> nat. length (fst yc) = length (fst xc) \<and> (\<forall>x \<in> set (fst yc). size x \<le> n)"
  let ?n = "length (fst xc)"
  have "fold (dups_pair G f t i) [0..<?n] yc = fold (dups_pair G g t i) [0..<?n] yc \<and> ?P (fold (dups_pair G f t i) [0..<?n] yc)"
    if "i \<in> set [0..<?n]" "?P yc" for i yc
  proof (rule fold_same [where P = ?P])
    fix j zc
    assume "j \<in> set [0..<?n]" and z: "?P zc"
    then have "i < length (fst zc)" "j < length (fst zc)" using that(1) by simp_all
    from dups_pair_same [OF assms(1) this conjunct2 [OF z], of t] z
    show "dups_pair G f t i j zc = dups_pair G g t i j zc \<and> ?P (dups_pair G f t i j zc)" by (elim conjE) simp
  qed (rule that(2))
  then have "fold (\<lambda>i. fold (dups_pair G f t i) [0..<?n]) [0..<?n] xc = fold (\<lambda>i. fold (dups_pair G g t i) [0..<?n]) [0..<?n] xc \<and> ?P (fold (\<lambda>i. fold (dups_pair G f t i) [0..<?n]) [0..<?n] xc)"
    by (rule fold_same [where P = ?P]) (assumption+, intro conjI refl assms(2))
  then show ?thesis unfolding dups_loop_def Let_def by blast
qed

lemma dups_level_enough:
  "is_gate t e \<Longrightarrow> size e \<le> n \<Longrightarrow> size e \<le> m \<Longrightarrow> dups_level G n t e c = dups_level G m t e c"
proof (induction n arbitrary: m t e c)
  case 0
  then show ?case by (cases e) simp_all
next
  case (Suc n)
  obtain l r where e: "e = Two t l r" using Suc.prems(1) by (cases e) simp_all
  then obtain k where m: "m = Suc k" using Suc.prems(3) by (cases m) simp_all
  have s: "same_nested G (min n k) (dups_level G n) (dups_level G k)"
    using Suc.IH level_ok_dups by (auto simp: same_nested_def)
  have "\<forall>x \<in> set (operands t e). size x \<le> min n k" using size_operands [of _ t l r] Suc.prems(2,3) e m by fastforce
  then have "dups_loop G (dups_level G n) t (operands t e, c) = dups_loop G (dups_level G k) t (operands t e, c)"
    by (intro dups_loop_same [OF s]) simp
  then show ?case by (simp add: m)
qed

text \<open>The recursion as the source has it.\<close>

lemma expr_eliminate_dups1_eq:
  "expr_eliminate_dups1 G t (Two t l r) c =
     (case dups_loop G (expr_eliminate_dups1 G) t (operands t (Two t l r), c) of (xs, c) \<Rightarrow> (fst (refill t (Two t l r) xs), c))"
proof -
  obtain n where n: "size (Two t l r) = Suc n" by simp
  have s: "same_nested G n (dups_level G n) (expr_eliminate_dups1 G)"
    unfolding same_nested_def expr_eliminate_dups1_def by (intro conjI allI impI level_ok_dups dups_level_enough) simp_all
  have "\<forall>x \<in> set (operands t (Two t l r)). size x \<le> n" using size_operands [of _ t l r] n by fastforce
  then have "dups_loop G (dups_level G n) t (operands t (Two t l r), c) = dups_loop G (expr_eliminate_dups1 G) t (operands t (Two t l r), c)"
    by (intro dups_loop_same [OF s]) simp
  then show ?thesis by (simp only: expr_eliminate_dups1_def n dups_level.simps)
qed

section \<open>The loop of \<open>expr_eliminate_dups\<close>\<close>

text \<open>
  The passes go on until one joins nothing; each of them but the last is followed by
  \<open>expr_eliminate_yn\<close>.
\<close>

function expr_eliminate_dups :: "symtab \<Rightarrow> expr \<Rightarrow> expr" where
  "expr_eliminate_dups G e =
     (case e of
        Two t _ _ \<Rightarrow>
          (case expr_eliminate_dups1 G t e 0 of (e', trans_count) \<Rightarrow>
             if trans_count = 0 then e' else expr_eliminate_dups G (expr_eliminate_yn e'))
      | _ \<Rightarrow> e)"
  by pat_completeness auto

lemma dups_pass_smaller:
  assumes "expr_eliminate_dups1 G t e 0 = (e', c)" "c \<noteq> 0"
  shows "size (expr_eliminate_yn e') < size e"
  using level_ok_dups [of G e 0 "size e" t] assms size_yn_less [of e'] by (simp add: expr_eliminate_dups1_def level_ok_def)

termination expr_eliminate_dups
proof (relation "measure (\<lambda>(G, e). size e)", goal_cases)
  case prems: (2 G e t l r e' c)
  then show ?case using dups_pass_smaller [of G t e e' c] by (simp del: expr.size)
qed simp

declare expr_eliminate_dups.simps [simp del]

lemma calc_dups: "wf_symtab G \<Longrightarrow> expr_calc_value G (expr_eliminate_dups G e) = expr_calc_value G e"
proof (induction G e rule: expr_eliminate_dups.induct)
  case (1 G e)
  show ?case
  proof (cases e)
    case (Two t l r)
    obtain e' c where p: "expr_eliminate_dups1 G t e 0 = (e', c)" by fastforce
    have v: "expr_calc_value G e' = expr_calc_value G e"
      using level_ok_dups [of G e 0 "size e" t] p "1.prems" by (simp add: expr_eliminate_dups1_def level_ok_def)
    have "expr_eliminate_dups G e = (if c = 0 then e' else expr_eliminate_dups G (expr_eliminate_yn e'))"
      by (subst expr_eliminate_dups.simps) (use Two p in simp)
    with "1.IH" [OF Two p [symmetric]] "1.prems" v calc_yn [of G e'] show ?thesis by simp
  qed (simp_all add: expr_eliminate_dups.simps)
qed

lemma size_dups: "size (expr_eliminate_dups G e) \<le> size e"
proof (induction G e rule: expr_eliminate_dups.induct)
  case (1 G e)
  show ?case
  proof (cases e)
    case (Two t l r)
    obtain e' c where p: "expr_eliminate_dups1 G t e 0 = (e', c)" by fastforce
    have v: "size e' \<le> size e"
      using level_ok_dups [of G e 0 "size e" t] p by (simp add: expr_eliminate_dups1_def level_ok_def)
    have "expr_eliminate_dups G e = (if c = 0 then e' else expr_eliminate_dups G (expr_eliminate_yn e'))"
      by (subst expr_eliminate_dups.simps) (use Two p in simp)
    with "1.IH" [OF Two p [symmetric]] v size_yn [of e'] show ?thesis by (cases "c = 0") simp_all
  qed (simp_all add: expr_eliminate_dups.simps)
qed

text \<open>In the result no two operands of the top level can be joined.\<close>

definition no_joins :: "symtab \<Rightarrow> expr \<Rightarrow> bool" where
  "no_joins G e \<longleftrightarrow> (case e of
     Two t _ _ \<Rightarrow> (\<forall>i < length (operands t e). \<forall>j < length (operands t e). i \<noteq> j \<longrightarrow>
       expr_join G t (operands t e ! i) (operands t e ! j) = None)
   | _ \<Rightarrow> True)"

lemma no_joins_pass:
  assumes "expr_eliminate_dups1 G t (Two t l r) 0 = (e', 0)"
  shows "no_joins G (Two t l r)"
proof -
  let ?e = "Two t l r"
  obtain n where n: "size ?e = Suc n" by simp
  obtain xs where x: "dups_loop G (dups_level G n) t (operands t ?e, 0) = (xs, 0)"
    using assms n by (auto simp: expr_eliminate_dups1_def split: prod.splits simp del: operands.simps)
  have "expr_join G t (operands t ?e ! i) (operands t ?e ! j) = None"
    if ij: "i < length (operands t ?e)" "j < length (operands t ?e)" "i \<noteq> j" for i j
  proof -
    have e: "dups_pair G (dups_level G n) t i j (operands t ?e, 0) = (operands t ?e, 0)"
      by (rule progress_loop(2)) (use level_ok_dups x ij in \<open>simp_all del: operands.simps\<close>)
    obtain y d where yd: "(case operands t ?e ! i of Two u _ _ \<Rightarrow> dups_level G n u (operands t ?e ! i) 0 | _ \<Rightarrow> (operands t ?e ! i, 0)) = (y, d)"
      by fastforce
    have "level_ok G (operands t ?e ! i, 0) (y, d)"
    proof (cases "operands t ?e ! i")
      case (Two u a b)
      with yd level_ok_dups [of G "operands t ?e ! i" 0 n u] show ?thesis by (simp del: operands.simps)
    qed (use yd in \<open>auto simp: level_ok_def simp del: operands.simps\<close>)
    moreover have "d = 0" using e yd ij(3) by (auto simp: dups_pair_def Let_def split: option.splits simp del: operands.simps)
    ultimately have "y = operands t ?e ! i" by (simp add: level_ok_def)
    with e yd ij(3) \<open>d = 0\<close> show ?thesis by (auto simp: dups_pair_def Let_def split: option.splits simp del: operands.simps)
  qed
  then show ?thesis by (simp add: no_joins_def del: operands.simps)
qed

lemma no_joins_dups: "no_joins G (expr_eliminate_dups G e)"
proof (induction G e rule: expr_eliminate_dups.induct)
  case (1 G e)
  show ?case
  proof (cases e)
    case (Two t l r)
    obtain e' c where p: "expr_eliminate_dups1 G t e 0 = (e', c)" by fastforce
    have s: "expr_eliminate_dups G e = (if c = 0 then e' else expr_eliminate_dups G (expr_eliminate_yn e'))"
      by (subst expr_eliminate_dups.simps) (use Two p in simp)
    show ?thesis
    proof (cases "c = 0")
      case True
      then have "e' = e" using level_ok_dups [of G e 0 "size e" t] p by (simp add: expr_eliminate_dups1_def level_ok_def)
      with True s p no_joins_pass [of G t l r e'] Two show ?thesis by simp
    next
      case False
      with "1.IH" [OF Two p [symmetric]] s show ?thesis by simp
    qed
  qed (simp_all add: expr_eliminate_dups.simps no_joins_def)
qed

end
