(* ===== verification/Expr_Rewrite.thy ===== *)
theory Expr_Rewrite
  imports Expr_Dups
begin

text \<open>
  The rewritings of expr.c: \<open>expr_transform\<close> moves negations to the symbols and keeps the value,
  \<open>expr_trans_compare\<close> compares the value with a constant, and \<open>expr_depends_symbol\<close> finds what
  an expression needs.
\<close>

section \<open>Comparing\<close>

text \<open>Without S_OTHER, what is compared does not depend on the relation, and can be.\<close>

lemma parse_kind: "type \<noteq> S_OTHER \<Longrightarrow> expr_parse_string str type = (k, v) \<Longrightarrow> k \<noteq> k_invalid"
  by (cases type) (auto simp: expr_parse_string_def whole_number_def split: prod.splits if_splits)

lemma compare_total:
  assumes "wf_symtab G"
  obtains res where "\<And>r. compare_symbols G r a b = Some res"
proof -
  have t: "stype (syms G a) \<noteq> S_OTHER" "stype (syms G b) \<noteq> S_OTHER" using assms by (simp_all add: wf_symtab_def)
  obtain k1 v1 where 1: "(if stype (syms G a) \<noteq> S_STRING \<or> stype (syms G b) \<noteq> S_STRING
      then expr_parse_string (sym_get_string_value G a) (stype (syms G a)) else (k_string, 0)) = (k1, v1)" by fastforce
  obtain k2 v2 where 2: "(if stype (syms G a) \<noteq> S_STRING \<or> stype (syms G b) \<noteq> S_STRING
      then expr_parse_string (sym_get_string_value G b) (stype (syms G b)) else (k_string, 0)) = (k2, v2)" by fastforce
  have "k1 \<noteq> k_invalid" "k2 \<noteq> k_invalid" using 1 2 parse_kind t by (auto split: if_splits)
  then have "compare_symbols G r a b = compare_symbols G E_EQUAL a b" "compare_symbols G E_EQUAL a b \<noteq> None" for r
    unfolding compare_symbols_def compare_values_def Let_def 1 2 by simp_all
  then show ?thesis using that by (metis not_Some_eq)
qed

lemma relation_negated: "relation (negated r) res \<longleftrightarrow> \<not> relation r res"
  by (cases r) (auto simp: relation_def)

lemma calc_negated: "wf_symtab G \<Longrightarrow> expr_calc_value G (Comp (negated r) a b) = EXPR_NOT (expr_calc_value G (Comp r a b))"
  by (rule compare_total [of G a b]) (simp_all add: relation_negated tri_of_def)

section \<open>\<open>expr_transform\<close>\<close>

lemma calc_transform_comp:
  assumes "wf_symtab G"
  shows "expr_calc_value G (transform_comp G r a b) = expr_calc_value G (Comp r a b)"
proof (cases "stype (syms G a) = S_BOOLEAN \<and> (b = symbol_yes \<or> b = symbol_mod \<or> b = symbol_no) \<and> (r = E_EQUAL \<or> r = E_UNEQUAL)")
  case True
  then have l: "logical G a" and c: "b = symbol_yes \<or> b = symbol_mod \<or> b = symbol_no" by (auto simp: logical_def)
  note e = calc_equal_constant [OF assms disjI1 [OF l] c] and st = statics_simps [OF wf_statics [OF assms]]
  from True tri_cases [OF assms conjunct1 [OF True]] e show ?thesis
    by (elim conjE disjE) (simp_all add: transform_comp_def st tri_of_def del: expr_calc_value.simps(5))
next
  case False
  then have "transform_comp G r a b = Comp r a b" by (auto simp: transform_comp_def)
  then show ?thesis by simp
qed

lemma calc_transform: "wf_symtab G \<Longrightarrow> expr_calc_value G (expr_transform G e) = expr_calc_value G e"
proof (induction G e rule: expr_transform.induct)
  case (1 G r a b)
  then show ?case by (simp add: calc_transform_comp del: expr_calc_value.simps(5))
next
  case (4 G e)
  note IH = "4.IH"(1) [OF "4.prems"]
  show ?case
  proof (cases "expr_transform G e")
    case (Two t l r)
    with "4.IH"(2) [OF Two "4.prems"] IH [symmetric] show ?thesis by (simp add: EXPR_NOT_gate)
  next
    case (Not a)
    with "4.IH"(3) [OF Not "4.prems"] IH [symmetric] show ?thesis by simp
  next
    case (Comp r a b)
    with calc_negated [OF "4.prems", of r a b] IH [symmetric] show ?thesis by (simp del: expr_calc_value.simps(5))
  next
    case (Symb a)
    with IH [symmetric] "4.prems" show ?thesis by (simp add: statics_simps)
  qed
qed simp_all

text \<open>Negations stand at symbols of the table only, and nothing more can be rewritten.\<close>

fun transformed :: "symtab \<Rightarrow> expr \<Rightarrow> bool" where
  "transformed G (Two t l r) \<longleftrightarrow> transformed G l \<and> transformed G r"
| "transformed G (Not e) \<longleftrightarrow> (case e of Symb a \<Rightarrow> a \<notin> {symbol_yes, symbol_mod, symbol_no} | _ \<Rightarrow> False)"
| "transformed G (Comp r a b) \<longleftrightarrow> transform_comp G r a b = Comp r a b"
| "transformed G (Symb a) \<longleftrightarrow> True"

lemma transform_comp_negated:
  "transform_comp G r a b = Comp r a b \<Longrightarrow> transform_comp G (negated r) a b = Comp (negated r) a b"
  by (cases r) (auto simp: transform_comp_def split: if_splits)

lemma transformed_comp:
  assumes "a \<notin> {symbol_yes, symbol_mod, symbol_no} \<or> stype (syms G a) = S_UNKNOWN"
  shows "transformed G (transform_comp G r a b)"
  using assms by (auto simp: transform_comp_def)

lemma transformed_transform: "statics G \<Longrightarrow> transformed G (expr_transform G e)"
proof (induction G e rule: expr_transform.induct)
  case (1 G r a b)
  have "a \<notin> {symbol_yes, symbol_mod, symbol_no} \<or> stype (syms G a) = S_UNKNOWN"
    using statics_simps(4-6) [OF "1.prems"] by auto
  then show ?case by (simp add: transformed_comp)
next
  case (4 G e)
  note IH = "4.IH"(1) [OF "4.prems"]
  show ?case
  proof (cases "expr_transform G e")
    case (Two t l r)
    with "4.IH"(2) [OF Two "4.prems"] show ?thesis by simp
  next
    case (Not a)
    with "4.IH"(3) [OF Not "4.prems"] show ?thesis by simp
  next
    case (Comp r a b)
    with IH transform_comp_negated show ?thesis by simp
  next
    case (Symb a)
    then show ?thesis by simp
  qed
qed simp_all

lemma transform_transformed: "transformed G e \<Longrightarrow> expr_transform G e = e"
proof (induction e)
  case (Not e)
  then show ?case by (cases e) simp_all
qed simp_all

section \<open>\<open>expr_trans_compare\<close>\<close>

text \<open>
  Every symbol of the expression has the name of its value as its string, and no negation is
  of a part with value \<open>mod\<close>.
\<close>

fun comparable :: "symtab \<Rightarrow> expr \<Rightarrow> bool" where
  "comparable G (Two t l r) \<longleftrightarrow> comparable G l \<and> comparable G r"
| "comparable G (Not e) \<longleftrightarrow> comparable G e \<and> expr_calc_value G e \<noteq> Tmod"
| "comparable G (Comp r a b) \<longleftrightarrow> True"
| "comparable G (Symb a) \<longleftrightarrow> logical G a \<or> a = symbol_yes \<or> a = symbol_mod \<or> a = symbol_no"

lemma tri_of_not: "EXPR_NOT (tri_of b) = tri_of (\<not> b)"
  by (simp add: tri_of_def)

lemma calc_not_if: "expr_calc_value G e = tri_of b \<Longrightarrow> expr_calc_value G (not_if u e) = tri_of (b \<noteq> u)"
  by (simp add: not_if_def tri_of_not)

lemma gate_tri_of: "gate_val t (tri_of a) (tri_of b) = tri_of (case t of E_OR \<Rightarrow> a \<or> b | E_AND \<Rightarrow> a \<and> b)"
  by (cases t; cases a; cases b) (simp_all add: tri_of_def)

lemma gate_is_yes: "gate_val t a b = Tyes \<longleftrightarrow> (case t of E_OR \<Rightarrow> a = Tyes \<or> b = Tyes | E_AND \<Rightarrow> a = Tyes \<and> b = Tyes)"
  by (cases t; cases a; cases b) (simp_all add: gate_val_def EXPR_OR_def EXPR_AND_def less_tristate_def)

lemma gate_is_no: "gate_val t a b = Tno \<longleftrightarrow> (case t of E_OR \<Rightarrow> a = Tno \<and> b = Tno | E_AND \<Rightarrow> a = Tno \<or> b = Tno)"
  by (cases t; cases a; cases b) (simp_all add: gate_val_def EXPR_OR_def EXPR_AND_def less_tristate_def)

lemma calc_trans_compare:
  assumes "wf_symtab G" "s = symbol_yes \<or> s = symbol_no"
  shows "comparable G e \<Longrightarrow> \<exists>f. expr_trans_compare e uneq s = Some f
    \<and> expr_calc_value G f = tri_of ((expr_calc_value G e = scurr_tri (syms G s)) \<noteq> uneq)"
proof (induction e arbitrary: uneq)
  case (Two t l r)
  obtain l' r' where ih: "expr_trans_compare l False s = Some l'" "expr_calc_value G l' = tri_of (expr_calc_value G l = scurr_tri (syms G s))"
    "expr_trans_compare r False s = Some r'" "expr_calc_value G r' = tri_of (expr_calc_value G r = scurr_tri (syms G s))"
    using Two.IH [of False] Two.prems by auto
  from assms(2) show ?case
  proof
    assume s: "s = symbol_yes"
    show ?thesis using ih s assms(1)
      by (simp add: calc_not_if [of G _ "expr_calc_value G (Two t l r) = Tyes"] gate_tri_of gate_is_yes statics_simps)
  next
    assume s: "s = symbol_no"
    show ?thesis using ih s assms(1)
      by (cases t) (simp_all add: calc_not_if [of G _ "expr_calc_value G (Two t l r) = Tno"] gate_tri_of gate_is_no statics_simps)
  qed
next
  case (Not e)
  from Not.prems have "comparable G e" "expr_calc_value G e \<noteq> Tmod" by simp_all
  with Not.IH [of "\<not> uneq"] assms show ?case
    by (cases "expr_calc_value G e") (auto simp: statics_simps)
next
  case (Comp r a b)
  have v: "expr_calc_value G (Comp r a b) = tri_of (expr_calc_value G (Comp r a b) = Tyes)"
    "expr_calc_value G (Comp r a b) = Tyes \<longleftrightarrow> expr_calc_value G (Comp r a b) \<noteq> Tno"
    using calc_comp_cases [of G r a b] by (auto simp: tri_of_def simp del: expr_calc_value.simps)
  note n = calc_not_if [OF v(1)]
  from assms show ?case
    by (elim disjE) (auto simp: n v(2) statics_simps simp del: expr_calc_value.simps)
next
  case (Symb a)
  then have a: "logical G a \<or> a = symbol_yes \<or> a = symbol_mod \<or> a = symbol_no" by simp
  have "s = symbol_yes \<or> s = symbol_mod \<or> s = symbol_no" using assms(2) by blast
  from calc_equal_constant [OF assms(1) a this] show ?case by simp
qed

section \<open>\<open>expr_depends_symbol\<close>\<close>

lemma calc_depends:
  assumes "wf_symtab G" "logical G s" "scurr_tri (syms G s) = Tno"
  shows "expr_depends_symbol e s \<Longrightarrow> expr_calc_value G e = Tno"
proof (induction e)
  case (Two t l r)
  then show ?case by (cases t) auto
next
  case (Comp r a b)
  note c = calc_equal_constant [OF assms(1) disjI1 [OF assms(2)]]
  show ?case using Comp c assms(3) statics_simps(1-3) [OF wf_statics [OF assms(1)]]
    by (cases r) (auto simp: tri_of_def simp del: expr_calc_value.simps)
next
  case (Symb a)
  with assms(3) show ?case by simp
qed simp

lemma depends_contains: "expr_depends_symbol e s \<Longrightarrow> expr_contains_symbol e s"
proof (induction e)
  case (Two t l r)
  then show ?case by (cases t) auto
next
  case (Comp r a b)
  then show ?case by (cases r) auto
qed simp_all

section \<open>Comparing with a constant\<close>

text \<open>
  The names of the constants are compared, in the order m, n, y, where two tristate symbols
  are compared by value.
\<close>

lemma calc_ordered_constant:
  assumes "wf_symtab G" "logical G a" "c = symbol_yes \<or> c = symbol_mod \<or> c = symbol_no"
  shows "expr_calc_value G (Comp r a c) = tri_of (relation r (strcmp (tri_name (scurr_tri (syms G a))) (tri_name (scurr_tri (syms G c)))))"
  using compare_constant [OF wf_statics [OF assms(1)] assms(3)] string_value_logical [OF assms(1,2)]
    string_value_static [OF wf_statics [OF assms(1)] assms(3)] by simp

lemma parse_tri_name:
  "ty = S_BOOLEAN \<or> ty = S_TRISTATE \<Longrightarrow> expr_parse_string (tri_name v) ty = (k_signed, word_of_nat (tri_num v))"
  by (elim disjE; cases v) (simp_all add: expr_parse_string_def)

lemma sint_tri_num: "sint (word_of_nat (tri_num v) :: 64 word) = int (tri_num v)"
  by (cases v) simp_all

lemma calc_ordered_symbols:
  assumes "wf_symtab G" "logical G a" "logical G b"
  shows "expr_calc_value G (Comp r a b) = tri_of (relation r (cmp_sign (tri_num (scurr_tri (syms G a))) (tri_num (scurr_tri (syms G b)))))"
proof -
  have "stype (syms G a) \<noteq> S_STRING" using assms(2) by (auto simp: logical_def)
  then have "compare_symbols G r a b = Some (cmp_sign (int (tri_num (scurr_tri (syms G a)))) (int (tri_num (scurr_tri (syms G b)))))"
    using assms by (simp add: compare_symbols_def compare_values_def Let_def string_value_logical parse_tri_name logical_def sint_tri_num)
  then show ?thesis by (simp add: cmp_sign_def)
qed

end
