(* ===== verification/Expr_Properties.thy ===== *)
theory Expr_Properties
  imports Expr_Rewrite
begin

text \<open>
  What expr.c promises of dependency expressions, with a small table of symbols to apply it to.
\<close>

section \<open>A table of symbols\<close>

text \<open>Constants whose strings are no numbers and differ, as in the language, cannot equal one symbol twice.\<close>

lemma wf_symtabI:
  assumes "statics G" "\<And>s. stype (syms G s) \<noteq> S_OTHER"
    and "\<And>s. stype (syms G s) = S_BOOLEAN \<Longrightarrow> scurr_tri (syms G s) \<noteq> Tmod"
    and "\<And>s. stype (syms G s) = S_TRISTATE \<Longrightarrow> scurr_tri (syms G s) = Tmod \<Longrightarrow> scurr_tri (syms G (modules_sym G)) \<noteq> Tno"
    and c: "\<And>b. sconst (syms G b) \<Longrightarrow> fst (expr_parse_string (sym_get_string_value G b) (stype (syms G b))) = k_string"
    and d: "\<And>b c. sconst (syms G b) \<Longrightarrow> sconst (syms G c) \<Longrightarrow> b \<noteq> c \<Longrightarrow> sym_get_string_value G b \<noteq> sym_get_string_value G c"
  shows "wf_symtab G"
proof -
  have "expr_calc_value G (Comp E_EQUAL s b) = tri_of (sym_get_string_value G s = sym_get_string_value G b)"
    if "sconst (syms G b)" for s b
    using compare_string [OF c [OF that]] by (simp add: relation_def)
  then have "expr_calc_value G (Comp E_EQUAL s b) = Tno \<or> expr_calc_value G (Comp E_EQUAL s c) = Tno"
    if "sconst (syms G b)" "sconst (syms G c)" "b \<noteq> c" for s b c
    using that d [OF that] by (auto simp: tri_of_def simp del: expr_calc_value.simps)
  with assms(1-4) show ?thesis unfolding wf_symtab_def by blast
qed

fun demo_symbol :: "nat \<Rightarrow> symbol" where
  "demo_symbol n =
     (if n = 0 then \<lparr>sname = ''MODULES'', stype = S_BOOLEAN, scurr_val = [], scurr_tri = Tyes, sconst = False\<rparr>
      else if n = 1 then \<lparr>sname = ''A'', stype = S_TRISTATE, scurr_val = [], scurr_tri = Tmod, sconst = False\<rparr>
      else if n = 2 then \<lparr>sname = ''B'', stype = S_BOOLEAN, scurr_val = [], scurr_tri = Tyes, sconst = False\<rparr>
      else if n = 3 then \<lparr>sname = ''C'', stype = S_TRISTATE, scurr_val = [], scurr_tri = Tno, sconst = False\<rparr>
      else \<lparr>sname = ''D'', stype = S_INT, scurr_val = ''10'', scurr_tri = Tno, sconst = False\<rparr>)"

definition demo_symtab :: symtab where
  "demo_symtab =
     \<lparr>syms = (\<lambda>s. case s of
        symbol_yes \<Rightarrow> static_symbol ''y'' Tyes True | symbol_mod \<Rightarrow> static_symbol ''m'' Tmod True
      | symbol_no \<Rightarrow> static_symbol ''n'' Tno True | symbol_empty \<Rightarrow> static_symbol '''' Tno False
      | Sym n \<Rightarrow> demo_symbol n),
      modules_sym = Sym 0\<rparr>"

abbreviation "symA \<equiv> Symb (Sym 1)"
abbreviation "symB \<equiv> Symb (Sym 2)"
abbreviation "symC \<equiv> Symb (Sym 3)"

lemma demo_statics: "statics demo_symtab"
  by (simp add: statics_def static_symbols_def demo_symtab_def)

lemma demo_consts: "sconst (syms demo_symtab b) \<Longrightarrow> b = symbol_yes \<or> b = symbol_mod \<or> b = symbol_no"
  by (cases b) (auto simp: demo_symtab_def static_symbol_def split: if_splits)

lemma demo_symtab_wf: "wf_symtab demo_symtab"
proof (rule wf_symtabI [OF demo_statics])
  fix b c
  assume "sconst (syms demo_symtab b)"
  then show "fst (expr_parse_string (sym_get_string_value demo_symtab b) (stype (syms demo_symtab b))) = k_string"
    using demo_consts parse_constants by (fastforce simp: string_value_static demo_statics statics_simps)
  assume "sconst (syms demo_symtab b)" "sconst (syms demo_symtab c)" "b \<noteq> c"
  then show "sym_get_string_value demo_symtab b \<noteq> sym_get_string_value demo_symtab c"
    using demo_consts [of b] demo_consts [of c] by (auto simp: string_value_static demo_statics statics_simps)
qed (auto simp: demo_symtab_def static_symbol_def split: symref.splits if_splits)

lemma demo_logical: "logical demo_symtab (Sym 1)" "logical demo_symtab (Sym 2)" "logical demo_symtab (Sym 3)"
  by (simp_all add: logical_def demo_symtab_def)

section \<open>Equality and common operands\<close>

text \<open>Expressions that \<open>expr_eq\<close> calls equal have the same value, whatever the symbols'
  values are.
\<close>

theorem expr_eq_same_value:
  assumes "statics G" "expr_eq x y"
  shows "expr_calc_value G x = expr_calc_value G y"
  using assms by (rule expr_eq_sound)

theorem expr_eq_same_value_witness:
  "expr_calc_value demo_symtab (Two E_AND symA (Two E_OR symB symC)) = expr_calc_value demo_symtab (Two E_AND (Two E_OR symC symB) symA)"
  by (rule expr_eq_same_value [OF demo_statics]) code_simp



text \<open>The bounded recursions of the model are the recursions of the source: \<open>expr_eq\<close> and
  \<open>expr_eliminate_dups1\<close> call themselves on the operands, without a bound.
\<close>

theorem bounds_do_not_matter:
  "(expr_eq (Two t l r) (Two u m s) \<longleftrightarrow>
     t = u \<and> (case eliminate_eq expr_eq (Two t l r) (Two u m s) of (Symb a, Symb b) \<Rightarrow> a = b | _ \<Rightarrow> False))
   \<and> (expr_eq (Not x) (Not y) \<longleftrightarrow> expr_eq x y)
   \<and> expr_eliminate_dups1 G v (Two v e f) c =
     (case dups_loop G (expr_eliminate_dups1 G) v (operands v (Two v e f), c) of (xs, c) \<Rightarrow> (fst (refill v (Two v e f) xs), c))"
  by (intro conjI expr_eq_simps(3,4) expr_eliminate_dups1_eq)

section \<open>Duplicates\<close>



section \<open>Rewriting\<close>

text \<open>C6. \<open>expr_transform\<close> ends with an expression of the same value in which negations stand at
  symbols only and no comparison of a boolean symbol with a constant is left; transforming it again
  changes nothing.
\<close>

theorem transform_normalises:
  assumes "wf_symtab G"
  shows "expr_calc_value G (expr_transform G e) = expr_calc_value G e
    \<and> transformed G (expr_transform G e) \<and> expr_transform G (expr_transform G e) = expr_transform G e"
  using calc_transform [OF assms] transformed_transform [OF wf_statics [OF assms]] transform_transformed by blast

lemma transform_normalises_witness:
  "expr_transform demo_symtab (Not (Two E_OR (Not symA) (Comp E_EQUAL (Sym 2) symbol_no))) = Two E_AND symA symB
   \<and> expr_calc_value demo_symtab (Two E_AND symA symB) = expr_calc_value demo_symtab (Not (Two E_OR (Not symA) (Comp E_EQUAL (Sym 2) symbol_no)))"
proof -
  have e: "expr_transform demo_symtab (Not (Two E_OR (Not symA) (Comp E_EQUAL (Sym 2) symbol_no))) = Two E_AND symA symB"
    by code_simp
  with transform_normalises [OF demo_symtab_wf, of "Not (Two E_OR (Not symA) (Comp E_EQUAL (Sym 2) symbol_no))"]
  show ?thesis by metis
qed

text \<open>The chain that menus use on the dependency of a symbol that is no tristate,
  \<open>expr_eliminate_dups(expr_transform(expr_trans_compare(dep, E_UNEQUAL, &symbol_no)))\<close>, says
  whether the dependency is other than n, as long as no negation is of a part with value m.
\<close>

theorem trans_compare_tests_dependency:
  assumes "wf_symtab G" "comparable G dep"
  shows "\<exists>f. expr_trans_compare dep True symbol_no = Some f
    \<and> expr_calc_value G (expr_eliminate_dups G (expr_transform G f)) = tri_of (expr_calc_value G dep \<noteq> Tno)"
  using calc_trans_compare [OF assms(1) disjI2 [OF refl] assms(2), of True] calc_dups [OF assms(1)] calc_transform [OF assms(1)]
  by (simp add: statics_simps(2) [OF wf_statics [OF assms(1)]])

lemma trans_compare_tests_dependency_witness:
  "\<exists>f. expr_trans_compare (Two E_AND symA (Two E_OR symB (Not symC))) True symbol_no = Some f
    \<and> expr_calc_value demo_symtab (expr_eliminate_dups demo_symtab (expr_transform demo_symtab f))
      = tri_of (expr_calc_value demo_symtab (Two E_AND symA (Two E_OR symB (Not symC))) \<noteq> Tno)"
  by (rule trans_compare_tests_dependency [OF demo_symtab_wf])
    (use demo_logical in \<open>simp add: demo_symtab_def\<close>)

text \<open>An expression that depends on a symbol, as \<open>expr_depends_symbol\<close> sees it, mentions the
  symbol and is n when the symbol is.
\<close>

theorem depends_symbol_needed:
  assumes "wf_symtab G" "logical G s" "scurr_tri (syms G s) = Tno" "expr_depends_symbol e s"
  shows "expr_contains_symbol e s \<and> expr_calc_value G e = Tno"
  using depends_contains [OF assms(4)] calc_depends [OF assms] by blast

lemma depends_symbol_needed_witness:
  "expr_calc_value demo_symtab (Two E_AND symB (Comp E_UNEQUAL (Sym 3) symbol_no)) = Tno"
  using depends_symbol_needed [OF demo_symtab_wf demo_logical(3), of "Two E_AND symB (Comp E_UNEQUAL (Sym 3) symbol_no)"]
  by (simp add: demo_symtab_def del: expr_calc_value.simps(5))

section \<open>Comparing tristates\<close>

text \<open>Two boolean or tristate symbols are compared in the order n, m, y, but such a symbol and a
  constant in the order m, n, y of their names, because the constants have no type: a symbol that is n is
  greater than m.
\<close>

theorem tristate_comparison_orders:
  assumes "wf_symtab G" "logical G a" "logical G b"
  shows "expr_calc_value G (Comp E_LTH a b) = tri_of (scurr_tri (syms G a) < scurr_tri (syms G b))
    \<and> expr_calc_value G (Comp E_GTH a symbol_mod) = tri_of (scurr_tri (syms G a) \<noteq> Tmod)"
proof
  show "expr_calc_value G (Comp E_LTH a b) = tri_of (scurr_tri (syms G a) < scurr_tri (syms G b))"
    unfolding calc_ordered_symbols [OF assms] by (rule arg_cong [where f = tri_of]) (auto simp: relation_def cmp_sign_def less_tristate_def)
  have "expr_calc_value G (Comp E_GTH a symbol_mod) = tri_of (relation E_GTH (strcmp (tri_name (scurr_tri (syms G a))) (tri_name Tmod)))"
    using calc_ordered_constant [OF assms(1,2), of symbol_mod E_GTH] statics_simps(3) [OF wf_statics [OF assms(1)]] by simp
  moreover have "relation E_GTH (strcmp (tri_name Tno) (tri_name Tmod))" "relation E_GTH (strcmp (tri_name Tyes) (tri_name Tmod))"
    by code_simp+
  ultimately show "expr_calc_value G (Comp E_GTH a symbol_mod) = tri_of (scurr_tri (syms G a) \<noteq> Tmod)"
    by (cases "scurr_tri (syms G a)") (simp_all add: relation_def del: expr_calc_value.simps)
qed

lemma tristate_comparison_orders_witness:
  "expr_calc_value demo_symtab (Comp E_LTH (Sym 3) (Sym 1)) = Tyes \<and> expr_calc_value demo_symtab (Comp E_GTH (Sym 3) symbol_mod) = Tyes"
  using tristate_comparison_orders [OF demo_symtab_wf demo_logical(3,1)]
  by (simp add: demo_symtab_def tri_of_def less_tristate_def del: expr_calc_value.simps)

end
