(* ===== verification/Dep_Check.thy ===== *)
theory Dep_Check
  imports Expr
begin

text \<open>
  The search for recursive dependencies in src/support/kconfig/symbol.c: \<open>sym_check_deps\<close> and
  the functions it calls, a depth-first search over symbols with two flags each and a stack of
  what is being checked. The stack is kept to print a cycle; here the printed cycles are a list.
\<close>

section \<open>Symbols and properties\<close>

datatype prop_type = P_UNKNOWN | P_PROMPT | P_COMMENT | P_MENU | P_DEFAULT | P_CHOICE | P_SELECT | P_IMPLY | P_RANGE | P_ENV | P_SYMBOL

text \<open>
  What \<open>expr\<close> of a property holds: nothing, an expression, the list of a choice (E_LIST) or the bounds of a range
  (E_RANGE).
\<close>

datatype prop_expr = No_expr | Dep expr | Choice_list "symref list" | Range symref symref

record property =
  ptype :: prop_type
  ptext :: "string option"
  visible_expr :: "expr option"
  pexpr :: prop_expr

text \<open>The part of a symbol that the check reads: the flags SYMBOL_CHOICE and SYMBOL_CHOICEVAL, properties and reverse dependencies.\<close>

record sym_info =
  sym_is_choice :: bool
  sym_is_choice_value :: bool
  props :: "property list"
  rev_dep_expr :: "expr option"

type_synonym info = "symref \<Rightarrow> sym_info"

definition sym_get_choice_prop :: "property list \<Rightarrow> property option" where
  "sym_get_choice_prop ps = find (\<lambda>p. ptype p = P_CHOICE) ps"

text \<open>For a property of type E_SYMBOL; for a choice value it is the choice.\<close>

definition prop_get_symbol :: "property \<Rightarrow> symref option" where
  "prop_get_symbol p = (case pexpr p of Dep (Symb s) \<Rightarrow> Some s | _ \<Rightarrow> None)"

definition choice_symbol :: "property list \<Rightarrow> symref option" where
  "choice_symbol ps = Option.bind (sym_get_choice_prop ps) prop_get_symbol"

text \<open>The symbols that \<open>expr_list_for_each_sym\<close> visits.\<close>

definition choice_list :: "property list \<Rightarrow> symref list" where
  "choice_list ps = (case sym_get_choice_prop ps of
     Some p \<Rightarrow> (case pexpr p of Choice_list xs \<Rightarrow> xs | _ \<Rightarrow> []) | None \<Rightarrow> [])"

definition choice_of :: "info \<Rightarrow> symref \<Rightarrow> symref option" where
  "choice_of I s = choice_symbol (props (I s))"

definition choice_values :: "info \<Rightarrow> symref \<Rightarrow> symref list" where
  "choice_values I s = choice_list (props (I s))"

section \<open>State\<close>

text \<open>The flags SYMBOL_CHECK and SYMBOL_CHECKED, the stack with \<open>check_top\<close> first, and the cycles printed so far.\<close>

record checker =
  check :: "symref \<Rightarrow> bool"
  checked :: "symref \<Rightarrow> bool"
  dep_stack :: "symref list"
  reports :: "symref list list"

type_synonym 'a check_result = "('a \<times> checker) option"

definition dep_stack_insert :: "symref \<Rightarrow> checker \<Rightarrow> checker" where
  "dep_stack_insert s st = st\<lparr>dep_stack := s # dep_stack st\<rparr>"

definition dep_stack_remove :: "checker \<Rightarrow> checker" where
  "dep_stack_remove st = st\<lparr>dep_stack := tl (dep_stack st)\<rparr>"

definition set_check :: "symref \<Rightarrow> checker \<Rightarrow> checker" where
  "set_check s st = st\<lparr>check := (check st)(s := True), checked := (checked st)(s := True)\<rparr>"

definition clear_check :: "symref \<Rightarrow> checker \<Rightarrow> checker" where
  "clear_check s st = st\<lparr>check := (check st)(s := False)\<rparr>"

text \<open>
  \<open>sym_check_print_recursive\<close>: the symbols on the stack from the last occurrence of
  \<open>last_sym\<close> to the top are printed in order. When it is not there only an error is printed (and
  the entry of a choice value stays on the stack).
\<close>

definition sym_check_print_recursive :: "info \<Rightarrow> symref \<Rightarrow> checker \<Rightarrow> unit check_result" where
  "sym_check_print_recursive I last_sym st = do {
     (last_sym, st, popped) \<leftarrow>
       (if sym_is_choice_value (I last_sym)
        then do { c \<leftarrow> choice_of I last_sym; Some (c, dep_stack_insert last_sym st, True) }
        else Some (last_sym, st, False));
     if last_sym \<notin> set (dep_stack st) then Some ((), st\<lparr>reports := reports st @ [[]]\<rparr>)
     else
       let st = st\<lparr>reports := reports st @ [last_sym # rev (takeWhile (\<lambda>s. s \<noteq> last_sym) (dep_stack st))]\<rparr>
       in Some ((), if popped then dep_stack_remove st else st) }"

section \<open>The check\<close>

text \<open>What follows is checked only when nothing has been found.\<close>

definition and_then :: "symref option check_result \<Rightarrow> (checker \<Rightarrow> symref option check_result) \<Rightarrow> symref option check_result" where
  "and_then r f = do { (s, st) \<leftarrow> r; if s = None then f st else Some (s, st) }"

fun sym_check_expr_deps :: "(symref \<Rightarrow> checker \<Rightarrow> symref option check_result) \<Rightarrow> expr \<Rightarrow> checker \<Rightarrow> symref option check_result" where
  "sym_check_expr_deps rec (Two t l r) st = and_then (sym_check_expr_deps rec l st) (sym_check_expr_deps rec r)"
| "sym_check_expr_deps rec (Not e) st = sym_check_expr_deps rec e st"
| "sym_check_expr_deps rec (Comp q a b) st = and_then (rec a st) (rec b)"
| "sym_check_expr_deps rec (Symb a) st = rec a st"

definition check_option :: "(symref \<Rightarrow> checker \<Rightarrow> symref option check_result) \<Rightarrow> expr option \<Rightarrow> checker \<Rightarrow> symref option check_result" where
  "check_option rec e st = (case e of None \<Rightarrow> Some (None, st) | Some e \<Rightarrow> sym_check_expr_deps rec e st)"

definition check_prop_expr :: "(symref \<Rightarrow> checker \<Rightarrow> symref option check_result) \<Rightarrow> prop_expr \<Rightarrow> checker \<Rightarrow> symref option check_result" where
  "check_prop_expr rec e st = (case e of Dep e \<Rightarrow> sym_check_expr_deps rec e st | _ \<Rightarrow> Some (None, st))"

fun check_props :: "(symref \<Rightarrow> checker \<Rightarrow> symref option check_result) \<Rightarrow> bool \<Rightarrow> property list \<Rightarrow> checker \<Rightarrow> symref option check_result" where
  "check_props rec is_choice [] st = Some (None, st)"
| "check_props rec is_choice (p # ps) st =
     (if ptype p = P_CHOICE \<or> ptype p = P_SELECT then check_props rec is_choice ps st
      else and_then (check_option rec (visible_expr p) st)
        (if ptype p \<noteq> P_DEFAULT \<or> is_choice then check_props rec is_choice ps
         else (\<lambda>st. and_then (check_prop_expr rec (pexpr p) st) (check_props rec is_choice ps))))"

definition sym_check_sym_deps :: "(symref \<Rightarrow> checker \<Rightarrow> symref option check_result) \<Rightarrow> info \<Rightarrow> symref \<Rightarrow> checker \<Rightarrow> symref option check_result" where
  "sym_check_sym_deps rec I sy st = do {
     (sym2, st) \<leftarrow> and_then (check_option rec (rev_dep_expr (I sy)) (dep_stack_insert sy st))
       (check_props rec (sym_is_choice (I sy)) (props (I sy)));
     Some (sym2, dep_stack_remove st) }"

fun check_values :: "(symref \<Rightarrow> checker \<Rightarrow> symref option check_result) \<Rightarrow> info \<Rightarrow> symref list \<Rightarrow> checker \<Rightarrow> symref option check_result" where
  "check_values rec I [] st = Some (None, st)"
| "check_values rec I (v # vs) st = and_then (sym_check_sym_deps rec I v st) (check_values rec I vs)"

definition sym_check_choice_deps :: "(symref \<Rightarrow> checker \<Rightarrow> symref option check_result) \<Rightarrow> info \<Rightarrow> symref \<Rightarrow> checker \<Rightarrow> symref option check_result" where
  "sym_check_choice_deps rec I choice st = do {
     let vs = choice_values I choice;
     let st = set_check choice (fold set_check vs (dep_stack_insert choice st));
     (sym2, st) \<leftarrow> sym_check_sym_deps rec I choice st;
     (sym2, st) \<leftarrow> and_then (Some (sym2, clear_check choice st)) (check_values rec I vs);
     let st = fold clear_check vs st;
     let sym2 = (case sym2 of
       Some s \<Rightarrow> if sym_is_choice_value (I s) \<and> choice_of I s = Some choice then Some choice else Some s
     | None \<Rightarrow> None);
     Some (sym2, dep_stack_remove st) }"

text \<open>
  \<open>sym_check_deps\<close>; the number bounds its recursion, and \<open>None\<close> is the result when it does
  not suffice (or when a choice value has no choice).
\<close>

fun sym_check_deps :: "nat \<Rightarrow> info \<Rightarrow> symref \<Rightarrow> checker \<Rightarrow> symref option check_result" where
  "sym_check_deps 0 I sy st = None"
| "sym_check_deps (Suc n) I sy st =
     (if check st sy then do { (_, st) \<leftarrow> sym_check_print_recursive I sy st; Some (Some sy, st) }
      else if checked st sy then Some (None, st)
      else do {
        (sym2, st) \<leftarrow>
          (if sym_is_choice_value (I sy) then do {
             c \<leftarrow> choice_of I sy;
             (sym2, st) \<leftarrow> sym_check_deps n I c (dep_stack_insert sy st);
             Some (sym2, dep_stack_remove st) }
           else if sym_is_choice (I sy) then sym_check_choice_deps (sym_check_deps n I) I sy st
           else do {
             (sym2, st) \<leftarrow> sym_check_sym_deps (sym_check_deps n I) I sy (set_check sy st);
             Some (sym2, clear_check sy st) });
        Some (if sym2 = Some sy then None else sym2, st) })"

text \<open>The loop of \<open>conf_parse\<close> over all symbols, with its count of errors.\<close>

fun check_all :: "nat \<Rightarrow> info \<Rightarrow> symref list \<Rightarrow> nat \<times> checker \<Rightarrow> (nat \<times> checker) option" where
  "check_all n I [] (yynerrs, st) = Some (yynerrs, st)"
| "check_all n I (s # ss) (yynerrs, st) = do {
     (r, st) \<leftarrow> sym_check_deps n I s st;
     check_all n I ss (if r \<noteq> None then yynerrs + 1 else yynerrs, st) }"

definition fresh_checker :: checker where
  "fresh_checker = \<lparr>check = (\<lambda>_. False), checked = (\<lambda>_. False), dep_stack = [], reports = []\<rparr>"

end
