(* ===== verification/Symbol_Values.thy ===== *)
theory Symbol_Values
  imports Dep_Check
begin

text \<open>
  The values of symbols: \<open>sym_calc_value\<close> of src/support/kconfig/symbol.c with visibility,
  defaults, reverse dependencies, choices and ranges, on an explicit table. A value is
  calculated once, when the flag SYMBOL_VALID is clear, and the calculation asks for the values of other symbols.
  Flags and menus that only tell front ends what changed (SYMBOL_CHANGED) are left out.
\<close>

section \<open>The table\<close>

text \<open>
  The union behind \<open>void *val\<close> of \<open>struct symbol_value\<close>: a string, or the chosen symbol of a
  choice. A null string reads as the empty one.
\<close>

record sym_value =
  vstr :: string
  vsym :: "symref option"
  vtri :: tristate

text \<open>\<open>user\<close> is \<open>def[S_DEF_USER]\<close>; the flags are SYMBOL_CHOICE, SYMBOL_CHOICEVAL, SYMBOL_CONST, SYMBOL_VALID,
  SYMBOL_WRITE, SYMBOL_AUTO, SYMBOL_DEF_USER and SYMBOL_NEED_SET_CHOICE_VALUES.\<close>

record ksym =
  kname :: string
  ktype :: symbol_type
  kprops :: "property list"
  dir_expr :: "expr option"
  rev_expr :: "expr option"
  implied_expr :: "expr option"
  choice :: bool
  choiceval :: bool
  const :: bool
  auto :: bool
  curr :: sym_value
  user :: sym_value
  visible :: tristate
  dir_dep :: tristate
  rev_dep :: tristate
  implied :: tristate
  valid :: bool
  to_write :: bool
  def_user :: bool
  need_set :: bool

text \<open>\<open>symbols\<close> is what \<open>for_all_symbols\<close> visits; \<open>unmet\<close> collects the warnings of \<open>sym_warn_unmet_dep\<close>.\<close>

record kst =
  tab :: "symref \<Rightarrow> ksym"
  symbols :: "symref list"
  modules :: symref
  modules_val :: tristate
  unmet :: "symref list"

definition upd :: "symref \<Rightarrow> (ksym \<Rightarrow> ksym) \<Rightarrow> kst \<Rightarrow> kst" where
  "upd s f st = st\<lparr>tab := (tab st)(s := f (tab st s))\<rparr>"

definition logical_type :: "symbol_type \<Rightarrow> bool" where
  "logical_type t \<longleftrightarrow> t = S_BOOLEAN \<or> t = S_TRISTATE"

definition sym_get_type :: "kst \<Rightarrow> symref \<Rightarrow> symbol_type" where
  "sym_get_type st s =
     (let k = tab st s in
      if ktype k = S_TRISTATE then
        (if choiceval k \<and> visible k = Tyes then S_BOOLEAN else if modules_val st = Tno then S_BOOLEAN else S_TRISTATE)
      else ktype k)"

section \<open>Expressions\<close>

text \<open>\<open>calc\<close> stands for \<open>sym_calc_value\<close>; \<open>None\<close> means that a bound was reached or a null pointer read.\<close>

type_synonym calc = "symref \<Rightarrow> kst \<Rightarrow> kst option"

definition get_string_value :: "calc \<Rightarrow> symref \<Rightarrow> kst \<Rightarrow> (string \<times> kst) option" where
  "get_string_value calc s st =
     (if logical_type (ktype (tab st s)) then
        (case vtri (curr (tab st s)) of
           Tno \<Rightarrow> Some (''n'', st)
         | Tmod \<Rightarrow> do {
             st \<leftarrow> calc (modules st) st;
             Some (if vtri (curr (tab st (modules st))) = Tno then ''n'' else ''m'', st) }
         | Tyes \<Rightarrow> Some (''y'', st))
      else Some (vstr (curr (tab st s)), st))"

fun calc_expr :: "calc \<Rightarrow> expr \<Rightarrow> kst \<Rightarrow> (tristate \<times> kst) option" where
  "calc_expr calc (Symb s) st = do { st \<leftarrow> calc s st; Some (vtri (curr (tab st s)), st) }"
| "calc_expr calc (Two t l r) st = do {
     (val1, st) \<leftarrow> calc_expr calc l st;
     (val2, st) \<leftarrow> calc_expr calc r st;
     Some (case t of E_AND \<Rightarrow> EXPR_AND val1 val2 | E_OR \<Rightarrow> EXPR_OR val1 val2, st) }"
| "calc_expr calc (Not e) st = do { (val1, st) \<leftarrow> calc_expr calc e st; Some (EXPR_NOT val1, st) }"
| "calc_expr calc (Comp r a b) st = do {
     st \<leftarrow> calc a st;
     st \<leftarrow> calc b st;
     (str1, st) \<leftarrow> get_string_value calc a st;
     (str2, st) \<leftarrow> get_string_value calc b st;
     Some (case compare_values r (ktype (tab st a)) str1 (ktype (tab st b)) str2 of
             None \<Rightarrow> Tno | Some res \<Rightarrow> tri_of (relation r res), st) }"

text \<open>The value of no expression is given.\<close>

definition calc_option :: "calc \<Rightarrow> tristate \<Rightarrow> expr option \<Rightarrow> kst \<Rightarrow> (tristate \<times> kst) option" where
  "calc_option calc none e st = (case e of None \<Rightarrow> Some (none, st) | Some e \<Rightarrow> calc_expr calc e st)"

text \<open>\<open>sym_get_default_prop\<close> and \<open>sym_get_range_prop\<close>: the first visible property of a type, with its visibility.\<close>

fun first_visible :: "calc \<Rightarrow> prop_type \<Rightarrow> property list \<Rightarrow> kst \<Rightarrow> ((property \<times> tristate) option \<times> kst) option" where
  "first_visible calc t [] st = Some (None, st)"
| "first_visible calc t (p # ps) st =
     (if ptype p \<noteq> t then first_visible calc t ps st
      else do {
        (tri, st) \<leftarrow> calc_option calc Tyes (visible_expr p) st;
        if tri \<noteq> Tno then Some (Some (p, tri), st) else first_visible calc t ps st })"

section \<open>Visibility\<close>

text \<open>The prompts of \<open>sym_calc_visibility\<close>; \<open>choice_sym\<close> is the choice of a choice value.\<close>

fun calc_prompts :: "calc \<Rightarrow> symbol_type \<Rightarrow> symref option \<Rightarrow> property list \<Rightarrow> tristate \<Rightarrow> kst \<Rightarrow> (tristate \<times> kst) option" where
  "calc_prompts calc type choice_sym [] tri st = Some (tri, st)"
| "calc_prompts calc type choice_sym (p # ps) tri st =
     (if ptext p = None then calc_prompts calc type choice_sym ps tri st
      else do {
        (v, st) \<leftarrow> calc_option calc Tyes (visible_expr p) st;
        let v = (case choice_sym of
          Some c \<Rightarrow> if type = S_TRISTATE \<and> v = Tmod \<and> vtri (curr (tab st c)) = Tyes then Tno else v
        | None \<Rightarrow> v);
        calc_prompts calc type choice_sym ps (EXPR_OR tri v) st })"

definition promote :: "kst \<Rightarrow> symref \<Rightarrow> tristate \<Rightarrow> tristate" where
  "promote st s tri = (if tri = Tmod \<and> sym_get_type st s = S_BOOLEAN then Tyes else tri)"

definition sym_calc_visibility :: "calc \<Rightarrow> symref \<Rightarrow> kst \<Rightarrow> kst option" where
  "sym_calc_visibility calc s st = do {
     let k = tab st s;
     choice_sym \<leftarrow> (if choiceval k then map_option Some (choice_symbol (kprops k)) else Some None);
     (tri, st) \<leftarrow> calc_prompts calc (ktype k) choice_sym (kprops k) Tno st;
     let tri = (if tri = Tmod \<and> (ktype k \<noteq> S_TRISTATE \<or> modules_val st = Tno) then Tyes else tri);
     let st = upd s (\<lambda>k. k\<lparr>visible := tri\<rparr>) st;
     if choiceval k then Some st
     else do {
       (tri, st) \<leftarrow> calc_option calc Tyes (dir_expr k) st;
       let st = upd s (\<lambda>k. k\<lparr>dir_dep := promote st s tri\<rparr>) st;
       (tri, st) \<leftarrow> calc_option calc Tno (rev_expr k) st;
       let st = upd s (\<lambda>k. k\<lparr>rev_dep := promote st s tri\<rparr>) st;
       (tri, st) \<leftarrow> (if dir_dep (tab st s) \<noteq> Tno then calc_option calc Tno (implied_expr k) st else Some (Tno, st));
       Some (upd s (\<lambda>k. k\<lparr>implied := promote st s tri\<rparr>) st) } }"

section \<open>Choices\<close>

text \<open>The first loop of \<open>sym_choice_default\<close>.\<close>

fun default_choice :: "calc \<Rightarrow> property list \<Rightarrow> kst \<Rightarrow> (symref option \<times> kst) option" where
  "default_choice calc [] st = Some (None, st)"
| "default_choice calc (p # ps) st =
     (if ptype p \<noteq> P_DEFAULT then default_choice calc ps st
      else do {
        (tri, st) \<leftarrow> calc_option calc Tyes (visible_expr p) st;
        if tri = Tno then default_choice calc ps st
        else do {
          d \<leftarrow> prop_get_symbol p;
          if visible (tab st d) \<noteq> Tno then Some (Some d, st) else default_choice calc ps st } })"

definition sym_choice_default :: "calc \<Rightarrow> symref \<Rightarrow> kst \<Rightarrow> (symref option \<times> kst) option" where
  "sym_choice_default calc s st = do {
     (d, st) \<leftarrow> default_choice calc (kprops (tab st s)) st;
     Some (if d \<noteq> None then d else find (\<lambda>v. visible (tab st v) \<noteq> Tno) (choice_list (kprops (tab st s))), st) }"

text \<open>The visibilities of the values; the flag that is \<open>and\<close>ed over the visible ones is SYMBOL_DEF_USER.\<close>

fun calc_values :: "calc \<Rightarrow> symref list \<Rightarrow> bool \<Rightarrow> kst \<Rightarrow> (bool \<times> kst) option" where
  "calc_values calc [] flags st = Some (flags, st)"
| "calc_values calc (v # vs) flags st = do {
     st \<leftarrow> sym_calc_visibility calc v st;
     calc_values calc vs (if visible (tab st v) \<noteq> Tno then flags \<and> def_user (tab st v) else flags) st }"

definition sym_calc_choice :: "calc \<Rightarrow> symref \<Rightarrow> kst \<Rightarrow> (symref option \<times> kst) option" where
  "sym_calc_choice calc s st = do {
     (flags, st) \<leftarrow> calc_values calc (choice_list (kprops (tab st s))) (def_user (tab st s)) st;
     let st = upd s (\<lambda>k. k\<lparr>def_user := def_user k \<and> flags\<rparr>) st;
     case vsym (user (tab st s)) of
       Some d \<Rightarrow>
         if visible (tab st d) \<noteq> Tno then Some (Some d, st)
         else do {
           (d, st) \<leftarrow> sym_choice_default calc s st;
           Some (d, if d = None then upd s (\<lambda>k. k\<lparr>curr := (curr k)\<lparr>vtri := Tno\<rparr>\<rparr>) st else st) }
     | None \<Rightarrow> do {
         (d, st) \<leftarrow> sym_choice_default calc s st;
         Some (d, if d = None then upd s (\<lambda>k. k\<lparr>curr := (curr k)\<lparr>vtri := Tno\<rparr>\<rparr>) st else st) } }"

text \<open>\<open>set_all_choice_values\<close> of confdata.c.\<close>

definition set_all_choice_values :: "symref \<Rightarrow> kst \<Rightarrow> kst" where
  "set_all_choice_values s st =
     (let st = fold (\<lambda>v. upd v (\<lambda>k. if \<not> def_user k then k\<lparr>user := (user k)\<lparr>vtri := Tno\<rparr>\<rparr> else k)) (choice_list (kprops (tab st s))) st
      in upd s (\<lambda>k. k\<lparr>def_user := True, valid := False, need_set := False\<rparr>) st)"

section \<open>Ranges\<close>

text \<open>\<open>%lld\<close> and \<open>%llx\<close>.\<close>

fun print_decimal :: "nat \<Rightarrow> string" where
  "print_decimal n = (if n < 10 then [] else print_decimal (n div 10)) @ [char_of (48 + n mod 10)]"

definition print_signed :: "int \<Rightarrow> string" where
  "print_signed v = (if v < 0 then ''-'' else []) @ print_decimal (nat \<bar>v\<bar>)"

fun print_hexdigits :: "nat \<Rightarrow> string" where
  "print_hexdigits n = (if n < 16 then [] else print_hexdigits (n div 16)) @ [char_of (if n mod 16 < 10 then 48 + n mod 16 else 87 + n mod 16)]"

definition print_hex :: "int \<Rightarrow> string" where
  "print_hex v = ''0x'' @ print_hexdigits (unat (word_of_int v :: 64 word))"

definition range_base :: "symbol_type \<Rightarrow> nat \<Rightarrow> nat" where
  "range_base t base = (if t = S_INT then 10 else if t = S_HEX then 16 else base)"

definition sym_get_range_val :: "calc \<Rightarrow> symref \<Rightarrow> nat \<Rightarrow> kst \<Rightarrow> (int \<times> kst) option" where
  "sym_get_range_val calc s base st = do {
     st \<leftarrow> calc s st;
     Some (fst (strtoll (vstr (curr (tab st s))) (range_base (ktype (tab st s)) base)), st) }"

text \<open>The bound that takes the place of a value outside the range.\<close>

definition out_of_range :: "calc \<Rightarrow> symref \<Rightarrow> symref \<Rightarrow> nat \<Rightarrow> int \<Rightarrow> kst \<Rightarrow> (int option \<times> kst) option" where
  "out_of_range calc low high base val st = do {
     (val2, st) \<leftarrow> sym_get_range_val calc low base st;
     if val \<ge> val2 then do {
       (val2, st) \<leftarrow> sym_get_range_val calc high base st;
       Some (if val \<le> val2 then None else Some val2, st) }
     else Some (Some val2, st) }"

definition set_number :: "int \<Rightarrow> ksym \<Rightarrow> ksym" where
  "set_number v k = k\<lparr>curr := (curr k)\<lparr>vstr := if ktype k = S_INT then print_signed v else print_hex v\<rparr>\<rparr>"

definition sym_validate_range :: "calc \<Rightarrow> symref \<Rightarrow> kst \<Rightarrow> kst option" where
  "sym_validate_range calc s st =
     (let k = tab st s; base = range_base (ktype k) 0 in
      if ktype k \<noteq> S_INT \<and> ktype k \<noteq> S_HEX then Some st
      else do {
        (range, st) \<leftarrow> first_visible calc P_RANGE (kprops k) st;
        case range of
          None \<Rightarrow> Some st
        | Some (p, _) \<Rightarrow>
            (case pexpr p of
               Range low high \<Rightarrow> do {
                 (bound, st) \<leftarrow> out_of_range calc low high base (fst (strtoll (vstr (curr (tab st s))) base)) st;
                 Some (case bound of None \<Rightarrow> st | Some v \<Rightarrow> upd s (set_number v) st) }
             | _ \<Rightarrow> None) })"

section \<open>\<open>sym_calc_value\<close>\<close>

definition calc_prop_expr :: "calc \<Rightarrow> prop_expr \<Rightarrow> kst \<Rightarrow> (tristate \<times> kst) option" where
  "calc_prop_expr calc e st = (case e of Dep e \<Rightarrow> calc_expr calc e st | No_expr \<Rightarrow> Some (Tyes, st) | _ \<Rightarrow> Some (Tno, st))"

definition mark_write :: "bool \<Rightarrow> symref \<Rightarrow> kst \<Rightarrow> kst" where
  "mark_write b s st = (if b then upd s (\<lambda>k. k\<lparr>to_write := True\<rparr>) st else st)"

text \<open>The value of a logical symbol that has no visible user value: its default and what implies it.\<close>

definition default_tristate :: "calc \<Rightarrow> symref \<Rightarrow> kst \<Rightarrow> (tristate \<times> kst) option" where
  "default_tristate calc s st =
     (let st = mark_write (rev_dep (tab st s) \<noteq> Tno) s st in
      if choice (tab st s) then Some (Tno, st)
      else do {
        (prop, st) \<leftarrow> first_visible calc P_DEFAULT (kprops (tab st s)) st;
        (tri, st) \<leftarrow> (case prop of
          None \<Rightarrow> Some (Tno, st)
        | Some (p, v) \<Rightarrow> do {
            (e, st) \<leftarrow> calc_prop_expr calc (pexpr p) st;
            Some (EXPR_AND e v, mark_write (EXPR_AND e v \<noteq> Tno) s st) });
        let imp = implied (tab st s);
        Some (if imp \<noteq> Tno then EXPR_OR tri imp else tri, mark_write (imp \<noteq> Tno) s st) })"

text \<open>From \<open>calc_newval\<close>: what selects the symbol, and no \<open>mod\<close> where there cannot be one.\<close>

definition select_tristate :: "symref \<Rightarrow> tristate \<Rightarrow> kst \<Rightarrow> tristate \<times> kst" where
  "select_tristate s tri st =
     (EXPR_OR tri (rev_dep (tab st s)),
      if dir_dep (tab st s) < rev_dep (tab st s) then st\<lparr>unmet := unmet st @ [s]\<rparr> else st)"

definition final_tristate :: "kst \<Rightarrow> symref \<Rightarrow> tristate \<Rightarrow> tristate" where
  "final_tristate st s tri = (if tri = Tmod \<and> (sym_get_type st s = S_BOOLEAN \<or> implied (tab st s) = Tyes) then Tyes else tri)"

definition calc_tristate :: "calc \<Rightarrow> symref \<Rightarrow> kst \<Rightarrow> (tristate \<times> kst) option" where
  "calc_tristate calc s st = do {
     let k = tab st s;
     (tri, st) \<leftarrow>
       (if choiceval k \<and> visible k = Tyes
        then do { c \<leftarrow> choice_symbol (kprops k); Some (if vsym (curr (tab st c)) = Some s then Tyes else Tno, st) }
        else do {
          (tri, st) \<leftarrow> (if visible k \<noteq> Tno \<and> def_user k then Some (EXPR_AND (vtri (user k)) (visible k), st)
            else default_tristate calc s st);
          Some (select_tristate s tri st) });
     Some (final_tristate st s tri, st) }"

definition calc_string :: "calc \<Rightarrow> symref \<Rightarrow> kst \<Rightarrow> (string \<times> kst) option" where
  "calc_string calc s st =
     (let k = tab st s in
      if visible k \<noteq> Tno \<and> def_user k then Some (vstr (user k), st)
      else do {
        (prop, st) \<leftarrow> first_visible calc P_DEFAULT (kprops k) st;
        case Option.bind prop (\<lambda>(p, _). prop_get_symbol p) of
          None \<Rightarrow> Some ([], st)
        | Some ds \<Rightarrow> do { st \<leftarrow> calc ds (mark_write True s st); Some (vstr (curr (tab st ds)), st) } })"

text \<open>After the value is known: the chosen symbol, the range, \<open>modules_val\<close> and flags. \<open>oldval\<close> is the value before.\<close>

definition finish_value :: "calc \<Rightarrow> symref \<Rightarrow> sym_value \<Rightarrow> kst \<Rightarrow> kst option" where
  "finish_value calc s oldval st = do {
     st \<leftarrow> (if choice (tab st s) \<and> vtri (curr (tab st s)) = Tyes
       then do { (d, st) \<leftarrow> sym_calc_choice calc s st; Some (upd s (\<lambda>k. k\<lparr>curr := (curr k)\<lparr>vsym := d\<rparr>\<rparr>) st) }
       else Some st);
     st \<leftarrow> sym_validate_range calc s st;
     let st = (if curr (tab st s) \<noteq> oldval \<and> modules st = s then st\<lparr>modules_val := vtri (curr (tab st s))\<rparr> else st);
     let st = (if choice (tab st s)
       then fold (\<lambda>v st. mark_write (to_write (tab st s) \<and> visible (tab st v) \<noteq> Tno) v st) (choice_list (kprops (tab st s))) st
       else st);
     let st = (if auto (tab st s) then upd s (\<lambda>k. k\<lparr>to_write := False\<rparr>) st else st);
     Some (if need_set (tab st s) then set_all_choice_values s st else st) }"

definition calc_body :: "calc \<Rightarrow> symref \<Rightarrow> kst \<Rightarrow> kst option" where
  "calc_body calc s st =
     (let k = tab st s; oldval = curr k; st = upd s (\<lambda>k. k\<lparr>valid := True\<rparr>) st in
      if ktype k = S_UNKNOWN \<or> ktype k = S_OTHER
      then Some (upd s (\<lambda>k. k\<lparr>curr := (curr k)\<lparr>vstr := kname k, vsym := None, vtri := Tno\<rparr>\<rparr>) st)
      else do {
        let newval = \<lparr>vstr = if logical_type (ktype k) then ''n'' else [], vsym = None, vtri = Tno\<rparr>;
        st \<leftarrow> sym_calc_visibility calc s (upd s (\<lambda>k. k\<lparr>to_write := False\<rparr>) st);
        let st = upd s (\<lambda>k. k\<lparr>curr := newval\<rparr>) (mark_write (visible (tab st s) \<noteq> Tno) s st);
        st \<leftarrow> (if logical_type (ktype k)
          then do { (tri, st) \<leftarrow> calc_tristate calc s st; Some (upd s (\<lambda>k. k\<lparr>curr := newval\<lparr>vtri := tri\<rparr>\<rparr>) st) }
          else do { (str, st) \<leftarrow> calc_string calc s st; Some (upd s (\<lambda>k. k\<lparr>curr := newval\<lparr>vstr := str\<rparr>\<rparr>) st) });
        finish_value calc s oldval st })"

fun sym_calc_value :: "nat \<Rightarrow> symref \<Rightarrow> kst \<Rightarrow> kst option" where
  "sym_calc_value 0 s st = None"
| "sym_calc_value (Suc n) s st =
     (if valid (tab st s) then Some st
      else if choiceval (tab st s) \<and> need_set (tab st s) then do {
        let st = upd s (\<lambda>k. k\<lparr>need_set := False\<rparr>) st;
        c \<leftarrow> choice_symbol (kprops (tab st s));
        st \<leftarrow> sym_calc_value n c st;
        calc_body (sym_calc_value n) s st }
      else calc_body (sym_calc_value n) s st)"

section \<open>Setting values\<close>

definition sym_clear_all_valid :: "nat \<Rightarrow> kst \<Rightarrow> kst option" where
  "sym_clear_all_valid n st =
     (let st = fold (\<lambda>s. upd s (\<lambda>k. k\<lparr>valid := False\<rparr>)) (symbols st) st in sym_calc_value n (modules st) st)"

definition sym_tristate_within_range :: "kst \<Rightarrow> symref \<Rightarrow> tristate \<Rightarrow> bool" where
  "sym_tristate_within_range st s val =
     (let type = sym_get_type st s; k = tab st s in
      if visible k = Tno then False
      else if type \<noteq> S_BOOLEAN \<and> type \<noteq> S_TRISTATE then False
      else if type = S_BOOLEAN \<and> val = Tmod then False
      else if visible k \<le> rev_dep k then False
      else if implied k = Tyes \<and> val = Tmod then False
      else if choiceval k \<and> visible k = Tyes then val = Tyes
      else val \<ge> rev_dep k \<and> val \<le> visible k)"

text \<open>A choice value that is set to y is its choice's value, and no value of the choice is new any more.\<close>

definition set_choice_user :: "symref \<Rightarrow> kst \<Rightarrow> kst option" where
  "set_choice_user s st = do {
     c \<leftarrow> choice_symbol (kprops (tab st s));
     let st = upd c (\<lambda>k. k\<lparr>user := (user k)\<lparr>vsym := Some s\<rparr>, def_user := True\<rparr>) st;
     Some (fold (\<lambda>v st. if visible (tab st v) \<noteq> Tno then upd v (\<lambda>k. k\<lparr>def_user := True\<rparr>) st else st)
       (choice_list (kprops (tab st c))) st) }"

definition sym_set_tristate_value :: "nat \<Rightarrow> symref \<Rightarrow> tristate \<Rightarrow> kst \<Rightarrow> (bool \<times> kst) option" where
  "sym_set_tristate_value n s val st =
     (let oldval = vtri (curr (tab st s)) in
      if oldval \<noteq> val \<and> \<not> sym_tristate_within_range st s val then Some (False, st)
      else do {
        let st = upd s (\<lambda>k. k\<lparr>def_user := True\<rparr>) st;
        st \<leftarrow> (if choiceval (tab st s) \<and> val = Tyes then set_choice_user s st else Some st);
        let st = upd s (\<lambda>k. k\<lparr>user := (user k)\<lparr>vtri := val\<rparr>\<rparr>) st;
        st \<leftarrow> (if oldval \<noteq> val then sym_clear_all_valid n st else Some st);
        Some (True, st) })"

text \<open>\<open>sym_toggle_tristate_value\<close>: the next value that can be set; three steps lead back to the first.\<close>

fun next_tristate :: "tristate \<Rightarrow> tristate" where
  "next_tristate Tno = Tmod" | "next_tristate Tmod = Tyes" | "next_tristate Tyes = Tno"

fun toggle_loop :: "nat \<Rightarrow> nat \<Rightarrow> symref \<Rightarrow> tristate \<Rightarrow> tristate \<Rightarrow> kst \<Rightarrow> (tristate \<times> kst) option" where
  "toggle_loop 0 n s oldval newval st = None"
| "toggle_loop (Suc i) n s oldval newval st = do {
     let newval = next_tristate newval;
     (ok, st) \<leftarrow> sym_set_tristate_value n s newval st;
     if ok then Some (newval, st)
     else if oldval \<noteq> newval then toggle_loop i n s oldval newval st
     else Some (newval, st) }"

definition sym_toggle_tristate_value :: "nat \<Rightarrow> symref \<Rightarrow> kst \<Rightarrow> (tristate \<times> kst) option" where
  "sym_toggle_tristate_value n s st =
     (let oldval = vtri (curr (tab st s)) in toggle_loop 3 n s oldval oldval st)"

end
