(* ===== verification/Value_Laws.thy ===== *)
theory Value_Laws
  imports Symbol_Values
begin

text \<open>
  What the calculation of values keeps: the description of every symbol, the value of every
  ordinary symbol that is calculated already, and what such a value must satisfy.
\<close>

section \<open>Calculated values\<close>

text \<open>Neither a choice nor one of its values.\<close>

definition ordinary :: "ksym \<Rightarrow> bool" where
  "ordinary k \<longleftrightarrow> \<not> choice k \<and> \<not> choiceval k"

text \<open>
  The value of a boolean or tristate symbol: at least what selects it, never m for a boolean
  symbol, and, when the user has set a visible symbol, the user's value between the bounds or y
  where that would be m. The value of a visible string or number that the user has set is the
  user's, or a number that the range puts in its place.
\<close>

definition number_of :: "symbol_type \<Rightarrow> string \<Rightarrow> bool" where
  "number_of t x \<longleftrightarrow> (t = S_INT \<and> (\<exists>v. x = print_signed v)) \<or> (t = S_HEX \<and> (\<exists>v. x = print_hex v))"

definition string_settled :: "ksym \<Rightarrow> bool" where
  "string_settled k \<longleftrightarrow> (ktype k \<in> {S_STRING, S_INT, S_HEX} \<and> visible k \<noteq> Tno \<and> def_user k \<longrightarrow>
     vstr (curr k) = vstr (user k) \<or> number_of (ktype k) (vstr (curr k)))"

definition settled :: "ksym \<Rightarrow> bool" where
  "settled k \<longleftrightarrow> (logical_type (ktype k) \<longrightarrow>
     rev_dep k \<le> vtri (curr k)
     \<and> (ktype k = S_BOOLEAN \<longrightarrow> vtri (curr k) \<noteq> Tmod)
     \<and> (visible k \<noteq> Tno \<and> def_user k \<longrightarrow>
          (let v = EXPR_OR (EXPR_AND (vtri (user k)) (visible k)) (rev_dep k)
           in vtri (curr k) = v \<or> (v = Tmod \<and> vtri (curr k) = Tyes))))
     \<and> string_settled k"

definition boolean_ok :: "ksym \<Rightarrow> bool" where
  "boolean_ok k \<longleftrightarrow> (ktype k = S_BOOLEAN \<longrightarrow> vtri (curr k) \<noteq> Tmod)"

text \<open>What is fixed when the configuration is parsed, and for ordinary symbols the user's value.\<close>

definition same_symbol :: "ksym \<Rightarrow> ksym \<Rightarrow> bool" where
  "same_symbol k k' \<longleftrightarrow> kname k' = kname k \<and> ktype k' = ktype k \<and> kprops k' = kprops k
     \<and> dir_expr k' = dir_expr k \<and> rev_expr k' = rev_expr k \<and> implied_expr k' = implied_expr k
     \<and> choice k' = choice k \<and> choiceval k' = choiceval k \<and> const k' = const k \<and> auto k' = auto k
     \<and> (need_set k' \<longrightarrow> need_set k) \<and> (ordinary k \<longrightarrow> def_user k' = def_user k \<and> user k' = user k)"

text \<open>How often the value may still be calculated: the values of a choice can be set once more.\<close>

definition todo :: "ksym \<Rightarrow> nat" where
  "todo k = (if valid k then 0 else 1) + (if need_set k then 1 else 0)"

text \<open>
  From one table to a later one, for the symbols outside \<open>E\<close>: what is calculated stays, what
  has been calculated in between is settled.
\<close>

definition evolves :: "symref set \<Rightarrow> kst \<Rightarrow> kst \<Rightarrow> bool" where
  "evolves E st st' \<longleftrightarrow> symbols st' = symbols st \<and> modules st' = modules st
     \<and> (\<forall>x. same_symbol (tab st x) (tab st' x) \<and> (boolean_ok (tab st x) \<longrightarrow> boolean_ok (tab st' x))
          \<and> todo (tab st' x) \<le> todo (tab st x)
          \<and> (ordinary (tab st x) \<and> valid (tab st x) \<longrightarrow> valid (tab st' x))
          \<and> (x \<notin> E \<longrightarrow> ordinary (tab st x) \<longrightarrow>
               tab st' x = tab st x \<or> (\<not> valid (tab st x) \<and> valid (tab st' x) \<and> settled (tab st' x))))"

text \<open>The values of a choice are choice values, and only choices and their values wait to be set.\<close>

definition wf_tab :: "kst \<Rightarrow> bool" where
  "wf_tab st \<longleftrightarrow> (\<forall>s. (\<forall>v \<in> set (choice_list (kprops (tab st s))). choice (tab st s) \<longrightarrow> choiceval (tab st v))
     \<and> (need_set (tab st s) \<longrightarrow> \<not> ordinary (tab st s)))"

lemma same_symbol_refl [simp]: "same_symbol k k"
  by (simp add: same_symbol_def)

lemma same_symbol_trans: "same_symbol a b \<Longrightarrow> same_symbol b c \<Longrightarrow> same_symbol a c"
  by (simp add: same_symbol_def ordinary_def)

lemma same_symbol_ordinary: "same_symbol a b \<Longrightarrow> ordinary b = ordinary a"
  by (simp add: same_symbol_def ordinary_def)

lemma evolves_refl [simp]: "evolves E st st"
  by (simp add: evolves_def)

lemma evolves_trans: "evolves E a b \<Longrightarrow> evolves E b c \<Longrightarrow> evolves E a c"
proof -
  assume a: "evolves E a b" and b: "evolves E b c"
  have o: "ordinary (tab b x) = ordinary (tab a x)" for x
    using a same_symbol_ordinary unfolding evolves_def by blast
  have "same_symbol (tab a x) (tab c x)" "boolean_ok (tab a x) \<longrightarrow> boolean_ok (tab c x)" "todo (tab c x) \<le> todo (tab a x)" for x
    using a b same_symbol_trans le_trans unfolding evolves_def by blast+
  moreover have "ordinary (tab a x) \<and> valid (tab a x) \<longrightarrow> valid (tab c x)" for x
    using a b o [of x] unfolding evolves_def by blast
  moreover have "tab c x = tab a x \<or> (\<not> valid (tab a x) \<and> valid (tab c x) \<and> settled (tab c x))" if "x \<notin> E" "ordinary (tab a x)" for x
    using a b o [of x] that unfolding evolves_def by metis
  moreover have "symbols c = symbols a \<and> modules c = modules a" using a b unfolding evolves_def by simp
  ultimately show ?thesis unfolding evolves_def by simp
qed

lemma evolves_mono: "evolves E a b \<Longrightarrow> E \<subseteq> F \<Longrightarrow> evolves F a b"
  unfolding evolves_def by blast

lemma evolves_any: "evolves {} a b \<Longrightarrow> evolves E a b"
  by (erule evolves_mono) simp

lemma evolves_wf: "wf_tab st \<Longrightarrow> evolves E st st' \<Longrightarrow> wf_tab st'"
  unfolding wf_tab_def evolves_def same_symbol_def by (metis ordinary_def)

lemma evolves_same: "evolves E st st' \<Longrightarrow> same_symbol (tab st x) (tab st' x)"
  by (simp add: evolves_def)

lemma evolves_valid: "evolves E st st' \<Longrightarrow> x \<notin> E \<Longrightarrow> ordinary (tab st x) \<Longrightarrow> valid (tab st x) \<Longrightarrow> tab st' x = tab st x"
  unfolding evolves_def by blast

lemma tab_upd [simp]: "tab (upd s f st) x = (if x = s then f (tab st s) else tab st x)"
  "symbols (upd s f st) = symbols st" "modules (upd s f st) = modules st" "modules_val (upd s f st) = modules_val st"
  by (simp_all add: upd_def)

lemma evolves_upd:
  "s \<in> E \<or> \<not> ordinary (tab st s) \<Longrightarrow> same_symbol (tab st s) (f (tab st s)) \<Longrightarrow> (boolean_ok (tab st s) \<longrightarrow> boolean_ok (f (tab st s))) \<Longrightarrow>
   (ordinary (tab st s) \<and> valid (tab st s) \<longrightarrow> valid (f (tab st s))) \<Longrightarrow>
   todo (f (tab st s)) \<le> todo (tab st s) \<Longrightarrow> evolves E st (upd s f st)"
  by (auto simp: evolves_def)

lemma tab_mark [simp]: "tab (mark_write b s st) x = (if x = s \<and> b then (tab st s)\<lparr>to_write := True\<rparr> else tab st x)"
  by (simp add: mark_write_def)

lemma evolves_mark: "s \<in> E \<or> \<not> ordinary (tab st s) \<Longrightarrow> evolves E st (mark_write b s st)"
  unfolding mark_write_def by (cases b) (auto intro!: evolves_upd simp: same_symbol_def boolean_ok_def todo_def)

section \<open>Expressions and properties\<close>

definition evolving :: "calc \<Rightarrow> bool" where
  "evolving calc \<longleftrightarrow> (\<forall>s st st'. wf_tab st \<longrightarrow> calc s st = Some st' \<longrightarrow> evolves {} st st')"

lemma evolvingD: "evolving calc \<Longrightarrow> wf_tab st \<Longrightarrow> calc s st = Some st' \<Longrightarrow> evolves {} st st'"
  unfolding evolving_def by blast

lemma evolves_string:
  "evolving calc \<Longrightarrow> wf_tab st \<Longrightarrow> get_string_value calc s st = Some (v, st') \<Longrightarrow> evolves {} st st'"
  by (auto simp: get_string_value_def bind_Some_iff split: if_splits tristate.splits dest: evolvingD)

lemma evolves_expr:
  assumes "evolving calc"
  shows "wf_tab st \<Longrightarrow> calc_expr calc e st = Some (v, st') \<Longrightarrow> evolves {} st st'"
proof (induction e arbitrary: st v st')
  case (Two t l r)
  then obtain v1 st1 v2 where 1: "calc_expr calc l st = Some (v1, st1)" "calc_expr calc r st1 = Some (v2, st')"
    by (auto simp: bind_Some_iff)
  with Two.IH(1) [OF Two.prems(1)] Two.IH(2) [of st1 v2 st'] Two.prems(1) show ?case
    by (blast intro: evolves_trans evolves_wf)
next
  case (Comp r a b)
  then obtain st1 st2 x st3 y where c: "calc a st = Some st1" "calc b st1 = Some st2"
    "get_string_value calc a st2 = Some (x, st3)" "get_string_value calc b st3 = Some (y, st')"
    by (auto simp: bind_Some_iff)
  note 1 = evolvingD [OF assms Comp.prems(1) c(1)]
  note w1 = evolves_wf [OF Comp.prems(1) 1]
  note 2 = evolvingD [OF assms w1 c(2)]
  note w2 = evolves_wf [OF w1 2]
  note 3 = evolves_string [OF assms w2 c(3)]
  note 4 = evolves_string [OF assms evolves_wf [OF w2 3] c(4)]
  show ?case by (rule evolves_trans [OF 1 evolves_trans [OF 2 evolves_trans [OF 3 4]]])
qed (use assms in \<open>auto simp: bind_Some_iff dest: evolvingD\<close>)

lemma evolves_option:
  "evolving calc \<Longrightarrow> wf_tab st \<Longrightarrow> calc_option calc d e st = Some (v, st') \<Longrightarrow> evolves {} st st'"
  by (auto simp: calc_option_def split: option.splits dest: evolves_expr)

lemma evolves_prop_expr:
  "evolving calc \<Longrightarrow> wf_tab st \<Longrightarrow> calc_prop_expr calc e st = Some (v, st') \<Longrightarrow> evolves {} st st'"
  by (auto simp: calc_prop_expr_def split: prop_expr.splits dest: evolves_expr)

lemma evolves_first:
  assumes "evolving calc"
  shows "wf_tab st \<Longrightarrow> first_visible calc t ps st = Some (p, st') \<Longrightarrow> evolves {} st st'"
proof (induction ps arbitrary: st)
  case (Cons q ps)
  show ?case
  proof (cases "ptype q = t")
    case True
    then obtain tri st1 where 1: "calc_option calc Tyes (visible_expr q) st = Some (tri, st1)"
      "(if tri \<noteq> Tno then Some (Some (q, tri), st1) else first_visible calc t ps st1) = Some (p, st')"
      using Cons.prems(2) by (auto simp: bind_Some_iff)
    note e = evolves_option [OF assms Cons.prems(1) 1(1)]
    with Cons.IH [OF evolves_wf [OF Cons.prems(1) e]] 1(2) show ?thesis by (auto split: if_splits intro: evolves_trans)
  qed (use Cons in auto)
qed simp

lemma evolves_prompts:
  assumes "evolving calc"
  shows "wf_tab st \<Longrightarrow> calc_prompts calc ty c ps tri st = Some (v, st') \<Longrightarrow> evolves {} st st'"
proof (induction ps arbitrary: st tri)
  case (Cons q ps)
  show ?case
  proof (cases "ptext q = None")
    case False
    then obtain w st1 tri' where 1: "calc_option calc Tyes (visible_expr q) st = Some (w, st1)"
      "calc_prompts calc ty c ps tri' st1 = Some (v, st')"
      using Cons.prems(2) by (auto simp: bind_Some_iff Let_def)
    note e = evolves_option [OF assms Cons.prems(1) 1(1)]
    with Cons.IH [OF evolves_wf [OF Cons.prems(1) e] 1(2)] show ?thesis by (blast intro: evolves_trans)
  qed (use Cons in auto)
qed simp

lemma evolves_default_choice:
  assumes "evolving calc"
  shows "wf_tab st \<Longrightarrow> default_choice calc ps st = Some (d, st') \<Longrightarrow> evolves {} st st'"
proof (induction ps arbitrary: st)
  case (Cons q ps)
  show ?case
  proof (cases "ptype q = P_DEFAULT")
    case True
    then obtain w st1 where 1: "calc_option calc Tyes (visible_expr q) st = Some (w, st1)"
      "default_choice calc ps st1 = Some (d, st') \<or> st' = st1"
      using Cons.prems(2) by (auto simp: bind_Some_iff split: if_splits)
    note e = evolves_option [OF assms Cons.prems(1) 1(1)]
    with Cons.IH [OF evolves_wf [OF Cons.prems(1) e]] 1(2) show ?thesis by (blast intro: evolves_trans)
  qed (use Cons in auto)
qed simp

section \<open>Visibility and choices\<close>

lemma evolves_visibility:
  assumes "evolving calc" "wf_tab st" "sym_calc_visibility calc s st = Some st'" "s \<in> E \<or> \<not> ordinary (tab st s)"
  shows "evolves E st st'"
proof -
  let ?k = "tab st s"
  obtain c tri st1 where 1: "calc_prompts calc (ktype ?k) c (kprops ?k) Tno st = Some (tri, st1)"
    and rest1: "(let tri = (if tri = Tmod \<and> (ktype ?k \<noteq> S_TRISTATE \<or> modules_val st1 = Tno) then Tyes else tri);
       st = upd s (\<lambda>k. k\<lparr>visible := tri\<rparr>) st1 in
     if choiceval ?k then Some st
     else do {
       (tri, st) \<leftarrow> calc_option calc Tyes (dir_expr ?k) st;
       let st = upd s (\<lambda>k. k\<lparr>dir_dep := promote st s tri\<rparr>) st;
       (tri, st) \<leftarrow> calc_option calc Tno (rev_expr ?k) st;
       let st = upd s (\<lambda>k. k\<lparr>rev_dep := promote st s tri\<rparr>) st;
       (tri, st) \<leftarrow> (if dir_dep (tab st s) \<noteq> Tno then calc_option calc Tno (implied_expr ?k) st else Some (Tno, st));
       Some (upd s (\<lambda>k. k\<lparr>implied := promote st s tri\<rparr>) st) }) = Some st'"
    using assms(3) by (auto simp: sym_calc_visibility_def bind_Some_iff Let_def split: if_splits)
  have E: "s \<in> E \<or> \<not> ordinary (tab a s)" if "evolves E st a" for a
    using assms(4) same_symbol_ordinary [OF evolves_same [OF that]] by simp
  have u: "evolves E st (upd s f a)" if "evolves E st a" "\<And>k. same_symbol k (f k)" "\<And>k. boolean_ok (f k) = boolean_ok k" "\<And>k. valid (f k) = valid k" "\<And>k. need_set (f k) = need_set k" for f a
    by (rule evolves_trans [OF that(1) evolves_upd [OF E [OF that(1)]]]) (simp_all add: that todo_def)
  have o: "evolves E st b" if "evolves E st a" "calc_option calc d e a = Some (v, b)" for a b d e v
    using evolves_option [OF assms(1) evolves_wf [OF assms(2) that(1)] that(2)] that(1) by (blast intro: evolves_trans evolves_any)
  have f: "same_symbol k (k\<lparr>visible := t\<rparr>)" "same_symbol k (k\<lparr>dir_dep := t\<rparr>)" "same_symbol k (k\<lparr>rev_dep := t\<rparr>)" "same_symbol k (k\<lparr>implied := t\<rparr>)"
    "boolean_ok (k\<lparr>visible := t\<rparr>) = boolean_ok k" "boolean_ok (k\<lparr>dir_dep := t\<rparr>) = boolean_ok k"
    "boolean_ok (k\<lparr>rev_dep := t\<rparr>) = boolean_ok k" "boolean_ok (k\<lparr>implied := t\<rparr>) = boolean_ok k" for k t
    by (simp_all add: same_symbol_def boolean_ok_def todo_def)
  define tri' where "tri' = (if tri = Tmod \<and> (ktype ?k \<noteq> S_TRISTATE \<or> modules_val st1 = Tno) then Tyes else tri)"
  define st2 where "st2 = upd s (\<lambda>k. k\<lparr>visible := tri'\<rparr>) st1"
  have 2: "evolves E st st2"
    unfolding st2_def by (rule u [OF evolves_any [OF evolves_prompts [OF assms(1,2) 1]]]) (simp_all add: f)
  show ?thesis
  proof (cases "choiceval ?k")
    case True
    then show ?thesis using rest1 2 by (simp add: st2_def tri'_def Let_def)
  next
    case False
    obtain t3 st3 where 3: "calc_option calc Tyes (dir_expr ?k) st2 = Some (t3, st3)"
      and rest3: "(let st = upd s (\<lambda>k. k\<lparr>dir_dep := promote st3 s t3\<rparr>) st3 in do {
       (tri, st) \<leftarrow> calc_option calc Tno (rev_expr ?k) st;
       let st = upd s (\<lambda>k. k\<lparr>rev_dep := promote st s tri\<rparr>) st;
       (tri, st) \<leftarrow> (if dir_dep (tab st s) \<noteq> Tno then calc_option calc Tno (implied_expr ?k) st else Some (Tno, st));
       Some (upd s (\<lambda>k. k\<lparr>implied := promote st s tri\<rparr>) st) }) = Some st'"
      using rest1 False by (auto simp: st2_def tri'_def bind_Some_iff Let_def)
    define st4 where "st4 = upd s (\<lambda>k. k\<lparr>dir_dep := promote st3 s t3\<rparr>) st3"
    have 4: "evolves E st st4" unfolding st4_def by (rule u [OF o [OF 2 3]]) (simp_all add: f)
    obtain t5 st5 where 5: "calc_option calc Tno (rev_expr ?k) st4 = Some (t5, st5)"
      and rest5: "(let st = upd s (\<lambda>k. k\<lparr>rev_dep := promote st5 s t5\<rparr>) st5 in do {
       (tri, st) \<leftarrow> (if dir_dep (tab st s) \<noteq> Tno then calc_option calc Tno (implied_expr ?k) st else Some (Tno, st));
       Some (upd s (\<lambda>k. k\<lparr>implied := promote st s tri\<rparr>) st) }) = Some st'"
      using rest3 by (auto simp: st4_def bind_Some_iff Let_def)
    define st6 where "st6 = upd s (\<lambda>k. k\<lparr>rev_dep := promote st5 s t5\<rparr>) st5"
    have 6: "evolves E st st6" unfolding st6_def by (rule u [OF o [OF 4 5]]) (simp_all add: f)
    obtain t7 st7 where 7: "(if dir_dep (tab st6 s) \<noteq> Tno then calc_option calc Tno (implied_expr ?k) st6 else Some (Tno, st6)) = Some (t7, st7)"
      and st': "st' = upd s (\<lambda>k. k\<lparr>implied := promote st7 s t7\<rparr>) st7"
      using rest5 unfolding Let_def st6_def [symmetric] by (auto simp: bind_Some_iff)
    have "evolves E st st7" using 7 o [OF 6] 6 by (auto split: if_splits)
    then show ?thesis unfolding st' by (rule u) (simp_all add: f)
  qed
qed


lemma evolves_choice_default:
  "evolving calc \<Longrightarrow> wf_tab st \<Longrightarrow> sym_choice_default calc s st = Some (d, st') \<Longrightarrow> evolves {} st st'"
  unfolding sym_choice_default_def by (auto simp: bind_Some_iff dest: evolves_default_choice)

lemma evolves_values:
  assumes "evolving calc"
  shows "wf_tab st \<Longrightarrow> (\<forall>v \<in> set vs. choiceval (tab st v)) \<Longrightarrow> calc_values calc vs f st = Some (g, st') \<Longrightarrow> evolves {} st st'"
proof (induction vs arbitrary: st f)
  case (Cons v vs)
  then obtain st1 f' where 1: "sym_calc_visibility calc v st = Some st1" "calc_values calc vs f' st1 = Some (g, st')"
    by (auto simp: bind_Some_iff)
  have e: "evolves {} st st1"
    by (rule evolves_visibility [OF assms Cons.prems(1) 1(1)]) (use Cons.prems(2) in \<open>simp add: ordinary_def\<close>)
  have "\<forall>v \<in> set vs. choiceval (tab st1 v)"
    using Cons.prems(2) evolves_same [OF e] by (simp add: same_symbol_def)
  from evolves_trans [OF e Cons.IH [OF evolves_wf [OF Cons.prems(1) e] this 1(2)]] show ?case .
qed simp

lemma evolves_calc_choice:
  assumes "evolving calc" "wf_tab st" "choice (tab st s)" "sym_calc_choice calc s st = Some (d, st')"
  shows "evolves {} st st'"
proof -
  obtain f st1 where 1: "calc_values calc (choice_list (kprops (tab st s))) (def_user (tab st s)) st = Some (f, st1)"
    using assms(4) by (auto simp: sym_calc_choice_def bind_Some_iff)
  have e1: "evolves {} st st1"
    by (rule evolves_values [OF assms(1,2) _ 1]) (use assms(2,3) in \<open>auto simp: wf_tab_def\<close>)
  have n: "\<not> ordinary (tab a s)" if "evolves {} st a" for a
    using evolves_same [OF that, of s] assms(3) by (simp add: ordinary_def same_symbol_def)
  define st2 where "st2 = upd s (\<lambda>k. k\<lparr>def_user := def_user k \<and> f\<rparr>) st1"
  have e2: "evolves {} st st2"
    unfolding st2_def by (rule evolves_trans [OF e1 evolves_upd]) (use n [OF e1] in \<open>simp_all add: same_symbol_def boolean_ok_def todo_def\<close>)
  have e3: "evolves {} st a \<and> evolves {} st (upd s (\<lambda>k. k\<lparr>curr := (curr k)\<lparr>vtri := Tno\<rparr>\<rparr>) a)"
    if "sym_choice_default calc s st2 = Some (x, a)" for x a
  proof -
    have "evolves {} st a"
      using evolves_choice_default [OF assms(1) evolves_wf [OF assms(2) e2] that] e2 by (blast intro: evolves_trans)
    then show ?thesis
      using n [of a] by (auto simp: same_symbol_def boolean_ok_def todo_def intro!: evolves_trans [OF _ evolves_upd])
  qed
  show ?thesis
    using assms(4) 1 e2 e3 unfolding sym_calc_choice_def st2_def [symmetric]
    by (auto simp: bind_Some_iff Let_def st2_def [symmetric] split: option.splits if_splits)
qed

section \<open>Setting the values of a choice\<close>

lemma evolves_fold:
  assumes "\<And>v a. v \<in> set vs \<Longrightarrow> evolves {} st a \<Longrightarrow> evolves {} a (f v a)" "evolves {} st a"
  shows "evolves {} st (fold f vs a)"
  using assms
proof (induction vs arbitrary: a)
  case (Cons v vs)
  from evolves_trans [OF Cons.prems(2) Cons.prems(1) [OF _ Cons.prems(2), of v]]
  have "evolves {} st (f v a)" by simp
  from Cons.IH [OF Cons.prems(1) this] show ?case by simp
qed simp

lemma need_set_fold: "(\<And>k. need_set (f k) = need_set k) \<Longrightarrow> need_set (tab (fold (\<lambda>v. upd v f) vs st) s) = need_set (tab st s)"
  by (induction vs arbitrary: st) simp_all

lemma evolves_set_all:
  assumes "wf_tab st" "choice (tab st s)" "need_set (tab st s)"
  shows "evolves {} st (set_all_choice_values s st)"
proof -
  define a where "a = fold (\<lambda>v. upd v (\<lambda>k. if \<not> def_user k then k\<lparr>user := (user k)\<lparr>vtri := Tno\<rparr>\<rparr> else k)) (choice_list (kprops (tab st s))) st"
  have "evolves {} st a"
    unfolding a_def
  proof (rule evolves_fold)
    fix v b assume "v \<in> set (choice_list (kprops (tab st s)))" "evolves {} st b"
    then have "\<not> ordinary (tab b v)"
      using assms evolves_same [of "{}" st b v] by (auto simp: wf_tab_def same_symbol_def ordinary_def)
    then show "evolves {} b (upd v (\<lambda>k. if \<not> def_user k then k\<lparr>user := (user k)\<lparr>vtri := Tno\<rparr>\<rparr> else k) b)"
      by (intro evolves_upd) (auto simp: same_symbol_def boolean_ok_def todo_def)
  qed simp
  moreover have "\<not> ordinary (tab a s)"
    using evolves_same [OF calculation, of s] assms(2) by (simp add: ordinary_def same_symbol_def)
  moreover have "need_set (tab a s)"
    unfolding a_def by (subst need_set_fold) (simp_all add: assms(3))
  ultimately show ?thesis
    unfolding set_all_choice_values_def a_def [symmetric] Let_def
    by (intro evolves_trans [OF _ evolves_upd]) (auto simp: same_symbol_def boolean_ok_def todo_def)
qed

section \<open>The calculation of one value\<close>

text \<open>As before, and an ordinary symbol that is being calculated changes at most its write flag and its string.\<close>

definition adjusted :: "ksym \<Rightarrow> ksym \<Rightarrow> bool" where
  "adjusted k k' \<longleftrightarrow> (\<exists>w x. k' = k\<lparr>to_write := w, curr := (curr k)\<lparr>vstr := x\<rparr>\<rparr> \<and> (x = vstr (curr k) \<or> number_of (ktype k) x))"

lemma adjusted_write [simp]: "adjusted k (k\<lparr>to_write := w\<rparr>)"
  unfolding adjusted_def by (rule exI [of _ w], rule exI [of _ "vstr (curr k)"]) simp

lemma adjusted_refl [simp]: "adjusted k k"
  using adjusted_write [of k "to_write k"] by simp

lemma adjusted_trans: "adjusted a b \<Longrightarrow> adjusted b c \<Longrightarrow> adjusted a c"
proof -
  assume a: "adjusted a b" and b: "adjusted b c"
  obtain w x where x: "b = a\<lparr>to_write := w, curr := (curr a)\<lparr>vstr := x\<rparr>\<rparr>" "x = vstr (curr a) \<or> number_of (ktype a) x"
    using a unfolding adjusted_def by blast
  obtain w' x' where "c = b\<lparr>to_write := w', curr := (curr b)\<lparr>vstr := x'\<rparr>\<rparr>" "x' = vstr (curr b) \<or> number_of (ktype b) x'"
    using b unfolding adjusted_def by blast
  with x show ?thesis unfolding adjusted_def by (intro exI [of _ w'] exI [of _ x']) auto
qed

lemma adjusted_same:
  "adjusted k k' \<Longrightarrow> ordinary k' = ordinary k \<and> valid k' = valid k \<and> same_symbol k k' \<and> boolean_ok k' = boolean_ok k \<and> todo k' = todo k"
  by (auto simp: adjusted_def ordinary_def same_symbol_def boolean_ok_def todo_def)

definition near :: "symref \<Rightarrow> kst \<Rightarrow> kst \<Rightarrow> bool" where
  "near s st st' \<longleftrightarrow> evolves {s} st st' \<and> (ordinary (tab st s) \<and> valid (tab st s) \<longrightarrow>
     adjusted (tab st s) (tab st' s))"

lemma near_evolves: "evolves {} st st' \<Longrightarrow> near s st st'"
  using evolves_valid [of "{}" st st' s] unfolding near_def by (auto intro: evolves_any)

lemma near_refl [simp]: "near s st st"
  by (rule near_evolves) simp

lemma near_ordinary: "near s st st' \<Longrightarrow> ordinary (tab st' s) = ordinary (tab st s)"
  unfolding near_def by (metis evolves_same same_symbol_ordinary)

lemma near_trans:
  assumes "near s a b" "near s b c"
  shows "near s a c"
  using assms adjusted_same [of "tab a s" "tab b s"] unfolding near_def by (blast intro: evolves_trans adjusted_trans)

lemma near_wf: "wf_tab st \<Longrightarrow> near s st st' \<Longrightarrow> wf_tab st'"
  unfolding near_def by (blast intro: evolves_wf)

lemma near_upd:
  assumes "adjusted (tab st s) (f (tab st s))"
  shows "near s st (upd s f st)"
proof -
  have "evolves {s} st (upd s f st)"
    by (rule evolves_upd) (use adjusted_same [OF assms] in simp_all)
  with assms show ?thesis by (simp add: near_def)
qed

lemma near_write: "near s st (upd s (\<lambda>k. k\<lparr>to_write := w\<rparr>) st)"
  by (rule near_upd) simp

lemma near_mark: "near s st (mark_write b s st)"
  by (cases b) (simp_all add: mark_write_def near_write)

lemma near_default:
  assumes "evolving calc" "wf_tab st" "default_tristate calc s st = Some (tri, st')"
  shows "near s st st'"
proof -
  define st1 where "st1 = mark_write (rev_dep (tab st s) \<noteq> Tno) s st"
  have 1: "near s st st1" unfolding st1_def by (rule near_mark)
  show ?thesis
  proof (cases "choice (tab st1 s)")
    case True
    with assms(3) 1 show ?thesis unfolding default_tristate_def st1_def [symmetric] Let_def by simp
  next
    case False
    with assms(3) obtain pv st2 t st3 imp where 2: "first_visible calc P_DEFAULT (kprops (tab st1 s)) st1 = Some (pv, st2)"
      and 3: "(case pv of None \<Rightarrow> Some (Tno, st2)
        | Some (p, v) \<Rightarrow> do {
            (e, st) \<leftarrow> calc_prop_expr calc (pexpr p) st2;
            Some (EXPR_AND e v, mark_write (EXPR_AND e v \<noteq> Tno) s st) }) = Some (t, st3)"
      and st': "st' = mark_write imp s st3"
      unfolding default_tristate_def st1_def [symmetric] Let_def by (auto simp: bind_Some_iff)
    note w1 = near_wf [OF assms(2) 1]
    note n12 = near_trans [OF 1 near_evolves [OF evolves_first [OF assms(1) w1 2]]]
    have "near s st2 st3"
    proof (cases pv)
      case (Some q)
      obtain p v where q: "q = (p, v)" by (cases q)
      from 3 [unfolded Some q] obtain e st4 where 4: "calc_prop_expr calc (pexpr p) st2 = Some (e, st4)"
        "st3 = mark_write (EXPR_AND e v \<noteq> Tno) s st4"
        by (auto simp: bind_Some_iff)
      show ?thesis
        unfolding 4(2) by (rule near_trans [OF near_evolves [OF evolves_prop_expr [OF assms(1) near_wf [OF assms(2) n12] 4(1)]] near_mark])
    qed (use 3 in simp)
    from near_trans [OF near_trans [OF n12 this] near_mark] show ?thesis unfolding st' .
  qed
qed

lemma near_string:
  assumes "evolving calc" "wf_tab st" "calc_string calc s st = Some (str, st')"
  shows "near s st st'"
proof (cases "visible (tab st s) \<noteq> Tno \<and> def_user (tab st s)")
  case True
  with assms(3) show ?thesis unfolding calc_string_def Let_def by simp
next
  case False
  with assms(3) obtain pv st1 where 1: "first_visible calc P_DEFAULT (kprops (tab st s)) st = Some (pv, st1)"
    "st' = st1 \<or> (\<exists>ds. calc ds (mark_write True s st1) = Some st')"
    by (auto simp: calc_string_def Let_def bind_Some_iff split: option.splits if_splits) blast+
  note n = near_evolves [OF evolves_first [OF assms(1,2) 1(1)]]
  note w = near_wf [OF near_wf [OF assms(2) n] near_mark]
  from 1(2) show ?thesis
  proof (elim disjE exE)
    fix ds assume "calc ds (mark_write True s st1) = Some st'"
    from near_trans [OF n near_trans [OF near_mark near_evolves [OF evolvingD [OF assms(1) w this]]]] show ?thesis .
  qed (use n in simp)
qed

lemma string_of_user:
  "calc_string calc s st = Some (str, st') \<Longrightarrow> visible (tab st s) \<noteq> Tno \<and> def_user (tab st s) \<longrightarrow> str = vstr (user (tab st s))"
  by (auto simp: calc_string_def Let_def)

lemma near_out_of_range:
  assumes "evolving calc" "wf_tab st" "out_of_range calc low high base i st = Some (v, st')"
  shows "near s st st'"
proof -
  have g: "near s a b" if "wf_tab a" "sym_get_range_val calc x base a = Some (j, b)" for x j a b
    using that near_evolves [OF evolvingD [OF assms(1)]] by (auto simp: sym_get_range_val_def bind_Some_iff)
  obtain v2 st1 where 1: "sym_get_range_val calc low base st = Some (v2, st1)"
    using assms(3) by (auto simp: out_of_range_def bind_Some_iff)
  note n = g [OF assms(2) 1]
  show ?thesis
  proof (cases "v2 \<le> i")
    case True
    then obtain v3 where "sym_get_range_val calc high base st1 = Some (v3, st')"
      using assms(3) 1 by (auto simp: out_of_range_def bind_Some_iff)
    from near_trans [OF n g [OF near_wf [OF assms(2) n] this]] show ?thesis .
  next
    case False
    then show ?thesis using assms(3) 1 n by (simp add: out_of_range_def)
  qed
qed

lemma near_number:
  assumes "ktype (tab st s) = S_INT \<or> ktype (tab st s) = S_HEX"
  shows "near s st (upd s (set_number v) st)"
proof (rule near_upd)
  show "adjusted (tab st s) (set_number v (tab st s))"
    unfolding adjusted_def set_number_def number_of_def using assms by (intro exI [of _ "to_write (tab st s)"]) auto
qed

lemma near_range:
  assumes "evolving calc" "wf_tab st" "sym_validate_range calc s st = Some st'"
  shows "near s st st'"
proof (cases "ktype (tab st s) \<noteq> S_INT \<and> ktype (tab st s) \<noteq> S_HEX")
  case True
  with assms(3) show ?thesis by (simp add: sym_validate_range_def Let_def)
next
  case False
  let ?b = "range_base (ktype (tab st s)) 0"
  from False have v: "sym_validate_range calc s st = do {
      (range, st) \<leftarrow> first_visible calc P_RANGE (kprops (tab st s)) st;
      case range of
        None \<Rightarrow> Some st
      | Some (p, _) \<Rightarrow>
          (case pexpr p of
             Range low high \<Rightarrow> do {
               (bound, st) \<leftarrow> out_of_range calc low high ?b (fst (strtoll (vstr (curr (tab st s))) ?b)) st;
               Some (case bound of None \<Rightarrow> st | Some v \<Rightarrow> upd s (set_number v) st) }
           | _ \<Rightarrow> None) }"
    by (simp only: sym_validate_range_def Let_def if_not_P [OF False] if_False)
  obtain p st1 where 1: "first_visible calc P_RANGE (kprops (tab st s)) st = Some (p, st1)"
    using assms(3) unfolding v by (auto simp: bind_Some_iff)
  note n1 = near_evolves [OF evolves_first [OF assms(1,2) 1], of s]
  show ?thesis
  proof (cases p)
    case None
    with assms(3) 1 n1 show ?thesis unfolding v by simp
  next
    case (Some q)
    with assms(3) 1 obtain low high bound st2 where 2:
      "out_of_range calc low high ?b (fst (strtoll (vstr (curr (tab st1 s))) ?b)) st1 = Some (bound, st2)"
      "st' = (case bound of None \<Rightarrow> st2 | Some v \<Rightarrow> upd s (set_number v) st2)"
      unfolding v by (cases q) (auto simp: bind_Some_iff split: prop_expr.splits)
    note n2 = near_trans [OF n1 near_out_of_range [OF assms(1) near_wf [OF assms(2) n1] 2(1)]]
    have "ktype (tab st2 s) = ktype (tab st s)" using n2 evolves_same unfolding near_def same_symbol_def by blast
    with False have "near s st2 (upd s (set_number v) st2)" for v by (intro near_number) auto
    with n2 show ?thesis unfolding 2(2) by (auto split: option.splits intro: near_trans)
  qed
qed

lemma near_same_tab: "tab st' = tab st \<Longrightarrow> symbols st' = symbols st \<Longrightarrow> modules st' = modules st \<Longrightarrow> near s st st'"
  by (rule near_evolves) (simp add: evolves_def)

lemma near_same: "near s st st' \<Longrightarrow> same_symbol (tab st x) (tab st' x)"
  unfolding near_def by (blast intro: evolves_same)

lemma near_chosen:
  assumes "evolving calc" "wf_tab st" "choice (tab st s)" "sym_calc_choice calc s st = Some (d, st')"
  shows "near s st (upd s (\<lambda>k. k\<lparr>curr := (curr k)\<lparr>vsym := d\<rparr>\<rparr>) st')"
proof -
  have "evolves {s} st (upd s (\<lambda>k. k\<lparr>curr := (curr k)\<lparr>vsym := d\<rparr>\<rparr>) st')"
    by (rule evolves_trans [OF evolves_any [OF evolves_calc_choice [OF assms]] evolves_upd])
       (simp_all add: same_symbol_def boolean_ok_def todo_def)
  with assms(3) show ?thesis by (simp add: near_def ordinary_def)
qed

lemma near_mark_values:
  assumes "wf_tab st" "choice (tab st s)"
  shows "near s st (fold (\<lambda>v st. mark_write (to_write (tab st s) \<and> visible (tab st v) \<noteq> Tno) v st) (choice_list (kprops (tab st s))) st)"
proof (rule near_evolves, rule evolves_fold)
  fix v a assume "v \<in> set (choice_list (kprops (tab st s)))" "evolves {} st a"
  then have "\<not> ordinary (tab a v)"
    using assms evolves_same [of "{}" st a v] by (auto simp: wf_tab_def same_symbol_def ordinary_def)
  then show "evolves {} a (mark_write (to_write (tab a s) \<and> visible (tab a v) \<noteq> Tno) v a)"
    by (intro evolves_mark) simp
qed simp

lemma near_finish:
  assumes "evolving calc" "wf_tab st" "finish_value calc s old st = Some st'" "need_set (tab st s) \<longrightarrow> choice (tab st s)"
  shows "near s st st'"
proof -
  obtain st1 where 1: "(if choice (tab st s) \<and> vtri (curr (tab st s)) = Tyes
       then do { (d, st) \<leftarrow> sym_calc_choice calc s st; Some (upd s (\<lambda>k. k\<lparr>curr := (curr k)\<lparr>vsym := d\<rparr>\<rparr>) st) }
       else Some st) = Some st1"
    and r1: "do { st \<leftarrow> sym_validate_range calc s st1;
     let st = (if curr (tab st s) \<noteq> old \<and> modules st = s then st\<lparr>modules_val := vtri (curr (tab st s))\<rparr> else st);
     let st = (if choice (tab st s)
       then fold (\<lambda>v st. mark_write (to_write (tab st s) \<and> visible (tab st v) \<noteq> Tno) v st) (choice_list (kprops (tab st s))) st
       else st);
     let st = (if auto (tab st s) then upd s (\<lambda>k. k\<lparr>to_write := False\<rparr>) st else st);
     Some (if need_set (tab st s) then set_all_choice_values s st else st) } = Some st'"
    using assms(3) unfolding finish_value_def bind_Some_iff by blast
  from 1 have n1: "near s st st1"
    by (auto simp: bind_Some_iff split: if_splits dest: near_chosen [OF assms(1,2)])
  note w1 = near_wf [OF assms(2) n1]
  obtain st2 where 2: "sym_validate_range calc s st1 = Some st2" using r1 by (auto simp: bind_Some_iff)
  define st3 where "st3 = (if curr (tab st2 s) \<noteq> old \<and> modules st2 = s then st2\<lparr>modules_val := vtri (curr (tab st2 s))\<rparr> else st2)"
  define st4 where "st4 = (if choice (tab st3 s)
       then fold (\<lambda>v st. mark_write (to_write (tab st s) \<and> visible (tab st v) \<noteq> Tno) v st) (choice_list (kprops (tab st3 s))) st3
       else st3)"
  define st5 where "st5 = (if auto (tab st4 s) then upd s (\<lambda>k. k\<lparr>to_write := False\<rparr>) st4 else st4)"
  have st': "st' = (if need_set (tab st5 s) then set_all_choice_values s st5 else st5)"
    using r1 unfolding 2 Option.bind.simps Let_def st3_def [symmetric] st4_def [symmetric] st5_def [symmetric] by simp
  note n2 = near_trans [OF n1 near_range [OF assms(1) w1 2]]
  have n3: "near s st st3"
    by (rule near_trans [OF n2 near_same_tab]) (simp_all add: st3_def)
  have n4: "near s st st4"
    by (rule near_trans [OF n3]) (simp add: st4_def near_mark_values [OF near_wf [OF assms(2) n3]])
  have n5: "near s st st5"
    by (rule near_trans [OF n4]) (simp add: st5_def near_write)
  have "need_set (tab st5 s) \<longrightarrow> choice (tab st5 s)"
    using assms(4) near_same [OF n5, of s] by (auto simp: same_symbol_def)
  then have "near s st5 st'"
    unfolding st' using near_evolves [OF evolves_set_all [OF near_wf [OF assms(2) n5]]] by simp
  from near_trans [OF n5 this] show ?thesis .
qed

text \<open>The calculated truth value of a logical symbol.\<close>

lemma tristate_cases: "t = Tno \<or> t = Tmod \<or> t = Tyes"
  by (cases t) simp_all

lemma string_settled_logical: "logical_type (ktype k) \<Longrightarrow> string_settled k"
  by (auto simp: string_settled_def logical_type_def)

lemma calc_tristate_settles:
  assumes "evolving calc" "wf_tab st" "calc_tristate calc s st = Some (tri, st')"
  shows near_tristate: "near s st st'" and "ktype (tab st s) = S_BOOLEAN \<Longrightarrow> tri \<noteq> Tmod"
    and "ordinary (tab st s) \<Longrightarrow> valid (tab st s) \<Longrightarrow> logical_type (ktype (tab st s)) \<Longrightarrow> settled ((tab st' s)\<lparr>curr := (curr (tab st' s))\<lparr>vtri := tri\<rparr>\<rparr>)"
proof -
  let ?k = "tab st s"
  obtain tri1 st1 where 1: "(if choiceval ?k \<and> visible ?k = Tyes
        then do { c \<leftarrow> choice_symbol (kprops ?k); Some (if vsym (curr (tab st c)) = Some s then Tyes else Tno, st) }
        else do {
          (tri, st) \<leftarrow> (if visible ?k \<noteq> Tno \<and> def_user ?k then Some (EXPR_AND (vtri (user ?k)) (visible ?k), st)
            else default_tristate calc s st);
          Some (select_tristate s tri st) }) = Some (tri1, st1)"
    and tri: "tri = final_tristate st1 s tri1" and st': "st' = st1"
    using assms(3) by (auto simp: calc_tristate_def Let_def bind_Some_iff)
  have sel: "near s a (snd (select_tristate s t a))" "tab (snd (select_tristate s t a)) = tab a" for t a
    by (auto simp: select_tristate_def intro!: near_same_tab)
  have "near s st st1 \<and> (ordinary ?k \<longrightarrow> (\<exists>t st0. near s st st0 \<and> st1 = snd (select_tristate s t st0)
      \<and> tri1 = EXPR_OR t (rev_dep (tab st0 s)) \<and> (visible ?k \<noteq> Tno \<and> def_user ?k \<longrightarrow> t = EXPR_AND (vtri (user ?k)) (visible ?k))))"
  proof (cases "choiceval ?k \<and> visible ?k = Tyes")
    case True
    with 1 show ?thesis by (auto simp: bind_Some_iff ordinary_def)
  next
    case False
    with 1 obtain t st0 where 2: "(if visible ?k \<noteq> Tno \<and> def_user ?k then Some (EXPR_AND (vtri (user ?k)) (visible ?k), st)
            else default_tristate calc s st) = Some (t, st0)" "select_tristate s t st0 = (tri1, st1)"
      by (auto simp: bind_Some_iff)
    have n: "near s st st0" using 2(1) near_default [OF assms(1,2)] by (auto split: if_splits)
    have "st1 = snd (select_tristate s t st0)" "tri1 = EXPR_OR t (rev_dep (tab st0 s))"
      using 2(2) by (auto simp: select_tristate_def)
    moreover have "near s st st1" using near_trans [OF n sel(1)] calculation(1) by simp
    moreover have "visible ?k \<noteq> Tno \<and> def_user ?k \<longrightarrow> t = EXPR_AND (vtri (user ?k)) (visible ?k)" using 2(1) by auto
    ultimately show ?thesis using n by blast
  qed
  note A = this
  then show n: "near s st st'" unfolding st' by blast
  have same: "same_symbol ?k (tab st1 s)" using near_same [OF n] unfolding st' .
  show bool: "tri \<noteq> Tmod" if "ktype ?k = S_BOOLEAN"
    using that same unfolding tri by (auto simp: final_tristate_def sym_get_type_def Let_def same_symbol_def)
  show "settled ((tab st' s)\<lparr>curr := (curr (tab st' s))\<lparr>vtri := tri\<rparr>\<rparr>)" if o: "ordinary ?k" "valid ?k" "logical_type (ktype ?k)"
  proof -
    obtain t st0 where t: "near s st st0" "st1 = snd (select_tristate s t st0)" "tri1 = EXPR_OR t (rev_dep (tab st0 s))"
      "visible ?k \<noteq> Tno \<and> def_user ?k \<longrightarrow> t = EXPR_AND (vtri (user ?k)) (visible ?k)"
      using A o by blast
    obtain w x where k: "tab st1 s = ?k\<lparr>to_write := w, curr := (curr ?k)\<lparr>vstr := x\<rparr>\<rparr>"
      using t(1) o sel(2) [of t st0] unfolding t(2) near_def adjusted_def by auto
    have r: "tri1 = EXPR_OR t (rev_dep ?k)" using t(3) k sel(2) [of t st0] unfolding t(2) by simp
    have T: "tri = tri1 \<or> (tri1 = Tmod \<and> tri = Tyes)" unfolding tri final_tristate_def by auto
    have "rev_dep ?k \<le> tri1" unfolding r EXPR_OR_def by (auto simp: less_imp_le)
    also have "tri1 \<le> tri" using T by (auto simp: less_eq_tristate_def)
    finally have R: "rev_dep ?k \<le> tri" .
    moreover have "string_settled (?k\<lparr>to_write := w, curr := (curr ?k)\<lparr>vstr := x, vtri := tri\<rparr>\<rparr>)"
      by (rule string_settled_logical) (simp add: o(3))
    ultimately show ?thesis
      unfolding st' k settled_def Let_def using bool T r R t(4) by auto
  qed
qed

lemma settled_adjusted: "settled k \<Longrightarrow> adjusted k k' \<Longrightarrow> settled k'"
  by (auto simp: settled_def string_settled_def adjusted_def Let_def)

text \<open>A step of the calculation in which the symbol's own value is written.\<close>

definition computes :: "symref \<Rightarrow> kst \<Rightarrow> kst \<Rightarrow> bool" where
  "computes s st st' \<longleftrightarrow> evolves {s} st st' \<and> (ordinary (tab st s) \<longrightarrow> valid (tab st' s) \<and> settled (tab st' s))"

lemma computes_near:
  assumes "computes s a b" "near s b c"
  shows "computes s a c"
proof -
  have e: "evolves {s} a b" "evolves {s} b c" using assms unfolding computes_def near_def by auto
  have "valid (tab c s) \<and> settled (tab c s)" if "ordinary (tab a s)"
  proof -
    have "ordinary (tab b s)" "valid (tab b s)" "settled (tab b s)"
      using that assms(1) same_symbol_ordinary [OF evolves_same [OF e(1), of s]] unfolding computes_def by auto
    then show ?thesis using assms(2) adjusted_same settled_adjusted unfolding near_def by blast
  qed
  with evolves_trans [OF e] show ?thesis unfolding computes_def by blast
qed

lemma computes_evolves: "computes s a b \<Longrightarrow> \<not> valid (tab a s) \<Longrightarrow> evolves {} a b"
  unfolding computes_def evolves_def by auto

lemma settled_string: "\<not> logical_type (ktype k) \<Longrightarrow> string_settled k \<Longrightarrow> settled k"
  by (simp add: settled_def)

lemma body_computes:
  assumes "evolving calc" "wf_tab st" "calc_body calc s st = Some st'" "need_set (tab st s) \<longrightarrow> choice (tab st s)"
  shows "computes s st st'"
proof (cases "ktype (tab st s) = S_UNKNOWN \<or> ktype (tab st s) = S_OTHER")
  case True
  let ?f = "\<lambda>k. k\<lparr>curr := (curr k)\<lparr>vstr := kname k, vsym := None, vtri := Tno\<rparr>\<rparr>"
  from True assms(3) have st': "st' = upd s ?f (upd s (\<lambda>k. k\<lparr>valid := True\<rparr>) st)"
    by (simp add: calc_body_def Let_def)
  have "evolves {s} st st'"
    unfolding st' by (rule evolves_trans [OF evolves_upd evolves_upd]) (simp_all add: same_symbol_def boolean_ok_def todo_def)
  moreover have "settled (tab st' s)" using True by (intro settled_string) (auto simp: st' logical_type_def string_settled_def)
  ultimately show ?thesis by (simp add: computes_def st')
next
  case False
  let ?k = "tab st s" and ?new = "\<lparr>vstr = if logical_type (ktype (tab st s)) then ''n'' else [], vsym = None, vtri = Tno\<rparr>"
  define st1 where "st1 = upd s (\<lambda>k. k\<lparr>to_write := False\<rparr>) (upd s (\<lambda>k. k\<lparr>valid := True\<rparr>) st)"
  from assms(3) False obtain st2 where 2: "sym_calc_visibility calc s st1 = Some st2"
    unfolding calc_body_def Let_def st1_def [symmetric] by (auto simp: bind_Some_iff)
  define st3 where "st3 = upd s (\<lambda>k. k\<lparr>curr := ?new\<rparr>) (mark_write (visible (tab st2 s) \<noteq> Tno) s st2)"
  obtain st4 where 4: "(if logical_type (ktype ?k)
          then do { (tri, st) \<leftarrow> calc_tristate calc s st3; Some (upd s (\<lambda>k. k\<lparr>curr := ?new\<lparr>vtri := tri\<rparr>\<rparr>) st) }
          else do { (str, st) \<leftarrow> calc_string calc s st3; Some (upd s (\<lambda>k. k\<lparr>curr := ?new\<lparr>vstr := str\<rparr>\<rparr>) st) }) = Some st4"
    and fin: "finish_value calc s (curr ?k) st4 = Some st'"
    using assms(3) unfolding calc_body_def Let_def st1_def [symmetric] if_not_P [OF False] 2 Option.bind.simps st3_def [symmetric] bind_Some_iff
    by blast
  have 1: "evolves {s} st st1"
    unfolding st1_def by (rule evolves_trans [OF evolves_upd evolves_upd]) (simp_all add: same_symbol_def boolean_ok_def todo_def)
  have e2: "evolves {s} st1 st2"
    by (rule evolves_visibility [OF assms(1) evolves_wf [OF assms(2) 1] 2]) simp
  have e3: "evolves {s} st2 st3"
    unfolding st3_def by (rule evolves_trans [OF evolves_mark evolves_upd]) (simp_all add: same_symbol_def boolean_ok_def todo_def)
  note e = evolves_trans [OF 1 evolves_trans [OF e2 e3]]
  note w = evolves_wf [OF assms(2) e]
  have k: "same_symbol ?k (tab st3 s)" by (rule evolves_same [OF e])
  have o: "ordinary (tab st3 s) = ordinary ?k" by (rule same_symbol_ordinary [OF k])
  have "valid (tab st1 s)" by (simp add: st1_def)
  then have v: "ordinary ?k \<longrightarrow> valid (tab st3 s)"
    using evolves_trans [OF e2 e3] same_symbol_ordinary [OF evolves_same [OF 1, of s]] unfolding evolves_def by blast
  have "computes s st st4"
  proof (cases "logical_type (ktype ?k)")
    case True
    with 4 obtain tri st5 where 5: "calc_tristate calc s st3 = Some (tri, st5)" "st4 = upd s (\<lambda>k. k\<lparr>curr := ?new\<lparr>vtri := tri\<rparr>\<rparr>) st5"
      by (auto simp: bind_Some_iff)
    note c = calc_tristate_settles [OF assms(1) w 5(1)]
    have k5: "same_symbol ?k (tab st5 s)" by (rule same_symbol_trans [OF k near_same [OF c(1)]])
    have "evolves {s} st st4"
      unfolding 5(2) using c(1) c(2) k k5
      by (intro evolves_trans [OF e evolves_trans [OF _ evolves_upd]]) (auto simp: near_def same_symbol_def boolean_ok_def todo_def)
    moreover have "settled (tab st4 s) \<and> valid (tab st4 s)" if "ordinary ?k"
    proof -
      have l: "logical_type (ktype (tab st3 s))" "logical_type (ktype (tab st5 s))"
        using True k k5 by (simp_all add: same_symbol_def)
      have "adjusted (tab st3 s) (tab st5 s)" "valid (tab st3 s)" using c(1) v o that unfolding near_def by auto
      then have "valid (tab st5 s)" using adjusted_same by blast
      moreover have "settled ((tab st5 s)\<lparr>curr := (curr (tab st5 s))\<lparr>vtri := tri\<rparr>\<rparr>)"
        using c(3) v o that l by simp
      moreover have "string_settled (tab st4 s)" by (rule string_settled_logical) (use l in \<open>simp add: 5(2)\<close>)
      ultimately show ?thesis using l(2) unfolding 5(2) settled_def Let_def by simp
    qed
    ultimately show ?thesis unfolding computes_def by blast
  next
    case False
    with 4 obtain str st5 where 5: "calc_string calc s st3 = Some (str, st5)" "st4 = upd s (\<lambda>k. k\<lparr>curr := ?new\<lparr>vstr := str\<rparr>\<rparr>) st5"
      by (auto simp: bind_Some_iff)
    note c = near_string [OF assms(1) w 5(1)]
    have k5: "same_symbol ?k (tab st5 s)" by (rule same_symbol_trans [OF k near_same [OF c]])
    have "evolves {s} st st4"
      unfolding 5(2) using c
      by (intro evolves_trans [OF e evolves_trans [OF _ evolves_upd]]) (auto simp: near_def same_symbol_def boolean_ok_def todo_def)
    moreover have "settled (tab st4 s) \<and> valid (tab st4 s)" if "ordinary ?k"
    proof -
      have a: "adjusted (tab st3 s) (tab st5 s)" "valid (tab st3 s)" using c v o that unfolding near_def by auto
      have "string_settled (tab st4 s)"
        using string_of_user [OF 5(1)] a(1) unfolding 5(2) by (auto simp: string_settled_def adjusted_def)
      moreover have "\<not> logical_type (ktype (tab st4 s))" using False k5 by (simp add: 5(2) same_symbol_def)
      ultimately show ?thesis using settled_string adjusted_same [OF a(1)] a(2) by (simp add: 5(2))
    qed
    ultimately show ?thesis unfolding computes_def by blast
  qed
  moreover have "near s st4 st'"
  proof (rule near_finish [OF assms(1) _ fin])
    show "wf_tab st4" using assms(2) evolves_wf calculation unfolding computes_def by blast
    show "need_set (tab st4 s) \<longrightarrow> choice (tab st4 s)"
      using calculation assms(4) evolves_same [of "{s}" st st4 s] by (auto simp: computes_def same_symbol_def)
  qed
  ultimately show ?thesis by (rule computes_near)
qed

theorem calc_value_evolves:
  "wf_tab st \<Longrightarrow> sym_calc_value n s st = Some st' \<Longrightarrow> evolves {} st st' \<and> (ordinary (tab st s) \<longrightarrow> valid (tab st' s))"
proof (induction n arbitrary: s st st')
  case (Suc n)
  have ev: "evolving (sym_calc_value n)" unfolding evolving_def using Suc.IH by blast
  show ?case
  proof (cases "valid (tab st s)")
    case True
    with Suc.prems(2) show ?thesis by simp
  next
    case False
    show ?thesis
    proof (cases "choiceval (tab st s) \<and> need_set (tab st s)")
      case True
      define st1 where "st1 = upd s (\<lambda>k. k\<lparr>need_set := False\<rparr>) st"
      from True False Suc.prems(2) obtain c st2 where 2: "sym_calc_value n c st1 = Some st2" "calc_body (sym_calc_value n) s st2 = Some st'"
        by (auto simp: bind_Some_iff st1_def)
      have 1: "evolves {} st st1"
        unfolding st1_def by (rule evolves_upd) (use True in \<open>simp_all add: ordinary_def same_symbol_def boolean_ok_def todo_def\<close>)
      note e2 = evolvingD [OF ev evolves_wf [OF Suc.prems(1) 1] 2(1)]
      have "\<not> need_set (tab st2 s)" using evolves_same [OF e2, of s] by (auto simp: st1_def same_symbol_def)
      then have c: "computes s st2 st'"
        by (intro body_computes [OF ev evolves_wf [OF Suc.prems(1) evolves_trans [OF 1 e2]] 2(2)]) simp
      have n: "\<not> ordinary (tab st2 s)" "\<not> ordinary (tab st s)"
        using True evolves_same [OF evolves_trans [OF 1 e2], of s] by (simp_all add: ordinary_def same_symbol_def)
      from c n(1) have "evolves {} st2 st'" unfolding computes_def evolves_def by blast
      with n(2) show ?thesis using evolves_trans [OF evolves_trans [OF 1 e2]] by blast
    next
      case no: False
      with False Suc.prems(2) have 2: "calc_body (sym_calc_value n) s st = Some st'" by auto
      have "need_set (tab st s) \<longrightarrow> choice (tab st s)" using no Suc.prems(1) by (auto simp: wf_tab_def ordinary_def)
      from body_computes [OF ev Suc.prems(1) 2 this] False show ?thesis
        using computes_evolves unfolding computes_def by blast
    qed
  qed
qed simp

end
