(* ===== verification/Value_Total.thy ===== *)
theory Value_Total
  imports Value_Laws
begin

text \<open>
  The calculation of values ends: a symbol is marked as calculated before the symbols it needs
  are asked for, and the values of a choice are set at most once. The bound on the depth is the
  number of symbols still to calculate, counting a choice that waits to be set twice.
\<close>

section \<open>Tables that can be calculated\<close>

text \<open>
  The pointers that the calculation follows: a choice value has its choice, a default of a choice
  is a symbol and a range has two bounds.
\<close>

definition pointers_ok :: "kst \<Rightarrow> bool" where
  "pointers_ok st \<longleftrightarrow> (\<forall>s. (choiceval (tab st s) \<longrightarrow> choice_symbol (kprops (tab st s)) \<noteq> None)
     \<and> (\<forall>p \<in> set (kprops (tab st s)).
          (choice (tab st s) \<and> ptype p = P_DEFAULT \<longrightarrow> prop_get_symbol p \<noteq> None)
          \<and> (ptype p = P_RANGE \<longrightarrow> (\<exists>low high. pexpr p = Range low high))))"

definition ready :: "symref set \<Rightarrow> nat \<Rightarrow> kst \<Rightarrow> bool" where
  "ready U m st \<longleftrightarrow> wf_tab st \<and> pointers_ok st \<and> finite U \<and> (\<forall>x. x \<notin> U \<longrightarrow> todo (tab st x) = 0)
     \<and> (\<Sum>x\<in>U. todo (tab st x)) \<le> m"

lemma ready_wf: "ready U m st \<Longrightarrow> wf_tab st"
  by (simp add: ready_def)

lemma ready_pointers:
  assumes "ready U m st"
  shows "choiceval (tab st s) \<Longrightarrow> \<exists>c. choice_symbol (kprops (tab st s)) = Some c"
    and "choice (tab st s) \<Longrightarrow> \<forall>p \<in> set (kprops (tab st s)). ptype p = P_DEFAULT \<longrightarrow> prop_get_symbol p \<noteq> None"
    and "p \<in> set (kprops (tab st s)) \<Longrightarrow> ptype p = P_RANGE \<Longrightarrow> \<exists>low high. pexpr p = Range low high"
  using assms unfolding ready_def pointers_ok_def by blast+

lemma ready_mono:
  assumes "ready U m st" "\<And>x. same_symbol (tab st x) (tab st' x) \<and> todo (tab st' x) \<le> todo (tab st x)"
  shows "ready U m st'"
proof -
  have s: "same_symbol (tab st x) (tab st' x)" "todo (tab st' x) \<le> todo (tab st x)" for x using assms(2) by blast+
  have "choice (tab st' x) = choice (tab st x) \<and> choiceval (tab st' x) = choiceval (tab st x) \<and> kprops (tab st' x) = kprops (tab st x)
    \<and> ordinary (tab st' x) = ordinary (tab st x) \<and> (need_set (tab st' x) \<longrightarrow> need_set (tab st x))" for x
    using s(1) [of x] by (auto simp: same_symbol_def ordinary_def)
  then have "wf_tab st' \<and> pointers_ok st'" using assms(1) unfolding ready_def wf_tab_def pointers_ok_def by simp
  moreover have "(\<Sum>x\<in>U. todo (tab st' x)) \<le> (\<Sum>x\<in>U. todo (tab st x))" by (rule sum_mono) (rule s(2))
  moreover have "todo (tab st' x) = 0" if "x \<notin> U" for x using s(2) [of x] assms(1) that unfolding ready_def by simp
  ultimately show ?thesis using assms(1) unfolding ready_def by auto
qed

lemma ready_evolves: "ready U m st \<Longrightarrow> evolves E st st' \<Longrightarrow> ready U m st'"
  by (erule ready_mono) (simp add: evolves_def)

lemma ready_near: "ready U m st \<Longrightarrow> near s st st' \<Longrightarrow> ready U m st'"
  unfolding near_def by (blast intro: ready_evolves)

lemma ready_upd: "ready U m st \<Longrightarrow> same_symbol (tab st s) (f (tab st s)) \<Longrightarrow> todo (f (tab st s)) \<le> todo (tab st s) \<Longrightarrow> ready U m (upd s f st)"
  by (erule ready_mono) simp

lemma ready_step:
  assumes "ready U m st" "todo (f (tab st s)) < todo (tab st s)" "same_symbol (tab st s) (f (tab st s))"
  shows "m > 0 \<and> ready U (m - 1) (upd s f st)"
proof -
  have s: "s \<in> U" using assms(1,2) unfolding ready_def by (metis less_nat_zero_code)
  have U: "finite U" "(\<Sum>x\<in>U. todo (tab st x)) \<le> m" using assms(1) unfolding ready_def by auto
  have "(\<Sum>x\<in>U. todo (tab (upd s f st) x)) < (\<Sum>x\<in>U. todo (tab st x))"
    by (rule sum_strict_mono_ex1 [OF U(1)]) (use s assms(2) in auto)
  with U(2) have "(\<Sum>x\<in>U. todo (tab (upd s f st) x)) \<le> m - 1" "m > 0" by linarith+
  moreover have "ready U m (upd s f st)" by (rule ready_upd [OF assms(1)]) (use assms(2,3) in simp_all)
  ultimately show ?thesis unfolding ready_def by blast
qed

lemma ready_fields:
  assumes "ready U m st"
  shows "ready U m (upd s (\<lambda>k. k\<lparr>visible := t\<rparr>) st)" "ready U m (upd s (\<lambda>k. k\<lparr>dir_dep := t\<rparr>) st)"
    "ready U m (upd s (\<lambda>k. k\<lparr>rev_dep := t\<rparr>) st)" "ready U m (upd s (\<lambda>k. k\<lparr>implied := t\<rparr>) st)"
    "ready U m (upd s (\<lambda>k. k\<lparr>curr := g k\<rparr>) st)" "ready U m (upd s (\<lambda>k. k\<lparr>to_write := b\<rparr>) st)"
  by (rule ready_upd [OF assms]; simp add: same_symbol_def todo_def)+

lemma ready_mark: "ready U m st \<Longrightarrow> ready U m (mark_write b s st)"
  by (rule ready_near [OF _ near_mark])

section \<open>What a calculation needs from the calculation of other symbols\<close>

locale calculation =
  fixes calc :: calc and U :: "symref set" and m :: nat
  assumes evolving: "evolving calc"
    and returns: "ready U m st \<Longrightarrow> \<exists>st'. calc s st = Some st'"
begin

lemma calc_ok: "ready U m st \<Longrightarrow> \<exists>st'. calc s st = Some st' \<and> ready U m st'"
  using returns [of st s] evolvingD [OF evolving ready_wf] ready_evolves by blast

lemma string_ok: "ready U m st \<Longrightarrow> \<exists>v st'. get_string_value calc s st = Some (v, st') \<and> ready U m st'"
  using calc_ok [of st "modules st"] by (auto simp: get_string_value_def split: tristate.splits)

lemma expr_ok: "ready U m st \<Longrightarrow> \<exists>v st'. calc_expr calc e st = Some (v, st') \<and> ready U m st'"
proof (induction e arbitrary: st)
  case (Comp r a b)
  obtain st1 where 1: "calc a st = Some st1" "ready U m st1" using calc_ok Comp by blast
  obtain st2 where 2: "calc b st1 = Some st2" "ready U m st2" using calc_ok 1(2) by blast
  obtain x st3 where 3: "get_string_value calc a st2 = Some (x, st3)" "ready U m st3" using string_ok 2(2) by blast
  obtain y st4 where 4: "get_string_value calc b st3 = Some (y, st4)" "ready U m st4" using string_ok 3(2) by blast
  from 1(1) 2(1) 3(1) 4 show ?case by simp
next
  case (Two t l r)
  obtain v1 st1 where 1: "calc_expr calc l st = Some (v1, st1)" "ready U m st1" using Two by blast
  obtain v2 st2 where 2: "calc_expr calc r st1 = Some (v2, st2)" "ready U m st2" using Two.IH(2) 1(2) by blast
  from 1(1) 2 show ?case by simp
next
  case (Not e)
  then obtain v1 st1 where "calc_expr calc e st = Some (v1, st1)" "ready U m st1" by blast
  then show ?case by simp
next
  case (Symb s)
  then obtain st1 where "calc s st = Some st1" "ready U m st1" using calc_ok by blast
  then show ?case by simp
qed

lemma option_ok: "ready U m st \<Longrightarrow> \<exists>v st'. calc_option calc d e st = Some (v, st') \<and> ready U m st'"
  using expr_ok by (auto simp: calc_option_def split: option.splits)

lemma prop_expr_ok: "ready U m st \<Longrightarrow> \<exists>v st'. calc_prop_expr calc e st = Some (v, st') \<and> ready U m st'"
  using expr_ok by (auto simp: calc_prop_expr_def split: prop_expr.splits)

lemma first_ok:
  "ready U m st \<Longrightarrow> \<exists>p st'. first_visible calc t ps st = Some (p, st') \<and> ready U m st'
     \<and> (\<forall>q v. p = Some (q, v) \<longrightarrow> q \<in> set ps \<and> ptype q = t)"
proof (induction ps arbitrary: st)
  case (Cons q ps)
  show ?case
  proof (cases "ptype q = t")
    case True
    obtain v st1 where 1: "calc_option calc Tyes (visible_expr q) st = Some (v, st1)" "ready U m st1"
      using option_ok [OF Cons.prems] by blast
    show ?thesis using True 1 Cons.IH [OF 1(2)] by (cases "v = Tno") auto
  next
    case False
    with Cons.IH [OF Cons.prems] show ?thesis by auto
  qed
qed simp

lemma prompts_ok: "ready U m st \<Longrightarrow> \<exists>v st'. calc_prompts calc ty c ps tri st = Some (v, st') \<and> ready U m st'"
proof (induction ps arbitrary: st tri)
  case (Cons q ps)
  show ?case
  proof (cases "ptext q = None")
    case False
    obtain v st1 where "calc_option calc Tyes (visible_expr q) st = Some (v, st1)" "ready U m st1"
      using option_ok [OF Cons.prems] by blast
    with False Cons.IH [of st1] show ?thesis by (auto simp: Let_def)
  qed (use Cons in simp)
qed simp

lemma default_choice_ok:
  "ready U m st \<Longrightarrow> (\<forall>p \<in> set ps. ptype p = P_DEFAULT \<longrightarrow> prop_get_symbol p \<noteq> None) \<Longrightarrow>
   \<exists>d st'. default_choice calc ps st = Some (d, st') \<and> ready U m st'"
proof (induction ps arbitrary: st)
  case (Cons q ps)
  show ?case
  proof (cases "ptype q = P_DEFAULT")
    case True
    obtain v st1 where 1: "calc_option calc Tyes (visible_expr q) st = Some (v, st1)" "ready U m st1"
      using option_ok [OF Cons.prems(1)] by blast
    obtain d where d: "prop_get_symbol q = Some d" using Cons.prems(2) True by auto
    show ?thesis using True 1 d Cons.IH [OF 1(2)] Cons.prems(2) by (cases "v = Tno") auto
  qed (use Cons in auto)
qed simp

lemma visibility_ok:
  assumes "ready U m st"
  shows "\<exists>st'. sym_calc_visibility calc s st = Some st' \<and> ready U m st'"
proof -
  let ?k = "tab st s"
  obtain c where c: "(if choiceval ?k then map_option Some (choice_symbol (kprops ?k)) else Some None) = Some c"
    using ready_pointers(1) [OF assms, of s] by (cases "choiceval ?k") auto
  obtain t1 st1 where 1: "calc_prompts calc (ktype ?k) c (kprops ?k) Tno st = Some (t1, st1)" "ready U m st1"
    using prompts_ok [OF assms] by blast
  define st2 where "st2 = upd s (\<lambda>k. k\<lparr>visible := if t1 = Tmod \<and> (ktype ?k \<noteq> S_TRISTATE \<or> modules_val st1 = Tno) then Tyes else t1\<rparr>) st1"
  have r2: "ready U m st2" unfolding st2_def by (rule ready_fields [OF 1(2)])
  show ?thesis
  proof (cases "choiceval ?k")
    case True
    have "sym_calc_visibility calc s st = Some st2"
      unfolding sym_calc_visibility_def Let_def c 1(1) Option.bind.simps prod.case st2_def [symmetric]
      unfolding if_P [OF True] by (rule refl)
    with r2 show ?thesis by blast
  next
    case False
    obtain t3 st3 where 3: "calc_option calc Tyes (dir_expr ?k) st2 = Some (t3, st3)" "ready U m st3"
      using option_ok [OF r2] by blast
    define st4 where "st4 = upd s (\<lambda>k. k\<lparr>dir_dep := promote st3 s t3\<rparr>) st3"
    have r4: "ready U m st4" unfolding st4_def by (rule ready_fields [OF 3(2)])
    obtain t5 st5 where 5: "calc_option calc Tno (rev_expr ?k) st4 = Some (t5, st5)" "ready U m st5"
      using option_ok [OF r4] by blast
    define st6 where "st6 = upd s (\<lambda>k. k\<lparr>rev_dep := promote st5 s t5\<rparr>) st5"
    have r6: "ready U m st6" unfolding st6_def by (rule ready_fields [OF 5(2)])
    obtain t7 st7 where 7: "(if dir_dep (tab st6 s) \<noteq> Tno then calc_option calc Tno (implied_expr ?k) st6 else Some (Tno, st6)) = Some (t7, st7)"
      "ready U m st7"
      using option_ok [OF r6, of Tno "implied_expr ?k"] r6 by (cases "dir_dep (tab st6 s) = Tno") auto
    have "sym_calc_visibility calc s st = Some (upd s (\<lambda>k. k\<lparr>implied := promote st7 s t7\<rparr>) st7)"
      unfolding sym_calc_visibility_def Let_def c 1(1) Option.bind.simps prod.case st2_def [symmetric]
      unfolding if_not_P [OF False]
        3(1) Option.bind.simps prod.case st4_def [symmetric] 5(1) st6_def [symmetric] 7(1) by (rule refl)
    with ready_fields(4) [OF 7(2)] show ?thesis by blast
  qed
qed

lemma values_ok: "ready U m st \<Longrightarrow> \<exists>f st'. calc_values calc vs f0 st = Some (f, st') \<and> ready U m st'"
proof (induction vs arbitrary: st f0)
  case (Cons v vs)
  obtain st1 where "sym_calc_visibility calc v st = Some st1" "ready U m st1"
    using visibility_ok [OF Cons.prems] by blast
  with Cons.IH [of st1] show ?case by simp
qed simp

lemma choice_default_ok:
  assumes "ready U m st" "choice (tab st s)"
  shows "\<exists>d st'. sym_choice_default calc s st = Some (d, st') \<and> ready U m st'"
proof -
  obtain d st1 where "default_choice calc (kprops (tab st s)) st = Some (d, st1)" "ready U m st1"
    using default_choice_ok [OF assms(1) ready_pointers(2) [OF assms]] by blast
  then show ?thesis by (simp add: sym_choice_default_def)
qed

lemma calc_choice_ok:
  assumes "ready U m st" "choice (tab st s)"
  shows "\<exists>d st'. sym_calc_choice calc s st = Some (d, st')"
proof -
  obtain f st1 where 1: "calc_values calc (choice_list (kprops (tab st s))) (def_user (tab st s)) st = Some (f, st1)" "ready U m st1"
    using values_ok [OF assms(1)] by blast
  have "evolves {} st st1"
    by (rule evolves_values [OF evolving ready_wf [OF assms(1)] _ 1(1)]) (use assms in \<open>auto simp: ready_def wf_tab_def\<close>)
  then have c: "choice (tab st1 s)" using assms(2) evolves_same [of "{}" st st1 s] by (simp add: same_symbol_def)
  define st2 where "st2 = upd s (\<lambda>k. k\<lparr>def_user := def_user k \<and> f\<rparr>) st1"
  have r2: "ready U m st2" unfolding st2_def by (rule ready_upd [OF 1(2)]) (simp_all add: same_symbol_def todo_def ordinary_def c)
  have c2: "choice (tab st2 s)" using c by (simp add: st2_def)
  obtain d st3 where "sym_choice_default calc s st2 = Some (d, st3)" using choice_default_ok [OF r2 c2] by blast
  then show ?thesis
    unfolding sym_calc_choice_def Let_def 1(1) Option.bind.simps prod.case st2_def [symmetric]
    by (auto split: option.splits)
qed

lemma out_of_range_ok: "ready U m st \<Longrightarrow> \<exists>v st'. out_of_range calc low high base i st = Some (v, st')"
proof -
  have g: "\<exists>j b. sym_get_range_val calc x base a = Some (j, b) \<and> ready U m b" if "ready U m a" for x a
    using calc_ok [OF that] by (fastforce simp: sym_get_range_val_def)
  assume "ready U m st"
  from g [OF this, of low] obtain v2 st1 where 1: "sym_get_range_val calc low base st = Some (v2, st1)" "ready U m st1" by blast
  from g [OF 1(2), of high] 1(1) show ?thesis by (auto simp: out_of_range_def)
qed

lemma range_ok:
  assumes "ready U m st"
  shows "\<exists>st'. sym_validate_range calc s st = Some st'"
proof (cases "ktype (tab st s) \<noteq> S_INT \<and> ktype (tab st s) \<noteq> S_HEX")
  case True
  then show ?thesis by (simp add: sym_validate_range_def Let_def)
next
  case False
  obtain p st1 where 1: "first_visible calc P_RANGE (kprops (tab st s)) st = Some (p, st1)" "ready U m st1"
    "\<forall>q v. p = Some (q, v) \<longrightarrow> q \<in> set (kprops (tab st s)) \<and> ptype q = P_RANGE"
    using first_ok [OF assms] by blast
  show ?thesis
  proof (cases p)
    case None
    then show ?thesis using 1(1) unfolding sym_validate_range_def Let_def if_not_P [OF False] by simp
  next
    case (Some pv)
    then obtain q v where q: "p = Some (q, v)" by (cases pv) simp
    with 1(3) ready_pointers(3) [OF assms] obtain low high where "pexpr q = Range low high" by blast
    moreover obtain b st2 where "out_of_range calc low high (range_base (ktype (tab st s)) 0)
        (fst (strtoll (vstr (curr (tab st1 s))) (range_base (ktype (tab st s)) 0))) st1 = Some (b, st2)"
      using out_of_range_ok [OF 1(2)] by blast
    ultimately show ?thesis using 1(1) q unfolding sym_validate_range_def Let_def if_not_P [OF False] by simp
  qed
qed

lemma default_ok:
  assumes "ready U m st"
  shows "\<exists>t st'. default_tristate calc s st = Some (t, st')"
proof -
  define st1 where "st1 = mark_write (rev_dep (tab st s) \<noteq> Tno) s st"
  have r1: "ready U m st1" unfolding st1_def by (rule ready_mark [OF assms])
  obtain p st2 where 2: "first_visible calc P_DEFAULT (kprops (tab st1 s)) st1 = Some (p, st2)" "ready U m st2"
    using first_ok [OF r1] by blast
  show ?thesis
  proof (cases "p = None")
    case True
    then show ?thesis using 2(1) unfolding default_tristate_def Let_def st1_def [symmetric] by simp
  next
    case False
    then obtain q v where q: "p = Some (q, v)" by auto
    obtain t st3 where "calc_prop_expr calc (pexpr q) st2 = Some (t, st3)" using prop_expr_ok [OF 2(2)] by blast
    then show ?thesis using 2(1) q unfolding default_tristate_def Let_def st1_def [symmetric] by simp
  qed
qed

lemma tristate_ok:
  assumes "ready U m st"
  shows "\<exists>t st'. calc_tristate calc s st = Some (t, st')"
proof -
  obtain t st1 where d: "default_tristate calc s st = Some (t, st1)" using default_ok [OF assms] by blast
  obtain t2 st2 where s: "select_tristate s (EXPR_AND (vtri (user (tab st s))) (visible (tab st s))) st = (t2, st2)" by (cases "select_tristate s (EXPR_AND (vtri (user (tab st s))) (visible (tab st s))) st")
  obtain t3 st3 where s3: "select_tristate s t st1 = (t3, st3)" by (cases "select_tristate s t st1")
  show ?thesis
    using d s s3 ready_pointers(1) [OF assms, of s] by (auto simp: calc_tristate_def Let_def)
qed

lemma calc_string_ok:
  assumes "ready U m st"
  shows "\<exists>v st'. calc_string calc s st = Some (v, st')"
proof -
  obtain p st1 where 1: "first_visible calc P_DEFAULT (kprops (tab st s)) st = Some (p, st1)" "ready U m st1"
    using first_ok [OF assms] by blast
  show ?thesis
  proof (cases "Option.bind p (\<lambda>(p, _). prop_get_symbol p)")
    case (Some ds)
    obtain st2 where "calc ds (mark_write True s st1) = Some st2" using returns [OF ready_mark [OF 1(2)]] by blast
    then show ?thesis using 1(1) unfolding calc_string_def Let_def by (simp add: Some del: bind_Some_iff bind_eq_Some_conv)
  qed (use 1(1) in \<open>simp add: calc_string_def Let_def\<close>)
qed

lemma finish_ok:
  assumes "ready U m st"
  shows "\<exists>st'. finish_value calc s old st = Some st'"
proof -
  obtain st1 where 1: "(if choice (tab st s) \<and> vtri (curr (tab st s)) = Tyes
       then do { (d, st) \<leftarrow> sym_calc_choice calc s st; Some (upd s (\<lambda>k. k\<lparr>curr := (curr k)\<lparr>vsym := d\<rparr>\<rparr>) st) }
       else Some st) = Some st1" "ready U m st1"
  proof (cases "choice (tab st s) \<and> vtri (curr (tab st s)) = Tyes")
    case True
    then obtain d st1 where d: "sym_calc_choice calc s st = Some (d, st1)" using calc_choice_ok [OF assms] by blast
    show thesis
      by (rule that) (use True d ready_near [OF assms near_chosen [OF evolving ready_wf [OF assms] _ d]] in simp_all)
  next
    case False
    show thesis by (rule that [OF _ assms]) (simp add: False)
  qed
  obtain st2 where "sym_validate_range calc s st1 = Some st2" using range_ok [OF 1(2)] by blast
  with 1(1) show ?thesis unfolding finish_value_def Let_def by simp
qed

lemma body_ok:
  assumes "ready U m (upd s (\<lambda>k. k\<lparr>valid := True\<rparr>) st)"
  shows "\<exists>st'. calc_body calc s st = Some st'"
proof (cases "ktype (tab st s) = S_UNKNOWN \<or> ktype (tab st s) = S_OTHER")
  case True
  then show ?thesis by (simp add: calc_body_def Let_def)
next
  case False
  let ?k = "tab st s" and ?new = "\<lparr>vstr = if logical_type (ktype (tab st s)) then ''n'' else [], vsym = None, vtri = Tno\<rparr>"
  define st1 where "st1 = upd s (\<lambda>k. k\<lparr>to_write := False\<rparr>) (upd s (\<lambda>k. k\<lparr>valid := True\<rparr>) st)"
  have r1: "ready U m st1" unfolding st1_def by (rule ready_fields [OF assms])
  obtain st2 where 2: "sym_calc_visibility calc s st1 = Some st2" "ready U m st2" using visibility_ok [OF r1] by blast
  define st3 where "st3 = upd s (\<lambda>k. k\<lparr>curr := ?new\<rparr>) (mark_write (visible (tab st2 s) \<noteq> Tno) s st2)"
  have r3: "ready U m st3" unfolding st3_def by (rule ready_fields [OF ready_mark [OF 2(2)]])
  note w3 = ready_wf [OF r3]
  obtain st4 where 4: "(if logical_type (ktype ?k)
          then do { (tri, st) \<leftarrow> calc_tristate calc s st3; Some (upd s (\<lambda>k. k\<lparr>curr := ?new\<lparr>vtri := tri\<rparr>\<rparr>) st) }
          else do { (str, st) \<leftarrow> calc_string calc s st3; Some (upd s (\<lambda>k. k\<lparr>curr := ?new\<lparr>vstr := str\<rparr>\<rparr>) st) }) = Some st4" "ready U m st4"
  proof (cases "logical_type (ktype ?k)")
    case True
    obtain t a where a: "calc_tristate calc s st3 = Some (t, a)" using tristate_ok [OF r3] by blast
    have "ready U m a" by (rule ready_near [OF r3 near_tristate [OF evolving w3 a]])
    from that [OF _ ready_fields(5) [OF this]] show thesis using True a by simp
  next
    case False
    obtain v a where a: "calc_string calc s st3 = Some (v, a)" using calc_string_ok [OF r3] by blast
    have "ready U m a" by (rule ready_near [OF r3 near_string [OF evolving w3 a]])
    from that [OF _ ready_fields(5) [OF this]] show thesis using False a by simp
  qed
  obtain st5 where "finish_value calc s (curr ?k) st4 = Some st5" using finish_ok [OF 4(2)] by blast
  then show ?thesis
    unfolding calc_body_def Let_def st1_def [symmetric] if_not_P [OF False] 2(1) Option.bind.simps st3_def [symmetric] 4(1)
    by blast
qed

end

section \<open>Termination\<close>

lemma ready_start: "ready U m st \<Longrightarrow> \<not> valid (tab st s) \<Longrightarrow> m > 0 \<and> ready U (m - 1) (upd s (\<lambda>k. k\<lparr>valid := True\<rparr>) st)"
  by (erule ready_step) (simp_all add: todo_def same_symbol_def)

lemma ready_weaken: "ready U k st \<Longrightarrow> k \<le> m \<Longrightarrow> ready U m st"
  unfolding ready_def by auto

lemma calc_value_returns: "ready U m st \<Longrightarrow> m < n \<Longrightarrow> \<exists>st'. sym_calc_value n s st = Some st'"
proof (induction n arbitrary: m s st)
  case (Suc n)
  show ?case
  proof (cases "valid (tab st s)")
    case False
    note start = ready_start [OF Suc.prems(1) False]
    have c: "calculation (sym_calc_value n) U (m - 1)"
    proof
      show "evolving (sym_calc_value n)" unfolding evolving_def using calc_value_evolves by blast
      show "\<exists>st'. sym_calc_value n s st = Some st'" if "ready U (m - 1) st" for st s
        by (rule Suc.IH [OF that]) (use start Suc.prems(2) in arith)
    qed
    show ?thesis
    proof (cases "choiceval (tab st s) \<and> need_set (tab st s)")
      case True
      define st1 where "st1 = upd s (\<lambda>k. k\<lparr>need_set := False\<rparr>) st"
      obtain ch where ch: "choice_symbol (kprops (tab st s)) = Some ch" using ready_pointers(1) [OF Suc.prems(1)] True by blast
      have r1: "ready U (m - 1) st1"
        unfolding st1_def using ready_step [OF Suc.prems(1), of "\<lambda>k. k\<lparr>need_set := False\<rparr>" s] True
        by (simp add: todo_def same_symbol_def ordinary_def)
      obtain st2 where 2: "sym_calc_value n ch st1 = Some st2" "ready U (m - 1) st2"
        using calculation.calc_ok [OF c r1] by blast
      have "ready U (m - 1) (upd s (\<lambda>k. k\<lparr>valid := True\<rparr>) st2)"
        by (rule ready_upd [OF 2(2)]) (simp_all add: todo_def same_symbol_def)
      from calculation.body_ok [OF c this] show ?thesis
        using False True ch 2(1) by (simp add: st1_def)
    next
      case no: False
      from calculation.body_ok [OF c, of s st] start show ?thesis using False no by auto
    qed
  qed simp
qed simp

text \<open>The contract holds for \<open>sym_calc_value\<close> at every bound.\<close>

interpretation sv: calculation "sym_calc_value (Suc m)" U m for m U
proof
  show "evolving (sym_calc_value (Suc m))" unfolding evolving_def using calc_value_evolves by blast
  show "\<exists>st'. sym_calc_value (Suc m) s st = Some st'" if "ready U m st" for st s
    by (rule calc_value_returns [OF that]) simp
qed

end
