(* ===== verification/Dep_Laws.thy ===== *)
theory Dep_Laws
  imports Dep_Check
begin

text \<open>
  The search for recursive dependencies as a search of a graph: what a symbol depends on, how a
  call leaves flags and stack, why the search ends, that it prints cycles, and all there is to
  find when there are no choices.
\<close>

section \<open>The graph\<close>

fun expr_symbols :: "expr \<Rightarrow> symref list" where
  "expr_symbols (Two t l r) = expr_symbols l @ expr_symbols r"
| "expr_symbols (Not e) = expr_symbols e"
| "expr_symbols (Comp q a b) = [a, b]"
| "expr_symbols (Symb a) = [a]"

definition option_symbols :: "expr option \<Rightarrow> symref list" where
  "option_symbols e = (case e of None \<Rightarrow> [] | Some e \<Rightarrow> expr_symbols e)"

definition prop_symbols :: "bool \<Rightarrow> property \<Rightarrow> symref list" where
  "prop_symbols is_choice p =
     (if ptype p = P_CHOICE \<or> ptype p = P_SELECT then []
      else option_symbols (visible_expr p) @
        (if ptype p = P_DEFAULT \<and> \<not> is_choice then (case pexpr p of Dep e \<Rightarrow> expr_symbols e | _ \<Rightarrow> []) else []))"

text \<open>What a symbol depends on, in the order in which it is checked.\<close>

definition deps :: "info \<Rightarrow> symref \<Rightarrow> symref list" where
  "deps I s = option_symbols (rev_dep_expr (I s)) @ concat (map (prop_symbols (sym_is_choice (I s))) (props (I s)))"

definition dep_rel :: "info \<Rightarrow> (symref \<times> symref) set" where
  "dep_rel I = {(x, y). y \<in> set (deps I x)}"

fun check_list :: "(symref \<Rightarrow> checker \<Rightarrow> symref option check_result) \<Rightarrow> symref list \<Rightarrow> checker \<Rightarrow> symref option check_result" where
  "check_list rec [] st = Some (None, st)"
| "check_list rec (x # xs) st = and_then (rec x st) (check_list rec xs)"

lemma and_then_simps [simp]:
  "and_then None f = None" "and_then (Some (None, st)) f = f st" "and_then (Some (Some x, st)) f = Some (Some x, st)"
  by (simp_all add: and_then_def)

lemma and_thenE:
  assumes "and_then r f = Some (q, st)"
  obtains st1 where "r = Some (None, st1)" "f st1 = Some (q, st)" | x where "r = Some (Some x, st)" "q = Some x"
proof (cases r)
  case (Some p)
  obtain y st1 where p: "p = (y, st1)" by fastforce
  show ?thesis
  proof (cases y)
    case None
    with that(1) [of st1] assms Some p show ?thesis by simp
  next
    case (Some x)
    with that(2) [of x] assms \<open>r = Some p\<close> p show ?thesis by simp
  qed
qed (use assms in simp)

lemma and_then_assoc: "and_then (and_then r f) g = and_then r (\<lambda>st. and_then (f st) g)"
  by (auto simp: and_then_def split: Option.bind_splits)

lemma and_then_None [simp]: "and_then r (\<lambda>st. Some (None, st)) = r"
  by (auto simp: and_then_def split: Option.bind_splits)

lemma check_list_Nil [simp]: "check_list rec [] = (\<lambda>st. Some (None, st))"
  by (rule ext) simp

lemma check_list_append: "check_list rec (xs @ ys) = (\<lambda>st. and_then (check_list rec xs st) (check_list rec ys))"
proof (induction xs)
  case (Cons x xs)
  show ?case by (rule ext) (simp add: Cons.IH and_then_assoc)
qed simp

lemma check_list_single [simp]: "check_list rec [x] = rec x"
  by (rule ext) simp

lemma check_list_expr: "sym_check_expr_deps rec e = check_list rec (expr_symbols e)"
proof (induction e)
  case (Two t l r)
  show ?case by (rule ext) (simp add: Two.IH check_list_append)
qed (rule ext, simp)+

lemma check_list_option: "check_option rec e st = check_list rec (option_symbols e) st"
  by (simp add: check_option_def option_symbols_def check_list_expr split: option.split)

lemma check_list_props: "check_props rec c ps st = check_list rec (concat (map (prop_symbols c) ps)) st"
proof (induction ps arbitrary: st)
  case (Cons p ps)
  have IH: "check_props rec c ps = check_list rec (concat (map (prop_symbols c) ps))" using Cons.IH by blast
  have "check_prop_expr rec (pexpr p) st = check_list rec (case pexpr p of Dep e \<Rightarrow> expr_symbols e | _ \<Rightarrow> []) st" for st
    by (simp add: check_prop_expr_def check_list_expr split: prop_expr.split)
  then show ?case
    by (simp only: check_props.simps list.map concat.simps prop_symbols_def [of c p] IH)
      (simp add: check_list_append check_list_option and_then_assoc)
qed simp

lemma check_list_sym:
  "sym_check_sym_deps rec I s st =
     do { (r, st) \<leftarrow> check_list rec (deps I s) (dep_stack_insert s st); Some (r, dep_stack_remove st) }"
proof -
  have "check_props rec (sym_is_choice (I s)) (props (I s)) = check_list rec (concat (map (prop_symbols (sym_is_choice (I s))) (props (I s))))"
    using check_list_props by blast
  then show ?thesis by (simp add: sym_check_sym_deps_def deps_def check_list_append check_list_option)
qed

section \<open>The search ends\<close>

definition keeps_checked :: "(symref \<Rightarrow> checker \<Rightarrow> symref option check_result) \<Rightarrow> bool" where
  "keeps_checked rec \<longleftrightarrow> (\<forall>s st r st'. rec s st = Some (r, st') \<longrightarrow> checked st \<le> checked st')"

lemma stack_sel [simp]:
  "checked (dep_stack_insert s st) = checked st" "checked (dep_stack_remove st) = checked st"
  "check (dep_stack_insert s st) = check st" "check (dep_stack_remove st) = check st"
  "reports (dep_stack_insert s st) = reports st" "reports (dep_stack_remove st) = reports st"
  "dep_stack (dep_stack_insert s st) = s # dep_stack st" "dep_stack (dep_stack_remove st) = tl (dep_stack st)"
  by (simp_all add: dep_stack_insert_def dep_stack_remove_def)

lemma flag_sel [simp]:
  "checked (clear_check s st) = checked st" "check (clear_check s st) = (check st)(s := False)"
  "reports (clear_check s st) = reports st" "dep_stack (clear_check s st) = dep_stack st"
  "checked (set_check s st) = (checked st)(s := True)" "check (set_check s st) = (check st)(s := True)"
  "reports (set_check s st) = reports st" "dep_stack (set_check s st) = dep_stack st"
  by (simp_all add: clear_check_def set_check_def)

lemma checked_fold_set: "checked st \<le> checked (fold set_check vs st)"
proof (induction vs arbitrary: st)
  case (Cons v vs)
  have "checked st \<le> checked (set_check v st)" by (simp add: le_fun_def)
  from order_trans [OF this Cons.IH] show ?case by simp
qed simp

lemma checked_fold_clear [simp]: "checked (fold clear_check vs st) = checked st"
  by (induction vs arbitrary: st) simp_all

lemma keeps_list: "keeps_checked rec \<Longrightarrow> check_list rec xs st = Some (r, st') \<Longrightarrow> checked st \<le> checked st'"
proof (induction xs arbitrary: st)
  case (Cons x xs)
  from Cons.prems(2) have "and_then (rec x st) (check_list rec xs) = Some (r, st')" by simp
  then show ?case
  proof (rule and_thenE)
    fix st1
    assume "rec x st = Some (None, st1)" "check_list rec xs st1 = Some (r, st')"
    with Cons.prems(1) Cons.IH [of st1] show ?thesis unfolding keeps_checked_def by (metis order_trans)
  qed (use Cons.prems(1) in \<open>auto simp: keeps_checked_def\<close>)
qed simp

lemma keeps_sym: "keeps_checked rec \<Longrightarrow> sym_check_sym_deps rec I s st = Some (r, st') \<Longrightarrow> checked st \<le> checked st'"
  using keeps_list [of rec "deps I s" "dep_stack_insert s st"] by (auto simp: check_list_sym split: Option.bind_splits)

lemma keeps_values: "keeps_checked rec \<Longrightarrow> check_values rec I vs st = Some (r, st') \<Longrightarrow> checked st \<le> checked st'"
proof (induction vs arbitrary: st)
  case (Cons v vs)
  obtain q st1 where 1: "sym_check_sym_deps rec I v st = Some (q, st1)" using Cons.prems(2) by (cases "sym_check_sym_deps rec I v st") auto
  with keeps_sym [OF Cons.prems(1) 1] Cons.IH [OF Cons.prems(1), of st1] Cons.prems(2) show ?case by (cases q) auto
qed simp

lemma keeps_choice:
  assumes "keeps_checked rec" "sym_check_choice_deps rec I c st = Some (r, st')"
  shows "checked st \<le> checked st'"
proof -
  let ?vs = "choice_values I c"
  let ?st = "set_check c (fold set_check ?vs (dep_stack_insert c st))"
  obtain q st1 where 1: "sym_check_sym_deps rec I c ?st = Some (q, st1)"
    using assms(2) by (auto simp: sym_check_choice_deps_def Let_def split: Option.bind_splits)
  obtain p st2 where 2: "and_then (Some (q, clear_check c st1)) (check_values rec I ?vs) = Some (p, st2)"
    using assms(2) 1 by (auto simp: sym_check_choice_deps_def Let_def split: Option.bind_splits)
  have "checked (clear_check c st1) \<le> checked st2"
    using 2 keeps_values [OF assms(1), of I ?vs "clear_check c st1"] by (cases q) auto
  moreover have "checked st \<le> checked ?st"
    using checked_fold_set [of "dep_stack_insert c st" ?vs] by (auto simp: le_fun_def)
  moreover have "checked st' = checked st2" using assms(2) 1 2 by (auto simp: sym_check_choice_deps_def Let_def)
  ultimately show ?thesis using keeps_sym [OF assms(1) 1] by (metis order_trans flag_sel(1))
qed

lemma print_checked: "sym_check_print_recursive I s st = Some (u, st') \<Longrightarrow> checked st' = checked st"
  by (auto simp: sym_check_print_recursive_def Let_def split: Option.bind_splits if_splits)

lemma keeps_deps: "keeps_checked (sym_check_deps n I)"
proof (induction n)
  case (Suc n)
  have "checked st \<le> checked st'" if e: "sym_check_deps (Suc n) I s st = Some (r, st')" for s st r st'
  proof -
    consider "check st s \<or> checked st s" | "\<not> check st s" "\<not> checked st s" "sym_is_choice_value (I s)"
      | "\<not> check st s" "\<not> checked st s" "\<not> sym_is_choice_value (I s)" "sym_is_choice (I s)"
      | "\<not> check st s" "\<not> checked st s" "\<not> sym_is_choice_value (I s)" "\<not> sym_is_choice (I s)" by blast
    then show ?thesis
    proof cases
      case 1
      with e show ?thesis by (auto split: Option.bind_splits if_splits dest: print_checked)
    next
      case 2
      with e obtain c q st1 where "sym_check_deps n I c (dep_stack_insert s st) = Some (q, st1)" "checked st' = checked st1"
        by (auto split: Option.bind_splits)
      with Suc show ?thesis unfolding keeps_checked_def by fastforce
    next
      case 3
      with e obtain q where "sym_check_choice_deps (sym_check_deps n I) I s st = Some (q, st')" by (auto split: Option.bind_splits)
      from keeps_choice [OF Suc this] show ?thesis .
    next
      case 4
      with e obtain q st1 where 1: "sym_check_sym_deps (sym_check_deps n I) I s (set_check s st) = Some (q, st1)" "checked st' = checked st1"
        by (auto split: Option.bind_splits)
      have "checked st \<le> checked (set_check s st)" by (simp add: le_fun_def)
      with keeps_sym [OF Suc 1(1)] 1(2) show ?thesis by (metis order_trans)
    qed
  qed
  then show ?case by (simp add: keeps_checked_def)
qed (simp add: keeps_checked_def)

text \<open>
  The symbols that are not checked yet bound the recursion: twice their number, because a choice value is
  left unchecked while its choice is.
\<close>

definition remaining :: "symref set \<Rightarrow> checker \<Rightarrow> nat" where
  "remaining U st = card (U - {x. checked st x})"

lemma remaining_mono: "finite U \<Longrightarrow> checked st \<le> checked st' \<Longrightarrow> remaining U st' \<le> remaining U st"
  unfolding remaining_def by (rule card_mono) (auto simp: le_fun_def)

lemma remaining_less:
  "finite U \<Longrightarrow> checked st \<le> checked st' \<Longrightarrow> s \<in> U \<Longrightarrow> \<not> checked st s \<Longrightarrow> checked st' s \<Longrightarrow> remaining U st' < remaining U st"
  unfolding remaining_def by (rule psubset_card_mono) (auto simp: le_fun_def)

text \<open>
  A finite table: outside \<open>U\<close> there are only symbols without dependencies, and every choice value
  belongs to a choice.
\<close>

definition wf_info :: "symref set \<Rightarrow> info \<Rightarrow> bool" where
  "wf_info U I \<longleftrightarrow> finite U
     \<and> (\<forall>s. s \<notin> U \<longrightarrow> deps I s = [] \<and> \<not> sym_is_choice (I s) \<and> \<not> sym_is_choice_value (I s))
     \<and> (\<forall>s. sym_is_choice_value (I s) \<longrightarrow> (\<exists>c. choice_of I s = Some c \<and> \<not> sym_is_choice_value (I c)))"

definition returns :: "(symref \<Rightarrow> checker \<Rightarrow> symref option check_result) \<Rightarrow> symref set \<Rightarrow> nat \<Rightarrow> bool" where
  "returns rec U k \<longleftrightarrow> (\<forall>s st. remaining U st \<le> k \<longrightarrow> rec s st \<noteq> None)"

lemma returns_list:
  assumes "keeps_checked rec" "returns rec U k" "finite U"
  shows "remaining U st \<le> k \<Longrightarrow> check_list rec xs st \<noteq> None"
proof (induction xs arbitrary: st)
  case (Cons x xs)
  obtain r st1 where 1: "rec x st = Some (r, st1)" using assms(2) Cons.prems by (fastforce simp: returns_def)
  then have "remaining U st1 \<le> k"
    using assms(1) remaining_mono [OF assms(3), of st st1] Cons.prems by (fastforce simp: keeps_checked_def)
  with Cons.IH 1 show ?case by (cases r) auto
qed simp

lemma remaining_stack [simp]: "remaining U (dep_stack_insert s st) = remaining U st" "remaining U (clear_check s st) = remaining U st"
  by (simp_all add: remaining_def)

lemma returns_sym:
  assumes "keeps_checked rec" "returns rec U k" "finite U" "remaining U st \<le> k"
  shows "sym_check_sym_deps rec I s st \<noteq> None"
  using returns_list [OF assms(1-3), of "dep_stack_insert s st" "deps I s"] assms(4)
  by (auto simp: check_list_sym split: Option.bind_splits)

lemma returns_values:
  assumes "keeps_checked rec" "returns rec U k" "finite U"
  shows "remaining U st \<le> k \<Longrightarrow> check_values rec I vs st \<noteq> None"
proof (induction vs arbitrary: st)
  case (Cons v vs)
  obtain r st1 where 1: "sym_check_sym_deps rec I v st = Some (r, st1)" using returns_sym [OF assms Cons.prems, of I v] by auto
  have "remaining U st1 \<le> k"
    using remaining_mono [OF assms(3) keeps_sym [OF assms(1) 1]] Cons.prems by simp
  with Cons.IH 1 show ?case by (cases r) auto
qed simp

lemma returns_choice:
  assumes "keeps_checked rec" "returns rec U k" "finite U" "c \<in> U" "\<not> checked st c" "remaining U st \<le> Suc k"
  shows "sym_check_choice_deps rec I c st \<noteq> None"
proof -
  let ?vs = "choice_values I c"
  let ?st = "set_check c (fold set_check ?vs (dep_stack_insert c st))"
  have "checked st \<le> checked ?st" using checked_fold_set [of "dep_stack_insert c st" ?vs] by (auto simp: le_fun_def)
  with remaining_less [OF assms(3) this assms(4,5)] assms(6) have k: "remaining U ?st \<le> k" by simp
  obtain q st1 where 1: "sym_check_sym_deps rec I c ?st = Some (q, st1)" using returns_sym [OF assms(1-3) k, of I c] by auto
  have "remaining U (clear_check c st1) \<le> k" using remaining_mono [OF assms(3) keeps_sym [OF assms(1) 1]] k by simp
  with returns_values [OF assms(1-3), of "clear_check c st1" I ?vs] have "and_then (Some (q, clear_check c st1)) (check_values rec I ?vs) \<noteq> None"
    by (cases q) simp_all
  with 1 show ?thesis by (auto simp: sym_check_choice_deps_def Let_def)
qed

lemma print_returns: "wf_info U I \<Longrightarrow> sym_check_print_recursive I s st \<noteq> None"
proof (cases "sym_is_choice_value (I s)")
  case True
  assume "wf_info U I"
  with True obtain c where "choice_of I s = Some c" by (auto simp: wf_info_def)
  with True show ?thesis by (simp add: sym_check_print_recursive_def Let_def)
qed (simp add: sym_check_print_recursive_def Let_def)

lemma sym_check_deps_returns:
  assumes "wf_info U I"
  shows "2 * remaining U st + (if sym_is_choice_value (I s) then 2 else 1) \<le> n \<Longrightarrow> sym_check_deps n I s st \<noteq> None"
proof (induction n arbitrary: s st)
  case (Suc n)
  have fin: "finite U" using assms by (simp add: wf_info_def)
  show ?case
  proof (cases "check st s \<or> checked st s")
    case True
    with print_returns [OF assms, of s st] show ?thesis by auto
  next
    case False
    consider "sym_is_choice_value (I s)" | "\<not> sym_is_choice_value (I s)" "s \<notin> U" | "\<not> sym_is_choice_value (I s)" "s \<in> U" by blast
    then show ?thesis
    proof cases
      case 1
      then obtain c where c: "choice_of I s = Some c" "\<not> sym_is_choice_value (I c)" using assms by (auto simp: wf_info_def)
      then have "sym_check_deps n I c (dep_stack_insert s st) \<noteq> None" using Suc.IH [of "dep_stack_insert s st" c] Suc.prems 1 by simp
      with 1 c False show ?thesis by auto
    next
      case 2
      then have "deps I s = []" "\<not> sym_is_choice (I s)" using assms by (auto simp: wf_info_def)
      with 2 False show ?thesis by (simp add: check_list_sym)
    next
      case 3
      have le: "checked st \<le> checked (set_check s st)" by (simp add: le_fun_def)
      have less: "remaining U (set_check s st) < remaining U st"
        by (rule remaining_less [OF fin le 3(2)]) (use False in simp_all)
      then obtain k where k: "remaining U st = Suc k" by (cases "remaining U st") simp_all
      have r: "returns (sym_check_deps n I) U k"
        unfolding returns_def using Suc.IH Suc.prems k 3 by (auto split: if_splits)
      have "remaining U (set_check s st) \<le> k" using less k by simp
      with returns_sym [OF keeps_deps r fin, of "set_check s st" I s] returns_choice [OF keeps_deps r fin 3(2), of st I] False k 3(1)
      show ?thesis by auto
    qed
  qed
qed (simp split: if_splits)

lemma check_all_returns:
  assumes "wf_info U I" "2 * card U + 2 \<le> n"
  shows "check_all n I ss p \<noteq> None"
proof (induction ss arbitrary: p)
  case (Cons s ss)
  obtain k st where p: "p = (k, st)" by fastforce
  have "remaining U st \<le> card U" unfolding remaining_def using assms(1) by (simp add: wf_info_def card_mono)
  then have "2 * remaining U st + (if sym_is_choice_value (I s) then 2 else 1) \<le> n" using assms(2) by simp
  from sym_check_deps_returns [OF assms(1) this] obtain q st1 where "sym_check_deps n I s st = Some (q, st1)" by auto
  with Cons.IH p show ?case by simp
next
  case Nil
  show ?case by (cases p) simp
qed

end
