(* ===== verification/Value_Set.thy ===== *)
theory Value_Set
  imports Value_Total Dep_Laws
begin

text \<open>
  Setting a value and calculating again: the user's value reaches the symbol. And the value of an
  expression, calculated on demand, is the value of \<open>Expr\<close> in the table that is left.
\<close>

section \<open>Tables of a parsed configuration\<close>

text \<open>\<open>U\<close> holds every symbol that is not constant; the others are valid from the start.\<close>

definition table_ok :: "symref set \<Rightarrow> kst \<Rightarrow> bool" where
  "table_ok U st \<longleftrightarrow> wf_tab st \<and> pointers_ok st \<and> finite U \<and> (\<forall>x. x \<notin> U \<longrightarrow> todo (tab st x) = 0) \<and> set (symbols st) \<subseteq> U"

lemma table_ready:
  assumes "table_ok U st"
  shows "ready U (2 * card U) st"
proof -
  have "(\<Sum>x\<in>U. todo (tab st x)) \<le> of_nat (card U) * 2"
    by (rule sum_bounded_above) (simp add: todo_def)
  with assms show ?thesis by (simp add: ready_def table_ok_def mult.commute)
qed

lemma table_returns: "table_ok U st \<Longrightarrow> 2 * card U < n \<Longrightarrow> \<exists>st'. sym_calc_value n s st = Some st'"
  by (rule calc_value_returns [OF table_ready])

lemma table_evolves: "table_ok U st \<Longrightarrow> evolves E st st' \<Longrightarrow> table_ok U st'"
  using ready_evolves [OF table_ready, of U st E st'] by (auto simp: table_ok_def ready_def evolves_def)

definition clear_valid :: "kst \<Rightarrow> kst" where
  "clear_valid st = fold (\<lambda>s. upd s (\<lambda>k. k\<lparr>valid := False\<rparr>)) (symbols st) st"

lemma fold_clear:
  "tab (fold (\<lambda>s. upd s (\<lambda>k. k\<lparr>valid := False\<rparr>)) ss st) x = (if x \<in> set ss then (tab st x)\<lparr>valid := False\<rparr> else tab st x)"
  "symbols (fold (\<lambda>s. upd s (\<lambda>k. k\<lparr>valid := False\<rparr>)) ss st) = symbols st"
  "modules (fold (\<lambda>s. upd s (\<lambda>k. k\<lparr>valid := False\<rparr>)) ss st) = modules st"
  by (induction ss arbitrary: st) auto

lemma tab_clear [simp]:
  "tab (clear_valid st) x = (if x \<in> set (symbols st) then (tab st x)\<lparr>valid := False\<rparr> else tab st x)"
  "symbols (clear_valid st) = symbols st" "modules (clear_valid st) = modules st"
  by (simp_all add: clear_valid_def fold_clear)

lemma table_clear: "table_ok U st \<Longrightarrow> table_ok U (clear_valid st)"
  by (auto simp: table_ok_def wf_tab_def pointers_ok_def ordinary_def todo_def)

section \<open>Setting\<close>

definition with_user :: "symref \<Rightarrow> tristate \<Rightarrow> kst \<Rightarrow> kst" where
  "with_user s val st = upd s (\<lambda>k. k\<lparr>def_user := True, user := (user k)\<lparr>vtri := val\<rparr>\<rparr>) st"

lemma table_user: "table_ok U st \<Longrightarrow> table_ok U (with_user s val st)"
  unfolding with_user_def
  by (auto simp: table_ok_def wf_tab_def pointers_ok_def ordinary_def todo_def)

lemma upd_upd: "upd s g (upd s f st) = upd s (\<lambda>k. g (f k)) st"
  by (simp add: upd_def)

lemma set_tristate_ordinary:
  assumes "ordinary (tab st s)" "vtri (curr (tab st s)) \<noteq> val" "sym_tristate_within_range st s val"
  shows "sym_set_tristate_value n s val st =
    map_option (Pair True) (sym_calc_value n (modules st) (clear_valid (with_user s val st)))"
proof -
  have "upd s (\<lambda>k. k\<lparr>user := (user k)\<lparr>vtri := val\<rparr>\<rparr>) (upd s (\<lambda>k. k\<lparr>def_user := True\<rparr>) st) = with_user s val st"
    by (simp add: with_user_def upd_upd)
  with assms show ?thesis
    by (simp add: sym_set_tristate_value_def sym_clear_all_valid_def clear_valid_def [symmetric] ordinary_def with_user_def
        map_conv_bind_option comp_def del: upd_upd)
qed

text \<open>Once everything has been cleared, a calculated symbol is settled and has the user's value.\<close>

lemma calculated_settled:
  assumes "evolves {} st st'" "ordinary (tab st x)" "\<not> valid (tab st x)" "valid (tab st' x)"
  shows "settled (tab st' x) \<and> user (tab st' x) = user (tab st x) \<and> def_user (tab st' x) = def_user (tab st x)
    \<and> ktype (tab st' x) = ktype (tab st x)"
proof -
  have "tab st' x = tab st x \<or> settled (tab st' x)" using assms(1,2) unfolding evolves_def by auto
  moreover have "tab st' x \<noteq> tab st x" using assms(3,4) by auto
  ultimately show ?thesis using evolves_same [OF assms(1), of x] assms(2) by (simp add: same_symbol_def)
qed

lemma set_then_calc:
  assumes "table_ok U st" "2 * card U < n" "s \<in> set (symbols st)" "ordinary (tab st s)" "logical_type (ktype (tab st s))"
    "vtri (curr (tab st s)) \<noteq> val" "sym_tristate_within_range st s val"
  shows "\<exists>st1 st2. sym_set_tristate_value n s val st = Some (True, st1) \<and> sym_calc_value n s st1 = Some st2
    \<and> settled (tab st2 s) \<and> def_user (tab st2 s) \<and> vtri (user (tab st2 s)) = val \<and> ktype (tab st2 s) = ktype (tab st s)"
proof -
  define c where "c = clear_valid (with_user s val st)"
  have t: "table_ok U c" unfolding c_def by (rule table_clear [OF table_user [OF assms(1)]])
  have w: "wf_tab c" using t by (simp add: table_ok_def)
  obtain st1 where 1: "sym_calc_value n (modules st) c = Some st1" using table_returns [OF t assms(2)] by blast
  note e1 = conjunct1 [OF calc_value_evolves [OF w 1]]
  note t1 = table_evolves [OF t e1]
  obtain st2 where 2: "sym_calc_value n s st1 = Some st2" using table_returns [OF t1 assms(2)] by blast
  note w1 = evolves_wf [OF w e1]
  have sy: "symbols (with_user s val st) = symbols st" by (simp add: with_user_def)
  have k: "ordinary (tab c s)" "\<not> valid (tab c s)" "def_user (tab c s)" "vtri (user (tab c s)) = val" "ktype (tab c s) = ktype (tab st s)"
    using assms(3,4) sy unfolding c_def by (simp_all add: with_user_def ordinary_def)
  have "ordinary (tab st1 s)" using k(1) same_symbol_ordinary [OF evolves_same [OF e1, of s]] by simp
  with calc_value_evolves [OF w1 2] have e2: "evolves {} st1 st2" "valid (tab st2 s)" by auto
  from calculated_settled [OF evolves_trans [OF e1 e2(1)] k(1,2) e2(2)] k(3-5)
  show ?thesis using set_tristate_ordinary [OF assms(4,6,7)] 1 2 by (simp add: c_def)
qed

lemma toggle_boolean:
  assumes "table_ok U st" "2 * card U < n" "s \<in> set (symbols st)" "ordinary (tab st s)" "ktype (tab st s) = S_BOOLEAN"
    "visible (tab st s) = Tyes" "rev_dep (tab st s) = Tno" "vtri (curr (tab st s)) \<noteq> Tmod"
  defines "val \<equiv> (if vtri (curr (tab st s)) = Tyes then Tno else Tyes)"
  shows "\<exists>st1 st2. sym_toggle_tristate_value n s st = Some (val, st1) \<and> sym_calc_value n s st1 = Some st2
    \<and> settled (tab st2 s) \<and> def_user (tab st2 s) \<and> vtri (user (tab st2 s)) = val \<and> ktype (tab st2 s) = ktype (tab st s)"
proof -
  let ?old = "vtri (curr (tab st s))"
  have type: "sym_get_type st s = S_BOOLEAN" using assms(5) by (simp add: sym_get_type_def)
  have range: "sym_tristate_within_range st s val" "\<not> sym_tristate_within_range st s Tmod"
    using assms(4,6,7) unfolding sym_tristate_within_range_def Let_def type val_def
    by (auto simp: ordinary_def less_eq_tristate_def)
  have old: "?old \<noteq> val" using assms(8) by (simp add: val_def)
  obtain st1 st2 where 1: "sym_set_tristate_value n s val st = Some (True, st1)" "sym_calc_value n s st1 = Some st2"
    "settled (tab st2 s) \<and> def_user (tab st2 s) \<and> vtri (user (tab st2 s)) = val \<and> ktype (tab st2 s) = ktype (tab st s)"
    using set_then_calc [OF assms(1-4) _ old range(1)] assms(5) by (auto simp: logical_type_def)
  have "sym_toggle_tristate_value n s st = Some (val, st1)"
  proof (cases "?old")
    case Tno
    then have "sym_set_tristate_value n s Tmod st = Some (False, st)"
      using range(2) by (simp add: sym_set_tristate_value_def)
    with 1(1) Tno show ?thesis by (simp add: sym_toggle_tristate_value_def val_def numeral_3_eq_3)
  qed (use 1(1) assms(8) in \<open>simp_all add: sym_toggle_tristate_value_def val_def numeral_3_eq_3\<close>)
  with 1(2,3) show ?thesis by blast
qed

section \<open>Expressions calculated on demand\<close>

definition symtab_of :: "kst \<Rightarrow> symtab" where
  "symtab_of st = \<lparr>syms = (\<lambda>s. let k = tab st s in \<lparr>sname = kname k, stype = ktype k, scurr_val = vstr (curr k),
     scurr_tri = vtri (curr k), sconst = const k\<rparr>), modules_sym = modules st\<rparr>"

lemma expr_value_cong:
  assumes "modules st' = modules st" "tab st' (modules st) = tab st (modules st)"
  shows "\<forall>x \<in> set (expr_symbols e). tab st' x = tab st x \<Longrightarrow> expr_calc_value (symtab_of st') e = expr_calc_value (symtab_of st) e"
proof (induction e)
  case (Two t l r)
  then show ?case by (cases t) simp_all
next
  case (Comp r a b)
  then show ?case using assms by (simp add: compare_symbols_def symtab_of_def sym_get_string_value_def Let_def)
qed (simp_all add: symtab_of_def Let_def)

definition calculated :: "symref set \<Rightarrow> kst \<Rightarrow> bool" where
  "calculated X st \<longleftrightarrow> (\<forall>x \<in> X. ordinary (tab st x) \<and> valid (tab st x))"

lemma calculated_evolves: "calculated X st \<Longrightarrow> evolves {} st st' \<Longrightarrow> calculated X st' \<and> (\<forall>x \<in> X. tab st' x = tab st x)"
  unfolding calculated_def by (auto dest: evolves_valid [of "{}"])

lemma calc_ordinary:
  "wf_tab st \<Longrightarrow> ordinary (tab st s) \<Longrightarrow> sym_calc_value n s st = Some st' \<Longrightarrow>
   evolves {} st st' \<and> wf_tab st' \<and> ordinary (tab st' s) \<and> valid (tab st' s)"
  using calc_value_evolves [of st n s st'] same_symbol_ordinary [OF evolves_same [of "{}" st st' s]] evolves_wf by auto

lemma calc_valid: "valid (tab st s) \<Longrightarrow> sym_calc_value (Suc n) s st = Some st"
  by simp

text \<open>Once \<open>modules\<close> is calculated the string of a symbol is read without changing anything.\<close>

lemma string_value_calculated:
  "valid (tab st (modules st)) \<Longrightarrow> get_string_value (sym_calc_value (Suc n)) s st = Some (sym_get_string_value (symtab_of st) s, st)"
  by (simp add: get_string_value_def sym_get_string_value_def symtab_of_def Let_def logical_type_def split: tristate.split)

lemma calc_expr_value:
  assumes "wf_tab st" "calculated {modules st} st" "\<forall>x \<in> set (expr_symbols e). ordinary (tab st x)"
    "calc_expr (sym_calc_value n) e st = Some (v, st')"
  shows "calculated (set (expr_symbols e)) st' \<and> v = expr_calc_value (symtab_of st') e"
  using assms
proof (induction e arbitrary: st v st')
  case (Symb s)
  then obtain "sym_calc_value n s st = Some st'" "v = vtri (curr (tab st' s))" by auto
  then show ?case
    using calc_ordinary [OF Symb.prems(1)] Symb.prems(3) by (simp add: calculated_def symtab_of_def Let_def)
next
  case (Not e)
  then show ?case by auto
next
  case (Two t l r)
  have ev: "evolving (sym_calc_value n)" unfolding evolving_def using calc_value_evolves by blast
  obtain v1 st1 v2 where 1: "calc_expr (sym_calc_value n) l st = Some (v1, st1)" "calc_expr (sym_calc_value n) r st1 = Some (v2, st')"
    "v = (case t of E_AND \<Rightarrow> EXPR_AND v1 v2 | E_OR \<Rightarrow> EXPR_OR v1 v2)"
    using Two.prems(4) by auto
  note e1 = evolves_expr [OF ev Two.prems(1) 1(1)]
  note w1 = evolves_wf [OF Two.prems(1) e1]
  note e2 = evolves_expr [OF ev w1 1(2)]
  have m: "modules st1 = modules st" "modules st' = modules st1" using e1 e2 by (simp_all add: evolves_def)
  note m1 = calculated_evolves [OF Two.prems(2) e1]
  have o: "ordinary (tab st1 x) = ordinary (tab st x)" for x using same_symbol_ordinary [OF evolves_same [OF e1]] .
  have l: "calculated (set (expr_symbols l)) st1" "v1 = expr_calc_value (symtab_of st1) l"
    using Two.IH(1) [OF Two.prems(1,2) _ 1(1)] Two.prems(3) by simp_all
  have r: "calculated (set (expr_symbols r)) st'" "v2 = expr_calc_value (symtab_of st') r"
    using Two.IH(2) [OF w1 _ _ 1(2)] Two.prems(3) m1 m o by simp_all
  have m2: "tab st' (modules st1) = tab st1 (modules st1)"
    using calculated_evolves [OF _ e2, of "{modules st}"] m1 m by simp
  have "expr_calc_value (symtab_of st') l = expr_calc_value (symtab_of st1) l"
    by (rule expr_value_cong [OF m(2) m2]) (use calculated_evolves [OF l(1) e2] in simp)
  then show ?case
    using l r calculated_evolves [OF l(1) e2] 1(3) by (cases t) (auto simp: calculated_def)
next
  case (Comp r a b)
  obtain st1 st2 where 1: "sym_calc_value n a st = Some st1" "sym_calc_value n b st1 = Some st2"
    and r: "do {
     (str1, st) \<leftarrow> get_string_value (sym_calc_value n) a st2;
     (str2, st) \<leftarrow> get_string_value (sym_calc_value n) b st;
     Some (case compare_values r (ktype (tab st a)) str1 (ktype (tab st b)) str2 of
             None \<Rightarrow> Tno | Some res \<Rightarrow> tri_of (relation r res), st) } = Some (v, st')"
    using Comp.prems(4) unfolding calc_expr.simps bind_Some_iff by blast
  obtain n' where n: "n = Suc n'" using 1(1) by (cases n) auto
  have a: "evolves {} st st1" "wf_tab st1" "ordinary (tab st1 a)" "valid (tab st1 a)"
    using calc_ordinary [OF Comp.prems(1) _ 1(1)] Comp.prems(3) by auto
  have "ordinary (tab st1 b)" using same_symbol_ordinary [OF evolves_same [OF a(1), of b]] Comp.prems(3) by simp
  then have b: "evolves {} st1 st2" "ordinary (tab st2 b)" "valid (tab st2 b)"
    using calc_ordinary [OF a(2) _ 1(2)] by auto
  note e = evolves_trans [OF a(1) b(1)]
  have "calculated {a} st1" using a by (simp add: calculated_def)
  then have "calculated {a} st2" using calculated_evolves [OF _ b(1)] by blast
  with b(2,3) have c: "calculated {a, b} st2" by (simp add: calculated_def)
  have "modules st2 = modules st" using e by (simp add: evolves_def)
  moreover have "calculated {modules st} st2" using calculated_evolves [OF Comp.prems(2) e] by blast
  ultimately have "valid (tab st2 (modules st2))" by (simp add: calculated_def)
  note s = string_value_calculated [OF this, of n']
  have t: "stype (syms (symtab_of st2) x) = ktype (tab st2 x)" for x by (simp add: symtab_of_def Let_def)
  from r have "st' = st2 \<and> v = expr_calc_value (symtab_of st2) (Comp r a b)"
    unfolding n s Option.bind.simps prod.case expr_calc_value.simps compare_symbols_def t by auto
  with c show ?case by simp
qed

end
