(* ===== verification/Conf_File.thy ===== *)
theory Conf_File
  imports Expr
begin

text \<open>
  Configuration files: how src/support/kconfig/confdata.c writes the value of a symbol
  (\<open>conf_write_symbol\<close>, \<open>kconfig_print_symbol\<close>) and reads a file (\<open>conf_read_simple\<close> for the
  user's values, \<open>conf_set_sym_val\<close>), with \<open>sym_escape_string_value\<close> and \<open>sym_string_valid\<close> of
  symbol.c. A C string is its characters before the terminator; the prefix \<open>CONFIG_\<close>, which
  comes from the environment, is an argument.
\<close>

section \<open>Values as strings\<close>

abbreviation "newline \<equiv> CHR 0x0A"
abbreviation "carriage_return \<equiv> CHR 0x0D"
abbreviation "quote \<equiv> CHR 0x22"
abbreviation "backslash \<equiv> CHR 0x5C"

text \<open>\<open>str[0]\<close>, the terminator when the string is empty.\<close>

fun first :: "string \<Rightarrow> char" where
  "first [] = CHR 0x00" | "first (c # cs) = c"

definition sym_string_valid :: "symbol_type \<Rightarrow> string \<Rightarrow> bool" where
  "sym_string_valid type str = (case type of
     S_STRING \<Rightarrow> True
   | S_INT \<Rightarrow>
       (case (if first str = CHR ''-'' then tl str else str) of
          [] \<Rightarrow> False
        | c # cs \<Rightarrow> is_digit 10 c \<and> \<not> (c = CHR ''0'' \<and> cs \<noteq> []) \<and> (\<forall>d \<in> set cs. is_digit 10 d))
   | S_HEX \<Rightarrow>
       (let str = (if first str = CHR ''0'' \<and> (first (tl str) = CHR ''x'' \<or> first (tl str) = CHR ''X'') then drop 2 str else str)
        in str \<noteq> [] \<and> (\<forall>c \<in> set str. isxdigit c))
   | S_BOOLEAN \<Rightarrow> first str \<in> {CHR ''y'', CHR ''Y'', CHR ''m'', CHR ''M'', CHR ''n'', CHR ''N''}
   | S_TRISTATE \<Rightarrow> first str \<in> {CHR ''y'', CHR ''Y'', CHR ''m'', CHR ''M'', CHR ''n'', CHR ''N''}
   | S_UNKNOWN \<Rightarrow> False
   | S_OTHER \<Rightarrow> False)"

text \<open>The second loop of \<open>sym_escape_string_value\<close>, and the size its first loop allocates.\<close>

fun escape_chars :: "string \<Rightarrow> string" where
  "escape_chars [] = []"
| "escape_chars (c # cs) = (if c = quote \<or> c = backslash then [backslash, c] else [c]) @ escape_chars cs"

definition sym_escape_string_value :: "string \<Rightarrow> string" where
  "sym_escape_string_value str = [quote] @ escape_chars str @ [quote]"

fun escape_reslen :: "string \<Rightarrow> nat \<Rightarrow> nat" where
  "escape_reslen [] reslen = reslen"
| "escape_reslen (c # cs) reslen = escape_reslen cs (if c = quote \<or> c = backslash then reslen + 1 else reslen)"

definition escape_size :: "string \<Rightarrow> nat" where
  "escape_size str = escape_reslen str (length str + 2 + 1)"

text \<open>
  The loop over a quoted string in \<open>conf_set_sym_val\<close>: a backslash is removed and what follows
  it skipped, a quote ends the string; \<open>None\<close> when there is no quote.
\<close>

fun unescape :: "string \<Rightarrow> string option" where
  "unescape [] = None"
| "unescape (c # cs) =
     (if c = quote then Some []
      else if c = backslash then (case cs of [] \<Rightarrow> None | d # ds \<Rightarrow> map_option (Cons d) (unescape ds))
      else map_option (Cons c) (unescape cs))"

section \<open>Writing\<close>

definition kconfig_print_symbol :: "string \<Rightarrow> string \<Rightarrow> symbol_type \<Rightarrow> string \<Rightarrow> bool \<Rightarrow> string" where
  "kconfig_print_symbol CONFIG name type val skip_unset =
     (if (type = S_BOOLEAN \<or> type = S_TRISTATE) \<and> first val = CHR ''n''
      then (if skip_unset then [] else ''# '' @ CONFIG @ name @ '' is not set'' @ [newline])
      else CONFIG @ name @ ''='' @ val @ [newline])"

text \<open>With the value of \<open>sym_get_string_value\<close>, for the printer of configuration files.\<close>

definition conf_write_symbol :: "string \<Rightarrow> string \<Rightarrow> symbol_type \<Rightarrow> string \<Rightarrow> string" where
  "conf_write_symbol CONFIG name type str = (case type of
     S_OTHER \<Rightarrow> []
   | S_UNKNOWN \<Rightarrow> []
   | S_STRING \<Rightarrow> kconfig_print_symbol CONFIG name type (sym_escape_string_value str) False
   | _ \<Rightarrow> kconfig_print_symbol CONFIG name type str False)"

section \<open>Reading\<close>

text \<open>
  What reading sets in a symbol: \<open>uval\<close>, \<open>utri\<close> and \<open>uchosen\<close> are \<open>def[S_DEF_USER]\<close> (whose
  \<open>val\<close> is a symbol for a choice), \<open>uset\<close> is the flag SYMBOL_DEF_USER; \<open>uchoice\<close> is the choice
  of a choice value.
\<close>

record user =
  uname :: string
  utype :: symbol_type
  uval :: "string option"
  utri :: tristate
  uchosen :: "symref option"
  uset :: bool
  uchoice :: "symref option"
  uis_choice :: bool

record conf =
  users :: "symref \<Rightarrow> user"
  conf_warnings :: nat
  sym_change_count :: nat

definition set_user :: "symref \<Rightarrow> user \<Rightarrow> conf \<Rightarrow> conf" where
  "set_user s u st = st\<lparr>users := (users st)(s := u)\<rparr>"

definition conf_warning :: "conf \<Rightarrow> conf" where
  "conf_warning st = st\<lparr>conf_warnings := conf_warnings st + 1\<rparr>"

text \<open>\<open>conf_set_sym_val\<close> for S_DEF_USER: the symbol, the result and the number of warnings.\<close>

definition set_valid :: "user \<Rightarrow> string \<Rightarrow> user \<times> bool \<times> nat" where
  "set_valid u p =
     (if sym_string_valid (utype u) p then (u\<lparr>uval := Some p, uset := True\<rparr>, False, 0) else (u, True, 1))"

definition set_quoted :: "user \<Rightarrow> string \<Rightarrow> user \<times> bool \<times> nat" where
  "set_quoted u p =
     (if first p \<noteq> quote then (u, False, 0)
      else case unescape (tl p) of None \<Rightarrow> (u, True, 1) | Some p \<Rightarrow> set_valid u p)"

definition set_boolean :: "user \<Rightarrow> string \<Rightarrow> user \<times> bool \<times> nat" where
  "set_boolean u p =
     (if first p = CHR ''y'' then (u\<lparr>utri := Tyes, uset := True\<rparr>, False, 0)
      else if first p = CHR ''n'' then (u\<lparr>utri := Tno, uset := True\<rparr>, False, 0)
      else (u, True, 1))"

definition conf_set_sym_val :: "user \<Rightarrow> string \<Rightarrow> user \<times> bool \<times> nat" where
  "conf_set_sym_val u p = (case utype u of
     S_TRISTATE \<Rightarrow> if first p = CHR ''m'' then (u\<lparr>utri := Tmod, uset := True\<rparr>, False, 0) else set_boolean u p
   | S_BOOLEAN \<Rightarrow> set_boolean u p
   | S_OTHER \<Rightarrow> if first p \<noteq> quote then set_valid (u\<lparr>utype := S_STRING\<rparr>) p else set_quoted u p
   | S_STRING \<Rightarrow> set_quoted u p
   | S_INT \<Rightarrow> set_valid u p
   | S_HEX \<Rightarrow> set_valid u p
   | S_UNKNOWN \<Rightarrow> (u, False, 0))"

text \<open>From the label \<open>setsym\<close>: a choice value that is read also sets its choice.\<close>

definition setsym :: "symref \<Rightarrow> conf \<Rightarrow> conf" where
  "setsym s st = (case uchoice (users st s) of
     None \<Rightarrow> st
   | Some cs \<Rightarrow>
       let tri = utri (users st s); c = users st cs;
           (c, st) = (case tri of
              Tno \<Rightarrow> (c, st)
            | Tmod \<Rightarrow> if utri c = Tyes then (c\<lparr>uset := False\<rparr>, conf_warning st) else (c, st)
            | Tyes \<Rightarrow> (c\<lparr>uchosen := Some s\<rparr>, if utri c \<noteq> Tno then conf_warning st else st))
       in set_user cs (c\<lparr>utri := EXPR_OR (utri c) tri\<rparr>) st)"

definition warn_override :: "symref \<Rightarrow> conf \<Rightarrow> conf" where
  "warn_override s st = (if uset (users st s) then conf_warning st else st)"

text \<open>A line after \<open>#\<close>: \<open># NAME is not set\<close>. \<open>sym_find\<close> is an argument.\<close>

definition read_not_set :: "(string \<Rightarrow> symref option) \<Rightarrow> string \<Rightarrow> conf \<Rightarrow> conf" where
  "read_not_set sym_find text st =
     (case dropWhile (\<lambda>c. c \<noteq> CHR '' '') text of
        [] \<Rightarrow> st
      | _ # p \<Rightarrow>
          if take 10 p \<noteq> ''is not set'' then st
          else case sym_find (takeWhile (\<lambda>c. c \<noteq> CHR '' '') text) of
            None \<Rightarrow> st\<lparr>sym_change_count := sym_change_count st + 1\<rparr>
          | Some s \<Rightarrow>
              let st = warn_override s st; u = users st s
              in setsym s (if utype u = S_BOOLEAN \<or> utype u = S_TRISTATE then set_user s (u\<lparr>utri := Tno, uset := True\<rparr>) st else st))"

text \<open>The value after \<open>=\<close>, without the end of the line.\<close>

definition cut_line :: "string \<Rightarrow> string" where
  "cut_line p =
     (if newline \<in> set p then
        (let v = takeWhile (\<lambda>c. c \<noteq> newline) p in if v \<noteq> [] \<and> last v = carriage_return then butlast v else v)
      else p)"

definition read_assignment :: "(string \<Rightarrow> symref option) \<Rightarrow> string \<Rightarrow> conf \<Rightarrow> conf" where
  "read_assignment sym_find text st =
     (case dropWhile (\<lambda>c. c \<noteq> CHR ''='') text of
        [] \<Rightarrow> st
      | _ # p \<Rightarrow>
          case sym_find (takeWhile (\<lambda>c. c \<noteq> CHR ''='') text) of
            None \<Rightarrow> st\<lparr>sym_change_count := sym_change_count st + 1\<rparr>
          | Some s \<Rightarrow>
              let st = warn_override s st;
                  (u, failed, warned) = conf_set_sym_val (users st s) (cut_line p);
                  st = set_user s u (st\<lparr>conf_warnings := conf_warnings st + warned\<rparr>)
              in if failed then st else setsym s st)"

definition conf_read_line :: "string \<Rightarrow> (string \<Rightarrow> symref option) \<Rightarrow> string \<Rightarrow> conf \<Rightarrow> conf" where
  "conf_read_line CONFIG sym_find line st =
     (if first line = CHR ''#'' then
        (let text = drop 2 line in
         if take (length CONFIG) text \<noteq> CONFIG then st else read_not_set sym_find (drop (length CONFIG) text) st)
      else if take (length CONFIG) line = CONFIG then read_assignment sym_find (drop (length CONFIG) line) st
      else if first line \<noteq> carriage_return \<and> first line \<noteq> newline then conf_warning st else st)"

text \<open>\<open>compat_getline\<close> until the end of the file: lines keep their end, a last line need not have one.\<close>

fun getlines :: "string \<Rightarrow> string \<Rightarrow> string list" where
  "getlines line [] = (if line = [] then [] else [line])"
| "getlines line (c # cs) = (if c = newline then (line @ [c]) # getlines [] cs else getlines (line @ [c]) cs)"

text \<open>What \<open>conf_read_simple\<close> does first to every symbol that \<open>for_all_symbols\<close> visits.\<close>

definition clear_user :: "user \<Rightarrow> user" where
  "clear_user u = (if utype u = S_OTHER then u else u\<lparr>uset := uis_choice u, uval := None, uchosen := None, utri := Tno\<rparr>)"

definition conf_read_simple :: "string \<Rightarrow> (string \<Rightarrow> symref option) \<Rightarrow> string \<Rightarrow> conf \<Rightarrow> conf" where
  "conf_read_simple CONFIG sym_find file st =
     fold (conf_read_line CONFIG sym_find) (getlines [] file)
       (st\<lparr>users := (\<lambda>s. clear_user (users st s)), conf_warnings := 0\<rparr>)"

end
