(* ===== verification/Symbol_Strings.thy ===== *)
theory Symbol_Strings
  imports Value_Set Conf_File
begin

text \<open>
  Values given and asked for as text, in src/support/kconfig/symbol.c: \<open>sym_set_string_value\<close>, the default of
  a symbol (\<open>sym_get_string_default\<close>) and the expansion of symbols in a text, which confdata.c has a second
  time for file names (\<open>conf_expand_value\<close>). A write outside a buffer is undefined.
\<close>

section \<open>Setting a value\<close>

definition letter_tristate :: "string \<Rightarrow> tristate option" where
  "letter_tristate str =
     (if first str = CHR ''y'' \<or> first str = CHR ''Y'' then Some Tyes
      else if first str = CHR ''m'' \<or> first str = CHR ''M'' then Some Tmod
      else if first str = CHR ''n'' \<or> first str = CHR ''N'' then Some Tno else None)"

definition sym_string_within_range :: "nat \<Rightarrow> symref \<Rightarrow> string \<Rightarrow> kst \<Rightarrow> (bool \<times> kst) option" where
  "sym_string_within_range n s str st =
     (let k = tab st s; calc = sym_calc_value n in
      if ktype k = S_STRING then Some (sym_string_valid (ktype k) str, st)
      else if ktype k = S_INT \<or> ktype k = S_HEX then
        (if \<not> sym_string_valid (ktype k) str then Some (False, st)
         else do {
           (range, st) \<leftarrow> first_visible calc P_RANGE (kprops k) st;
           case range of
             None \<Rightarrow> Some (True, st)
           | Some (p, _) \<Rightarrow>
               (case pexpr p of
                  Range low high \<Rightarrow> do {
                    let base = (if ktype k = S_INT then 10 else 16);
                    let val = fst (strtoll str base);
                    (val1, st) \<leftarrow> sym_get_range_val calc low base st;
                    if val < val1 then Some (False, st)
                    else do { (val2, st) \<leftarrow> sym_get_range_val calc high base st; Some (val \<le> val2, st) } }
                | _ \<Rightarrow> None) })
      else if logical_type (ktype k) then
        Some (case letter_tristate str of Some v \<Rightarrow> sym_tristate_within_range st s v | None \<Rightarrow> False, st)
      else Some (False, st))"

definition hex_prefixed :: "string \<Rightarrow> bool" where
  "hex_prefixed str \<longleftrightarrow> first str = CHR ''0'' \<and> (first (tl str) = CHR ''x'' \<or> first (tl str) = CHR ''X'')"

definition stored_text :: "symbol_type \<Rightarrow> string \<Rightarrow> string" where
  "stored_text type newval = (if type = S_HEX \<and> \<not> hex_prefixed newval then ''0x'' @ newval else newval)"

definition with_text :: "symref \<Rightarrow> string \<Rightarrow> kst \<Rightarrow> kst" where
  "with_text s v st = upd s (\<lambda>k. k\<lparr>user := (user k)\<lparr>vstr := v\<rparr>\<rparr>) st"

text \<open>\<open>unset\<close>: the pointer to the user's text is null. The same text again is not set and nothing is calculated.\<close>

definition sym_set_string_value :: "nat \<Rightarrow> bool \<Rightarrow> symref \<Rightarrow> string \<Rightarrow> kst \<Rightarrow> (bool \<times> kst) option" where
  "sym_set_string_value n unset s newval st =
     (let type = ktype (tab st s) in
      if logical_type type then
        (case letter_tristate newval of None \<Rightarrow> Some (False, st) | Some v \<Rightarrow> sym_set_tristate_value n s v st)
      else do {
        (ok, st) \<leftarrow> sym_string_within_range n s newval st;
        if \<not> ok then Some (False, st)
        else do {
          let st = upd s (\<lambda>k. k\<lparr>def_user := True\<rparr>) st;
          if (type = S_HEX \<and> \<not> hex_prefixed newval) \<or> unset \<or> vstr (user (tab st s)) \<noteq> newval
          then do { st \<leftarrow> sym_clear_all_valid n (with_text s (stored_text type newval) st); Some (True, st) }
          else Some (True, st) } })"

section \<open>The default\<close>

definition sym_get_string_default :: "nat \<Rightarrow> symref \<Rightarrow> kst \<Rightarrow> (string \<times> kst) option" where
  "sym_get_string_default n s st = do {
     let calc = sym_calc_value n;
     st \<leftarrow> sym_calc_visibility calc s st;
     st \<leftarrow> calc (modules st) st;
     (prop, st) \<leftarrow> first_visible calc P_DEFAULT (kprops (tab st s)) st;
     let type = ktype (tab st s);
     (val, str, st) \<leftarrow> (case prop of
       None \<Rightarrow> Some (Tno, [], st)
     | Some (p, v) \<Rightarrow>
         if logical_type type then do { (e, st) \<leftarrow> calc_prop_expr calc (pexpr p) st; Some (EXPR_AND e v, [], st) }
         else (case prop_get_symbol p of
           None \<Rightarrow> Some (Tno, [], st)
         | Some ds \<Rightarrow> do { st \<leftarrow> calc ds st; Some (Tno, vstr (curr (tab st ds)), st) }));
     let k = tab st s;
     let val = EXPR_OR val (rev_dep k);
     let val = (if val = Tmod \<and> \<not> choiceval k \<and> vtri (curr (tab st (modules st))) = Tno then Tyes else val);
     let val = (if type = S_BOOLEAN \<and> val = Tmod then Tyes else val);
     let val = (if val < implied k then implied k else val);
     Some (if logical_type type then (case val of Tno \<Rightarrow> ''n'' | Tmod \<Rightarrow> ''m'' | Tyes \<Rightarrow> ''y'')
           else if type = S_INT \<or> type = S_HEX \<or> type = S_STRING then str else [], st) }"

section \<open>Symbols in a text\<close>

definition SYMBOL_MAXLENGTH :: nat where "SYMBOL_MAXLENGTH = 256"

definition name_char :: "char \<Rightarrow> bool" where
  "name_char c \<longleftrightarrow> c \<in> set ''0123456789ABCDEFGHIJKLMNOPQRSTUVWXYZabcdefghijklmnopqrstuvwxyz_''"

text \<open>\<open>strchr(in, '$')\<close>: what is before the first one, and what follows it.\<close>

fun at_dollar :: "string \<Rightarrow> (string \<times> string) option" where
  "at_dollar [] = None"
| "at_dollar (c # cs) = (if c = CHR ''$'' then Some ([], cs) else map_option (\<lambda>(b, a). (c # b, a)) (at_dollar cs))"

text \<open>\<open>strcat\<close> into a buffer of a size.\<close>

definition append_bounded :: "nat \<Rightarrow> string \<Rightarrow> string \<Rightarrow> string option" where
  "append_bounded bytes buf s = (if length buf + length s + 1 \<le> bytes then Some (buf @ s) else None)"

lemma at_dollar_shorter: "at_dollar s = Some (b, a) \<Longrightarrow> length a < length s"
  by (induction s arbitrary: b) (auto split: if_splits)

text \<open>\<open>lookup\<close> is \<open>sym_find\<close>; the buffer grows to what the rest needs without the symbols in it.\<close>

function expand_loop :: "calc \<Rightarrow> (string \<Rightarrow> symref option) \<Rightarrow> string \<Rightarrow> string \<Rightarrow> nat \<Rightarrow> kst \<Rightarrow> (string \<times> kst) option" where
  "expand_loop calc lookup inp res reslen st = (case at_dollar inp of
     None \<Rightarrow> do { res \<leftarrow> append_bounded reslen res inp; Some (res, st) }
   | Some (before, src) \<Rightarrow> do {
       res \<leftarrow> append_bounded reslen res before;
       nm \<leftarrow> append_bounded SYMBOL_MAXLENGTH [] (takeWhile name_char src);
       (symval, st) \<leftarrow> (case lookup nm of
         None \<Rightarrow> Some ([], st)
       | Some s \<Rightarrow> do { st \<leftarrow> calc s st; get_string_value calc s st });
       let src = dropWhile name_char src;
       let reslen = max reslen (length res + length symval + length src + 1);
       res \<leftarrow> append_bounded reslen res symval;
       expand_loop calc lookup src res reslen st })"
  by pat_completeness auto
termination
  by (relation "measure (\<lambda>(calc, lookup, inp, res, reslen, st). length inp)")
    (auto dest!: at_dollar_shorter intro: le_less_trans [OF length_dropWhile_le])

declare expand_loop.simps [simp del]

definition sym_expand_string_value :: "nat \<Rightarrow> (string \<Rightarrow> symref option) \<Rightarrow> string \<Rightarrow> kst \<Rightarrow> (string \<times> kst) option" where
  "sym_expand_string_value n lookup inp st = expand_loop (sym_calc_value n) lookup inp [] (length inp + 1) st"

text \<open>\<open>conf_expand_value\<close>: \<open>lookup\<close> is \<open>sym_lookup\<close>, which makes a symbol for every name; the buffer is fixed.\<close>

function conf_expand_loop :: "calc \<Rightarrow> (string \<Rightarrow> symref) \<Rightarrow> string \<Rightarrow> string \<Rightarrow> kst \<Rightarrow> (string \<times> kst) option" where
  "conf_expand_loop calc lookup inp res st = (case at_dollar inp of
     None \<Rightarrow> do { res \<leftarrow> append_bounded SYMBOL_MAXLENGTH res inp; Some (res, st) }
   | Some (before, src) \<Rightarrow> do {
       res \<leftarrow> append_bounded SYMBOL_MAXLENGTH res before;
       nm \<leftarrow> append_bounded SYMBOL_MAXLENGTH [] (takeWhile name_char src);
       st \<leftarrow> calc (lookup nm) st;
       (symval, st) \<leftarrow> get_string_value calc (lookup nm) st;
       res \<leftarrow> append_bounded SYMBOL_MAXLENGTH res symval;
       conf_expand_loop calc lookup (dropWhile name_char src) res st })"
  by pat_completeness auto
termination
  by (relation "measure (\<lambda>(calc, lookup, inp, res, st). length inp)")
    (auto dest!: at_dollar_shorter intro: le_less_trans [OF length_dropWhile_le])

declare conf_expand_loop.simps [simp del]

definition conf_expand_value :: "nat \<Rightarrow> (string \<Rightarrow> symref) \<Rightarrow> string \<Rightarrow> kst \<Rightarrow> (string \<times> kst) option" where
  "conf_expand_value n lookup inp st = conf_expand_loop (sym_calc_value n) lookup inp [] st"

end
