(* ===== verification/Text_Laws.thy ===== *)
theory Text_Laws
  imports Symbol_Strings
begin

text \<open>
  What becomes of a text that is set as the value of a symbol, and what a text with symbols in it
  expands to.
\<close>

section \<open>Setting a value\<close>

lemma calc_evolving: "evolving (sym_calc_value n)"
  unfolding evolving_def using calc_value_evolves by blast

lemma evolves_range_val:
  "wf_tab st \<Longrightarrow> sym_get_range_val (sym_calc_value n) s base st = Some (v, st') \<Longrightarrow> evolves {} st st'"
  by (auto simp: sym_get_range_val_def dest: evolvingD [OF calc_evolving])

lemma within_range_evolves:
  assumes "wf_tab st" "sym_string_within_range n s str st = Some (ok, st')"
  shows "evolves {} st st'"
proof (cases "(ktype (tab st s) = S_INT \<or> ktype (tab st s) = S_HEX) \<and> sym_string_valid (ktype (tab st s)) str")
  case True
  then have "ktype (tab st s) \<noteq> S_STRING" by auto
  with True assms(2) obtain range st1 where 1: "first_visible (sym_calc_value n) P_RANGE (kprops (tab st s)) st = Some (range, st1)"
    and 2: "(case range of
             None \<Rightarrow> Some (True, st1)
           | Some (p, _) \<Rightarrow>
               (case pexpr p of
                  Range low high \<Rightarrow> do {
                    let base = (if ktype (tab st s) = S_INT then 10 else 16);
                    let val = fst (strtoll str base);
                    (val1, st) \<leftarrow> sym_get_range_val (sym_calc_value n) low base st1;
                    if val < val1 then Some (False, st)
                    else do { (val2, st) \<leftarrow> sym_get_range_val (sym_calc_value n) high base st; Some (val \<le> val2, st) } }
                | _ \<Rightarrow> None)) = Some (ok, st')"
    by (auto simp: sym_string_within_range_def Let_def)
  note e1 = evolves_first [OF calc_evolving assms(1) 1]
  note w1 = evolves_wf [OF assms(1) e1]
  have "evolves {} st1 st'"
  proof (cases range)
    case None
    with 2 show ?thesis by simp
  next
    case (Some q)
    then obtain p v low high where q: "q = (p, v)" "pexpr p = Range low high" using 2 by (cases q) (auto split: prop_expr.splits)
    define base :: nat where "base = (if ktype (tab st s) = S_INT then 10 else 16)"
    from 2 Some q obtain v1 st2 where 3: "sym_get_range_val (sym_calc_value n) low base st1 = Some (v1, st2)"
      "st' = st2 \<or> (\<exists>v2. sym_get_range_val (sym_calc_value n) high base st2 = Some (v2, st'))"
      unfolding base_def by (auto simp: Let_def split: if_splits)
    note e2 = evolves_range_val [OF w1 3(1)]
    from 3(2) show ?thesis
      using e2 evolves_trans [OF e2 evolves_range_val [OF evolves_wf [OF w1 e2]]] by blast
  qed
  with e1 show ?thesis by (rule evolves_trans)
next
  case False
  with assms(2) show ?thesis
    by (auto simp: sym_string_within_range_def Let_def split: if_splits option.splits)
qed

lemma table_text: "table_ok U st \<Longrightarrow> table_ok U (upd s (\<lambda>k. k\<lparr>def_user := True, user := v\<rparr>) st)"
  by (auto simp: table_ok_def wf_tab_def pointers_ok_def ordinary_def todo_def)

text \<open>After everything has been cleared the symbol is settled with what the user gave.\<close>

lemma clear_then_calc:
  assumes "table_ok U b" "2 * card U < n" "s \<in> set (symbols b)" "ordinary (tab b s)"
  shows "\<exists>st1 st2. sym_clear_all_valid n b = Some st1 \<and> sym_calc_value n s st1 = Some st2 \<and> settled (tab st2 s)
    \<and> def_user (tab st2 s) = def_user (tab b s) \<and> user (tab st2 s) = user (tab b s) \<and> ktype (tab st2 s) = ktype (tab b s)"
proof -
  note t = table_clear [OF assms(1)]
  then have w: "wf_tab (clear_valid b)" by (simp add: table_ok_def)
  obtain st1 where 1: "sym_calc_value n (modules b) (clear_valid b) = Some st1" using table_returns [OF t assms(2)] by blast
  note e1 = conjunct1 [OF calc_value_evolves [OF w 1]]
  note t1 = table_evolves [OF t e1]
  obtain st2 where 2: "sym_calc_value n s st1 = Some st2" using table_returns [OF t1 assms(2)] by blast
  note w1 = evolves_wf [OF w e1]
  have k: "ordinary (tab (clear_valid b) s)" "\<not> valid (tab (clear_valid b) s)" using assms(3,4) by (simp_all add: ordinary_def)
  have "ordinary (tab st1 s)" using k(1) same_symbol_ordinary [OF evolves_same [OF e1, of s]] by simp
  with calc_value_evolves [OF w1 2] have e2: "evolves {} st1 st2" "valid (tab st2 s)" by auto
  from calculated_settled [OF evolves_trans [OF e1 e2(1)] k e2(2)] assms(3)
  have "settled (tab st2 s)" "def_user (tab st2 s) = def_user (tab b s)" "user (tab st2 s) = user (tab b s)" "ktype (tab st2 s) = ktype (tab b s)"
    by simp_all
  moreover have "sym_clear_all_valid n b = Some st1" using 1 by (simp add: sym_clear_all_valid_def clear_valid_def [symmetric])
  ultimately show ?thesis using 2 by blast
qed

lemma set_text_then_calc:
  assumes "table_ok U st" "2 * card U < n" "s \<in> set (symbols st)" "ordinary (tab st s)" "ktype (tab st s) \<in> {S_STRING, S_INT, S_HEX}"
    "sym_string_within_range n s newval st = Some (True, st0)"
  shows "\<exists>st1. sym_set_string_value n unset s newval st = Some (True, st1)
    \<and> (stored_text (ktype (tab st s)) newval \<noteq> newval \<or> unset \<or> vstr (user (tab st s)) \<noteq> newval \<longrightarrow>
        (\<exists>st2. sym_calc_value n s st1 = Some st2 \<and> settled (tab st2 s) \<and> def_user (tab st2 s)
          \<and> vstr (user (tab st2 s)) = stored_text (ktype (tab st s)) newval \<and> ktype (tab st2 s) = ktype (tab st s)))"
proof -
  let ?type = "ktype (tab st s)"
  have w: "wf_tab st" using assms(1) by (simp add: table_ok_def)
  note e = within_range_evolves [OF w assms(6)]
  note t = table_evolves [OF assms(1) e]
  have same: "same_symbol (tab st s) (tab st0 s)" by (rule evolves_same [OF e])
  have k: "ordinary (tab st0 s)" "ktype (tab st0 s) = ?type" "user (tab st0 s) = user (tab st s)" "symbols st0 = symbols st"
    using same assms(4) same_symbol_ordinary [OF same] e by (simp_all add: same_symbol_def evolves_def)
  have l: "\<not> logical_type ?type" using assms(5) by (auto simp: logical_type_def)
  have stored: "stored_text ?type newval \<noteq> newval \<longleftrightarrow> ?type = S_HEX \<and> \<not> hex_prefixed newval" by (simp add: stored_text_def)
  define b where "b = upd s (\<lambda>k. k\<lparr>def_user := True, user := (user (tab st s))\<lparr>vstr := stored_text ?type newval\<rparr>\<rparr>) st0"
  have b: "with_text s (stored_text ?type newval) (upd s (\<lambda>k. k\<lparr>def_user := True\<rparr>) st0) = b"
    by (simp add: b_def with_text_def upd_def k(3))
  have "table_ok U b" unfolding b_def by (rule table_text [OF t])
  moreover have "s \<in> set (symbols b)" "ordinary (tab b s)" using assms(3) k(1,4) by (simp_all add: b_def ordinary_def)
  ultimately obtain st1 st2 where 1: "sym_clear_all_valid n b = Some st1" "sym_calc_value n s st1 = Some st2" "settled (tab st2 s)"
    "def_user (tab st2 s) = def_user (tab b s)" "user (tab st2 s) = user (tab b s)" "ktype (tab st2 s) = ktype (tab b s)"
    using clear_then_calc [OF _ assms(2)] by blast
  show ?thesis
  proof (cases "(?type = S_HEX \<and> \<not> hex_prefixed newval) \<or> unset \<or> vstr (user (tab st s)) \<noteq> newval")
    case True
    then have "sym_set_string_value n unset s newval st = Some (True, st1)"
      using l assms(6) b k(3) 1(1) by (simp add: sym_set_string_value_def Let_def)
    with 1 show ?thesis by (auto simp: b_def k(2))
  next
    case False
    then have "sym_set_string_value n unset s newval st = Some (True, upd s (\<lambda>k. k\<lparr>def_user := True\<rparr>) st0)"
      using l assms(6) k(3) by (auto simp: sym_set_string_value_def Let_def)
    with False stored show ?thesis by blast
  qed
qed

text \<open>What is stored is a valid text of the type.\<close>

lemma stored_valid: "sym_string_valid type newval \<Longrightarrow> sym_string_valid type (stored_text type newval)"
proof (cases "type = S_HEX \<and> \<not> hex_prefixed newval")
  case True
  moreover assume "sym_string_valid type newval"
  ultimately have "sym_string_valid S_HEX (''0x'' @ newval)"
    by (auto simp: sym_string_valid_def hex_prefixed_def Let_def)
  with True show ?thesis by (simp add: stored_text_def)
qed (auto simp: stored_text_def)

section \<open>Symbols in a text\<close>

text \<open>The text with every name replaced, and the names in it.\<close>

function expand_text :: "(string \<Rightarrow> string) \<Rightarrow> string \<Rightarrow> string" where
  "expand_text v inp = (case at_dollar inp of
     None \<Rightarrow> inp
   | Some (before, src) \<Rightarrow> before @ v (takeWhile name_char src) @ expand_text v (dropWhile name_char src))"
  by pat_completeness auto
termination
  by (relation "measure (\<lambda>(v, inp). length inp)") (auto dest!: at_dollar_shorter intro: le_less_trans [OF length_dropWhile_le])

function names_of :: "string \<Rightarrow> string list" where
  "names_of inp = (case at_dollar inp of
     None \<Rightarrow> []
   | Some (before, src) \<Rightarrow> takeWhile name_char src # names_of (dropWhile name_char src))"
  by pat_completeness auto
termination
  by (relation "measure length") (auto dest!: at_dollar_shorter intro: le_less_trans [OF length_dropWhile_le])

declare expand_text.simps [simp del] names_of.simps [simp del]

lemma at_dollar_split: "at_dollar s = Some (b, a) \<Longrightarrow> s = b @ CHR ''$'' # a"
  by (induction s arbitrary: b) (auto split: if_splits)

lemma append_boundedI: "length buf + length s + 1 \<le> n \<Longrightarrow> append_bounded n buf s = Some (buf @ s)"
  by (simp add: append_bounded_def)

definition found :: "(string \<Rightarrow> symref option) \<Rightarrow> string list \<Rightarrow> symref set" where
  "found lookup ns = {s. \<exists>nm \<in> set ns. lookup nm = Some s}"

definition value_of :: "(string \<Rightarrow> symref option) \<Rightarrow> kst \<Rightarrow> string \<Rightarrow> string" where
  "value_of lookup st nm = (case lookup nm of None \<Rightarrow> [] | Some s \<Rightarrow> sym_get_string_value (symtab_of st) s)"

text \<open>Asking for the value of one name.\<close>

lemma name_value:
  assumes "table_ok U st" "2 * card U < n" "calculated {modules st} st" "\<And>s. lookup nm = Some s \<Longrightarrow> ordinary (tab st s)"
  shows "\<exists>st'. (case lookup nm of None \<Rightarrow> Some ([], st)
       | Some s \<Rightarrow> do { st \<leftarrow> sym_calc_value n s st; get_string_value (sym_calc_value n) s st }) = Some (value_of lookup st' nm, st')
    \<and> evolves {} st st' \<and> calculated (insert (modules st) (found lookup [nm])) st'"
proof (cases "lookup nm")
  case None
  with assms(3) show ?thesis by (simp add: value_of_def found_def)
next
  case (Some s)
  obtain st1 where 1: "sym_calc_value n s st = Some st1" using table_returns [OF assms(1,2)] by blast
  have w: "wf_tab st" using assms(1) by (simp add: table_ok_def)
  note c = calc_ordinary [OF w assms(4) [OF Some] 1]
  then have e: "evolves {} st st1" and s: "ordinary (tab st1 s)" "valid (tab st1 s)" by simp_all
  have m: "modules st1 = modules st" using e by (simp add: evolves_def)
  have "calculated {modules st} st1" using calculated_evolves [OF assms(3) e] by simp
  then have k: "calculated {modules st, s} st1" using s by (simp add: calculated_def)
  obtain n' where n: "n = Suc n'" using assms(2) by (cases n) auto
  have "get_string_value (sym_calc_value n) s st1 = Some (sym_get_string_value (symtab_of st1) s, st1)"
    unfolding n by (rule string_value_calculated) (use m k in \<open>simp add: calculated_def\<close>)
  moreover have "insert (modules st) (found lookup [nm]) = {modules st, s}" using Some by (auto simp: found_def)
  ultimately show ?thesis using 1 Some e k by (simp add: value_of_def)
qed

lemma string_value_cong:
  "modules st' = modules st \<Longrightarrow> tab st' (modules st) = tab st (modules st) \<Longrightarrow> tab st' s = tab st s \<Longrightarrow>
   sym_get_string_value (symtab_of st') s = sym_get_string_value (symtab_of st) s"
  by (simp add: symtab_of_def sym_get_string_value_def Let_def)

lemma value_of_later:
  assumes "calculated (insert (modules st) (found lookup [nm])) st" "evolves {} st st'"
  shows "value_of lookup st' nm = value_of lookup st nm"
proof (cases "lookup nm")
  case (Some s)
  have "modules st' = modules st" using assms(2) by (simp add: evolves_def)
  moreover have "\<forall>x \<in> insert (modules st) (found lookup [nm]). tab st' x = tab st x" using calculated_evolves [OF assms] by blast
  ultimately have "sym_get_string_value (symtab_of st') s = sym_get_string_value (symtab_of st) s"
    using Some by (intro string_value_cong) (auto simp: found_def)
  with Some show ?thesis by (simp add: value_of_def)
qed (simp add: value_of_def)

text \<open>The buffer always has room for what is there and the rest of the text.\<close>

lemma expand_loop_value:
  assumes "2 * card U < n"
  shows "table_ok U st \<Longrightarrow> calculated {modules st} st \<Longrightarrow> \<forall>nm \<in> set (names_of inp). length nm < SYMBOL_MAXLENGTH \<Longrightarrow>
    \<forall>s \<in> found lookup (names_of inp). ordinary (tab st s) \<Longrightarrow> length res + length inp + 1 \<le> reslen \<Longrightarrow>
    \<exists>st'. expand_loop (sym_calc_value n) lookup inp res reslen st = Some (res @ expand_text (value_of lookup st') inp, st')
      \<and> evolves {} st st' \<and> calculated (insert (modules st) (found lookup (names_of inp))) st'"
proof (induction inp arbitrary: res reslen st rule: names_of.induct)
  case (1 inp)
  show ?case
  proof (cases "at_dollar inp")
    case None
    then show ?thesis
      using 1(3,6) by (simp add: expand_loop.simps [of _ _ inp] expand_text.simps [of _ inp] names_of.simps [of inp] append_boundedI found_def)
  next
    case (Some p)
    obtain before src where p: "p = (before, src)" by (cases p)
    note d = Some [unfolded p]
    let ?nm = "takeWhile name_char src" and ?src = "dropWhile name_char src"
    have ns: "names_of inp = ?nm # names_of ?src" by (simp add: names_of.simps [of inp] d)
    have inp: "length inp = length before + 1 + length ?nm + length ?src"
      using at_dollar_split [OF d] arg_cong [OF takeWhile_dropWhile_id [of name_char src], of length] by (simp del: takeWhile_dropWhile_id)
    have o: "ordinary (tab st s)" if "s \<in> found lookup (names_of inp)" for s using 1(5) that by blast
    obtain st1 where v: "(case lookup ?nm of None \<Rightarrow> Some ([], st)
         | Some s \<Rightarrow> do { st \<leftarrow> sym_calc_value n s st; get_string_value (sym_calc_value n) s st }) = Some (value_of lookup st1 ?nm, st1)"
      "evolves {} st st1" "calculated (insert (modules st) (found lookup [?nm])) st1"
      using name_value [OF 1(2) assms 1(3), of lookup ?nm] o by (auto simp: ns found_def)
    let ?v = "value_of lookup st1 ?nm"
    let ?reslen = "max reslen (length (res @ before) + length ?v + length ?src + 1)"
    have m: "modules st1 = modules st" using v(2) by (simp add: evolves_def)
    have "\<exists>st'. expand_loop (sym_calc_value n) lookup ?src ((res @ before) @ ?v) ?reslen st1
        = Some (((res @ before) @ ?v) @ expand_text (value_of lookup st') ?src, st')
      \<and> evolves {} st1 st' \<and> calculated (insert (modules st1) (found lookup (names_of ?src))) st'"
    proof (rule 1(1) [OF Some p [symmetric]])
      show "table_ok U st1" by (rule table_evolves [OF 1(2) v(2)])
      show "calculated {modules st1} st1" using v(3) m by (simp add: calculated_def)
      show "\<forall>nm \<in> set (names_of ?src). length nm < SYMBOL_MAXLENGTH" using 1(4) ns by simp
      show "\<forall>s \<in> found lookup (names_of ?src). ordinary (tab st1 s)"
        using o same_symbol_ordinary [OF evolves_same [OF v(2)]] by (auto simp: ns found_def)
      show "length ((res @ before) @ ?v) + length ?src + 1 \<le> ?reslen" by simp
    qed
    then obtain st' where r: "expand_loop (sym_calc_value n) lookup ?src ((res @ before) @ ?v) ?reslen st1
        = Some (((res @ before) @ ?v) @ expand_text (value_of lookup st') ?src, st')"
      "evolves {} st1 st'" "calculated (insert (modules st) (found lookup (names_of ?src))) st'"
      unfolding m by blast
    have "append_bounded reslen res before = Some (res @ before)" "append_bounded SYMBOL_MAXLENGTH [] ?nm = Some ?nm"
      "append_bounded ?reslen (res @ before) ?v = Some ((res @ before) @ ?v)"
      using 1(4,6) inp ns by (simp_all add: append_bounded_def)
    then have "expand_loop (sym_calc_value n) lookup inp res reslen st
        = Some (res @ before @ ?v @ expand_text (value_of lookup st') ?src, st')"
      using v(1) r(1) by (simp add: expand_loop.simps [of _ _ inp] d Let_def)
    moreover have "?v = value_of lookup st' ?nm"
      using value_of_later [OF _ r(2)] v(3) m by simp
    moreover have "calculated (insert (modules st) (found lookup (names_of inp))) st'"
      using calculated_evolves [OF v(3) r(2)] r(3) by (auto simp: calculated_def ns found_def)
    ultimately show ?thesis
      using evolves_trans [OF v(2) r(2)] by (auto simp: expand_text.simps [of _ inp] d)
  qed
qed

text \<open>The fixed buffer.\<close>

lemma conf_expand_bounded: "conf_expand_loop calc lookup inp res st = Some (r, st') \<Longrightarrow> length r < SYMBOL_MAXLENGTH"
proof (induction inp arbitrary: res st rule: names_of.induct)
  case (1 inp)
  show ?case
  proof (cases "at_dollar inp")
    case None
    with 1(2) show ?thesis by (auto simp: conf_expand_loop.simps [of _ _ inp] append_bounded_def split: if_splits)
  next
    case (Some p)
    obtain before src where p: "p = (before, src)" by (cases p)
    with 1(2) Some obtain res' st1 where "conf_expand_loop calc lookup (dropWhile name_char src) res' st1 = Some (r, st')"
      by (auto simp: conf_expand_loop.simps [of _ _ inp])
    with 1(1) [OF Some p [symmetric]] show ?thesis by blast
  qed
qed

lemma conf_expand_plain:
  "at_dollar inp = None \<Longrightarrow> conf_expand_value n lookup inp st = (if length inp < SYMBOL_MAXLENGTH then Some (inp, st) else None)"
  by (simp add: conf_expand_value_def conf_expand_loop.simps [of _ _ inp] append_bounded_def)

lemma conf_expand_long_name:
  assumes "at_dollar inp = Some (before, src)" "length (takeWhile name_char src) \<ge> SYMBOL_MAXLENGTH"
  shows "conf_expand_value n lookup inp st = None" "sym_expand_string_value n lookup' inp st = None"
  using assms by (simp_all add: conf_expand_value_def sym_expand_string_value_def conf_expand_loop.simps [of _ _ inp]
      expand_loop.simps [of _ _ inp] append_bounded_def)

end
