(* ===== verification/Dep_Cycles.thy ===== *)
theory Dep_Cycles
  imports Dep_Laws
begin

text \<open>
  The search for recursive dependencies in a table without choices: what it prints are cycles,
  it prints nothing only when there is none, and it never returns a symbol to its caller in
  \<open>conf_parse\<close>.
\<close>

definition plain :: "info \<Rightarrow> bool" where
  "plain I \<longleftrightarrow> (\<forall>s. \<not> sym_is_choice (I s) \<and> \<not> sym_is_choice_value (I s))"

text \<open>Every symbol depends on the next, the last on the first.\<close>

definition is_cycle :: "info \<Rightarrow> symref list \<Rightarrow> bool" where
  "is_cycle I c \<longleftrightarrow> c \<noteq> [] \<and> successively (\<lambda>a b. b \<in> set (deps I a)) c \<and> hd c \<in> set (deps I (last c))"

lemma successively_trancl: "successively (\<lambda>a b. (a, b) \<in> R) (x # xs) \<Longrightarrow> (x, last (x # xs)) \<in> R\<^sup>*"
proof (induction xs arbitrary: x)
  case (Cons y ys)
  then have "(x, y) \<in> R" "(y, last (y # ys)) \<in> R\<^sup>*" by simp_all
  then show ?case by (simp add: converse_rtrancl_into_rtrancl)
qed simp

lemma cycle_not_acyclic: "is_cycle I c \<Longrightarrow> \<not> acyclic (dep_rel I)"
proof -
  assume c: "is_cycle I c"
  then obtain x xs where xs: "c = x # xs" by (cases c) (auto simp: is_cycle_def)
  with c have "(x, last c) \<in> (dep_rel I)\<^sup>*" "(last c, x) \<in> dep_rel I"
    using successively_trancl [of "dep_rel I" x xs] by (simp_all add: is_cycle_def dep_rel_def)
  then have "(x, x) \<in> (dep_rel I)\<^sup>+" by (rule rtrancl_into_trancl1)
  then show ?thesis by (auto simp: acyclic_def)
qed

section \<open>What a call does\<close>

text \<open>The symbols on the stack are those whose check goes on, each depending on the one above it.\<close>

definition on_stack :: "info \<Rightarrow> checker \<Rightarrow> bool" where
  "on_stack I st \<longleftrightarrow> (\<forall>x. check st x \<longleftrightarrow> x \<in> set (dep_stack st))
     \<and> distinct (dep_stack st) \<and> successively (\<lambda>a b. a \<in> set (deps I b)) (dep_stack st)"

text \<open>The symbols whose check is over depend on such symbols only and on no cycle.\<close>

definition finished :: "checker \<Rightarrow> symref set" where
  "finished st = {x. checked st x \<and> \<not> check st x}"

definition sound :: "info \<Rightarrow> checker \<Rightarrow> bool" where
  "sound I st \<longleftrightarrow> (\<forall>x \<in> finished st. set (deps I x) \<subseteq> finished st \<and> (x, x) \<notin> (dep_rel I)\<^sup>+)"

text \<open>
  From \<open>st\<close> to \<open>st'\<close> with result \<open>r\<close>, checking \<open>xs\<close>: flags and stack are restored, new reports
  are cycles, a result is a symbol on the stack, and without a report everything in \<open>xs\<close> is done.
\<close>

definition checks :: "info \<Rightarrow> symref list \<Rightarrow> checker \<Rightarrow> symref option \<Rightarrow> checker \<Rightarrow> bool" where
  "checks I xs st r st' \<longleftrightarrow> check st' = check st \<and> dep_stack st' = dep_stack st \<and> checked st \<le> checked st'
     \<and> (\<exists>new. reports st' = reports st @ new \<and> (\<forall>c \<in> set new. is_cycle I c)
          \<and> (\<forall>x. r = Some x \<longrightarrow> x \<in> set (dep_stack st) \<and> new \<noteq> [])
          \<and> (new = [] \<longrightarrow> (\<forall>x \<in> set xs. checked st' x \<and> \<not> check st x) \<and> (sound I st \<longrightarrow> sound I st')))"

lemma report_cycle:
  assumes "on_stack I st" "s \<in> set (dep_stack st)" "s \<in> set (deps I (hd (dep_stack st)))"
  shows "is_cycle I (s # rev (takeWhile (\<lambda>x. x \<noteq> s) (dep_stack st)))"
proof -
  let ?pre = "takeWhile (\<lambda>x. x \<noteq> s) (dep_stack st)"
  obtain post where d: "dropWhile (\<lambda>x. x \<noteq> s) (dep_stack st) = s # post"
    using assms(2) hd_dropWhile [of "\<lambda>x. x \<noteq> s" "dep_stack st"] by (cases "dropWhile (\<lambda>x. x \<noteq> s) (dep_stack st)") auto
  then have st: "dep_stack st = (?pre @ [s]) @ post" using takeWhile_dropWhile_id [of "\<lambda>x. x \<noteq> s" "dep_stack st"] by simp
  then have "successively (\<lambda>a b. a \<in> set (deps I b)) (?pre @ [s])"
    using assms(1) unfolding on_stack_def by (metis successively_append_iff)
  then have "successively (\<lambda>a b. b \<in> set (deps I a)) (rev (?pre @ [s]))" unfolding successively_rev .
  moreover have "hd (dep_stack st) = last (s # rev ?pre)"
    using st by (cases ?pre) (simp_all add: hd_append)
  ultimately show ?thesis using assms(3) by (simp add: is_cycle_def)
qed

lemma checks_list:
  assumes "\<And>s st r st'. rec s st = Some (r, st') \<Longrightarrow> on_stack I st \<Longrightarrow> dep_stack st \<noteq> [] \<Longrightarrow> s \<in> set (deps I (hd (dep_stack st)))
    \<Longrightarrow> checks I [s] st r st'"
  shows "check_list rec xs st = Some (r, st') \<Longrightarrow> on_stack I st \<Longrightarrow> dep_stack st \<noteq> [] \<Longrightarrow> set xs \<subseteq> set (deps I (hd (dep_stack st)))
    \<Longrightarrow> checks I xs st r st'"
proof (induction xs arbitrary: st)
  case Nil
  then show ?case by (auto simp: checks_def)
next
  case (Cons x xs)
  from Cons.prems(1) have "and_then (rec x st) (check_list rec xs) = Some (r, st')" by simp
  then show ?case
  proof (rule and_thenE)
    fix st1
    assume x: "rec x st = Some (None, st1)" and xs: "check_list rec xs st1 = Some (r, st')"
    have 1: "checks I [x] st None st1" by (rule assms [OF x]) (use Cons.prems in simp_all)
    then have "on_stack I st1" "dep_stack st1 = dep_stack st" using Cons.prems(2) by (simp_all add: checks_def on_stack_def)
    with Cons.IH [OF xs] Cons.prems have 2: "checks I xs st1 r st'" by simp
    from 1 obtain n1 where n1: "reports st1 = reports st @ n1" "\<forall>c \<in> set n1. is_cycle I c"
      "n1 = [] \<longrightarrow> checked st1 x \<and> \<not> check st x \<and> (sound I st \<longrightarrow> sound I st1)" by (auto simp: checks_def)
    from 2 obtain n2 where n2: "reports st' = reports st1 @ n2" "\<forall>c \<in> set n2. is_cycle I c"
      "\<forall>y. r = Some y \<longrightarrow> y \<in> set (dep_stack st1) \<and> n2 \<noteq> []"
      "n2 = [] \<longrightarrow> (\<forall>y \<in> set xs. checked st' y \<and> \<not> check st1 y) \<and> (sound I st1 \<longrightarrow> sound I st')" by (auto simp: checks_def)
    have "checked st \<le> checked st1" "checked st1 \<le> checked st'" "check st1 = check st" "dep_stack st1 = dep_stack st"
      "check st' = check st1" "dep_stack st' = dep_stack st1" using 1 2 by (simp_all add: checks_def)
    with n1 n2 show ?thesis unfolding checks_def
      by (intro conjI exI [of _ "n1 @ n2"]) (auto simp: le_fun_def)
  next
    fix y
    assume x: "rec x st = Some (Some y, st')" and r: "r = Some y"
    have "checks I [x] st (Some y) st'" by (rule assms [OF x]) (use Cons.prems in simp_all)
    with r show ?thesis unfolding checks_def by fastforce
  qed
qed

lemma trancl_closed: "(x, y) \<in> (dep_rel I)\<^sup>+ \<Longrightarrow> (\<And>z. z \<in> F \<Longrightarrow> set (deps I z) \<subseteq> F) \<Longrightarrow> set (deps I x) \<subseteq> F \<Longrightarrow> y \<in> F"
  by (induction rule: trancl_induct) (auto simp: dep_rel_def)

text \<open>A symbol whose dependencies are all finished is finished next.\<close>

lemma sound_finish:
  assumes "sound I st" "set (deps I s) \<subseteq> finished st" "s \<notin> finished st" "finished st' = insert s (finished st)"
  shows "sound I st'"
proof -
  have "(s, s) \<notin> (dep_rel I)\<^sup>+"
    using trancl_closed [of s s I "finished st"] assms(1-3) unfolding sound_def by blast
  with assms show ?thesis unfolding sound_def by auto
qed

lemma checks_sym:
  assumes "plain I"
  shows "sym_check_deps n I s st = Some (r, st') \<Longrightarrow> on_stack I st \<Longrightarrow> (dep_stack st \<noteq> [] \<longrightarrow> s \<in> set (deps I (hd (dep_stack st))))
    \<Longrightarrow> checks I [s] st r st'"
proof (induction n arbitrary: s st r st')
  case (Suc n)
  have nc: "\<not> sym_is_choice (I s)" "\<not> sym_is_choice_value (I s)" for s using assms by (simp_all add: plain_def)
  consider "check st s" | "\<not> check st s" "checked st s" | "\<not> check st s" "\<not> checked st s" by blast
  then show ?case
  proof cases
    case 1
    then have s: "s \<in> set (dep_stack st)" "dep_stack st \<noteq> []" using Suc.prems(2) by (auto simp: on_stack_def)
    with report_cycle [OF Suc.prems(2)] Suc.prems(3) have "is_cycle I (s # rev (takeWhile (\<lambda>x. x \<noteq> s) (dep_stack st)))" by simp
    with 1 s Suc.prems(1) nc show ?thesis by (auto simp: sym_check_print_recursive_def Let_def checks_def)
  next
    case 2
    with Suc.prems(1) show ?thesis by (auto simp: checks_def)
  next
    case 3
    let ?st = "dep_stack_insert s (set_check s st)"
    obtain q st1 where 1: "check_list (sym_check_deps n I) (deps I s) ?st = Some (q, st1)"
      and r: "r = (if q = Some s then None else q)" "st' = clear_check s (dep_stack_remove st1)"
      using Suc.prems(1) 3 nc by (auto simp: check_list_sym split: Option.bind_splits)
    have "on_stack I ?st" using Suc.prems(2,3) 3 by (cases "dep_stack st") (auto simp: on_stack_def)
    have 2: "checks I (deps I s) ?st q st1"
      by (rule checks_list [OF _ 1 \<open>on_stack I ?st\<close>]) (use Suc.IH in auto)
    then obtain new where new: "reports st1 = reports st @ new" "\<forall>c \<in> set new. is_cycle I c"
      "\<forall>x. q = Some x \<longrightarrow> x \<in> insert s (set (dep_stack st)) \<and> new \<noteq> []"
      "new = [] \<longrightarrow> (\<forall>x \<in> set (deps I s). checked st1 x \<and> \<not> check ?st x) \<and> (sound I ?st \<longrightarrow> sound I st1)" by (auto simp: checks_def)
    have f: "check st1 = (check st)(s := True)" "dep_stack st1 = s # dep_stack st" "(checked st)(s := True) \<le> checked st1"
      using 2 by (simp_all add: checks_def)
    then have "checked st1 s" by (auto simp: le_fun_def)
    have "sound I st'" if "new = []" "sound I st"
    proof -
      have "finished ?st = finished st" using 3 by (auto simp: finished_def)
      then have "sound I st1" using that new(4) by (simp add: sound_def)
      moreover have "set (deps I s) \<subseteq> finished st1" using new(4) that(1) f(1) by (auto simp: finished_def)
      moreover have "s \<notin> finished st1" "finished st' = insert s (finished st1)"
        using f(1) r(2) \<open>checked st1 s\<close> by (auto simp: finished_def)
      ultimately show ?thesis by (rule sound_finish)
    qed
    moreover have "checked st \<le> checked st'" using f(3) r(2) by (auto simp: le_fun_def split: if_splits)
    moreover have "check st' = check st" "dep_stack st' = dep_stack st" using f r(2) 3 by (auto simp: fun_eq_iff)
    ultimately show ?thesis using new(1-3) r 3 \<open>checked st1 s\<close> unfolding checks_def
      by (intro conjI exI [of _ new]) (auto split: if_splits)
  qed
qed simp

section \<open>All symbols\<close>

text \<open>Between the calls of \<open>conf_parse\<close> nothing is being checked.\<close>

definition idle :: "info \<Rightarrow> checker \<Rightarrow> bool" where
  "idle I st \<longleftrightarrow> check st = (\<lambda>_. False) \<and> dep_stack st = [] \<and> (\<forall>c \<in> set (reports st). is_cycle I c) \<and> (reports st = [] \<longrightarrow> sound I st)"

lemma check_all_idle:
  assumes "plain I"
  shows "check_all n I ss (k, st) = Some (errs, st') \<Longrightarrow> idle I st \<Longrightarrow>
    errs = k \<and> idle I st' \<and> checked st \<le> checked st' \<and> (reports st' = [] \<longrightarrow> reports st = [] \<and> (\<forall>s \<in> set ss. checked st' s))"
proof (induction ss arbitrary: k st)
  case (Cons s ss)
  then obtain r st1 where 1: "sym_check_deps n I s st = Some (r, st1)"
    and 2: "check_all n I ss (if r \<noteq> None then k + 1 else k, st1) = Some (errs, st')"
    by (auto split: Option.bind_splits)
  have o: "on_stack I st" "dep_stack st = []" using Cons.prems(2) by (simp_all add: idle_def on_stack_def)
  with checks_sym [OF assms 1] have c: "checks I [s] st r st1" by simp
  then obtain new where new: "reports st1 = reports st @ new" "\<forall>c \<in> set new. is_cycle I c" "r = None"
    "new = [] \<longrightarrow> checked st1 s \<and> (sound I st \<longrightarrow> sound I st1)" using o(2) by (cases r) (auto simp: checks_def)
  have f: "check st1 = check st" "dep_stack st1 = dep_stack st" "checked st \<le> checked st1" using c by (simp_all add: checks_def)
  then have "idle I st1" using Cons.prems(2) new by (auto simp: idle_def)
  with Cons.IH [of k st1] 2 new(3) have ih: "errs = k" "idle I st'" "checked st1 \<le> checked st'"
    "reports st' = [] \<longrightarrow> reports st1 = [] \<and> (\<forall>s \<in> set ss. checked st' s)" by simp_all
  then show ?case using new(1,4) f(3) by (auto simp: le_fun_def)
qed simp

lemma idle_fresh: "idle I fresh_checker"
  by (simp add: idle_def fresh_checker_def sound_def finished_def)

lemma all_checked_acyclic:
  assumes "idle I st" "reports st = []" "\<And>s. deps I s \<noteq> [] \<Longrightarrow> checked st s"
  shows "acyclic (dep_rel I)"
proof -
  have s: "sound I st" "\<And>x. checked st x \<Longrightarrow> x \<in> finished st" using assms(1,2) by (simp_all add: idle_def finished_def)
  have "(x, x) \<notin> (dep_rel I)\<^sup>+" for x
  proof
    assume x: "(x, x) \<in> (dep_rel I)\<^sup>+"
    then obtain y where "(x, y) \<in> dep_rel I" by (meson tranclD)
    then have "deps I x \<noteq> []" by (auto simp: dep_rel_def)
    with s assms(3) x show False by (auto simp: sound_def)
  qed
  then show ?thesis by (simp add: acyclic_def)
qed

lemma recursion_search:
  assumes "plain I" "\<And>s. deps I s \<noteq> [] \<Longrightarrow> s \<in> set ss" "2 * length ss + 2 \<le> n"
  shows "\<exists>st. check_all n I ss (0, fresh_checker) = Some (0, st)
    \<and> (reports st = [] \<longleftrightarrow> acyclic (dep_rel I)) \<and> (\<forall>c \<in> set (reports st). is_cycle I c)"
proof -
  have "wf_info (set ss) I" using assms(1,2) unfolding wf_info_def plain_def by blast
  moreover have "2 * card (set ss) + 2 \<le> n" using assms(3) card_length [of ss] by linarith
  ultimately obtain errs st where c: "check_all n I ss (0, fresh_checker) = Some (errs, st)"
    using check_all_returns [of "set ss" I n ss "(0, fresh_checker)"] by auto
  have a: "errs = 0" "idle I st" "reports st = [] \<longrightarrow> (\<forall>s \<in> set ss. checked st s)"
    using check_all_idle [OF assms(1) c idle_fresh] by simp_all
  then have "reports st = [] \<longrightarrow> acyclic (dep_rel I)" using all_checked_acyclic [OF a(2)] assms(2) by blast
  moreover have "acyclic (dep_rel I) \<longrightarrow> reports st = []"
    using a(2) cycle_not_acyclic by (cases "reports st") (auto simp: idle_def)
  ultimately show ?thesis using a c by (auto simp: idle_def)
qed

end
