(* ===== verification/Conf_Laws.thy ===== *)
theory Conf_Laws
  imports Conf_File
begin

text \<open>
  Configuration files are read back as they are written: first strings and their quotes, then
  a line, then the lines of a file.
\<close>

section \<open>Quotes\<close>

lemma unescape_escape: "unescape (escape_chars s @ quote # t) = Some s"
  by (induction s) auto

lemma escape_reslen: "escape_reslen s n = n + length (filter (\<lambda>c. c = quote \<or> c = backslash) s)"
  by (induction s arbitrary: n) auto

lemma length_escape: "length (escape_chars s) = length s + length (filter (\<lambda>c. c = quote \<or> c = backslash) s)"
  by (induction s) auto

lemma escape_fits: "length (sym_escape_string_value s) + 1 = escape_size s"
  by (simp add: sym_escape_string_value_def escape_size_def escape_reslen length_escape)

lemma set_escape: "set (escape_chars s) \<subseteq> set s \<union> {backslash}"
  by (induction s) auto

section \<open>A line\<close>

text \<open>The strings that \<open>sym_get_string_value\<close> returns for a symbol of a type that is written.\<close>

definition written :: "symbol_type \<Rightarrow> string \<Rightarrow> bool" where
  "written type v = (case type of
     S_BOOLEAN \<Rightarrow> v = ''n'' \<or> v = ''y''
   | S_TRISTATE \<Rightarrow> v = ''n'' \<or> v = ''m'' \<or> v = ''y''
   | S_INT \<Rightarrow> sym_string_valid S_INT v
   | S_HEX \<Rightarrow> sym_string_valid S_HEX v
   | S_STRING \<Rightarrow> newline \<notin> set v
   | _ \<Rightarrow> False)"

fun tri_of_string :: "string \<Rightarrow> tristate" where
  "tri_of_string v = (if v = ''y'' then Tyes else if v = ''m'' then Tmod else Tno)"

definition with_value :: "string \<Rightarrow> user \<Rightarrow> user" where
  "with_value v u = (if utype u = S_BOOLEAN \<or> utype u = S_TRISTATE then u\<lparr>utri := tri_of_string v, uset := True\<rparr>
     else u\<lparr>uval := Some v, uset := True\<rparr>)"

text \<open>Names and prefixes have none of the characters that end them in a line.\<close>

definition name_ok :: "string \<Rightarrow> bool" where
  "name_ok name \<longleftrightarrow> CHR '' '' \<notin> set name \<and> CHR ''='' \<notin> set name \<and> newline \<notin> set name \<and> CHR ''#'' \<notin> set name"

lemma digit_not_line: "is_digit b c \<Longrightarrow> c \<noteq> newline \<and> c \<noteq> carriage_return"
  by (auto simp: is_digit_def digit_value_def Let_def split: option.splits if_splits)

lemma all_digits_line: "\<forall>c \<in> set cs. is_digit b c \<Longrightarrow> newline \<notin> set cs \<and> carriage_return \<notin> set cs"
  using digit_not_line by blast

lemma written_not_line: "written T v \<Longrightarrow> newline \<notin> set v \<and> (T \<noteq> S_STRING \<longrightarrow> carriage_return \<notin> set v)"
proof (cases T)
  case S_INT
  assume w: "written T v"
  obtain c cs where v: "v = c # cs" using w S_INT by (cases v) (auto simp: written_def sym_string_valid_def)
  show ?thesis
  proof (cases "c = CHR ''-''")
    case True
    with w S_INT v show ?thesis by (cases cs) (auto simp: written_def sym_string_valid_def dest: digit_not_line all_digits_line)
  next
    case False
    with w S_INT v show ?thesis by (auto simp: written_def sym_string_valid_def dest: digit_not_line all_digits_line)
  qed
next
  case S_HEX
  assume w: "written T v"
  show ?thesis
  proof (cases "first v = CHR ''0'' \<and> (first (tl v) = CHR ''x'' \<or> first (tl v) = CHR ''X'')")
    case True
    then obtain cs where v: "v = CHR ''0'' # CHR ''x'' # cs \<or> v = CHR ''0'' # CHR ''X'' # cs"
      by (cases v; cases "tl v") auto
    with w S_HEX show ?thesis by (auto simp: written_def sym_string_valid_def isxdigit_def dest: all_digits_line)
  next
    case False
    then have "\<forall>c \<in> set v. isxdigit c" using w S_HEX by (auto simp: written_def sym_string_valid_def Let_def)
    then show ?thesis by (auto simp: isxdigit_def dest: all_digits_line)
  qed
qed (auto simp: written_def)

lemma take_prefix [simp]: "take (length p) (p @ xs) = p" "drop (length p) (p @ xs) = xs"
  by simp_all

lemma cut_line_newline: "newline \<notin> set v \<Longrightarrow> v = [] \<or> last v \<noteq> carriage_return \<Longrightarrow> cut_line (v @ [newline]) = v"
  by (auto simp: cut_line_def Let_def takeWhile_append)

lemma take_until: "c \<notin> set name \<Longrightarrow> takeWhile (\<lambda>x. x \<noteq> c) (name @ c # t) = name"
  "c \<notin> set name \<Longrightarrow> dropWhile (\<lambda>x. x \<noteq> c) (name @ c # t) = c # t"
  by (auto simp: takeWhile_append dropWhile_append)

lemma first_append: "first (p @ xs) = (if p = [] then first xs else hd p)"
  by (cases p) auto

definition line_value :: "symbol_type \<Rightarrow> string \<Rightarrow> string" where
  "line_value type v = (if type = S_STRING then sym_escape_string_value v else v)"

lemma conf_set_written:
  assumes "written (utype u) v" "\<not> ((utype u = S_BOOLEAN \<or> utype u = S_TRISTATE) \<and> v = ''n'')"
  shows "conf_set_sym_val u (line_value (utype u) v) = (with_value v u, False, 0)"
proof (cases "utype u")
  case S_STRING
  then show ?thesis
    by (simp add: line_value_def conf_set_sym_val_def set_quoted_def sym_escape_string_value_def unescape_escape set_valid_def sym_string_valid_def with_value_def)
qed (use assms in \<open>auto simp: line_value_def written_def conf_set_sym_val_def set_boolean_def set_valid_def with_value_def\<close>)

lemma conf_write_line:
  assumes "written type v"
  shows "conf_write_symbol CONFIG name type v =
    (if (type = S_BOOLEAN \<or> type = S_TRISTATE) \<and> v = ''n'' then ''# '' @ CONFIG @ name @ '' is not set'' @ [newline]
     else CONFIG @ name @ ''='' @ line_value type v @ [newline])"
  using assms by (cases type) (auto simp: written_def conf_write_symbol_def kconfig_print_symbol_def line_value_def)

lemma read_line_value:
  assumes "written type v"
  shows "cut_line (line_value type v @ [newline]) = line_value type v"
proof (rule cut_line_newline)
  show "newline \<notin> set (line_value type v)"
    using written_not_line [OF assms] set_escape [of v] by (auto simp: line_value_def sym_escape_string_value_def)
  show "line_value type v = [] \<or> last (line_value type v) \<noteq> carriage_return"
    using written_not_line [OF assms] by (auto simp: line_value_def sym_escape_string_value_def) (metis last_in_set)
qed

definition after_read :: "symref \<Rightarrow> string \<Rightarrow> conf \<Rightarrow> conf" where
  "after_read s v st = setsym s (set_user s (with_value v (users st s)) (warn_override s st))"

lemma users_warn [simp]: "users (warn_override s st) = users st"
  by (simp add: warn_override_def conf_warning_def)

text \<open>The line of a symbol sets the symbol to the value.\<close>

lemma read_written_line:
  assumes "sym_find name = Some s" "name_ok name" "first CONFIG \<noteq> CHR ''#''" "written (utype (users st s)) v"
  shows "conf_read_line CONFIG sym_find (conf_write_symbol CONFIG name (utype (users st s)) v) st = after_read s v st"
proof (cases "(utype (users st s) = S_BOOLEAN \<or> utype (users st s) = S_TRISTATE) \<and> v = ''n''")
  case True
  have "CHR '' '' \<notin> set name" using assms(2) by (simp add: name_ok_def)
  note t = take_until [OF this, of "''is not set'' @ [newline]"]
  have "conf_read_line CONFIG sym_find (conf_write_symbol CONFIG name (utype (users st s)) v) st
    = read_not_set sym_find (name @ CHR '' '' # ''is not set'' @ [newline]) st"
    unfolding conf_write_line [OF assms(4)] using True by (simp add: conf_read_line_def)
  also have "\<dots> = after_read s v st"
    using True assms(1) by (auto simp: read_not_set_def t [simplified] Let_def after_read_def with_value_def)
  finally show ?thesis .
next
  case False
  let ?T = "utype (users st s)"
  have n: "CHR ''='' \<notin> set name" "name = [] \<or> hd name \<noteq> CHR ''#''"
    using assms(2) by (simp add: name_ok_def, cases name) (auto simp: name_ok_def)
  note t = take_until [OF n(1), of "line_value ?T v @ [newline]"]
  have "first (CONFIG @ name @ ''='' @ line_value ?T v @ [newline]) \<noteq> CHR ''#''"
    using assms(3) n(2) by (cases CONFIG; cases name) simp_all
  then have "conf_read_line CONFIG sym_find (conf_write_symbol CONFIG name ?T v) st
    = read_assignment sym_find (name @ CHR ''='' # line_value ?T v @ [newline]) st"
    unfolding conf_write_line [OF assms(4)] if_not_P [OF False] by (simp add: conf_read_line_def)
  also have "\<dots> = after_read s v st"
    using conf_set_written [OF assms(4) False] assms(1)
    by (simp add: read_assignment_def t read_line_value [OF assms(4)] after_read_def)
  finally show ?thesis .
qed

section \<open>A file\<close>

lemma getlines_line: "newline \<notin> set xs \<Longrightarrow> getlines l (xs @ newline # rest') = (l @ xs @ [newline]) # getlines [] rest'"
  by (induction xs arbitrary: l) auto

lemma written_line_ends:
  assumes "written type v" "name_ok name" "newline \<notin> set CONFIG"
  obtains body where "conf_write_symbol CONFIG name type v = body @ [newline]" "newline \<notin> set body"
proof -
  let ?body = "if (type = S_BOOLEAN \<or> type = S_TRISTATE) \<and> v = ''n'' then ''# '' @ CONFIG @ name @ '' is not set''
    else CONFIG @ name @ ''='' @ line_value type v"
  have "newline \<notin> set (line_value type v)"
    using written_not_line [OF assms(1)] set_escape [of v] by (auto simp: line_value_def sym_escape_string_value_def)
  with assms(2,3) have "newline \<notin> set ?body" by (auto simp: name_ok_def)
  moreover have "conf_write_symbol CONFIG name type v = ?body @ [newline]" unfolding conf_write_line [OF assms(1)] by simp
  ultimately show ?thesis using that by blast
qed

text \<open>The fields that reading leaves alone.\<close>

definition same_kind :: "user \<Rightarrow> user \<Rightarrow> bool" where
  "same_kind u u' \<longleftrightarrow> uname u' = uname u \<and> utype u' = utype u \<and> uchoice u' = uchoice u"

lemma same_kind_refl [simp]: "same_kind u u" and same_kind_with [simp]: "same_kind u (with_value v u)"
  by (simp_all add: same_kind_def with_value_def)

lemma users_setsym: "x \<noteq> s \<Longrightarrow> uchoice (users st s) \<noteq> Some x \<Longrightarrow> users (setsym s st) x = users st x"
  by (auto simp: setsym_def set_user_def conf_warning_def Let_def split: option.split tristate.split)

lemma users_setsym_self: "uchoice (users st s) \<noteq> Some s \<Longrightarrow> users (setsym s st) s = users st s"
  by (auto simp: setsym_def set_user_def conf_warning_def Let_def split: option.split tristate.split)

lemma kind_setsym: "same_kind (users st x) (users (setsym s st) x)"
  by (auto simp: setsym_def set_user_def conf_warning_def Let_def same_kind_def split: option.split tristate.split)

lemma same_kind_trans: "same_kind a b \<Longrightarrow> same_kind b c \<Longrightarrow> same_kind a c"
  by (simp add: same_kind_def)

lemma kind_after: "same_kind (users st x) (users (after_read s v st) x)"
  unfolding after_read_def
  by (rule same_kind_trans [OF _ kind_setsym]) (simp add: set_user_def)

lemma users_after_self: "uchoice (users st s) \<noteq> Some s \<Longrightarrow> users (after_read s v st) s = with_value v (users st s)"
  unfolding after_read_def by (subst users_setsym_self) (simp_all add: set_user_def with_value_def)

lemma users_after_other:
  "x \<noteq> s \<Longrightarrow> uchoice (users st s) \<noteq> Some x \<Longrightarrow> users (after_read s v st) x = users st x"
  unfolding after_read_def by (subst users_setsym) (simp_all add: set_user_def with_value_def)

text \<open>A list of symbols with values, and the file that holds them.\<close>

definition entries_ok :: "(string \<Rightarrow> symref option) \<Rightarrow> (symref \<Rightarrow> user) \<Rightarrow> (symref \<times> string) list \<Rightarrow> bool" where
  "entries_ok sym_find us es \<longleftrightarrow> distinct (map fst es) \<and>
     (\<forall>(s, v) \<in> set es. sym_find (uname (us s)) = Some s \<and> name_ok (uname (us s)) \<and> written (utype (us s)) v
        \<and> (\<forall>c. uchoice (us s) = Some c \<longrightarrow> c \<notin> fst ` set es))"

definition conf_file :: "string \<Rightarrow> (symref \<Rightarrow> user) \<Rightarrow> (symref \<times> string) list \<Rightarrow> string" where
  "conf_file CONFIG us es = concat (map (\<lambda>(s, v). conf_write_symbol CONFIG (uname (us s)) (utype (us s)) v) es)"

lemma entries_ok_tl: "entries_ok sym_find us (e # es) \<Longrightarrow> entries_ok sym_find us es"
  by (simp add: entries_ok_def split_beta)

lemma entries_choice:
  assumes "entries_ok sym_find us es" "s \<in> fst ` set es" "x \<in> fst ` set es"
  shows "uchoice (us s) \<noteq> Some x"
proof -
  obtain v where "(s, v) \<in> set es" using assms(2) by auto
  with assms(1,3) show ?thesis unfolding entries_ok_def by blast
qed

lemma read_entries:
  assumes "first CONFIG \<noteq> CHR ''#''" "newline \<notin> set CONFIG"
  shows "entries_ok sym_find us es \<Longrightarrow> (\<And>s. same_kind (us s) (users st s)) \<Longrightarrow>
    fold (conf_read_line CONFIG sym_find) (getlines [] (conf_file CONFIG us es)) st = fold (\<lambda>(s, v). after_read s v) es st"
proof (induction es arbitrary: st)
  case (Cons e es)
  obtain s v where e: "e = (s, v)" by fastforce
  have ok: "sym_find (uname (us s)) = Some s" "name_ok (uname (us s))" "written (utype (us s)) v" "entries_ok sym_find us es"
    using Cons.prems(1) e entries_ok_tl [OF Cons.prems(1)] by (simp_all add: entries_ok_def)
  obtain body where body: "conf_write_symbol CONFIG (uname (us s)) (utype (us s)) v = body @ [newline]" "newline \<notin> set body"
    using written_line_ends [OF ok(3,2) assms(2)] by blast
  have k: "utype (users st s) = utype (us s)" using Cons.prems(2) [of s] by (simp add: same_kind_def)
  have r: "conf_read_line CONFIG sym_find (body @ [newline]) st = after_read s v st"
    using read_written_line [of sym_find "uname (us s)" s CONFIG st v] assms(1) ok k body by simp
  have "same_kind (us x) (users (after_read s v st) x)" for x
    using Cons.prems(2) [of x] kind_after [of st x s v] by (rule same_kind_trans)
  then have "fold (conf_read_line CONFIG sym_find) (getlines [] (conf_file CONFIG us es)) (after_read s v st) = fold (\<lambda>(s, v). after_read s v) es (after_read s v st)"
    by (rule Cons.IH [OF ok(4)])
  then show ?case using r body getlines_line [OF body(2), of "[]" "conf_file CONFIG us es"] by (simp add: conf_file_def e)
qed (simp add: conf_file_def)

lemma users_fold_other:
  "x \<notin> fst ` set es \<Longrightarrow> (\<And>s. s \<in> fst ` set es \<Longrightarrow> uchoice (users st s) \<noteq> Some x) \<Longrightarrow>
   users (fold (\<lambda>(s, v). after_read s v) es st) x = users st x"
proof (induction es arbitrary: st)
  case (Cons e es)
  obtain s v where e: "e = (s, v)" by fastforce
  have "uchoice (users (after_read s v st) t) = uchoice (users st t)" for t
    using kind_after [of st t s v] by (simp add: same_kind_def)
  with Cons.IH [of "after_read s v st"] Cons.prems e users_after_other [of x s st v] show ?case by simp
qed simp

lemma users_fold:
  "entries_ok sym_find us es \<Longrightarrow> (\<And>s. same_kind (us s) (users st s)) \<Longrightarrow> (s, v) \<in> set es \<Longrightarrow>
   users (fold (\<lambda>(s, v). after_read s v) es st) s = with_value v (users st s)"
proof (induction es arbitrary: st)
  case (Cons e es)
  obtain t w where e: "e = (t, w)" by fastforce
  note ok = entries_ok_tl [OF Cons.prems(1)]
  have c: "uchoice (users st x) = uchoice (us x)" "uchoice (users (after_read t w st) x) = uchoice (us x)" for x
    using Cons.prems(2) [of x] kind_after [of st x t w] by (simp_all add: same_kind_def)
  have k: "same_kind (us x) (users (after_read t w st) x)" for x
    using Cons.prems(2) [of x] kind_after [of st x t w] by (rule same_kind_trans)
  note nc = entries_choice [OF Cons.prems(1)]
  show ?case
  proof (cases "(s, v) \<in> set es")
    case True
    then have "s \<in> fst ` set es" by force
    then have "s \<noteq> t" "uchoice (us t) \<noteq> Some s" using Cons.prems(1) e nc [of t s] by (auto simp: entries_ok_def)
    then show ?thesis using Cons.IH [OF ok k True] e users_after_other [of s t st w] c by simp
  next
    case False
    then have st: "s = t" "v = w" using Cons.prems(3) e by auto
    have "s \<notin> fst ` set es" using Cons.prems(1) e st by (auto simp: entries_ok_def)
    moreover have "uchoice (users (after_read t w st) x) \<noteq> Some s" if "x \<in> fst ` set es" for x
      using nc [of x s] c e st that by simp
    ultimately have "users (fold (\<lambda>(s, v). after_read s v) es (after_read t w st)) s = users (after_read t w st) s"
      by (rule users_fold_other)
    then show ?thesis using users_after_self [of st s v] nc [of s s] c e st by simp
  qed
qed simp

text \<open>Reading a file gives every symbol in it the value it was written with.\<close>

lemma read_written_file:
  assumes "first CONFIG \<noteq> CHR ''#''" "newline \<notin> set CONFIG" "entries_ok sym_find (users st) es" "(s, v) \<in> set es"
  shows "users (conf_read_simple CONFIG sym_find (conf_file CONFIG (users st) es) st) s = with_value v (clear_user (users st s))"
proof -
  let ?st = "st\<lparr>users := (\<lambda>s. clear_user (users st s)), conf_warnings := 0\<rparr>"
  have k: "same_kind (users st x) (users ?st x)" for x by (simp add: same_kind_def clear_user_def)
  show ?thesis
    unfolding conf_read_simple_def read_entries [OF assms(1-3) k] using users_fold [OF assms(3) k assms(4)] by simp
qed

end
