(* ===== verification/Symbol_Table.thy ===== *)
theory Symbol_Table
  imports Expr
begin

text \<open>
  The table of symbols of src/support/kconfig/symbol.c: \<open>strhash\<close>, \<open>sym_lookup\<close> and
  \<open>sym_find\<close> over the buckets of \<open>symbol_hash\<close>, and that they are one map from names and flags to symbols.
\<close>

unbundle bit_operations_syntax

section \<open>The table\<close>

text \<open>The flags with which a symbol is looked up: 0, SYMBOL_CONST or SYMBOL_CHOICE.\<close>

datatype lookup_flags = Plain | Const | Choice

record entry =
  ename :: "string option"
  eflags :: lookup_flags

text \<open>\<open>fresh\<close> numbers the next symbol that is allocated.\<close>

record symbol_table =
  symbol_hash :: "nat \<Rightarrow> symref list"
  entries :: "symref \<Rightarrow> entry"
  fresh :: nat

definition SYMBOL_HASHSIZE :: nat where
  "SYMBOL_HASHSIZE = 9973"

text \<open>\<open>*s\<close> is a signed character.\<close>

definition strhash :: "string \<Rightarrow> 32 word" where
  "strhash s = fold (\<lambda>c hash. (hash XOR scast (of_char c :: 8 word)) * 0x01000193) s 2166136261"

definition bucket :: "string \<Rightarrow> nat" where
  "bucket name = unat (strhash name) mod SYMBOL_HASHSIZE"

definition constant_symbol :: "string \<Rightarrow> symref option" where
  "constant_symbol name =
     (if name = ''y'' then Some symbol_yes else if name = ''m'' then Some symbol_mod
      else if name = ''n'' then Some symbol_no else None)"

text \<open>The condition in the loop of \<open>sym_lookup\<close>.\<close>

definition matches :: "string \<Rightarrow> lookup_flags \<Rightarrow> entry \<Rightarrow> bool" where
  "matches name flags e \<longleftrightarrow> ename e = Some name \<and> (if flags \<noteq> Plain then eflags e = flags else eflags e = Plain)"

definition add_symbol :: "symbol_table \<Rightarrow> string option \<Rightarrow> lookup_flags \<Rightarrow> nat \<Rightarrow> symref \<times> symbol_table" where
  "add_symbol T name flags hash =
     (let s = Sym (fresh T) in
      (s, T\<lparr>symbol_hash := (symbol_hash T)(hash := s # symbol_hash T hash),
            entries := (entries T)(s := \<lparr>ename = name, eflags = flags\<rparr>), fresh := fresh T + 1\<rparr>))"

definition sym_lookup :: "symbol_table \<Rightarrow> string option \<Rightarrow> lookup_flags \<Rightarrow> symref \<times> symbol_table" where
  "sym_lookup T name flags = (case name of
     None \<Rightarrow> add_symbol T None flags 0
   | Some nm \<Rightarrow>
       (case constant_symbol nm of
          Some s \<Rightarrow> (s, T)
        | None \<Rightarrow>
            (case find (\<lambda>s. matches nm flags (entries T s)) (symbol_hash T (bucket nm)) of
               Some s \<Rightarrow> (s, T)
             | None \<Rightarrow> add_symbol T name flags (bucket nm))))"

definition sym_find :: "symbol_table \<Rightarrow> string \<Rightarrow> symref option" where
  "sym_find T name = (case constant_symbol name of
     Some s \<Rightarrow> Some s
   | None \<Rightarrow> find (\<lambda>s. ename (entries T s) = Some name \<and> eflags (entries T s) \<noteq> Const) (symbol_hash T (bucket name)))"

definition empty_table :: symbol_table where
  "empty_table = \<lparr>symbol_hash = (\<lambda>_. []), entries = (\<lambda>_. \<lparr>ename = None, eflags = Plain\<rparr>), fresh = 0\<rparr>"

text \<open>The symbols in the order of \<open>for_all_symbols\<close>, before its test of the type.\<close>

definition all_symbols :: "symbol_table \<Rightarrow> symref list" where
  "all_symbols T = concat (map (symbol_hash T) [0..<SYMBOL_HASHSIZE])"

section \<open>One map\<close>

text \<open>Every symbol is in the bucket of its name and has been allocated.\<close>

definition wf_table :: "symbol_table \<Rightarrow> bool" where
  "wf_table T \<longleftrightarrow> (\<forall>b s. s \<in> set (symbol_hash T b) \<longrightarrow> (\<exists>n < fresh T. s = Sym n)
     \<and> b = (case ename (entries T s) of Some nm \<Rightarrow> bucket nm | None \<Rightarrow> 0))"

text \<open>The table as a map: the first of all symbols with the name and the flags.\<close>

definition table_map :: "symbol_table \<Rightarrow> string \<times> lookup_flags \<Rightarrow> symref option" where
  "table_map T = (\<lambda>(nm, flags). case constant_symbol nm of Some s \<Rightarrow> Some s
     | None \<Rightarrow> find (\<lambda>s. matches nm flags (entries T s)) (all_symbols T))"

lemma bucket_less: "bucket nm < SYMBOL_HASHSIZE"
  by (simp add: bucket_def SYMBOL_HASHSIZE_def)

lemma find_none: "(\<And>x. x \<in> set xs \<Longrightarrow> \<not> P x) \<Longrightarrow> find P xs = None"
  by (simp add: find_None_iff)

lemma find_concat:
  "k < n \<Longrightarrow> (\<And>b x. b \<noteq> k \<Longrightarrow> x \<in> set (f b) \<Longrightarrow> \<not> P x) \<Longrightarrow> find P (concat (map f [0..<n])) = find P (f k)"
proof (induction n)
  case (Suc n)
  show ?case
  proof (cases "k = n")
    case True
    have "\<not> P x" if x: "x \<in> set (concat (map f [0..<n]))" for x
    proof -
      obtain b where "b < n" "x \<in> set (f b)" using x by auto
      with Suc.prems(2) [of b x] True show ?thesis by simp
    qed
    then have "find P (concat (map f [0..<n])) = None" by (rule find_none)
    then show ?thesis using True by (simp add: find_append)
  next
    case False
    then have "find P (concat (map f [0..<n])) = find P (f k)" using Suc by simp
    moreover have "find P (f n) = None" by (rule find_none) (metis False Suc.prems(2))
    ultimately show ?thesis by (simp add: find_append split: option.split)
  qed
qed simp

lemma find_in_bucket:
  assumes "wf_table T" "\<And>e. P e \<Longrightarrow> ename e = Some nm"
  shows "find (\<lambda>s. P (entries T s)) (all_symbols T) = find (\<lambda>s. P (entries T s)) (symbol_hash T (bucket nm))"
  unfolding all_symbols_def
proof (rule find_concat [OF bucket_less])
  fix b s
  assume "b \<noteq> bucket nm" "s \<in> set (symbol_hash T b)"
  with assms show "\<not> P (entries T s)" by (fastforce simp: wf_table_def)
qed

lemma matches_name: "matches nm flags e \<Longrightarrow> ename e = Some nm"
  by (simp add: matches_def)

lemma table_map_bucket:
  "wf_table T \<Longrightarrow> constant_symbol nm = None \<Longrightarrow>
   table_map T (nm, flags) = find (\<lambda>s. matches nm flags (entries T s)) (symbol_hash T (bucket nm))"
  by (simp add: table_map_def find_in_bucket [OF _ matches_name])

lemma wf_empty: "wf_table empty_table"
  by (simp add: wf_table_def empty_table_def)

lemma wf_add:
  assumes "wf_table T" "hash = (case name of Some nm \<Rightarrow> bucket nm | None \<Rightarrow> 0)" "add_symbol T name flags hash = (s, T')"
  shows "wf_table T'"
proof -
  have T': "T' = T\<lparr>symbol_hash := (symbol_hash T)(hash := Sym (fresh T) # symbol_hash T hash),
            entries := (entries T)(Sym (fresh T) := \<lparr>ename = name, eflags = flags\<rparr>), fresh := fresh T + 1\<rparr>"
    using assms(3) by (auto simp: add_symbol_def Let_def)
  have old: "s \<noteq> Sym (fresh T)" "\<exists>n < Suc (fresh T). s = Sym n" if "s \<in> set (symbol_hash T b)" for b s
    using assms(1) that unfolding wf_table_def by fastforce+
  show ?thesis unfolding wf_table_def T'
    using assms(1,2) old by (auto simp: wf_table_def)
qed

lemma find_add:
  assumes "wf_table T" "add_symbol T (Some nm) flags (bucket nm) = (s, T')"
  shows "find (\<lambda>s. matches n f (entries T' s)) (symbol_hash T' (bucket n)) =
    (if n = nm \<and> f = flags then Some s else find (\<lambda>s. matches n f (entries T s)) (symbol_hash T (bucket n)))"
proof -
  have T': "s = Sym (fresh T)" "entries T' = (entries T)(s := \<lparr>ename = Some nm, eflags = flags\<rparr>)"
    "symbol_hash T' = (symbol_hash T)(bucket nm := s # symbol_hash T (bucket nm))"
    using assms(2) by (auto simp: add_symbol_def Let_def)
  have "x \<noteq> s" if "x \<in> set (symbol_hash T b)" for b x
    using assms(1) that unfolding wf_table_def T'(1) by fastforce
  then have "find (\<lambda>x. matches n f (entries T' x)) (symbol_hash T b) = find (\<lambda>x. matches n f (entries T x)) (symbol_hash T b)" for b
    by (intro find_cong) (auto simp: T'(2))
  then show ?thesis by (auto simp: T'(2,3) matches_def)
qed

lemma lookup_map:
  assumes "wf_table T" "sym_lookup T (Some nm) flags = (s, T')"
  shows "wf_table T' \<and> table_map T' = (table_map T)((nm, flags) \<mapsto> s)
    \<and> (\<forall>s0. table_map T (nm, flags) = Some s0 \<longrightarrow> s = s0 \<and> T' = T)"
proof (cases "table_map T (nm, flags)")
  case (Some s0)
  have "s = s0 \<and> T' = T"
  proof (cases "constant_symbol nm")
    case None
    with Some assms show ?thesis by (simp add: sym_lookup_def table_map_bucket)
  next
    case c: (Some c)
    with Some assms show ?thesis by (simp add: sym_lookup_def table_map_def)
  qed
  with Some assms(1) show ?thesis by (simp add: fun_upd_idem)
next
  case None
  then have c: "constant_symbol nm = None" by (auto simp: table_map_def split: option.splits)
  with None assms have a: "add_symbol T (Some nm) flags (bucket nm) = (s, T')"
    by (simp add: sym_lookup_def table_map_bucket)
  have w: "wf_table T'" by (rule wf_add [OF assms(1) _ a]) simp
  have "table_map T' (n, f) = ((table_map T)((nm, flags) \<mapsto> s)) (n, f)" for n f
  proof (cases "constant_symbol n")
    case None
    then show ?thesis using find_add [OF assms(1) a, of n f] by (simp add: table_map_bucket [OF w] table_map_bucket [OF assms(1)])
  next
    case (Some x)
    then show ?thesis using c by (auto simp: table_map_def)
  qed
  then have "table_map T' = (table_map T)((nm, flags) \<mapsto> s)" by (intro ext) (metis surj_pair)
  with None w show ?thesis by simp
qed

text \<open>\<open>sym_find\<close> finds what \<open>sym_lookup\<close> made, unless a choice has the same name.\<close>

lemma find_map:
  assumes "wf_table T" "table_map T (nm, Choice) = None \<or> table_map T (nm, Plain) = None"
  shows "sym_find T nm = (case table_map T (nm, Plain) of Some s \<Rightarrow> Some s | None \<Rightarrow> table_map T (nm, Choice))"
proof (cases "constant_symbol nm")
  case None
  let ?b = "symbol_hash T (bucket nm)"
  let ?Q = "\<lambda>e. ename e = Some nm \<and> eflags e \<noteq> Const"
  have m: "?Q e \<longleftrightarrow> matches nm Plain e \<or> matches nm Choice e" for e by (cases "eflags e") (auto simp: matches_def)
  then have Q: "(\<lambda>s. ?Q (entries T s)) = (\<lambda>s. matches nm Plain (entries T s) \<or> matches nm Choice (entries T s))" by blast
  note t = table_map_bucket [OF assms(1) None]
  have "find (\<lambda>s. ?Q (entries T s)) ?b = (case find (\<lambda>s. matches nm Plain (entries T s)) ?b of
    Some s \<Rightarrow> Some s | None \<Rightarrow> find (\<lambda>s. matches nm Choice (entries T s)) ?b)"
    using assms(2) unfolding t Q
  proof
    assume n: "find (\<lambda>s. matches nm Choice (entries T s)) ?b = None"
    then have "find (\<lambda>s. matches nm Plain (entries T s) \<or> matches nm Choice (entries T s)) ?b = find (\<lambda>s. matches nm Plain (entries T s)) ?b"
      by (intro find_cong) (auto simp: find_None_iff)
    with n show "find (\<lambda>s. matches nm Plain (entries T s) \<or> matches nm Choice (entries T s)) ?b = (case find (\<lambda>s. matches nm Plain (entries T s)) ?b of
    Some s \<Rightarrow> Some s | None \<Rightarrow> find (\<lambda>s. matches nm Choice (entries T s)) ?b)" by (simp split: option.split)
  next
    assume n: "find (\<lambda>s. matches nm Plain (entries T s)) ?b = None"
    then have "find (\<lambda>s. matches nm Plain (entries T s) \<or> matches nm Choice (entries T s)) ?b = find (\<lambda>s. matches nm Choice (entries T s)) ?b"
      by (intro find_cong) (auto simp: find_None_iff)
    with n show "find (\<lambda>s. matches nm Plain (entries T s) \<or> matches nm Choice (entries T s)) ?b = (case find (\<lambda>s. matches nm Plain (entries T s)) ?b of
    Some s \<Rightarrow> Some s | None \<Rightarrow> find (\<lambda>s. matches nm Choice (entries T s)) ?b)" by simp
  qed
  with None show ?thesis unfolding sym_find_def t by simp
qed (simp add: sym_find_def table_map_def)

end
