(* ===== verification/Config_Properties.thy ===== *)
theory Config_Properties
  imports Dep_Cycles Conf_Laws Symbol_Table Value_Set
begin

text \<open>
  What the symbols of kconfig promise: the search for recursive dependencies, the table of
  symbols, the calculation of values and the configuration file, with small tables to apply it to.
\<close>

section \<open>Recursive dependencies\<close>

text \<open>Three symbols: the first two depend on each other, the third on nothing.\<close>

definition demo_property :: "expr option \<Rightarrow> property" where
  "demo_property e = \<lparr>ptype = P_PROMPT, ptext = Some ''prompt'', visible_expr = e, pexpr = No_expr\<rparr>"

definition demo_deps :: info where
  "demo_deps s = \<lparr>sym_is_choice = False, sym_is_choice_value = False,
     props = (if s = Sym 0 then [demo_property (Some (Symb (Sym 1)))]
              else if s = Sym 1 then [demo_property (Some (Not (Symb (Sym 0))))]
              else if s = Sym 2 then [demo_property None] else []),
     rev_dep_expr = None\<rparr>"

lemma demo_deps_used: "deps demo_deps s \<noteq> [] \<Longrightarrow> s \<in> set [Sym 0, Sym 1, Sym 2]"
  by (auto simp: deps_def demo_deps_def demo_property_def option_symbols_def choice_values_def choice_list_def split: if_splits)

text \<open>C22. The search for recursive dependencies without choices: run over all symbols it ends, every
  cycle it prints is one of the dependencies, and it prints nothing exactly when the dependencies
  have no cycle. The number of errors that \<open>conf_parse\<close> counts is 0 in every case.
\<close>

theorem recursion_found:
  assumes "plain I" "\<And>s. deps I s \<noteq> [] \<Longrightarrow> s \<in> set ss" "2 * length ss + 2 \<le> n"
  shows "\<exists>st. check_all n I ss (0, fresh_checker) = Some (0, st)
    \<and> (reports st = [] \<longleftrightarrow> acyclic (dep_rel I)) \<and> (\<forall>c \<in> set (reports st). is_cycle I c)"
  by (rule recursion_search [OF assms])

lemma recursion_found_witness:
  "\<exists>st. check_all 8 demo_deps [Sym 0, Sym 1, Sym 2] (0, fresh_checker) = Some (0, st)
    \<and> (reports st = [] \<longleftrightarrow> acyclic (dep_rel demo_deps)) \<and> (\<forall>c \<in> set (reports st). is_cycle demo_deps c)"
  by (rule recursion_found [OF _ demo_deps_used]) (simp_all add: plain_def demo_deps_def)

text \<open>A choice of two values.\<close>

definition demo_choice :: info where
  "demo_choice s = \<lparr>sym_is_choice = (s = Sym 0), sym_is_choice_value = (s = Sym 1 \<or> s = Sym 2),
     props = (if s = Sym 0 then [\<lparr>ptype = P_CHOICE, ptext = None, visible_expr = None, pexpr = Choice_list [Sym 1, Sym 2]\<rparr>]
              else if s = Sym 1 \<or> s = Sym 2 then [demo_property None,
                \<lparr>ptype = P_CHOICE, ptext = None, visible_expr = None, pexpr = Dep (Symb (Sym 0))\<rparr>] else []),
     rev_dep_expr = None\<rparr>"

lemma demo_choice_wf: "wf_info {Sym 0, Sym 1, Sym 2} demo_choice"
  by (auto simp: wf_info_def demo_choice_def demo_property_def deps_def choice_values_def choice_list_def choice_of_def choice_symbol_def
      sym_get_choice_prop_def prop_get_symbol_def option_symbols_def)

text \<open>With choices too the search ends, at a depth of twice the number of symbols.\<close>

theorem dependency_check_ends:
  assumes "wf_info U I" "2 * card U + 2 \<le> n"
  shows "\<exists>errs st. check_all n I ss p = Some (errs, st)"
  using check_all_returns [OF assms, of ss p] by auto

lemma dependency_check_ends_witness:
  "\<exists>errs st. check_all 8 demo_choice [Sym 0, Sym 1, Sym 2] (0, fresh_checker) = Some (errs, st)"
  by (rule dependency_check_ends [OF demo_choice_wf]) simp

section \<open>The table of symbols\<close>

text \<open>C23. \<open>sym_lookup\<close> is lookup in one map from names and flags: a name that is there gives its
  symbol and changes nothing, any other is entered and leaves all others as they are.
\<close>

theorem symbol_table_is_map:
  assumes "wf_table T"
  shows "case sym_lookup T (Some nm) flags of (s, T') \<Rightarrow>
    wf_table T' \<and> table_map T' = (table_map T)((nm, flags) \<mapsto> s)
    \<and> (case table_map T (nm, flags) of Some s0 \<Rightarrow> s = s0 \<and> T' = T | None \<Rightarrow> s = Sym (fresh T) \<and> fresh T' = fresh T + 1)"
proof (cases "sym_lookup T (Some nm) flags")
  case (Pair s T')
  have "s = Sym (fresh T) \<and> fresh T' = fresh T + 1" if "table_map T (nm, flags) = None"
  proof -
    have "constant_symbol nm = None" using that by (auto simp: table_map_def split: option.splits)
    with that Pair assms show ?thesis by (auto simp: sym_lookup_def table_map_bucket add_symbol_def Let_def)
  qed
  with lookup_map [OF assms Pair] Pair show ?thesis by (auto split: option.split)
qed

lemma symbol_table_is_map_witness:
  "case sym_lookup empty_table (Some ''BR2_x86_64'') Plain of (s, T') \<Rightarrow>
    wf_table T' \<and> table_map T' = (table_map empty_table)((''BR2_x86_64'', Plain) \<mapsto> s)
    \<and> (case table_map empty_table (''BR2_x86_64'', Plain) of
         Some s0 \<Rightarrow> s = s0 \<and> T' = empty_table | None \<Rightarrow> s = Sym (fresh empty_table) \<and> fresh T' = fresh empty_table + 1)"
  by (rule symbol_table_is_map [OF wf_empty])

section \<open>Values\<close>

text \<open>
  A calculated table: \<open>MODULES\<close> is n, the boolean symbol 1 is set to y by the user, and the
  tristate symbol 2, not yet calculated, has the default \<open>symbol 1\<close>.
\<close>

definition demo_value :: "string \<Rightarrow> tristate \<Rightarrow> sym_value" where
  "demo_value v t = \<lparr>vstr = v, vsym = None, vtri = t\<rparr>"

definition demo_ksym :: "string \<Rightarrow> symbol_type \<Rightarrow> property list \<Rightarrow> tristate \<Rightarrow> bool \<Rightarrow> bool \<Rightarrow> ksym" where
  "demo_ksym name type ps v is_valid is_user =
     \<lparr>kname = name, ktype = type, kprops = ps, dir_expr = None, rev_expr = None, implied_expr = None,
      choice = False, choiceval = False, const = False, auto = False, curr = demo_value [] v, user = demo_value [] v,
      visible = (if is_user then Tyes else Tno), dir_dep = Tyes, rev_dep = Tno, implied = Tno,
      valid = is_valid, to_write = False, def_user = is_user, need_set = False\<rparr>"

definition demo_default :: property where
  "demo_default = \<lparr>ptype = P_DEFAULT, ptext = None, visible_expr = None, pexpr = Dep (Symb (Sym 1))\<rparr>"

definition demo_tab :: "symref \<Rightarrow> ksym" where
  "demo_tab s =
     (if s = Sym 0 then demo_ksym ''MODULES'' S_BOOLEAN [] Tno True False
      else if s = Sym 1 then demo_ksym ''A'' S_BOOLEAN [demo_property None] Tyes True True
      else if s = Sym 2 then demo_ksym ''B'' S_TRISTATE [demo_default] Tno False False
      else demo_ksym ''y'' S_UNKNOWN [] Tyes True False)"

definition demo_kst :: kst where
  "demo_kst = \<lparr>tab = demo_tab, symbols = [Sym 0, Sym 1, Sym 2], modules = Sym 0, modules_val = Tno, unmet = []\<rparr>"

lemma demo_ordinary: "ordinary (tab demo_kst s)" and demo_need: "\<not> need_set (tab demo_kst s)"
  by (simp_all add: demo_kst_def demo_tab_def demo_ksym_def ordinary_def)

lemma demo_table: "table_ok {Sym 0, Sym 1, Sym 2} demo_kst"
proof -
  have c: "\<not> choice (tab demo_kst s)" "\<not> choiceval (tab demo_kst s)" for s
    using demo_ordinary [of s] by (simp_all add: ordinary_def)
  have r: "ptype p \<noteq> P_RANGE" if "p \<in> set (kprops (tab demo_kst s))" for p s
    using that by (auto simp: demo_kst_def demo_tab_def demo_ksym_def demo_property_def demo_default_def split: if_splits)
  have "valid (tab demo_kst x)" if "x \<noteq> Sym 2" for x
    using that by (simp add: demo_kst_def demo_tab_def demo_ksym_def)
  then show ?thesis
    using c r demo_need demo_ordinary
    by (auto simp: table_ok_def wf_tab_def pointers_ok_def todo_def) (simp add: demo_kst_def)
qed

definition all_settled :: "kst \<Rightarrow> bool" where
  "all_settled st \<longleftrightarrow> (\<forall>x. ordinary (tab st x) \<and> valid (tab st x) \<longrightarrow> settled (tab st x))"

lemma demo_settled: "all_settled demo_kst"
  by (simp add: all_settled_def settled_def string_settled_def demo_kst_def demo_tab_def demo_ksym_def demo_value_def logical_type_def Let_def
      EXPR_OR_def EXPR_AND_def less_eq_tristate_def less_tristate_def)



text \<open>C24. A value of an ordinary symbol that \<open>sym_tristate_within_range\<close> allows is taken, everything
  is calculated anew, and the symbol then has this value between its new bounds (y where that is
  m and cannot be).
\<close>

theorem set_value_is_used:
  assumes "table_ok U st" "2 * card U < n" "s \<in> set (symbols st)" "ordinary (tab st s)" "logical_type (ktype (tab st s))"
    "vtri (curr (tab st s)) \<noteq> val" "sym_tristate_within_range st s val"
  shows "\<exists>st1 st2. sym_set_tristate_value n s val st = Some (True, st1) \<and> sym_calc_value n s st1 = Some st2
    \<and> (let k = tab st2 s; v = EXPR_OR (EXPR_AND val (visible k)) (rev_dep k) in
        visible k \<noteq> Tno \<longrightarrow> vtri (curr k) = v \<or> (v = Tmod \<and> vtri (curr k) = Tyes))"
  using set_then_calc [OF assms] assms(5) by (fastforce simp: settled_def Let_def)

lemma set_value_is_used_witness:
  "\<exists>st1 st2. sym_set_tristate_value 7 (Sym 1) Tno demo_kst = Some (True, st1) \<and> sym_calc_value 7 (Sym 1) st1 = Some st2
    \<and> (let k = tab st2 (Sym 1); v = EXPR_OR (EXPR_AND Tno (visible k)) (rev_dep k) in
        visible k \<noteq> Tno \<longrightarrow> vtri (curr k) = v \<or> (v = Tmod \<and> vtri (curr k) = Tyes))"
  by (rule set_value_is_used [OF demo_table _ _ demo_ordinary])
    (simp_all add: demo_kst_def demo_tab_def demo_ksym_def demo_value_def logical_type_def sym_tristate_within_range_def sym_get_type_def Let_def
      less_eq_tristate_def)





section \<open>Configuration files\<close>

definition demo_user :: "string \<Rightarrow> symbol_type \<Rightarrow> user" where
  "demo_user name type = \<lparr>uname = name, utype = type, uval = None, utri = Tno, uchosen = None, uset = False, uchoice = None, uis_choice = False\<rparr>"

definition demo_conf :: conf where
  "demo_conf = \<lparr>users = (\<lambda>s. if s = Sym 1 then demo_user ''DL_DIR'' S_STRING else if s = Sym 2 then demo_user ''JLEVEL'' S_INT
     else demo_user ''X'' S_BOOLEAN), conf_warnings = 0, sym_change_count = 0\<rparr>"

definition demo_find :: "string \<Rightarrow> symref option" where
  "demo_find name = (if name = ''DL_DIR'' then Some (Sym 1) else if name = ''JLEVEL'' then Some (Sym 2) else None)"

text \<open>C8. Reading the file that was written gives every symbol its value back: strings with any
  characters but a newline, numbers, and the three states, the line of a comment for n included.
\<close>

theorem written_file_read:
  assumes "first CONFIG \<noteq> CHR ''#''" "newline \<notin> set CONFIG" "entries_ok f (users st) es" "(s, v) \<in> set es"
  shows "users (conf_read_simple CONFIG f (conf_file CONFIG (users st) es) st) s = with_value v (clear_user (users st s))"
  by (rule read_written_file [OF assms])

lemma written_file_read_witness:
  "users (conf_read_simple ''BR2_'' demo_find (conf_file ''BR2_'' (users demo_conf) [(Sym 1, ''a b=#''), (Sym 2, ''4'')]) demo_conf) (Sym 1)
    = with_value ''a b=#'' (clear_user (users demo_conf (Sym 1)))"
  by (rule written_file_read)
    (auto simp: entries_ok_def demo_conf_def demo_find_def demo_user_def name_ok_def written_def sym_string_valid_def
      is_digit_def digit_value_def Let_def)

text \<open>\<open>sym_escape_string_value\<close> fills the buffer that it allocates exactly, terminator included.\<close>

theorem escape_buffer_exact: "length (sym_escape_string_value s) + 1 = escape_size s"
  by (rule escape_fits)

end
