(* ===== verification/Text_Properties.thy ===== *)
theory Text_Properties
  imports Text_Laws Config_Properties
begin

text \<open>What texts as values and texts with symbols in them promise, on a table with a string symbol.\<close>

definition demo_text_kst :: kst where
  "demo_text_kst = demo_kst\<lparr>tab := demo_tab(Sym 2 := (demo_ksym ''ARCH'' S_STRING [demo_property None] Tno True True)\<lparr>curr := demo_value ''riscv64'' Tno\<rparr>)\<rparr>"

lemma demo_text_ordinary: "ordinary (tab demo_text_kst s)" and demo_text_need: "\<not> need_set (tab demo_text_kst s)"
  by (simp_all add: demo_text_kst_def demo_kst_def demo_tab_def demo_ksym_def ordinary_def)

lemma demo_text_table: "table_ok {Sym 0, Sym 1, Sym 2} demo_text_kst"
proof -
  have c: "\<not> choice (tab demo_text_kst s)" "\<not> choiceval (tab demo_text_kst s)" for s
    using demo_text_ordinary [of s] by (simp_all add: ordinary_def)
  have r: "ptype p \<noteq> P_RANGE" if "p \<in> set (kprops (tab demo_text_kst s))" for p s
    using that by (auto simp: demo_text_kst_def demo_kst_def demo_tab_def demo_ksym_def demo_property_def demo_default_def split: if_splits)
  have "valid (tab demo_text_kst x)" for x
    by (simp add: demo_text_kst_def demo_kst_def demo_tab_def demo_ksym_def)
  then show ?thesis
    using c r demo_text_need demo_text_ordinary
    by (auto simp: table_ok_def wf_tab_def pointers_ok_def todo_def) (simp add: demo_text_kst_def demo_kst_def)
qed



text \<open>C26. When no name in a text is longer than 255 characters, \<open>sym_expand_string_value\<close> stays inside the buffer
  that it lets grow, and gives the text with every name replaced by the value its symbol then has,
  or by nothing where there is none.
\<close>

theorem expansion_fits:
  assumes "table_ok U st" "2 * card U < n" "calculated {modules st} st"
    "\<forall>nm \<in> set (names_of inp). length nm < SYMBOL_MAXLENGTH" "\<forall>s \<in> found lookup (names_of inp). ordinary (tab st s)"
  shows "\<exists>st'. sym_expand_string_value n lookup inp st = Some (expand_text (value_of lookup st') inp, st')
    \<and> calculated (found lookup (names_of inp)) st'"
proof -
  obtain st' where "sym_expand_string_value n lookup inp st = Some ([] @ expand_text (value_of lookup st') inp, st')"
    "calculated (insert (modules st) (found lookup (names_of inp))) st'"
    using expand_loop_value [OF assms(2,1,3-5), of "[]" "length inp + 1"] unfolding sym_expand_string_value_def by auto
  then show ?thesis by (intro exI [of _ st']) (simp add: calculated_def)
qed

lemma expansion_fits_witness:
  "\<exists>st'. sym_expand_string_value 7 (\<lambda>nm. if nm = ''ARCH'' then Some (Sym 2) else None) ''board/$ARCH/defconfig'' demo_text_kst
      = Some (expand_text (value_of (\<lambda>nm. if nm = ''ARCH'' then Some (Sym 2) else None) st') ''board/$ARCH/defconfig'', st')
    \<and> calculated (found (\<lambda>nm. if nm = ''ARCH'' then Some (Sym 2) else None) (names_of ''board/$ARCH/defconfig'')) st'"
proof -
  have "at_dollar ''/defconfig'' = None" "at_dollar ''board/$ARCH/defconfig'' = Some (''board/'', ''ARCH/defconfig'')" by simp_all
  then have "names_of ''board/$ARCH/defconfig'' = [''ARCH'']"
    by (simp add: names_of.simps [of "''board/$ARCH/defconfig''"] names_of.simps [of "''/defconfig''"] name_char_def)
  then show ?thesis
    by (intro expansion_fits [OF demo_text_table])
      (simp_all add: calculated_def ordinary_def SYMBOL_MAXLENGTH_def demo_text_kst_def demo_kst_def demo_tab_def demo_ksym_def)
qed

text \<open>C27. The buffers of fixed size: a name of 256 characters or more overflows the one for names in both functions; the
  result of \<open>conf_expand_value\<close> overflows its buffer when it is longer than 255 characters, so a
  text without names is returned exactly when it is shorter.
\<close>

theorem expansion_overflows:
  assumes "at_dollar inp = Some (before, src)" "length (takeWhile name_char src) \<ge> SYMBOL_MAXLENGTH" "at_dollar fixed = None"
  shows "sym_expand_string_value n lookup inp st = None \<and> conf_expand_value n lookup' inp st = None
    \<and> conf_expand_value n lookup' fixed st = (if length fixed < SYMBOL_MAXLENGTH then Some (fixed, st) else None)
    \<and> (conf_expand_value n lookup' other st = Some (res, st') \<longrightarrow> length res < SYMBOL_MAXLENGTH)"
  using conf_expand_long_name [OF assms(1,2)] conf_expand_plain [OF assms(3)] conf_expand_bounded
  unfolding conf_expand_value_def by blast

lemma expansion_overflows_witness:
  "sym_expand_string_value 7 (\<lambda>_. None) (CHR ''$'' # replicate 256 CHR ''A'') demo_text_kst = None
    \<and> conf_expand_value 7 (\<lambda>_. Sym 2) (CHR ''$'' # replicate 256 CHR ''A'') demo_text_kst = None
    \<and> conf_expand_value 7 (\<lambda>_. Sym 2) ''defconfig'' demo_text_kst = Some (''defconfig'', demo_text_kst)"
proof -
  have "at_dollar (CHR ''$'' # replicate 256 CHR ''A'') = Some ([], replicate 256 CHR ''A'')" by simp
  moreover have "length (takeWhile name_char (replicate 256 CHR ''A'')) \<ge> SYMBOL_MAXLENGTH"
    by (simp add: takeWhile_replicate name_char_def SYMBOL_MAXLENGTH_def)
  moreover have "at_dollar ''defconfig'' = None" by simp
  ultimately show ?thesis
    using expansion_overflows [of "CHR ''$'' # replicate 256 CHR ''A''" "[]" "replicate 256 CHR ''A''" "''defconfig''" 7 "\<lambda>_. None" demo_text_kst "\<lambda>_. Sym 2"]
    by (simp add: SYMBOL_MAXLENGTH_def)
qed

end
