(* ===== verification/Menu_Build.thy ===== *)
theory Menu_Build
  imports Dep_Check Expr_Simplify
begin

text \<open>
  The tree of menus, src/support/kconfig/menu.c: how the actions of the parser (zconf.y) build it out of
  nodes with pointers to the next node, the parent and the first child, and how
  \<open>conf_write\<close> of confdata.c walks over it. A pointer to a node is its place in a list of cells, with the
  root first; a pointer to a property its place in the order of allocation. Line numbers
  and warnings are left out.
\<close>

section \<open>State\<close>

record menu_prop = property +
  pmenu :: nat

record fsym =
  ftype :: symbol_type
  fname :: string
  fchoice :: bool
  fchoiceval :: bool
  foptional :: bool
  fauto :: bool
  fallno :: bool
  fconst :: bool
  fprops :: "nat list"
  fdir :: "expr option"
  frev :: "expr option"
  fimplied :: "expr option"

record menu_data =
  msym :: "symref option"
  mprompt :: "nat option"
  mvisibility :: "expr option"
  mdep :: "expr option"

record menu = menu_data +
  mnext :: "nat option"
  mparent :: "nat option"
  mlist :: "nat option"

text \<open>The symbols, the properties that have been allocated, and \<open>modules_sym\<close>, \<open>sym_defconfig_list\<close>.\<close>

record symbols_state =
  fsyms :: "symref \<Rightarrow> fsym"
  heap :: "nat \<Rightarrow> menu_prop"
  allocated :: nat
  fmodules :: "symref option"
  defconfig_list :: "symref option"

datatype slot = Next nat | List nat

record builder = symbols_state +
  cells :: "menu list"
  current_entry :: nat
  current_menu :: "nat option"
  last_entry_ptr :: slot

definition fupd :: "symref \<Rightarrow> (fsym \<Rightarrow> fsym) \<Rightarrow> 'a symbols_state_scheme \<Rightarrow> 'a symbols_state_scheme" where
  "fupd s f st = st\<lparr>fsyms := (fsyms st)(s := f (fsyms st s))\<rparr>"

definition upd_cell :: "nat \<Rightarrow> (menu \<Rightarrow> menu) \<Rightarrow> builder \<Rightarrow> builder option" where
  "upd_cell i f b = (if i < length (cells b) then Some (b\<lparr>cells := (cells b)[i := f (cells b ! i)]\<rparr>) else None)"

definition menu_at :: "menu list \<Rightarrow> nat \<Rightarrow> menu option" where
  "menu_at cs i = (if i < length cs then Some (cs ! i) else None)"

text \<open>\<open>*last_entry_ptr = menu\<close>.\<close>

definition set_slot :: "slot \<Rightarrow> nat \<Rightarrow> builder \<Rightarrow> builder option" where
  "set_slot s i b = (case s of
     Next j \<Rightarrow> upd_cell j (\<lambda>m. m\<lparr>mnext := Some i\<rparr>) b
   | List j \<Rightarrow> upd_cell j (\<lambda>m. m\<lparr>mlist := Some i\<rparr>) b)"

section \<open>Properties\<close>

text \<open>\<open>prop_alloc\<close>, with what \<open>menu_add_prop\<close> stores; the number of the property is returned.\<close>

definition prop_alloc :: "menu_prop \<Rightarrow> symref option \<Rightarrow> 'a symbols_state_scheme \<Rightarrow> nat \<times> 'a symbols_state_scheme" where
  "prop_alloc p s st =
     (let i = allocated st; st = st\<lparr>heap := (heap st)(i := p), allocated := i + 1\<rparr>
      in (i, case s of None \<Rightarrow> st | Some s \<Rightarrow> fupd s (\<lambda>k. k\<lparr>fprops := fprops k @ [i]\<rparr>) st))"

definition is_space :: "char \<Rightarrow> bool" where
  "is_space c \<longleftrightarrow> c \<in> {CHR 0x20, CHR 0x09, CHR 0x0A, CHR 0x0B, CHR 0x0C, CHR 0x0D}"

text \<open>The loop over \<open>menu->parent\<close>, which adds the visibility of the menus above to a prompt.\<close>

partial_function (option) upper_visibility :: "menu list \<Rightarrow> nat option \<Rightarrow> expr option \<Rightarrow> expr option option" where
  "upper_visibility cs p e = (case p of
     None \<Rightarrow> Some e
   | Some i \<Rightarrow> do {
       m \<leftarrow> menu_at cs i;
       upper_visibility cs (mparent m) (case mvisibility m of None \<Rightarrow> e | Some v \<Rightarrow> expr_alloc_gate E_AND e (Some v)) })"

definition menu_add_prop :: "prop_type \<Rightarrow> string option \<Rightarrow> prop_expr \<Rightarrow> expr option \<Rightarrow> builder \<Rightarrow> builder option" where
  "menu_add_prop type prompt e dep b = do {
     m \<leftarrow> menu_at (cells b) (current_entry b);
     dep \<leftarrow> (if prompt \<noteq> None \<and> type = P_PROMPT then upper_visibility (cells b) (mparent m) dep else Some dep);
     let (i, b) = prop_alloc \<lparr>ptype = type, ptext = map_option (dropWhile is_space) prompt, visible_expr = dep, pexpr = e,
       pmenu = current_entry b\<rparr> (msym m) b;
     if prompt \<noteq> None then upd_cell (current_entry b) (\<lambda>m. m\<lparr>mprompt := Some i\<rparr>) b else Some b }"

definition menu_add_prompt :: "prop_type \<Rightarrow> string \<Rightarrow> expr option \<Rightarrow> builder \<Rightarrow> builder option" where
  "menu_add_prompt type prompt dep = menu_add_prop type (Some prompt) No_expr dep"

definition menu_add_expr :: "prop_type \<Rightarrow> prop_expr \<Rightarrow> expr option \<Rightarrow> builder \<Rightarrow> builder option" where
  "menu_add_expr type e dep = menu_add_prop type None e dep"

definition menu_add_symbol :: "prop_type \<Rightarrow> symref \<Rightarrow> expr option \<Rightarrow> builder \<Rightarrow> builder option" where
  "menu_add_symbol type s dep = menu_add_prop type None (Dep (Symb s)) dep"

section \<open>Nodes\<close>

definition new_menu :: "symref option \<Rightarrow> nat option \<Rightarrow> menu" where
  "new_menu s parent = \<lparr>msym = s, mprompt = None, mvisibility = None, mdep = None, mnext = None, mparent = parent, mlist = None\<rparr>"

definition menu_init :: "'a symbols_state_scheme \<Rightarrow> builder" where
  "menu_init st = symbols_state.extend (symbols_state.truncate st)
     \<lparr>cells = [new_menu None None], current_entry = 0, current_menu = Some 0, last_entry_ptr = List 0\<rparr>"

definition menu_add_entry :: "symref option \<Rightarrow> builder \<Rightarrow> builder option" where
  "menu_add_entry s b = do {
     let i = length (cells b);
     let b = b\<lparr>cells := cells b @ [new_menu s (current_menu b)]\<rparr>;
     b \<leftarrow> set_slot (last_entry_ptr b) i b;
     let b = b\<lparr>last_entry_ptr := Next i, current_entry := i\<rparr>;
     case s of None \<Rightarrow> Some b | Some s \<Rightarrow> menu_add_symbol P_SYMBOL s None b }"

definition menu_add_menu :: "builder \<Rightarrow> builder" where
  "menu_add_menu b = b\<lparr>last_entry_ptr := List (current_entry b), current_menu := Some (current_entry b)\<rparr>"

definition menu_end_menu :: "builder \<Rightarrow> builder option" where
  "menu_end_menu b = do {
     i \<leftarrow> current_menu b;
     m \<leftarrow> menu_at (cells b) i;
     Some (b\<lparr>last_entry_ptr := Next i, current_menu := mparent m\<rparr>) }"

definition menu_add_dep :: "expr option \<Rightarrow> builder \<Rightarrow> builder option" where
  "menu_add_dep dep b = upd_cell (current_entry b) (\<lambda>m. m\<lparr>mdep := expr_alloc_gate E_AND (mdep m) dep\<rparr>) b"

definition menu_add_visibility :: "expr option \<Rightarrow> builder \<Rightarrow> builder option" where
  "menu_add_visibility e b = upd_cell (current_entry b) (\<lambda>m. m\<lparr>mvisibility := expr_alloc_gate E_AND (mvisibility m) e\<rparr>) b"

text \<open>A second type is ignored.\<close>

definition set_type :: "symref \<Rightarrow> symbol_type \<Rightarrow> 'a symbols_state_scheme \<Rightarrow> 'a symbols_state_scheme" where
  "set_type s type st = fupd s (\<lambda>k. if ftype k = S_UNKNOWN then k\<lparr>ftype := type\<rparr> else k) st"

definition current_symbol :: "builder \<Rightarrow> symref option" where
  "current_symbol b = do { m \<leftarrow> menu_at (cells b) (current_entry b); msym m }"

definition menu_set_type :: "symbol_type \<Rightarrow> builder \<Rightarrow> builder option" where
  "menu_set_type type b = do { s \<leftarrow> current_symbol b; Some (set_type s type b) }"

datatype menu_option = T_OPT_MODULES | T_OPT_DEFCONFIG_LIST | T_OPT_ALLNOCONFIG_Y

definition menu_add_option :: "menu_option \<Rightarrow> builder \<Rightarrow> builder option" where
  "menu_add_option token b = do {
     s \<leftarrow> current_symbol b;
     Some (case token of
       T_OPT_MODULES \<Rightarrow> b\<lparr>fmodules := Some s\<rparr>
     | T_OPT_DEFCONFIG_LIST \<Rightarrow>
         (let d = (case defconfig_list b of None \<Rightarrow> s | Some d \<Rightarrow> d)
          in fupd d (\<lambda>k. k\<lparr>fauto := True\<rparr>) (b\<lparr>defconfig_list := Some d\<rparr>))
     | T_OPT_ALLNOCONFIG_Y \<Rightarrow> fupd s (\<lambda>k. k\<lparr>fallno := True\<rparr>) b) }"

section \<open>The actions of the parser\<close>

text \<open>What stands under an entry, in the order of the file; then the entries with their blocks.\<close>

datatype attr =
  Type symbol_type
| Prompt string "expr option"
| Default expr "expr option" symbol_type
| Select symref "expr option"
| Imply symref "expr option"
| Range_of symref symref "expr option"
| Depends expr
| Visible "expr option"
| Optional
| Option menu_option

datatype statement =
  Config symref "attr list"
| Menuconfig symref "attr list"
| Comment string "attr list"
| Choice symref "attr list" "statement list"
| If expr "statement list"
| Submenu string "attr list" "statement list"

definition run_attr :: "attr \<Rightarrow> builder \<Rightarrow> builder option" where
  "run_attr a b = (case a of
     Type t \<Rightarrow> menu_set_type t b
   | Prompt text dep \<Rightarrow> menu_add_prompt P_PROMPT text dep b
   | Default e dep t \<Rightarrow> do { b \<leftarrow> menu_add_expr P_DEFAULT (Dep e) dep b; if t \<noteq> S_UNKNOWN then menu_set_type t b else Some b }
   | Select s dep \<Rightarrow> menu_add_symbol P_SELECT s dep b
   | Imply s dep \<Rightarrow> menu_add_symbol P_IMPLY s dep b
   | Range_of l h dep \<Rightarrow> menu_add_expr P_RANGE (Range l h) dep b
   | Depends e \<Rightarrow> menu_add_dep (Some e) b
   | Visible e \<Rightarrow> menu_add_visibility e b
   | Optional \<Rightarrow> do { s \<leftarrow> current_symbol b; Some (fupd s (\<lambda>k. k\<lparr>foptional := True\<rparr>) b) }
   | Option t \<Rightarrow> menu_add_option t b)"

fun run_attrs :: "attr list \<Rightarrow> builder \<Rightarrow> builder option" where
  "run_attrs [] b = Some b"
| "run_attrs (a # as) b = do { b \<leftarrow> run_attr a b; run_attrs as b }"

text \<open>\<open>menuconfig\<close>: its prompt becomes one of a menu.\<close>

definition prompt_to_menu :: "builder \<Rightarrow> builder option" where
  "prompt_to_menu b = do {
     m \<leftarrow> menu_at (cells b) (current_entry b);
     Some (case mprompt m of None \<Rightarrow> b | Some i \<Rightarrow> b\<lparr>heap := (heap b)(i := (heap b i)\<lparr>ptype := P_MENU\<rparr>)\<rparr>) }"

definition config_start :: "symref \<Rightarrow> builder \<Rightarrow> builder option" where
  "config_start s b = menu_add_entry (Some s) (fupd s (\<lambda>k. k\<lparr>foptional := True\<rparr>) b)"

definition choice_start :: "symref \<Rightarrow> builder \<Rightarrow> builder option" where
  "choice_start s b = do {
     b \<leftarrow> menu_add_entry (Some s) (fupd s (\<lambda>k. k\<lparr>fchoice := True, fauto := True\<rparr>) b);
     menu_add_expr P_CHOICE No_expr None b }"

fun run_entry :: "statement \<Rightarrow> builder \<Rightarrow> builder option"
  and run_entries :: "statement list \<Rightarrow> builder \<Rightarrow> builder option" where
  "run_entry (Config s as) b = do { b \<leftarrow> config_start s b; run_attrs as b }"
| "run_entry (Menuconfig s as) b = do { b \<leftarrow> config_start s b; b \<leftarrow> run_attrs as b; prompt_to_menu b }"
| "run_entry (Comment text as) b = do {
     b \<leftarrow> menu_add_entry None b; b \<leftarrow> menu_add_prompt P_COMMENT text None b; run_attrs as b }"
| "run_entry (Choice s as es) b = do {
     b \<leftarrow> choice_start s b; b \<leftarrow> run_attrs as b; b \<leftarrow> run_entries es (menu_add_menu b); menu_end_menu b }"
| "run_entry (If e es) b = do {
     b \<leftarrow> menu_add_entry None b; b \<leftarrow> menu_add_dep (Some e) b; b \<leftarrow> run_entries es (menu_add_menu b); menu_end_menu b }"
| "run_entry (Submenu text as es) b = do {
     b \<leftarrow> menu_add_entry None b; b \<leftarrow> menu_add_prompt P_MENU text None b; b \<leftarrow> run_attrs as b;
     b \<leftarrow> run_entries es (menu_add_menu b); menu_end_menu b }"
| "run_entries [] b = Some b"
| "run_entries (e # es) b = do { b \<leftarrow> run_entry e b; run_entries es b }"

text \<open>The whole file: the title of the main menu, then the entries.\<close>

definition parse_menus :: "string \<Rightarrow> statement list \<Rightarrow> 'a symbols_state_scheme \<Rightarrow> builder option" where
  "parse_menus title es st = do { b \<leftarrow> menu_add_prompt P_MENU title None (menu_init st); run_entries es b }"

section \<open>The walk of \<open>conf_write\<close>\<close>

text \<open>\<open>while ((menu = menu->parent)) if (menu->next) ...\<close>: \<open>Some None\<close> is the null pointer.\<close>

partial_function (option) climb :: "menu list \<Rightarrow> nat option \<Rightarrow> nat option option" where
  "climb cs p = (case p of
     None \<Rightarrow> Some None
   | Some i \<Rightarrow> do { m \<leftarrow> menu_at cs i; case mnext m of Some x \<Rightarrow> Some (Some x) | None \<Rightarrow> climb cs (mparent m) })"

definition next_menu :: "menu list \<Rightarrow> nat \<Rightarrow> nat option option" where
  "next_menu cs i = do {
     m \<leftarrow> menu_at cs i;
     case mlist m of Some c \<Rightarrow> Some (Some c)
     | None \<Rightarrow> (case mnext m of Some x \<Rightarrow> Some (Some x) | None \<Rightarrow> climb cs (mparent m)) }"

partial_function (option) walk :: "menu list \<Rightarrow> nat option \<Rightarrow> nat list option" where
  "walk cs p = (case p of
     None \<Rightarrow> Some []
   | Some i \<Rightarrow> do { q \<leftarrow> next_menu cs i; xs \<leftarrow> walk cs q; Some (i # xs) })"

definition written_menus :: "menu list \<Rightarrow> nat list option" where
  "written_menus cs = do { root \<leftarrow> menu_at cs 0; walk cs (mlist root) }"

end
