(* ===== verification/Menu_Laws.thy ===== *)
theory Menu_Laws
  imports Menu_Build
begin

text \<open>
  What the actions of the parser build: the cells represent the tree of the entries, in their order;
  and what the walk of \<open>conf_write\<close> visits.
\<close>

section \<open>Trees\<close>

datatype mtree = Node (root: nat) (data: menu_data) (subtrees: "mtree list")

text \<open>The list of trees that starts at a pointer, under a parent.\<close>

fun represents :: "menu list \<Rightarrow> nat option \<Rightarrow> nat option \<Rightarrow> mtree list \<Rightarrow> bool" where
  "represents cs p par [] \<longleftrightarrow> p = None"
| "represents cs p par (Node i d ts # us) \<longleftrightarrow> p = Some i \<and> (case menu_at cs i of
     None \<Rightarrow> False
   | Some m \<Rightarrow> menu_data.truncate m = d \<and> mparent m = par \<and> represents cs (mlist m) (Some i) ts \<and> represents cs (mnext m) par us)"

fun preorder :: "mtree list \<Rightarrow> nat list" where
  "preorder [] = []"
| "preorder (Node i d ts # us) = i # preorder ts @ preorder us"

lemma preorder_append [simp]: "preorder (ts @ us) = preorder ts @ preorder us"
  by (induction ts rule: preorder.induct) auto

text \<open>Trees without places: the symbols of the entries.\<close>

datatype shape = Shape "symref option" "shape list"

fun tree_shape :: "mtree \<Rightarrow> shape" where
  "tree_shape (Node i d ts) = Shape (msym d) (map tree_shape ts)"

fun entry_shape :: "statement \<Rightarrow> shape" where
  "entry_shape (Config s as) = Shape (Some s) []"
| "entry_shape (Menuconfig s as) = Shape (Some s) []"
| "entry_shape (Comment text as) = Shape None []"
| "entry_shape (Choice s as es) = Shape (Some s) (map entry_shape es)"
| "entry_shape (If e es) = Shape None (map entry_shape es)"
| "entry_shape (Submenu text as es) = Shape None (map entry_shape es)"

lemma represents_frame:
  "(\<And>i. i \<in> set (preorder ts) \<Longrightarrow> menu_at cs' i = menu_at cs i) \<Longrightarrow> represents cs' p par ts = represents cs p par ts"
proof (induction cs p par ts rule: represents.induct)
  case (2 cs p par i d ts us)
  have "menu_at cs' i = menu_at cs i" using 2(3) by simp
  with 2 show ?case by (auto split: option.split)
qed simp

lemma menu_at_Some: "menu_at cs i = Some m \<longleftrightarrow> i < length cs \<and> m = cs ! i"
  by (auto simp: menu_at_def)

section \<open>Slots\<close>

fun slot_index :: "slot \<Rightarrow> nat" where
  "slot_index (Next j) = j" | "slot_index (List j) = j"

fun write_slot :: "slot \<Rightarrow> nat \<Rightarrow> menu list \<Rightarrow> menu list" where
  "write_slot (Next j) i cs = cs[j := (cs ! j)\<lparr>mnext := Some i\<rparr>]"
| "write_slot (List j) i cs = cs[j := (cs ! j)\<lparr>mlist := Some i\<rparr>]"

lemma length_write_slot [simp]: "length (write_slot s i cs) = length cs"
  by (cases s) simp_all

lemma nth_write_slot: "j \<noteq> slot_index s \<Longrightarrow> write_slot s i cs ! j = cs ! j"
  by (cases s) simp_all

lemma write_slot_append: "slot_index s < length cs \<Longrightarrow> write_slot s i (cs @ ds) = write_slot s i cs @ ds"
  by (cases s) (simp_all add: list_update_append nth_append)

lemma parent_write_slot: "mparent (write_slot s i cs ! j) = mparent (cs ! j)"
proof (cases "j = slot_index s \<and> j < length cs")
  case True
  then show ?thesis by (cases s) simp_all
next
  case False
  then show ?thesis by (cases s; cases "j = slot_index s") (simp_all add: list_update_beyond)
qed

lemma set_slot_Some: "slot_index s < length (cells b) \<Longrightarrow> set_slot s i b = Some (b\<lparr>cells := write_slot s i (cells b)\<rparr>)"
  by (cases s) (simp_all add: set_slot_def upd_cell_def)

section \<open>The builder\<close>

text \<open>Parents come before their children.\<close>

definition upward :: "menu list \<Rightarrow> bool" where
  "upward cs \<longleftrightarrow> (\<forall>i < length cs. \<forall>j. mparent (cs ! i) = Some j \<longrightarrow> j < i)"

definition wf_builder :: "builder \<Rightarrow> bool" where
  "wf_builder b \<longleftrightarrow> upward (cells b) \<and> current_entry b < length (cells b) \<and> slot_index (last_entry_ptr b) < length (cells b)
     \<and> (\<exists>m. current_menu b = Some m \<and> m < length (cells b))"

text \<open>What attributes do: only what is not a link of the current entry changes.\<close>

definition touches :: "builder \<Rightarrow> builder \<Rightarrow> bool" where
  "touches b b' \<longleftrightarrow> current_entry b' = current_entry b \<and> current_menu b' = current_menu b \<and> last_entry_ptr b' = last_entry_ptr b
     \<and> length (cells b') = length (cells b) \<and> (\<forall>j. j \<noteq> current_entry b \<longrightarrow> cells b' ! j = cells b ! j)
     \<and> (let m = cells b ! current_entry b; m' = cells b' ! current_entry b
        in msym m' = msym m \<and> mnext m' = mnext m \<and> mparent m' = mparent m \<and> mlist m' = mlist m)"

lemma touches_refl [simp]: "touches b b"
  by (simp add: touches_def)

lemma touches_trans: "touches a b \<Longrightarrow> touches b c \<Longrightarrow> touches a c"
  by (simp add: touches_def Let_def)

lemma touches_parent: "touches b b' \<Longrightarrow> mparent (cells b' ! j) = mparent (cells b ! j)"
  by (cases "j = current_entry b") (simp_all add: touches_def Let_def)

lemma touches_wf: "wf_builder b \<Longrightarrow> touches b b' \<Longrightarrow> wf_builder b'"
proof -
  assume w: "wf_builder b" and t: "touches b b'"
  have l: "length (cells b') = length (cells b)" using t by (simp add: touches_def)
  have "upward (cells b')"
    using w l unfolding upward_def wf_builder_def touches_parent [OF t] by simp
  with w t l show ?thesis by (simp add: wf_builder_def touches_def)
qed

lemma upper_visibility_returns: "upward cs \<Longrightarrow> (\<And>i. p = Some i \<Longrightarrow> i < length cs) \<Longrightarrow> \<exists>e'. upper_visibility cs p e = Some e'"
proof (induction "case p of None \<Rightarrow> 0 | Some i \<Rightarrow> Suc i" arbitrary: p e rule: less_induct)
  case less
  show ?case
  proof (cases p)
    case None
    then show ?thesis by (simp add: upper_visibility.simps)
  next
    case (Some i)
    have i: "i < length cs" using less.prems(2) [OF Some] .
    have "\<exists>e'. upper_visibility cs (mparent (cs ! i)) f = Some e'" for f
    proof (rule less.hyps [OF _ less.prems(1)])
      show "(case mparent (cs ! i) of None \<Rightarrow> 0 | Some i \<Rightarrow> Suc i) < (case p of None \<Rightarrow> 0 | Some i \<Rightarrow> Suc i)"
        using less.prems(1) i Some by (auto simp: upward_def split: option.split)
      show "j < length cs" if "mparent (cs ! i) = Some j" for j
        using that less.prems(1) i by (auto simp: upward_def intro: less_trans)
    qed
    then show ?thesis using i Some by (simp add: upper_visibility.simps [of cs "Some i"] menu_at_def)
  qed
qed

lemma fupd_builder [simp]:
  "cells (fupd s f b) = cells b" "current_entry (fupd s f b) = current_entry b" "current_menu (fupd s f b) = current_menu b"
  "last_entry_ptr (fupd s f b) = last_entry_ptr b"
  by (simp_all add: fupd_def)

lemma prop_alloc_builder [simp]:
  "cells (snd (prop_alloc p s b)) = cells b" "current_entry (snd (prop_alloc p s b)) = current_entry b"
  "current_menu (snd (prop_alloc p s b)) = current_menu b" "last_entry_ptr (snd (prop_alloc p s b)) = last_entry_ptr b"
  by (simp_all add: prop_alloc_def Let_def split: option.split)

lemma touches_fields:
  "cells b' = cells b \<Longrightarrow> current_entry b' = current_entry b \<Longrightarrow> current_menu b' = current_menu b \<Longrightarrow>
   last_entry_ptr b' = last_entry_ptr b \<Longrightarrow> touches b b'"
  by (simp add: touches_def)

lemma touches_upd:
  assumes "wf_builder b" "\<And>m. msym (f m) = msym m \<and> mnext (f m) = mnext m \<and> mparent (f m) = mparent m \<and> mlist (f m) = mlist m"
  shows "\<exists>b'. upd_cell (current_entry b) f b = Some b' \<and> touches b b'"
  using assms by (simp add: upd_cell_def wf_builder_def touches_def)

lemma add_prop_touches:
  assumes "wf_builder b"
  shows "\<exists>b'. menu_add_prop type prompt e dep b = Some b' \<and> touches b b'"
proof -
  let ?m = "cells b ! current_entry b"
  have c: "menu_at (cells b) (current_entry b) = Some ?m" using assms by (simp add: wf_builder_def menu_at_def)
  have "\<exists>e'. upper_visibility (cells b) (mparent ?m) dep = Some e'"
    using assms by (intro upper_visibility_returns) (auto simp: wf_builder_def upward_def intro: less_trans)
  then obtain dep' where d: "(if prompt \<noteq> None \<and> type = P_PROMPT then upper_visibility (cells b) (mparent ?m) dep else Some dep) = Some dep'"
    by (cases "prompt \<noteq> None \<and> type = P_PROMPT") auto
  obtain i b1 where a: "prop_alloc \<lparr>ptype = type, ptext = map_option (dropWhile is_space) prompt, visible_expr = dep', pexpr = e,
      pmenu = current_entry b\<rparr> (msym ?m) b = (i, b1)" by fastforce
  have t: "touches b b1" using prop_alloc_builder [of _ "msym ?m" b] a by (intro touches_fields) (metis snd_conv)+
  then have w: "wf_builder b1" "current_entry b1 = current_entry b" using touches_wf [OF assms] by (auto simp: touches_def)
  obtain b2 where "upd_cell (current_entry b) (\<lambda>m. m\<lparr>mprompt := Some i\<rparr>) b1 = Some b2" "touches b1 b2"
    using touches_upd [OF w(1), of "\<lambda>m. m\<lparr>mprompt := Some i\<rparr>"] w(2) by auto
  with c d a t w(2) show ?thesis
    by (cases "prompt = None") (auto simp: menu_add_prop_def intro: touches_trans)
qed

text \<open>Only entries with a symbol have attributes that are about it.\<close>

fun attr_ok :: "bool \<Rightarrow> attr \<Rightarrow> bool" where
  "attr_ok has_symbol (Depends e) = True"
| "attr_ok has_symbol (Visible e) = True"
| "attr_ok has_symbol a = has_symbol"

lemma current_symbol_Some: "wf_builder b \<Longrightarrow> current_symbol b = msym (cells b ! current_entry b)"
  by (simp add: wf_builder_def current_symbol_def menu_at_def)

lemma attr_touches:
  assumes "wf_builder b" "attr_ok (msym (cells b ! current_entry b) \<noteq> None) a"
  shows "\<exists>b'. run_attr a b = Some b' \<and> touches b b'"
proof -
  have type: "\<exists>b'. menu_set_type t c = Some b' \<and> touches c b'" if "current_symbol c \<noteq> None" for t c
    using that by (auto simp: menu_set_type_def set_type_def intro!: touches_fields)
  show ?thesis
  proof (cases a)
    case (Type t)
    with assms type show ?thesis by (simp add: run_attr_def current_symbol_Some)
  next
    case (Prompt tx dep)
    with add_prop_touches [OF assms(1)] show ?thesis by (simp add: run_attr_def menu_add_prompt_def)
  next
    case (Default e dep t)
    obtain b1 where 1: "menu_add_expr P_DEFAULT (Dep e) dep b = Some b1" "touches b b1"
      using add_prop_touches [OF assms(1)] unfolding menu_add_expr_def by blast
    have "msym (cells b1 ! current_entry b1) = msym (cells b ! current_entry b)" using 1(2) by (simp add: touches_def Let_def)
    then have "current_symbol b1 \<noteq> None" using assms(2) Default current_symbol_Some [OF touches_wf [OF assms(1) 1(2)]] by simp
    then obtain b2 where "menu_set_type t b1 = Some b2" "touches b1 b2" using type by blast
    with 1 Default show ?thesis by (cases "t = S_UNKNOWN") (auto simp: run_attr_def intro: touches_trans)
  next
    case (Select s dep)
    with add_prop_touches [OF assms(1)] show ?thesis by (simp add: run_attr_def menu_add_symbol_def)
  next
    case (Imply s dep)
    with add_prop_touches [OF assms(1)] show ?thesis by (simp add: run_attr_def menu_add_symbol_def)
  next
    case (Range_of l h dep)
    with add_prop_touches [OF assms(1)] show ?thesis by (simp add: run_attr_def menu_add_expr_def)
  next
    case (Depends e)
    with touches_upd [OF assms(1), of "\<lambda>m. m\<lparr>mdep := expr_alloc_gate E_AND (mdep m) (Some e)\<rparr>"] show ?thesis
      by (simp add: run_attr_def menu_add_dep_def)
  next
    case (Visible e)
    with touches_upd [OF assms(1), of "\<lambda>m. m\<lparr>mvisibility := expr_alloc_gate E_AND (mvisibility m) e\<rparr>"] show ?thesis
      by (simp add: run_attr_def menu_add_visibility_def)
  next
    case Optional
    with assms show ?thesis by (auto simp: run_attr_def current_symbol_Some intro!: touches_fields)
  next
    case (Option t)
    have "touches b (fupd d f (b\<lparr>defconfig_list := x\<rparr>))" "touches b (b\<lparr>fmodules := x\<rparr>)" "touches b (fupd d f b)" for d f x
      by (auto intro!: touches_fields)
    with Option assms show ?thesis
      by (cases t) (auto simp: run_attr_def menu_add_option_def current_symbol_Some Let_def)
  qed
qed

lemma attrs_touch:
  "wf_builder b \<Longrightarrow> \<forall>a \<in> set as. attr_ok (msym (cells b ! current_entry b) \<noteq> None) a \<Longrightarrow> \<exists>b'. run_attrs as b = Some b' \<and> touches b b'"
proof (induction as arbitrary: b)
  case (Cons a as)
  obtain b1 where 1: "run_attr a b = Some b1" "touches b b1"
    using attr_touches [OF Cons.prems(1), of a] Cons.prems(2) by auto
  have "msym (cells b1 ! current_entry b1) = msym (cells b ! current_entry b)" using 1(2) by (simp add: touches_def Let_def)
  with Cons.IH [OF touches_wf [OF Cons.prems(1) 1(2)]] Cons.prems(2) obtain b2 where "run_attrs as b1 = Some b2" "touches b1 b2"
    by auto
  with 1 show ?case by (auto intro: touches_trans)
qed simp

lemma prompt_to_menu_touches: "wf_builder b \<Longrightarrow> \<exists>b'. prompt_to_menu b = Some b' \<and> touches b b'"
  by (auto simp: prompt_to_menu_def wf_builder_def menu_at_def split: option.split intro!: touches_fields)

section \<open>Entries\<close>

text \<open>An entry that has been added, perhaps with attributes, and nothing under it yet.\<close>

definition opened :: "builder \<Rightarrow> builder \<Rightarrow> symref option \<Rightarrow> bool" where
  "opened b b' s \<longleftrightarrow> (let k = length (cells b) in wf_builder b' \<and> current_entry b' = k \<and> current_menu b' = current_menu b
     \<and> last_entry_ptr b' = Next k \<and> length (cells b') = Suc k
     \<and> (\<forall>j < k. cells b' ! j = write_slot (last_entry_ptr b) k (cells b) ! j)
     \<and> msym (cells b' ! k) = s \<and> mnext (cells b' ! k) = None \<and> mparent (cells b' ! k) = current_menu b \<and> mlist (cells b' ! k) = None)"

text \<open>An entry with everything under it, and a list of entries, between two states.\<close>

definition placed :: "builder \<Rightarrow> builder \<Rightarrow> shape \<Rightarrow> bool" where
  "placed b b' sh \<longleftrightarrow> (let k = length (cells b) in wf_builder b' \<and> current_menu b' = current_menu b \<and> last_entry_ptr b' = Next k
     \<and> k < length (cells b') \<and> (\<forall>j < k. cells b' ! j = write_slot (last_entry_ptr b) k (cells b) ! j)
     \<and> mparent (cells b' ! k) = current_menu b \<and> mnext (cells b' ! k) = None
     \<and> (\<exists>ts. tree_shape (Node k (menu_data.truncate (cells b' ! k)) ts) = sh \<and> preorder ts = [Suc k..<length (cells b')]
          \<and> represents (cells b') (mlist (cells b' ! k)) (Some k) ts))"

definition placed_list :: "builder \<Rightarrow> builder \<Rightarrow> shape list \<Rightarrow> bool" where
  "placed_list b b' shs \<longleftrightarrow> (let k = length (cells b) in wf_builder b' \<and> current_menu b' = current_menu b \<and> k \<le> length (cells b')
     \<and> (\<forall>j < k. cells b' ! j = (if shs = [] then cells b else write_slot (last_entry_ptr b) k (cells b)) ! j)
     \<and> (\<exists>ts. map tree_shape ts = shs \<and> preorder ts = [k..<length (cells b')]
          \<and> represents (cells b') (if shs = [] then None else Some k) (current_menu b) ts))"

lemma fupd_wf [simp]: "wf_builder (fupd s f b) = wf_builder b"
  by (simp add: wf_builder_def)

lemma opened_wf: "opened b b' s \<Longrightarrow> wf_builder b'"
  by (simp add: opened_def Let_def)

lemma opened_touches:
  assumes "opened b b1 s" "touches b1 b2"
  shows "opened b b2 s"
proof -
  have w: "wf_builder b2" by (rule touches_wf [OF opened_wf [OF assms(1)] assms(2)])
  have "cells b2 ! j = cells b1 ! j" if "j < length (cells b)" for j
    using assms that by (simp add: opened_def touches_def Let_def)
  with assms w show ?thesis by (simp add: opened_def touches_def Let_def)
qed

lemma add_entry_opened:
  assumes "wf_builder b"
  shows "\<exists>b'. menu_add_entry s b = Some b' \<and> opened b b' s"
proof -
  let ?k = "length (cells b)" and ?new = "new_menu s (current_menu b)"
  define b1 where "b1 = b\<lparr>cells := write_slot (last_entry_ptr b) ?k (cells b) @ [?new], last_entry_ptr := Next ?k, current_entry := ?k\<rparr>"
  have i: "slot_index (last_entry_ptr b) < ?k" using assms by (simp add: wf_builder_def)
  then have "set_slot (last_entry_ptr b) ?k (b\<lparr>cells := cells b @ [?new]\<rparr>) = Some (b\<lparr>cells := write_slot (last_entry_ptr b) ?k (cells b) @ [?new]\<rparr>)"
    by (simp add: set_slot_Some write_slot_append)
  then have 1: "menu_add_entry s b = (case s of None \<Rightarrow> Some b1 | Some s \<Rightarrow> menu_add_symbol P_SYMBOL s None b1)"
    by (simp add: menu_add_entry_def b1_def Let_def split: option.split)
  obtain m where m: "current_menu b = Some m" "m < ?k" using assms by (auto simp: wf_builder_def)
  have "upward (cells b1)"
    using assms m unfolding upward_def wf_builder_def by (auto simp: b1_def nth_append parent_write_slot new_menu_def)
  then have w: "wf_builder b1" using m by (simp add: wf_builder_def b1_def)
  then have o: "opened b b1 s" using m by (simp add: opened_def b1_def Let_def nth_append new_menu_def)
  show ?thesis
  proof (cases s)
    case None
    with 1 o show ?thesis by simp
  next
    case (Some x)
    obtain b2 where "menu_add_symbol P_SYMBOL x None b1 = Some b2" "touches b1 b2"
      using add_prop_touches [OF w] unfolding menu_add_symbol_def by blast
    with 1 Some opened_touches [OF o] show ?thesis by simp
  qed
qed

lemma opened_leaf: "opened b b' s \<Longrightarrow> placed b b' (Shape s [])"
  by (auto simp: opened_def placed_def Let_def menu_data.truncate_def intro!: exI [of _ "[]"])

lemma opened_attrs:
  assumes "opened b b1 s" "\<forall>a \<in> set as. attr_ok (s \<noteq> None) a"
  shows "\<exists>b2. run_attrs as b1 = Some b2 \<and> opened b b2 s"
proof -
  have "wf_builder b1" "msym (cells b1 ! current_entry b1) = s" using assms(1) by (simp_all add: opened_def Let_def)
  with attrs_touch [of b1 as] assms opened_touches [OF assms(1)] show ?thesis by auto
qed

lemma add_menu_wf: "opened b b1 s \<Longrightarrow> wf_builder (menu_add_menu b1)"
  by (simp add: opened_def menu_add_menu_def wf_builder_def Let_def)

lemma block_placed:
  assumes "wf_builder b" "opened b b1 s" "placed_list (menu_add_menu b1) b2 shs"
  shows "\<exists>b3. menu_end_menu b2 = Some b3 \<and> placed b b3 (Shape s shs)"
proof -
  let ?k = "length (cells b)"
  note o = assms(2) [unfolded opened_def Let_def]
  have m: "cells (menu_add_menu b1) = cells b1" "current_menu (menu_add_menu b1) = Some ?k" "last_entry_ptr (menu_add_menu b1) = List ?k"
    using o by (simp_all add: menu_add_menu_def)
  have len: "length (cells b1) = Suc ?k" using o by simp
  note p = assms(3) [unfolded placed_list_def Let_def m len]
  from p obtain ts where ts: "map tree_shape ts = shs" "preorder ts = [Suc ?k..<length (cells b2)]"
    "represents (cells b2) (if shs = [] then None else Some (Suc ?k)) (Some ?k) ts"
    by blast
  have old: "cells b2 ! j = cells b1 ! j" if "j < ?k" for j using p o that by auto
  have k: "cells b2 ! ?k = (if shs = [] then cells b1 ! ?k else (cells b1 ! ?k)\<lparr>mlist := Some (Suc ?k)\<rparr>)" "?k < length (cells b2)"
    using p o by auto
  define b3 where "b3 = b2\<lparr>last_entry_ptr := Next ?k, current_menu := mparent (cells b2 ! ?k)\<rparr>"
  have e: "menu_end_menu b2 = Some b3" using p k by (simp add: menu_end_menu_def menu_at_def b3_def)
  have par: "mparent (cells b2 ! ?k) = current_menu b" using k o by simp
  obtain q where q: "current_menu b = Some q" "q < ?k" using assms(1) by (auto simp: wf_builder_def)
  have "wf_builder b2" using p by simp
  then have w: "wf_builder b3" using k q par by (simp add: wf_builder_def b3_def)
  have list: "mlist (cells b2 ! ?k) = (if shs = [] then None else Some (Suc ?k))" "mnext (cells b2 ! ?k) = None" "msym (cells b2 ! ?k) = s"
    using k o by auto
  have "\<exists>ts. tree_shape (Node ?k (menu_data.truncate (cells b2 ! ?k)) ts) = Shape s shs \<and> preorder ts = [Suc ?k..<length (cells b2)]
          \<and> represents (cells b2) (mlist (cells b2 ! ?k)) (Some ?k) ts"
    using ts list by (intro exI [of _ ts]) (simp add: menu_data.truncate_def)
  with e w k(2) par old o list(2) show ?thesis by (simp add: placed_def b3_def Let_def)
qed

lemma cons_placed:
  assumes "placed b b1 sh" "placed_list b1 b2 shs"
  shows "placed_list b b2 (sh # shs)"
proof -
  let ?k = "length (cells b)" and ?k1 = "length (cells b1)"
  note p = assms(1) [unfolded placed_def Let_def]
  have n: "last_entry_ptr b1 = Next ?k" "?k < ?k1" using p by simp_all
  note q = assms(2) [unfolded placed_list_def Let_def n(1)]
  from p obtain ts where ts: "tree_shape (Node ?k (menu_data.truncate (cells b1 ! ?k)) ts) = sh" "preorder ts = [Suc ?k..<?k1]"
    "represents (cells b1) (mlist (cells b1 ! ?k)) (Some ?k) ts" by blast
  from q obtain us where us: "map tree_shape us = shs" "preorder us = [?k1..<length (cells b2)]"
    "represents (cells b2) (if shs = [] then None else Some ?k1) (current_menu b1) us" by blast
  have l: "?k1 \<le> length (cells b2)" using q by simp
  have same: "cells b2 ! j = cells b1 ! j" if "j < ?k1" "j \<noteq> ?k" for j
    using q that by auto
  have k: "cells b2 ! ?k = (if shs = [] then cells b1 ! ?k else (cells b1 ! ?k)\<lparr>mnext := Some ?k1\<rparr>)" using q n(2) by auto
  have d: "menu_data.truncate (cells b2 ! ?k) = menu_data.truncate (cells b1 ! ?k)" "mlist (cells b2 ! ?k) = mlist (cells b1 ! ?k)"
    "mparent (cells b2 ! ?k) = current_menu b" "mnext (cells b2 ! ?k) = (if shs = [] then None else Some ?k1)"
    using k p by (simp_all add: menu_data.truncate_def)
  have "represents (cells b2) (mlist (cells b1 ! ?k)) (Some ?k) ts"
    using ts(3) by (subst represents_frame [where cs = "cells b1"]) (use ts(2) same l in \<open>auto simp: menu_at_def\<close>)
  then have "represents (cells b2) (Some ?k) (current_menu b) (Node ?k (menu_data.truncate (cells b1 ! ?k)) ts # us)"
    using d us(3) l n(2) p by (simp add: menu_at_def)
  moreover have "preorder (Node ?k (menu_data.truncate (cells b1 ! ?k)) ts # us) = [?k..<length (cells b2)]"
    using ts(2) us(2) l n(2) upt_add_eq_append [of "Suc ?k" ?k1 "length (cells b2) - ?k1"] by (simp add: upt_conv_Cons)
  moreover have "map tree_shape (Node ?k (menu_data.truncate (cells b1 ! ?k)) ts # us) = sh # shs" using ts(1) us(1) by simp
  ultimately have "\<exists>ts. map tree_shape ts = sh # shs \<and> preorder ts = [?k..<length (cells b2)] \<and> represents (cells b2) (Some ?k) (current_menu b) ts"
    by (intro exI [of _ "Node ?k (menu_data.truncate (cells b1 ! ?k)) ts # us"]) (simp only: simp_thms)
  moreover have "cells b2 ! j = write_slot (last_entry_ptr b) ?k (cells b) ! j" if "j < ?k" for j
    using same [of j] that p n(2) by simp
  ultimately show ?thesis using q p l n(2) by (simp add: placed_list_def Let_def)
qed

section \<open>The whole file\<close>

fun grammatical :: "statement \<Rightarrow> bool" where
  "grammatical (Config s as) \<longleftrightarrow> (\<forall>a \<in> set as. attr_ok True a)"
| "grammatical (Menuconfig s as) \<longleftrightarrow> (\<forall>a \<in> set as. attr_ok True a)"
| "grammatical (Comment text as) \<longleftrightarrow> (\<forall>a \<in> set as. attr_ok False a)"
| "grammatical (Choice s as es) \<longleftrightarrow> (\<forall>a \<in> set as. attr_ok True a) \<and> (\<forall>e \<in> set es. grammatical e)"
| "grammatical (If e es) \<longleftrightarrow> (\<forall>e \<in> set es. grammatical e)"
| "grammatical (Submenu text as es) \<longleftrightarrow> (\<forall>a \<in> set as. attr_ok False a) \<and> (\<forall>e \<in> set es. grammatical e)"

lemma opened_prop:
  "opened b b1 s \<Longrightarrow> \<exists>b2. menu_add_prop type prompt e dep b1 = Some b2 \<and> opened b b2 s"
  using add_prop_touches [OF opened_wf] opened_touches by blast

lemma opened_dep: "opened b b1 s \<Longrightarrow> \<exists>b2. menu_add_dep e b1 = Some b2 \<and> opened b b2 s"
  using touches_upd [OF opened_wf, of b b1 s "\<lambda>m. m\<lparr>mdep := expr_alloc_gate E_AND (mdep m) e\<rparr>"] opened_touches
  unfolding menu_add_dep_def by auto

lemma opened_fupd: "opened (fupd x f b) b' s = opened b b' s"
  by (simp add: opened_def)

lemma config_opened: "wf_builder b \<Longrightarrow> \<exists>b'. config_start s b = Some b' \<and> opened b b' (Some s)"
  using add_entry_opened [of "fupd s (\<lambda>k. k\<lparr>foptional := True\<rparr>) b" "Some s"] by (simp add: config_start_def opened_fupd)

lemma choice_opened: "wf_builder b \<Longrightarrow> \<exists>b'. choice_start s b = Some b' \<and> opened b b' (Some s)"
proof -
  assume w: "wf_builder b"
  obtain b1 where "menu_add_entry (Some s) (fupd s (\<lambda>k. k\<lparr>fchoice := True, fauto := True\<rparr>) b) = Some b1" "opened b b1 (Some s)"
    using add_entry_opened [of "fupd s (\<lambda>k. k\<lparr>fchoice := True, fauto := True\<rparr>) b" "Some s"] w by (auto simp: opened_fupd)
  with opened_prop [OF this(2)] show ?thesis by (auto simp: choice_start_def menu_add_expr_def)
qed

lemma entries_placed:
  "wf_builder b \<Longrightarrow> grammatical e \<Longrightarrow> \<exists>b'. run_entry e b = Some b' \<and> placed b b' (entry_shape e)"
  "wf_builder b \<Longrightarrow> \<forall>e \<in> set es. grammatical e \<Longrightarrow> \<exists>b'. run_entries es b = Some b' \<and> placed_list b b' (map entry_shape es)"
proof (induction e b and es b rule: run_entry_run_entries.induct)
  case (1 s as b)
  obtain b1 b2 where "config_start s b = Some b1" "run_attrs as b1 = Some b2" "opened b b2 (Some s)"
    using config_opened [OF 1(1)] opened_attrs [of b _ "Some s" as] 1(2) by fastforce
  with opened_leaf show ?case by auto
next
  case (2 s as b)
  obtain b1 b2 where b: "config_start s b = Some b1" "run_attrs as b1 = Some b2" "opened b b2 (Some s)"
    using config_opened [OF 2(1)] opened_attrs [of b _ "Some s" as] 2(2) by fastforce
  obtain b3 where "prompt_to_menu b2 = Some b3" "opened b b3 (Some s)"
    using prompt_to_menu_touches [OF opened_wf [OF b(3)]] opened_touches [OF b(3)] by blast
  with b opened_leaf show ?case by auto
next
  case (3 tx as b)
  obtain b1 b2 where b: "menu_add_entry None b = Some b1" "menu_add_prompt P_COMMENT tx None b1 = Some b2" "opened b b2 None"
    using add_entry_opened [OF 3(1), of None] opened_prop unfolding menu_add_prompt_def by blast
  obtain b3 where "run_attrs as b2 = Some b3" "opened b b3 None" using opened_attrs [OF b(3), of as] 3(2) by auto
  with b opened_leaf show ?case by auto
next
  case (4 s as es b)
  obtain b1 b2 where b: "choice_start s b = Some b1" "run_attrs as b1 = Some b2" "opened b b2 (Some s)"
    using choice_opened [OF 4(2)] opened_attrs [of b _ "Some s" as] 4(3) by fastforce
  with 4(1) [OF b(1,2) add_menu_wf [OF b(3)]] 4(3) obtain b3 where
    c: "run_entries es (menu_add_menu b2) = Some b3" "placed_list (menu_add_menu b2) b3 (map entry_shape es)" by auto
  with b block_placed [OF 4(2) b(3) c(2)] show ?case by auto
next
  case (5 e es b)
  obtain b1 b2 where b: "menu_add_entry None b = Some b1" "menu_add_dep (Some e) b1 = Some b2" "opened b b2 None"
    using add_entry_opened [OF 5(2), of None] opened_dep by blast
  with 5(1) [OF b(1,2) add_menu_wf [OF b(3)]] 5(3) obtain b3 where
    c: "run_entries es (menu_add_menu b2) = Some b3" "placed_list (menu_add_menu b2) b3 (map entry_shape es)" by auto
  with b block_placed [OF 5(2) b(3) c(2)] show ?case by auto
next
  case (6 tx as es b)
  obtain b1 b2 where b: "menu_add_entry None b = Some b1" "menu_add_prompt P_MENU tx None b1 = Some b2" "opened b b2 None"
    using add_entry_opened [OF 6(2), of None] opened_prop unfolding menu_add_prompt_def by blast
  obtain b3 where d: "run_attrs as b2 = Some b3" "opened b b3 None" using opened_attrs [OF b(3), of as] 6(3) by auto
  with 6(1) [OF b(1,2) d(1) add_menu_wf [OF d(2)]] 6(3) obtain b4 where
    c: "run_entries es (menu_add_menu b3) = Some b4" "placed_list (menu_add_menu b3) b4 (map entry_shape es)" by auto
  with b d block_placed [OF 6(2) d(2) c(2)] show ?case by auto
next
  case (7 b)
  then show ?case by (auto simp: placed_list_def Let_def intro!: exI [of _ "[]"])
next
  case (8 e es b)
  obtain b1 where 1: "run_entry e b = Some b1" "placed b b1 (entry_shape e)" using 8(1) [OF 8(3)] 8(4) by auto
  then have "wf_builder b1" by (simp add: placed_def Let_def)
  with 8(2) [OF 1(1)] 8(4) obtain b2 where 2: "run_entries es b1 = Some b2" "placed_list b1 b2 (map entry_shape es)" by auto
  with 1 cons_placed [OF 1(2) 2(2)] show ?case by auto
qed

lemma init_wf: "wf_builder (menu_init st)"
  by (simp add: wf_builder_def menu_init_def upward_def new_menu_def symbols_state.extend_def)

text \<open>The children of the root are the entries of the file.\<close>

lemma parse_represents:
  assumes "\<forall>e \<in> set es. grammatical e"
  shows "\<exists>b ts. parse_menus title es st = Some b \<and> map tree_shape ts = map entry_shape es
    \<and> preorder ts = [1..<length (cells b)] \<and> 0 < length (cells b)
    \<and> represents (cells b) (mlist (cells b ! 0)) (Some 0) ts \<and> mnext (cells b ! 0) = None \<and> mparent (cells b ! 0) = None"
proof -
  let ?b = "menu_init st"
  have i: "cells ?b = [new_menu None None]" "current_menu ?b = Some 0" "last_entry_ptr ?b = List 0"
    by (simp_all add: menu_init_def symbols_state.extend_def)
  obtain b1 where 1: "menu_add_prompt P_MENU title None ?b = Some b1" "touches ?b b1"
    using add_prop_touches [OF init_wf] unfolding menu_add_prompt_def by blast
  note w1 = touches_wf [OF init_wf 1(2)]
  have c: "length (cells b1) = 1" "current_menu b1 = Some 0" "last_entry_ptr b1 = List 0"
    "mlist (cells b1 ! 0) = None" "mnext (cells b1 ! 0) = None" "mparent (cells b1 ! 0) = None"
    using 1(2) i touches_parent [OF 1(2), of 0]
    by (cases "current_entry ?b = 0"; simp add: touches_def Let_def new_menu_def; fail)+
  obtain b2 where 2: "run_entries es b1 = Some b2" "placed_list b1 b2 (map entry_shape es)"
    using entries_placed(2) [OF w1 assms] by blast
  from 2(2) obtain ts where ts: "map tree_shape ts = map entry_shape es" "preorder ts = [1..<length (cells b2)]"
    "represents (cells b2) (if map entry_shape es = [] then None else Some 1) (Some 0) ts"
    unfolding placed_list_def Let_def c by blast
  have "cells b2 ! 0 = (if map entry_shape es = [] then cells b1 ! 0 else (cells b1 ! 0)\<lparr>mlist := Some 1\<rparr>)" "1 \<le> length (cells b2)"
    using 2(2) c unfolding placed_list_def Let_def by auto
  then have "mlist (cells b2 ! 0) = (if map entry_shape es = [] then None else Some 1)" "mnext (cells b2 ! 0) = None"
    "mparent (cells b2 ! 0) = None" "0 < length (cells b2)" using c by auto
  with 1(1) 2(1) ts show ?thesis unfolding parse_menus_def by (intro exI [of _ b2] exI [of _ ts]) simp
qed

section \<open>The walk\<close>

text \<open>The walk over a list of trees goes on where the climb from their parent leads.\<close>

lemma walk_trees:
  "represents cs p par ts \<Longrightarrow> climb cs par = Some q \<Longrightarrow> walk cs q = Some ys \<Longrightarrow> ts \<noteq> [] \<Longrightarrow> walk cs p = Some (preorder ts @ ys)"
proof (induction cs p par ts arbitrary: q ys rule: represents.induct)
  case (2 cs p par i d ts us)
  obtain m where m: "p = Some i" "menu_at cs i = Some m" "mparent m = par" "represents cs (mlist m) (Some i) ts" "represents cs (mnext m) par us"
    using 2(3) by (auto split: option.splits)
  have "\<exists>r. (case mnext m of Some x \<Rightarrow> Some (Some x) | None \<Rightarrow> climb cs par) = Some r \<and> walk cs r = Some (preorder us @ ys)"
  proof (cases us)
    case Nil
    with m(5) 2(4,5) show ?thesis by simp
  next
    case (Cons u us')
    then obtain x where "mnext m = Some x" using m(5) by (cases u) auto
    with 2(2) [OF m(2,5) 2(4,5)] Cons show ?thesis by simp
  qed
  then obtain r where r: "(case mnext m of Some x \<Rightarrow> Some (Some x) | None \<Rightarrow> climb cs par) = Some r" "walk cs r = Some (preorder us @ ys)" by blast
  then have c: "climb cs (Some i) = Some r" using m(2,3) by (subst climb.simps) (auto split: option.splits)
  show ?case
  proof (cases ts)
    case Nil
    with m r show ?thesis by (subst walk.simps) (auto simp: next_menu_def split: option.splits)
  next
    case (Cons t ts')
    then obtain x where x: "mlist m = Some x" using m(4) by (cases t) auto
    then have "walk cs (Some x) = Some (preorder ts @ preorder us @ ys)" using 2(1) [OF m(2,4) c r(2)] Cons by simp
    with m(1,2) x show ?thesis by (subst walk.simps) (auto simp: next_menu_def split: option.splits)
  qed
qed simp

lemma written_preorder:
  assumes "represents cs (mlist (cs ! 0)) (Some 0) ts" "0 < length cs" "mnext (cs ! 0) = None" "mparent (cs ! 0) = None"
  shows "written_menus cs = Some (preorder ts)"
proof (cases "ts = []")
  case True
  with assms show ?thesis by (simp add: written_menus_def menu_at_def walk.simps [of cs None])
next
  case False
  have "climb cs (Some 0) = Some None" using assms(2-4) by (subst climb.simps) (simp add: menu_at_def climb.simps [of cs None])
  with walk_trees [OF assms(1) this, of "[]"] False assms(2) show ?thesis
    by (simp add: written_menus_def menu_at_def walk.simps [of cs None])
qed

end
