(* ===== verification/Menu_Finalize.thy ===== *)
theory Menu_Finalize
  imports Menu_Laws Expr_Rewrite
begin

text \<open>
  \<open>menu_finalize\<close> of src/support/kconfig/menu.c, which \<open>conf_parse\<close> calls for the root when the menus are
  complete. It works on the trees that the cells represent: a node and the nodes after it, which it may
  take into a submenu. The symbols and the properties stay in the store that they share, so a
  prompt is changed for its node and for its symbol at once. Warnings are left out.
\<close>

section \<open>Dependencies\<close>

fun rewrite_m :: "symref \<Rightarrow> expr \<Rightarrow> expr" where
  "rewrite_m modules (Not e) = Not (rewrite_m modules e)"
| "rewrite_m modules (Two t l r) = Two t (rewrite_m modules l) (rewrite_m modules r)"
| "rewrite_m modules (Symb a) = (if a = symbol_mod then Two E_AND (Symb symbol_mod) (Symb modules) else Symb a)"
| "rewrite_m modules (Comp r a b) = Comp r a b"

text \<open>\<open>modules_sym\<close>, which \<open>conf_parse\<close> sets to \<open>symbol_no\<close> when no symbol has the option; the types of the symbols.\<close>

definition modules_of :: "'a symbols_state_scheme \<Rightarrow> symref" where
  "modules_of st = (case fmodules st of None \<Rightarrow> symbol_no | Some s \<Rightarrow> s)"

definition types_of :: "'a symbols_state_scheme \<Rightarrow> symtab" where
  "types_of st = \<lparr>syms = (\<lambda>s. \<lparr>sname = fname (fsyms st s), stype = ftype (fsyms st s), scurr_val = [], scurr_tri = Tno, sconst = fconst (fsyms st s)\<rparr>),
     modules_sym = modules_of st\<rparr>"

definition narrow :: "'a symbols_state_scheme \<Rightarrow> expr option \<Rightarrow> expr option \<Rightarrow> expr option" where
  "narrow st outer dep =
     (let dep = map_option (\<lambda>e. expr_transform (types_of st) (rewrite_m (modules_of st) e)) dep
      in map_option (expr_eliminate_dups (types_of st)) (expr_alloc_gate E_AND outer dep))"

section \<open>Propagation to the children\<close>

text \<open>The loop over the properties: one that belongs to this node, and what it selects or implies.\<close>

definition add_reverse :: "symref option \<Rightarrow> menu_prop \<Rightarrow> symbols_state \<Rightarrow> symbols_state option" where
  "add_reverse s p st =
     (if ptype p = P_SELECT \<or> ptype p = P_IMPLY then do {
        es \<leftarrow> prop_get_symbol (property.truncate p);
        s \<leftarrow> s;
        let e = expr_alloc_gate E_AND (Some (Symb s)) (visible_expr p);
        Some (fupd es (\<lambda>k. if ptype p = P_SELECT then k\<lparr>frev := expr_alloc_gate E_OR (frev k) e\<rparr>
          else k\<lparr>fimplied := expr_alloc_gate E_OR (fimplied k) e\<rparr>) st) }
      else Some st)"

definition finalize_prop :: "nat \<Rightarrow> symref option \<Rightarrow> expr option \<Rightarrow> nat \<Rightarrow> symbols_state \<Rightarrow> symbols_state option" where
  "finalize_prop i s basedep q st =
     (let p = heap st q in
      if pmenu p \<noteq> i then Some st
      else
        let dep = narrow st basedep (visible_expr p);
            dep = (case s of Some s \<Rightarrow> if ftype (fsyms st s) \<noteq> S_TRISTATE then map_option (expr_trans_bool (types_of st)) dep else dep
                   | None \<Rightarrow> dep);
            p = p\<lparr>visible_expr := dep\<rparr>
        in add_reverse s p (st\<lparr>heap := (heap st)(q := p)\<rparr>))"

fun finalize_props :: "nat \<Rightarrow> symref option \<Rightarrow> expr option \<Rightarrow> nat list \<Rightarrow> symbols_state \<Rightarrow> symbols_state option" where
  "finalize_props i s basedep [] st = Some st"
| "finalize_props i s basedep (q # qs) st = do { st \<leftarrow> finalize_prop i s basedep q st; finalize_props i s basedep qs st }"

definition props_of :: "menu_data \<Rightarrow> symbols_state \<Rightarrow> nat list" where
  "props_of d st = (case msym d of Some s \<Rightarrow> fprops (fsyms st s) | None \<Rightarrow> (case mprompt d of Some q \<Rightarrow> [q] | None \<Rightarrow> []))"

fun propagate :: "expr option \<Rightarrow> mtree list \<Rightarrow> symbols_state \<Rightarrow> (mtree list \<times> symbols_state) option" where
  "propagate parentdep [] st = Some ([], st)"
| "propagate parentdep (Node i d ts # us) st = do {
     let basedep = narrow st parentdep (mdep d);
     let d = d\<lparr>mdep := basedep\<rparr>;
     st \<leftarrow> finalize_props i (msym d) basedep (props_of d st) st;
     (us, st) \<leftarrow> propagate parentdep us st;
     Some (Node i d ts # us, st) }"

text \<open>The types of a choice and of its values.\<close>

fun find_type :: "mtree list \<Rightarrow> symbols_state \<Rightarrow> symbol_type" where
  "find_type [] st = S_UNKNOWN"
| "find_type (Node i d ts # us) st =
     (case msym d of Some s \<Rightarrow> if ftype (fsyms st s) \<noteq> S_UNKNOWN then ftype (fsyms st s) else find_type us st
      | None \<Rightarrow> find_type us st)"

definition set_choice_types :: "symref \<Rightarrow> mtree list \<Rightarrow> symbols_state \<Rightarrow> symbols_state" where
  "set_choice_types c ts st =
     (let st = set_type c (find_type ts st) st
      in fold (\<lambda>t st. case msym (data t) of None \<Rightarrow> st | Some s \<Rightarrow> set_type s (ftype (fsyms st c)) st) ts st)"

definition prompt_visible :: "menu_data \<Rightarrow> symbols_state \<Rightarrow> expr option" where
  "prompt_visible d st = (case mprompt d of Some q \<Rightarrow> visible_expr (heap st q) | None \<Rightarrow> mdep d)"

definition finalize_children :: "menu_data \<Rightarrow> mtree list \<Rightarrow> symbols_state \<Rightarrow> (mtree list \<times> symbols_state) option" where
  "finalize_children d ts st =
     (case msym d of
        Some s \<Rightarrow> if fchoice (fsyms st s) then propagate (Some (Symb s)) ts (set_choice_types s ts st) else propagate (prompt_visible d st) ts st
      | None \<Rightarrow> propagate (prompt_visible d st) ts st)"

section \<open>Automatic submenus\<close>

text \<open>\<open>expr_trans_compare\<close> with E_UNEQUAL and \<open>symbol_no\<close> (a null pointer is y), then the simplifications.\<close>

definition normal_dep :: "'a symbols_state_scheme \<Rightarrow> expr option \<Rightarrow> expr option" where
  "normal_dep st e = map_option (\<lambda>e. expr_eliminate_dups (types_of st) (expr_transform (types_of st) e))
     (case e of None \<Rightarrow> Some (Not (Symb symbol_no)) | Some e \<Rightarrow> expr_trans_compare e True symbol_no)"

definition is_yes :: "expr option \<Rightarrow> bool" where
  "is_yes e \<longleftrightarrow> e = None \<or> e = Some (Symb symbol_yes)"

definition in_submenu :: "symref \<Rightarrow> expr option \<Rightarrow> menu_data \<Rightarrow> symbols_state \<Rightarrow> bool" where
  "in_submenu s basedep d st =
     (case prompt_visible d st of
        None \<Rightarrow> False
      | Some dep \<Rightarrow> expr_contains_symbol dep s
          \<and> (expr_depends_symbol dep s \<or> is_yes (snd (expr_eliminate_eq (normal_dep st (Some dep)) basedep))))"

section \<open>After the children\<close>

text \<open>A value of a choice: the choice and its value know each other; a boolean value of a tristate choice needs the choice to be y.\<close>

definition require_choice :: "nat \<Rightarrow> symref \<Rightarrow> symref \<Rightarrow> symbols_state \<Rightarrow> symbols_state" where
  "require_choice i c s st =
     fold (\<lambda>q st. let p = heap st q in
         if pmenu p = i then st\<lparr>heap := (heap st)(q := p\<lparr>visible_expr := expr_alloc_gate E_AND (Some (Comp E_EQUAL c symbol_yes)) (visible_expr p)\<rparr>)\<rparr> else st)
       (fprops (fsyms st s)) st"

definition append_choice :: "symref \<Rightarrow> symref \<Rightarrow> symbols_state \<Rightarrow> symbols_state option" where
  "append_choice c s st = do {
     q \<leftarrow> find (\<lambda>q. ptype (heap st q) = P_CHOICE) (fprops (fsyms st c));
     xs \<leftarrow> (case pexpr (heap st q) of No_expr \<Rightarrow> Some [] | Choice_list xs \<Rightarrow> Some xs | _ \<Rightarrow> None);
     Some (st\<lparr>heap := (heap st)(q := (heap st q)\<lparr>pexpr := Choice_list (xs @ [s])\<rparr>)\<rparr>) }"

definition choice_child :: "symref option \<Rightarrow> nat \<Rightarrow> menu_data \<Rightarrow> symbols_state \<Rightarrow> (menu_data \<times> symbols_state) option" where
  "choice_child parent_sym i d st =
     (case parent_sym of None \<Rightarrow> Some (d, st)
      | Some c \<Rightarrow>
          (case msym d of None \<Rightarrow> Some (d, st)
           | Some s \<Rightarrow>
               if \<not> fchoice (fsyms st c) \<or> fchoiceval (fsyms st s) then Some (d, st)
               else
                 let st = fupd s (\<lambda>k. k\<lparr>fchoiceval := True\<rparr>) st;
                     extra = ftype (fsyms st c) = S_TRISTATE \<and> ftype (fsyms st s) \<noteq> S_TRISTATE;
                     d = (if extra then d\<lparr>mdep := expr_alloc_gate E_AND (Some (Comp E_EQUAL c symbol_yes)) (mdep d)\<rparr> else d);
                     st = (if extra then require_choice i c s st else st);
                     st = snd (prop_alloc \<lparr>ptype = P_CHOICE, ptext = None, visible_expr = None, pexpr = Dep (Symb c), pmenu = i\<rparr> (Some s) st)
                 in map_option (Pair d) (append_choice c s st)))"

text \<open>A node without a text to show is no menu: its children follow it.\<close>

definition flattened :: "menu_data \<Rightarrow> symbols_state \<Rightarrow> bool" where
  "flattened d st \<longleftrightarrow> (case mprompt d of None \<Rightarrow> True | Some q \<Rightarrow> ptext (heap st q) = None)"

function close_children :: "symref option \<Rightarrow> mtree list \<Rightarrow> symbols_state \<Rightarrow> (mtree list \<times> symbols_state) option" where
  "close_children parent_sym [] st = Some ([], st)"
| "close_children parent_sym (Node i d ts # us) st = do {
     (d, st) \<leftarrow> choice_child parent_sym i d st;
     if ts \<noteq> [] \<and> flattened d st then do { (us, st) \<leftarrow> close_children parent_sym (ts @ us) st; Some (Node i d [] # us, st) }
     else do { (us, st) \<leftarrow> close_children parent_sym us st; Some (Node i d ts # us, st) } }"
  by pat_completeness auto
termination
  by (relation "measure (\<lambda>(s, ts, st). length (preorder ts))") (auto simp: preorder_append)

definition require_mode :: "menu_data \<Rightarrow> symbols_state \<Rightarrow> symbols_state" where
  "require_mode d st =
     (case (msym d, mprompt d) of
        (Some s, Some q) \<Rightarrow>
          if foptional (fsyms st s) then st
          else fupd s (\<lambda>k. k\<lparr>frev := expr_alloc_gate E_OR (frev k) (expr_alloc_gate E_AND (visible_expr (heap st q)) (Some (Symb symbol_mod)))\<rparr>) st
      | _ \<Rightarrow> st)"

section \<open>\<open>menu_finalize\<close>\<close>

text \<open>A node with the nodes after it; all children in turn; and the nodes after a symbol that become its submenu.\<close>

fun menu_finalize :: "nat \<Rightarrow> mtree \<Rightarrow> mtree list \<Rightarrow> symbols_state \<Rightarrow> (mtree \<times> mtree list \<times> symbols_state) option"
  and finalize_all :: "nat \<Rightarrow> mtree list \<Rightarrow> symbols_state \<Rightarrow> (mtree list \<times> symbols_state) option"
  and take_submenu :: "nat \<Rightarrow> symref \<Rightarrow> expr option \<Rightarrow> mtree list \<Rightarrow> symbols_state \<Rightarrow> (mtree list \<times> mtree list \<times> symbols_state) option" where
  "menu_finalize 0 t us st = None"
| "menu_finalize (Suc n) (Node i d ts) us st = do {
     (ts, us, st) \<leftarrow>
       (if ts \<noteq> [] then do {
          (ts, st) \<leftarrow> finalize_children d ts st;
          (ts, st) \<leftarrow> finalize_all n ts st;
          Some (ts, us, st) }
        else case msym d of
          None \<Rightarrow> Some ([], us, st)
        | Some s \<Rightarrow> do {
            let basedep = normal_dep st (case mprompt d of Some q \<Rightarrow> visible_expr (heap st q) | None \<Rightarrow> None);
            (ts, us, st) \<leftarrow> take_submenu n s basedep us st;
            Some (ts, us, fupd s (\<lambda>k. k\<lparr>fdir := expr_alloc_gate E_OR (fdir k) (mdep d)\<rparr>) st) });
     (ts, st) \<leftarrow> close_children (msym d) ts st;
     Some (Node i d ts, us, require_mode d st) }"
| "finalize_all 0 ts st = None"
| "finalize_all (Suc n) [] st = Some ([], st)"
| "finalize_all (Suc n) (t # us) st = do {
     (t, us, st) \<leftarrow> menu_finalize n t us st;
     (us, st) \<leftarrow> finalize_all n us st;
     Some (t # us, st) }"
| "take_submenu 0 s basedep us st = None"
| "take_submenu (Suc n) s basedep [] st = Some ([], [], st)"
| "take_submenu (Suc n) s basedep (t # us) st =
     (if in_submenu s basedep (data t) st then do {
        (t, us, st) \<leftarrow> menu_finalize n t us st;
        (ts, us, st) \<leftarrow> take_submenu n s basedep us st;
        Some (t # ts, us, st) }
      else Some ([], t # us, st))"

end
