(* ===== verification/Menu_Order.thy ===== *)
theory Menu_Order
  imports Menu_Finalize
begin

text \<open>
  What \<open>menu_finalize\<close> keeps and makes: it ends, every node stays in its place in the order of the file, and
  only nodes with a text to show have nodes under them.
\<close>

section \<open>Labels\<close>

text \<open>The nodes in order, with their symbols and prompts, which never change.\<close>

fun labels :: "mtree list \<Rightarrow> (nat \<times> symref option \<times> nat option) list" where
  "labels [] = []"
| "labels (Node i d ts # us) = (i, msym d, mprompt d) # labels ts @ labels us"

lemma labels_append [simp]: "labels (ts @ us) = labels ts @ labels us"
  by (induction ts rule: labels.induct) simp_all

lemma labels_Cons: "labels (t # us) = labels [t] @ labels us"
  by (cases t) simp

lemma preorder_labels: "preorder ts = map fst (labels ts)"
  by (induction ts rule: preorder.induct) simp_all

lemma labels_Nil [simp]: "labels ts = [] \<longleftrightarrow> ts = []"
  by (cases ts rule: labels.cases) simp_all

section \<open>What is kept\<close>

definition prompt_types :: "prop_type set" where
  "prompt_types = {P_PROMPT, P_MENU, P_COMMENT}"

definition choice_linked :: "'a symbols_state_scheme \<Rightarrow> symref \<Rightarrow> bool" where
  "choice_linked st c \<longleftrightarrow> (\<exists>q. find (\<lambda>q. ptype (heap st q) = P_CHOICE) (fprops (fsyms st c)) = Some q
     \<and> (pexpr (heap st q) = No_expr \<or> (\<exists>xs. pexpr (heap st q) = Choice_list xs)))"

text \<open>No pointer that is read is null: selects have their symbol, choices their property.\<close>

definition linked :: "symref set \<Rightarrow> 'a symbols_state_scheme \<Rightarrow> bool" where
  "linked X st \<longleftrightarrow> (\<forall>q < allocated st. ptype (heap st q) \<in> {P_SELECT, P_IMPLY} \<longrightarrow> (\<exists>s. pexpr (heap st q) = Dep (Symb s)))
     \<and> (\<forall>s. \<forall>q \<in> set (fprops (fsyms st s)). q < allocated st)
     \<and> (\<forall>c. fchoice (fsyms st c) \<and> c \<notin> X \<longrightarrow> choice_linked st c)"

definition kept :: "'a symbols_state_scheme \<Rightarrow> 'b symbols_state_scheme \<Rightarrow> bool" where
  "kept st st' \<longleftrightarrow> allocated st \<le> allocated st' \<and> (\<forall>q < allocated st. ptype (heap st' q) = ptype (heap st q) \<and> ptext (heap st' q) = ptext (heap st q))"

definition label_ok :: "'a symbols_state_scheme \<Rightarrow> nat \<times> symref option \<times> nat option \<Rightarrow> bool" where
  "label_ok st l \<longleftrightarrow> (case snd (snd l) of None \<Rightarrow> True | Some q \<Rightarrow> q < allocated st \<and> ptype (heap st q) \<in> prompt_types)"

definition labels_ok :: "'a symbols_state_scheme \<Rightarrow> mtree list \<Rightarrow> bool" where
  "labels_ok st ts \<longleftrightarrow> (\<forall>l \<in> set (labels ts). label_ok st l)"

lemma kept_refl [simp]: "kept st st"
  by (simp add: kept_def)

lemma kept_trans: "kept a b \<Longrightarrow> kept b c \<Longrightarrow> kept a c"
  by (simp add: kept_def)

lemma kept_label: "kept st st' \<Longrightarrow> label_ok st l \<Longrightarrow> label_ok st' l"
  by (auto simp: kept_def label_ok_def split: option.splits)

lemma kept_labels: "kept st st' \<Longrightarrow> labels_ok st ts \<Longrightarrow> labels_ok st' ts"
  unfolding labels_ok_def using kept_label by blast

lemma labels_ok_append: "labels_ok st (ts @ us) \<longleftrightarrow> labels_ok st ts \<and> labels_ok st us"
  by (auto simp: labels_ok_def)

lemma labels_ok_Node: "labels_ok st (Node i d ts # us) \<longleftrightarrow> label_ok st (i, msym d, mprompt d) \<and> labels_ok st ts \<and> labels_ok st us"
  by (auto simp: labels_ok_def)

lemma labels_ok_cong: "labels ts = labels us \<Longrightarrow> labels_ok st ts = labels_ok st us"
  by (simp add: labels_ok_def)

text \<open>A step that keeps everything needed.\<close>

definition fine_step :: "symbols_state \<Rightarrow> symbols_state \<Rightarrow> bool" where
  "fine_step st st' \<longleftrightarrow> linked {} st' \<and> kept st st'"

lemma fine_trans: "fine_step a b \<Longrightarrow> fine_step b c \<Longrightarrow> fine_step a c"
  by (auto simp: fine_step_def intro: kept_trans)

lemma fine_refl: "linked {} st \<Longrightarrow> fine_step st st"
  by (simp add: fine_step_def)

lemma find_cong: "(\<And>x. x \<in> set xs \<Longrightarrow> P x = Q x) \<Longrightarrow> find P xs = find Q xs"
  by (induction xs) auto

text \<open>Changes of a symbol that leave its properties and its kind, and of a property that leave its type and expression.\<close>

lemma fine_fupd:
  assumes "linked {} st" "\<And>k. fprops (f k) = fprops k \<and> fchoice (f k) = fchoice k"
  shows "fine_step st (fupd s f st)"
proof -
  have "fprops (fsyms (fupd s f st) x) = fprops (fsyms st x)" "fchoice (fsyms (fupd s f st) x) = fchoice (fsyms st x)" for x
    using assms(2) by (simp_all add: fupd_def)
  moreover have "heap (fupd s f st) = heap st" "allocated (fupd s f st) = allocated st" by (simp_all add: fupd_def)
  ultimately show ?thesis using assms(1) by (simp add: fine_step_def linked_def choice_linked_def kept_def)
qed

lemma fine_visible:
  assumes "linked {} st"
  shows "fine_step st (st\<lparr>heap := (heap st)(q := (heap st q)\<lparr>visible_expr := e\<rparr>)\<rparr>)"
proof -
  let ?st = "st\<lparr>heap := (heap st)(q := (heap st q)\<lparr>visible_expr := e\<rparr>)\<rparr>"
  have "ptype (heap ?st x) = ptype (heap st x)" "pexpr (heap ?st x) = pexpr (heap st x)" "ptext (heap ?st x) = ptext (heap st x)" for x
    by simp_all
  moreover have "fsyms ?st = fsyms st" "allocated ?st = allocated st" by simp_all
  ultimately show ?thesis using assms by (simp only: fine_step_def linked_def choice_linked_def kept_def) simp
qed

section \<open>Propagation\<close>

lemma add_reverse_fine:
  assumes "linked {} st" "ptype p \<in> {P_SELECT, P_IMPLY} \<longrightarrow> s \<noteq> None \<and> (\<exists>x. pexpr p = Dep (Symb x))"
  shows "\<exists>st'. add_reverse s p st = Some st' \<and> fine_step st st'"
proof (cases "ptype p \<in> {P_SELECT, P_IMPLY}")
  case True
  with assms(2) obtain x y where "s = Some x" "pexpr p = Dep (Symb y)" by auto
  then show ?thesis using fine_fupd [OF assms(1)] fine_refl [OF assms(1)]
    by (auto simp: add_reverse_def prop_get_symbol_def property.truncate_def Let_def)
next
  case False
  then show ?thesis using assms(1) by (auto simp: add_reverse_def fine_step_def)
qed

lemma finalize_prop_fine:
  assumes "linked {} st" "q < allocated st" "s = None \<longrightarrow> ptype (heap st q) \<in> prompt_types"
  shows "\<exists>st'. finalize_prop i s basedep q st = Some st' \<and> fine_step st st'"
proof (cases "pmenu (heap st q) = i")
  case True
  define dep where "dep = (case s of Some s \<Rightarrow> if ftype (fsyms st s) \<noteq> S_TRISTATE
      then map_option (expr_trans_bool (types_of st)) (narrow st basedep (visible_expr (heap st q))) else narrow st basedep (visible_expr (heap st q))
    | None \<Rightarrow> narrow st basedep (visible_expr (heap st q)))"
  let ?p = "(heap st q)\<lparr>visible_expr := dep\<rparr>" and ?st = "st\<lparr>heap := (heap st)(q := (heap st q)\<lparr>visible_expr := dep\<rparr>)\<rparr>"
  note f = fine_visible [OF assms(1), of q dep]
  have "ptype ?p \<in> {P_SELECT, P_IMPLY} \<longrightarrow> s \<noteq> None \<and> (\<exists>x. pexpr ?p = Dep (Symb x))"
    using assms by (auto simp: linked_def prompt_types_def)
  then obtain st' where "add_reverse s ?p ?st = Some st'" "fine_step ?st st'"
    using add_reverse_fine [of ?st ?p s] f by (auto simp: fine_step_def)
  then show ?thesis using True fine_trans [OF f] by (simp add: finalize_prop_def dep_def Let_def)
qed (use assms in \<open>simp add: finalize_prop_def fine_step_def\<close>)

lemma finalize_props_fine:
  "linked {} st \<Longrightarrow> \<forall>q \<in> set qs. q < allocated st \<and> (s = None \<longrightarrow> ptype (heap st q) \<in> prompt_types) \<Longrightarrow>
   \<exists>st'. finalize_props i s basedep qs st = Some st' \<and> fine_step st st'"
proof (induction qs arbitrary: st)
  case (Cons q qs)
  obtain st1 where 1: "finalize_prop i s basedep q st = Some st1" "fine_step st st1"
    using finalize_prop_fine [OF Cons.prems(1), of q s i basedep] Cons.prems(2) by auto
  have "\<exists>st2. finalize_props i s basedep qs st1 = Some st2 \<and> fine_step st1 st2"
    by (rule Cons.IH) (use 1(2) Cons.prems(2) in \<open>auto simp: fine_step_def kept_def\<close>)
  with 1 show ?case by (auto intro: fine_trans)
qed (simp add: fine_step_def)

lemma propagate_fine:
  "linked {} st \<Longrightarrow> labels_ok st ts \<Longrightarrow> \<exists>us st'. propagate parentdep ts st = Some (us, st') \<and> labels us = labels ts \<and> fine_step st st'"
proof (induction ts arbitrary: st)
  case (Cons t us)
  obtain i d ts where t: "t = Node i d ts" by (cases t)
  let ?b = "narrow st parentdep (mdep d)"
  have "\<forall>q \<in> set (props_of (d\<lparr>mdep := ?b\<rparr>) st). q < allocated st \<and> (msym d = None \<longrightarrow> ptype (heap st q) \<in> prompt_types)"
    using Cons.prems by (auto simp: props_of_def linked_def labels_ok_Node label_ok_def t split: option.splits)
  then obtain st1 where 1: "finalize_props i (msym d) ?b (props_of (d\<lparr>mdep := ?b\<rparr>) st) st = Some st1" "fine_step st st1"
    using finalize_props_fine [OF Cons.prems(1)] by blast
  have "labels_ok st1 us" using Cons.prems(2) 1(2) kept_labels by (auto simp: t labels_ok_Node fine_step_def)
  then obtain vs st2 where 2: "propagate parentdep us st1 = Some (vs, st2)" "labels vs = labels us" "fine_step st1 st2"
    using Cons.IH [of st1] 1(2) by (auto simp: fine_step_def)
  with 1 show ?case by (simp add: t Let_def) (blast intro: fine_trans)
qed (simp add: fine_step_def)

lemma set_type_fine: "linked {} st \<Longrightarrow> fine_step st (set_type s t st)"
  unfolding set_type_def by (rule fine_fupd) auto

lemma set_choice_types_fine: "linked {} st \<Longrightarrow> fine_step st (set_choice_types c ts st)"
proof -
  assume l: "linked {} st"
  have "fine_step st (fold (\<lambda>t st. case msym (data t) of None \<Rightarrow> st | Some s \<Rightarrow> set_type s (ftype (fsyms st c)) st) ts a)" if "fine_step st a" for a
    using that
  proof (induction ts arbitrary: a)
    case (Cons t ts)
    have "fine_step st (case msym (data t) of None \<Rightarrow> a | Some s \<Rightarrow> set_type s (ftype (fsyms a c)) a)"
      using Cons.prems set_type_fine [of a] fine_trans [of st a] by (auto simp: fine_step_def split: option.split)
    from Cons.IH [OF this] show ?case by simp
  qed simp
  with set_type_fine [OF l] show ?thesis by (simp add: set_choice_types_def Let_def)
qed

lemma finalize_children_fine:
  assumes "linked {} st" "labels_ok st ts"
  shows "\<exists>us st'. finalize_children d ts st = Some (us, st') \<and> labels us = labels ts \<and> fine_step st st'"
proof (cases "\<exists>s. msym d = Some s \<and> fchoice (fsyms st s)")
  case True
  then obtain s where s: "msym d = Some s" "fchoice (fsyms st s)" by blast
  have f: "fine_step st (set_choice_types s ts st)" by (rule set_choice_types_fine [OF assms(1)])
  then have "linked {} (set_choice_types s ts st)" "labels_ok (set_choice_types s ts st) ts"
    using kept_labels assms(2) by (auto simp: fine_step_def)
  then obtain us st' where "propagate (Some (Symb s)) ts (set_choice_types s ts st) = Some (us, st')" "labels us = labels ts"
    "fine_step (set_choice_types s ts st) st'"
    using propagate_fine by blast
  with s fine_trans [OF f] show ?thesis by (simp add: finalize_children_def)
next
  case False
  then have "finalize_children d ts st = propagate (prompt_visible d st) ts st" by (auto simp: finalize_children_def split: option.split)
  with propagate_fine [OF assms] show ?thesis by simp
qed

section \<open>New properties\<close>

lemma find_Some_in: "find P xs = Some x \<Longrightarrow> x \<in> set xs \<and> P x"
  by (induction xs) (auto split: if_splits)

lemma prop_alloc_linked:
  assumes "linked X st" "ptype p \<in> {P_SELECT, P_IMPLY} \<longrightarrow> (\<exists>s. pexpr p = Dep (Symb s))"
  shows "linked X (snd (prop_alloc p s st)) \<and> kept st (snd (prop_alloc p s st))"
proof -
  let ?st = "snd (prop_alloc p s st)"
  have h: "heap ?st q = heap st q" if "q < allocated st" for q
    using that by (auto simp: prop_alloc_def fupd_def Let_def split: option.split)
  have n: "heap ?st (allocated st) = p" "allocated ?st = Suc (allocated st)"
    by (auto simp: prop_alloc_def fupd_def Let_def split: option.split)
  have f: "fchoice (fsyms ?st x) = fchoice (fsyms st x)"
    "fprops (fsyms ?st x) = fprops (fsyms st x) @ (if s = Some x then [allocated st] else [])" for x
    by (auto simp: prop_alloc_def fupd_def Let_def split: option.split)
  have old: "q < allocated st" if "q \<in> set (fprops (fsyms st x))" for q x using assms(1) that by (auto simp: linked_def)
  have "choice_linked ?st c" if c: "choice_linked st c" for c
  proof -
    obtain q where q: "find (\<lambda>q. ptype (heap st q) = P_CHOICE) (fprops (fsyms st c)) = Some q"
      "pexpr (heap st q) = No_expr \<or> (\<exists>xs. pexpr (heap st q) = Choice_list xs)"
      using c by (auto simp: choice_linked_def)
    have "find (\<lambda>q. ptype (heap ?st q) = P_CHOICE) (fprops (fsyms st c)) = find (\<lambda>q. ptype (heap st q) = P_CHOICE) (fprops (fsyms st c))"
      by (rule find_cong) (simp add: h old)
    with q h [OF old [OF conjunct1 [OF find_Some_in [OF q(1)]]]] show ?thesis by (simp add: choice_linked_def f find_append)
  qed
  moreover have "q < allocated ?st" if "q \<in> set (fprops (fsyms ?st x))" for q x
    using that old [of q x] n(2) by (auto simp: f split: if_splits)
  moreover have "\<exists>s. pexpr (heap ?st q) = Dep (Symb s)" if "q < allocated ?st" "ptype (heap ?st q) \<in> {P_SELECT, P_IMPLY}" for q
    using that n h [of q] assms by (cases "q = allocated st") (auto simp: linked_def)
  ultimately have "linked X ?st" using assms(1) by (simp add: linked_def f)
  moreover have "kept st ?st" using n(2) h by (simp add: kept_def)
  ultimately show ?thesis ..
qed

lemma require_choice_fine: "linked {} st \<Longrightarrow> fine_step st (require_choice i c s st)"
proof -
  assume l: "linked {} st"
  have "fine_step st (fold (\<lambda>q st. let p = heap st q in
         if pmenu p = i then st\<lparr>heap := (heap st)(q := p\<lparr>visible_expr := expr_alloc_gate E_AND (Some (Comp E_EQUAL c symbol_yes)) (visible_expr p)\<rparr>)\<rparr> else st)
       qs a)" if "fine_step st a" for qs a
    using that
  proof (induction qs arbitrary: a)
    case (Cons q qs)
    have "fine_step st (a\<lparr>heap := (heap a)(q := (heap a q)\<lparr>visible_expr := e\<rparr>)\<rparr>)" for e
      using fine_trans [OF Cons.prems fine_visible] Cons.prems by (simp add: fine_step_def)
    with Cons show ?case by (simp add: Let_def)
  qed simp
  from this [OF fine_refl [OF l]] show ?thesis unfolding require_choice_def .
qed

lemma fsyms_require_choice [simp]: "fsyms (require_choice i c s st) = fsyms st"
proof -
  have "fsyms (fold (\<lambda>q st. let p = heap st q in
         if pmenu p = i then st\<lparr>heap := (heap st)(q := p\<lparr>visible_expr := expr_alloc_gate E_AND (Some (Comp E_EQUAL c symbol_yes)) (visible_expr p)\<rparr>)\<rparr> else st)
       qs a) = fsyms a" for qs and a :: symbols_state
    by (induction qs arbitrary: a) (simp_all add: Let_def)
  then show ?thesis by (simp add: require_choice_def)
qed

lemma append_choice_fine:
  assumes "linked {} st" "fchoice (fsyms st c)"
  shows "\<exists>st'. append_choice c s st = Some st' \<and> fine_step st st'"
proof -
  have "choice_linked st c" using assms by (simp add: linked_def)
  then obtain q where q: "find (\<lambda>q. ptype (heap st q) = P_CHOICE) (fprops (fsyms st c)) = Some q"
    "pexpr (heap st q) = No_expr \<or> (\<exists>xs. pexpr (heap st q) = Choice_list xs)"
    by (auto simp: choice_linked_def)
  then have "ptype (heap st q) = P_CHOICE" using find_Some_in by fast
  define st1 where "st1 = (\<lambda>xs. st\<lparr>heap := (heap st)(q := (heap st q)\<lparr>pexpr := Choice_list xs\<rparr>)\<rparr>)"
  have a: "\<exists>xs. append_choice c s st = Some (st1 xs)" using q by (auto simp: append_choice_def st1_def)
  have same: "ptype (heap (st1 xs) x) = ptype (heap st x)" "ptext (heap (st1 xs) x) = ptext (heap st x)"
    "pexpr (heap (st1 xs) x) = (if x = q then Choice_list xs else pexpr (heap st x))" for xs x
    by (simp_all add: st1_def)
  have f: "fsyms (st1 xs) = fsyms st" "allocated (st1 xs) = allocated st" for xs by (simp_all add: st1_def)
  have "choice_linked (st1 xs) x" if "choice_linked st x" for xs x
    using that by (auto simp: choice_linked_def same f)
  moreover have "\<exists>s. pexpr (heap (st1 xs) x) = Dep (Symb s)" if "x < allocated st" "ptype (heap st x) \<in> {P_SELECT, P_IMPLY}" for xs x
    using that assms(1) \<open>ptype (heap st q) = P_CHOICE\<close> by (auto simp: same linked_def)
  ultimately have "fine_step st (st1 xs)" for xs
    using assms(1) unfolding fine_step_def linked_def kept_def same(1,2) f by blast
  with a show ?thesis by blast
qed

lemma choice_child_fine:
  assumes "linked {} st"
  shows "\<exists>d' st'. choice_child p i d st = Some (d', st') \<and> msym d' = msym d \<and> mprompt d' = mprompt d \<and> fine_step st st'"
proof (cases "\<exists>c s. p = Some c \<and> msym d = Some s \<and> fchoice (fsyms st c) \<and> \<not> fchoiceval (fsyms st s)")
  case True
  then obtain c s where c: "p = Some c" "msym d = Some s" "fchoice (fsyms st c)" "\<not> fchoiceval (fsyms st s)" by blast
  define st1 where "st1 = fupd s (\<lambda>k. k\<lparr>fchoiceval := True\<rparr>) st"
  define extra where "extra \<longleftrightarrow> ftype (fsyms st1 c) = S_TRISTATE \<and> ftype (fsyms st1 s) \<noteq> S_TRISTATE"
  define st2 where "st2 = (if extra then require_choice i c s st1 else st1)"
  define st3 where "st3 = snd (prop_alloc \<lparr>ptype = P_CHOICE, ptext = None, visible_expr = None, pexpr = Dep (Symb c), pmenu = i\<rparr> (Some s) st2)"
  have 1: "fine_step st st1" unfolding st1_def by (rule fine_fupd [OF assms]) simp
  have 2: "fine_step st st2" unfolding st2_def using 1 fine_trans [OF 1 require_choice_fine] by (simp add: fine_step_def)
  then have 3: "fine_step st st3"
    unfolding st3_def using prop_alloc_linked [of "{}" st2 "\<lparr>ptype = P_CHOICE, ptext = None, visible_expr = None, pexpr = Dep (Symb c), pmenu = i\<rparr>" "Some s"]
    by (auto simp: fine_step_def intro: kept_trans)
  have kind: "fchoice (fsyms st3 c) = fchoice (fsyms st c)"
    by (simp add: st3_def st2_def st1_def prop_alloc_def fupd_def Let_def)
  obtain st4 where 4: "append_choice c s st3 = Some st4" "fine_step st3 st4"
    using append_choice_fine [of st3 c s] 3 kind c(3) by (auto simp: fine_step_def)
  have t: "ftype (fsyms st1 x) = ftype (fsyms st x)" for x by (simp add: st1_def fupd_def)
  have "choice_child p i d st
      = map_option (Pair (if extra then d\<lparr>mdep := expr_alloc_gate E_AND (Some (Comp E_EQUAL c symbol_yes)) (mdep d)\<rparr> else d)) (append_choice c s st3)"
    using c by (simp add: choice_child_def Let_def st3_def st2_def extra_def st1_def)
  with 4 fine_trans [OF 3 4(2)] show ?thesis by simp
next
  case False
  then have "choice_child p i d st = Some (d, st)" by (auto simp: choice_child_def split: option.split)
  with fine_refl [OF assms] show ?thesis by simp
qed

lemma require_mode_fine: "linked {} st \<Longrightarrow> fine_step st (require_mode d st)"
  using fine_refl fine_fupd by (auto simp: require_mode_def split: option.split)

section \<open>Nodes with nodes under them\<close>

fun closed :: "symbols_state \<Rightarrow> mtree list \<Rightarrow> bool" where
  "closed st [] \<longleftrightarrow> True"
| "closed st (Node i d ts # us) \<longleftrightarrow> (ts \<noteq> [] \<longrightarrow> \<not> flattened d st) \<and> closed st ts \<and> closed st us"

definition inner_closed :: "symbols_state \<Rightarrow> mtree list \<Rightarrow> bool" where
  "inner_closed st ts \<longleftrightarrow> (\<forall>t \<in> set ts. closed st (subtrees t))"

lemma closed_inner: "closed st ts \<Longrightarrow> inner_closed st ts"
  by (induction st ts rule: closed.induct) (auto simp: inner_closed_def)

lemma flattened_kept: "kept st st' \<Longrightarrow> label_ok st (i, msym d, mprompt d) \<Longrightarrow> flattened d st' = flattened d st"
  by (auto simp: flattened_def kept_def label_ok_def split: option.split)

lemma closed_kept: "kept st st' \<Longrightarrow> labels_ok st ts \<Longrightarrow> closed st' ts = closed st ts"
  by (induction st ts rule: closed.induct) (auto simp: labels_ok_Node flattened_kept)

lemma labels_ok_subtrees: "labels_ok st ts \<Longrightarrow> t \<in> set ts \<Longrightarrow> labels_ok st (subtrees t)"
  by (induction ts rule: labels.induct) (auto simp: labels_ok_Node)

lemma inner_kept: "kept st st' \<Longrightarrow> labels_ok st ts \<Longrightarrow> inner_closed st ts \<Longrightarrow> inner_closed st' ts"
  using closed_kept labels_ok_subtrees unfolding inner_closed_def by blast

lemma close_children_fine:
  "linked {} st \<Longrightarrow> labels_ok st ts \<Longrightarrow> inner_closed st ts \<Longrightarrow>
   \<exists>us st'. close_children p ts st = Some (us, st') \<and> labels us = labels ts \<and> fine_step st st' \<and> closed st' us"
proof (induction p ts st rule: close_children.induct)
  case (1 p st)
  then show ?case by (simp add: fine_refl)
next
  case (2 p i d ts us st)
  obtain d1 st1 where 1: "choice_child p i d st = Some (d1, st1)" "msym d1 = msym d" "mprompt d1 = mprompt d" "fine_step st st1"
    using choice_child_fine [OF 2(3)] by blast
  have l1: "linked {} st1" and k1: "kept st st1" using 1(4) by (simp_all add: fine_step_def)
  have o1: "labels_ok st1 (ts @ us)" "labels_ok st1 us" "label_ok st1 (i, msym d, mprompt d)"
    using 2(4) kept_labels [OF k1] kept_label [OF k1] by (auto simp: labels_ok_Node labels_ok_append)
  have c: "closed st1 ts" using 2(4,5) closed_kept [OF k1] by (auto simp: inner_closed_def labels_ok_Node)
  have "inner_closed st us" "labels_ok st us" using 2(4,5) by (auto simp: inner_closed_def labels_ok_Node)
  then have i1: "inner_closed st1 us" using inner_kept [OF k1] by blast
  then have i2: "inner_closed st1 (ts @ us)" using closed_inner [OF c] by (auto simp: inner_closed_def)
  have o1': "label_ok st1 (i, msym d1, mprompt d1)" using o1(3) 1(2,3) by simp
  show ?case
  proof (cases "ts \<noteq> [] \<and> flattened d1 st1")
    case True
    with 2(1) [OF 1(1) refl True l1 o1(1) i2] obtain vs st2 where
      "close_children p (ts @ us) st1 = Some (vs, st2)" "labels vs = labels (ts @ us)" "fine_step st1 st2" "closed st2 vs" by blast
    with True 1 show ?thesis by (auto intro: fine_trans)
  next
    case False
    with 2(2) [OF 1(1) refl False l1 o1(2) i1] obtain vs st2 where
      3: "close_children p us st1 = Some (vs, st2)" "labels vs = labels us" "fine_step st1 st2" "closed st2 vs" by blast
    have "closed st2 ts" using c closed_kept [of st1 st2 ts] 3(3) o1(1) by (auto simp: fine_step_def labels_ok_append)
    moreover have "flattened d1 st2 = flattened d1 st1" using flattened_kept [OF _ o1', of st2] 3(3) by (simp add: fine_step_def)
    ultimately show ?thesis using False 1 3 fine_trans [OF 1(4) 3(3)] by auto
  qed
qed

section \<open>\<open>menu_finalize\<close>\<close>

abbreviation "nodes ts \<equiv> length (labels ts)"

lemma finalize_fine:
  "linked {} st \<Longrightarrow> labels_ok st (t # us) \<Longrightarrow> 2 * nodes (t # us) \<le> n \<Longrightarrow>
   \<exists>t' us' st'. menu_finalize n t us st = Some (t', us', st') \<and> labels (t' # us') = labels (t # us) \<and> fine_step st st' \<and> closed st' (subtrees t')"
  "linked {} st \<Longrightarrow> labels_ok st ts \<Longrightarrow> 2 * nodes ts < n \<Longrightarrow>
   \<exists>ts' st'. finalize_all n ts st = Some (ts', st') \<and> labels ts' = labels ts \<and> fine_step st st' \<and> inner_closed st' ts'"
  "linked {} st \<Longrightarrow> labels_ok st us \<Longrightarrow> 2 * nodes us < n \<Longrightarrow>
   \<exists>ts' us' st'. take_submenu n s basedep us st = Some (ts', us', st') \<and> labels (ts' @ us') = labels us \<and> fine_step st st' \<and> inner_closed st' ts'"
proof (induction n arbitrary: st t us ts s basedep)
  case 0
  {
    case 1
    then show ?case by (cases t) simp
  next
    case 2
    then show ?case by simp
  next
    case 3
    then show ?case by simp
  }
next
  case (Suc n)
  {
    case 1
    obtain i d ts where t: "t = Node i d ts" by (cases t)
    have o: "label_ok st (i, msym d, mprompt d)" "labels_ok st ts" "labels_ok st us" using 1(2) by (auto simp: t labels_ok_Node)
    have "\<exists>ts1 us1 st1. (if ts \<noteq> [] then do {
          (ts, st) \<leftarrow> finalize_children d ts st;
          (ts, st) \<leftarrow> finalize_all n ts st;
          Some (ts, us, st) }
        else case msym d of
          None \<Rightarrow> Some ([], us, st)
        | Some s \<Rightarrow> do {
            let basedep = normal_dep st (case mprompt d of Some q \<Rightarrow> visible_expr (heap st q) | None \<Rightarrow> None);
            (ts, us, st) \<leftarrow> take_submenu n s basedep us st;
            Some (ts, us, fupd s (\<lambda>k. k\<lparr>fdir := expr_alloc_gate E_OR (fdir k) (mdep d)\<rparr>) st) }) = Some (ts1, us1, st1)
      \<and> labels ts1 @ labels us1 = labels ts @ labels us \<and> fine_step st st1 \<and> inner_closed st1 ts1"
    proof (cases "ts = []")
      case False
      obtain vs st1 where c: "finalize_children d ts st = Some (vs, st1)" "labels vs = labels ts" "fine_step st st1"
        using finalize_children_fine [OF 1(1) o(2)] by blast
      have "labels_ok st1 vs" using kept_labels [of st st1 ts] c o(2) labels_ok_cong [OF c(2)] by (auto simp: fine_step_def)
      then obtain ws st2 where "finalize_all n vs st1 = Some (ws, st2)" "labels ws = labels vs" "fine_step st1 st2" "inner_closed st2 ws"
        using Suc.IH(2) [of st1 vs] c 1(3) by (auto simp: fine_step_def t)
      with c False show ?thesis by (auto intro: fine_trans)
    next
      case True
      show ?thesis
      proof (cases "msym d")
        case None
        with True 1(1) show ?thesis by (simp add: fine_refl inner_closed_def)
      next
        case (Some s)
        let ?b = "normal_dep st (case mprompt d of Some q \<Rightarrow> visible_expr (heap st q) | None \<Rightarrow> None)"
        obtain vs ws st1 where c: "take_submenu n s ?b us st = Some (vs, ws, st1)" "labels (vs @ ws) = labels us" "fine_step st st1" "inner_closed st1 vs"
          using Suc.IH(3) [OF 1(1) o(3), of s ?b] 1(3) by (auto simp: t)
        let ?st = "fupd s (\<lambda>k. k\<lparr>fdir := expr_alloc_gate E_OR (fdir k) (mdep d)\<rparr>) st1"
        have f: "fine_step st1 ?st" by (rule fine_fupd) (use c(3) in \<open>simp_all add: fine_step_def\<close>)
        have "labels_ok st1 vs"
          using kept_labels [of st st1 us] c(3) o(3) labels_ok_cong [OF c(2)] by (auto simp: fine_step_def labels_ok_append)
        then have "inner_closed ?st vs" using inner_kept [of st1 ?st vs] f c(4) by (simp add: fine_step_def)
        with c True Some fine_trans [OF c(3) f] show ?thesis by simp
      qed
    qed
    then obtain ts1 us1 st1 where 2: "(if ts \<noteq> [] then do {
          (ts, st) \<leftarrow> finalize_children d ts st;
          (ts, st) \<leftarrow> finalize_all n ts st;
          Some (ts, us, st) }
        else case msym d of
          None \<Rightarrow> Some ([], us, st)
        | Some s \<Rightarrow> do {
            let basedep = normal_dep st (case mprompt d of Some q \<Rightarrow> visible_expr (heap st q) | None \<Rightarrow> None);
            (ts, us, st) \<leftarrow> take_submenu n s basedep us st;
            Some (ts, us, fupd s (\<lambda>k. k\<lparr>fdir := expr_alloc_gate E_OR (fdir k) (mdep d)\<rparr>) st) }) = Some (ts1, us1, st1)"
      "labels ts1 @ labels us1 = labels ts @ labels us" "fine_step st st1" "inner_closed st1 ts1" by blast
    have l1: "linked {} st1" "kept st st1" using 2(3) by (simp_all add: fine_step_def)
    have "labels_ok st1 (ts1 @ us1)"
    proof (rule iffD2 [OF labels_ok_cong])
      show "labels (ts1 @ us1) = labels (ts @ us)" using 2(2) by simp
      show "labels_ok st1 (ts @ us)" using kept_labels [OF l1(2)] o(2,3) by (simp add: labels_ok_append)
    qed
    then have o1: "labels_ok st1 ts1" by (simp add: labels_ok_append)
    obtain ts2 st2 where 3: "close_children (msym d) ts1 st1 = Some (ts2, st2)" "labels ts2 = labels ts1" "fine_step st1 st2" "closed st2 ts2"
      using close_children_fine [OF l1(1) o1 2(4)] by blast
    have f: "fine_step st2 (require_mode d st2)" by (rule require_mode_fine) (use 3(3) in \<open>simp add: fine_step_def\<close>)
    have "labels_ok st2 ts2" using kept_labels [of st1 st2 ts1] o1 3(3) labels_ok_cong [OF 3(2)] by (auto simp: fine_step_def)
    then have "closed (require_mode d st2) ts2" using closed_kept [of st2 _ ts2] f 3(4) by (auto simp: fine_step_def)
    with 2 3 fine_trans [OF 2(3) fine_trans [OF 3(3) f]] show ?case by (auto simp: t Let_def)
  next
    case 2
    show ?case
    proof (cases ts)
      case Nil
      with 2(1) show ?thesis by (simp add: fine_refl inner_closed_def)
    next
      case (Cons t us)
      obtain t1 us1 st1 where 3: "menu_finalize n t us st = Some (t1, us1, st1)" "labels (t1 # us1) = labels (t # us)" "fine_step st st1" "closed st1 (subtrees t1)"
        using Suc.IH(1) [OF 2(1), of t us] 2(2,3) Cons by auto
      have o: "labels_ok st1 (t1 # us1)" using kept_labels [of st st1 ts] 2(2) 3(3) labels_ok_cong [OF 3(2)] Cons by (auto simp: fine_step_def)
      have "nodes (t1 # us1) = nodes ts" using 3(2) Cons by simp
      moreover have "nodes us1 < nodes (t1 # us1)" by (cases t1) simp
      ultimately have n: "2 * nodes us1 < n" using 2(3) by simp
      have o': "labels_ok st1 us1" "labels_ok st1 (subtrees t1)"
        using o labels_ok_append [of st1 "[t1]" us1] labels_ok_subtrees [OF o, of t1] by simp_all
      obtain vs st2 where 4: "finalize_all n us1 st1 = Some (vs, st2)" "labels vs = labels us1" "fine_step st1 st2" "inner_closed st2 vs"
        using Suc.IH(2) [OF _ o'(1) n] 3(3) by (auto simp: fine_step_def)
      have "closed st2 (subtrees t1)" using closed_kept [of st1 st2] 4(3) o'(2) 3(4) by (simp add: fine_step_def)
      with 3 4 Cons fine_trans [OF 3(3) 4(3)] labels_Cons [of t1 us1] labels_Cons [of t1 vs] show ?thesis
        by (simp add: inner_closed_def)
    qed
  next
    case 3
    show ?case
    proof (cases ts)
      case Nil
      with 3(1) show ?thesis by (simp add: fine_refl inner_closed_def)
    next
      case (Cons t us0)
      show ?thesis
      proof (cases "in_submenu s basedep (data t) st")
        case False
        with Cons 3(1) show ?thesis by (simp add: fine_refl inner_closed_def)
      next
        case True
        obtain t1 us1 st1 where 4: "menu_finalize n t us0 st = Some (t1, us1, st1)" "labels (t1 # us1) = labels (t # us0)" "fine_step st st1" "closed st1 (subtrees t1)"
          using Suc.IH(1) [OF 3(1), of t us0] 3(2,3) Cons by auto
        have o: "labels_ok st1 (t1 # us1)" using kept_labels [of st st1 ts] 3(2) 4(3) labels_ok_cong [OF 4(2)] Cons by (auto simp: fine_step_def)
        have "nodes (t1 # us1) = nodes ts" using 4(2) Cons by simp
        moreover have "nodes us1 < nodes (t1 # us1)" by (cases t1) simp
        ultimately have n: "2 * nodes us1 < n" using 3(3) by simp
        have o': "labels_ok st1 us1" "labels_ok st1 (subtrees t1)"
          using o labels_ok_append [of st1 "[t1]" us1] labels_ok_subtrees [OF o, of t1] by simp_all
        obtain vs ws st2 where 5: "take_submenu n s basedep us1 st1 = Some (vs, ws, st2)" "labels (vs @ ws) = labels us1" "fine_step st1 st2" "inner_closed st2 vs"
          using Suc.IH(3) [OF _ o'(1) n, of s basedep] 4(3) by (auto simp: fine_step_def)
        have "closed st2 (subtrees t1)" using closed_kept [of st1 st2] 5(3) o'(2) 4(4) by (simp add: fine_step_def)
        with 4 5 Cons True fine_trans [OF 4(3) 5(3)] labels_Cons [of t1 us1] labels_Cons [of t1 vs] show ?thesis
          by (simp add: inner_closed_def)
      qed
    qed
  }
qed

text \<open>A node that is the last takes no nodes in.\<close>

lemma finalize_last: "menu_finalize n t [] st = Some (t', us, st') \<Longrightarrow> us = []"
  by (cases n; cases t) (auto simp: Let_def gr0_conv_Suc split: if_splits option.splits elim!: take_submenu.elims)

end
