(* ===== verification/Menu_Links.thy ===== *)
theory Menu_Links
  imports Menu_Order
begin

text \<open>
  What the actions of the parser leave for \<open>menu_finalize\<close>: the properties that it reads without a test
  are there.
\<close>

section \<open>While the file is read\<close>

text \<open>\<open>X\<close> holds the choice whose property is about to be added.\<close>

definition prop_linked :: "menu_prop \<Rightarrow> bool" where
  "prop_linked p \<longleftrightarrow> (ptype p \<in> {P_SELECT, P_IMPLY} \<longrightarrow> (\<exists>s. pexpr p = Dep (Symb s))) \<and> (ptype p = P_CHOICE \<longrightarrow> pexpr p = No_expr)"

definition prompt_ok :: "'a symbols_state_scheme \<Rightarrow> nat option \<Rightarrow> bool" where
  "prompt_ok st p \<longleftrightarrow> (case p of None \<Rightarrow> True | Some q \<Rightarrow> q < allocated st \<and> ptype (heap st q) \<in> prompt_types)"

definition building :: "symref set \<Rightarrow> builder \<Rightarrow> bool" where
  "building X b \<longleftrightarrow> (\<forall>q < allocated b. prop_linked (heap b q))
     \<and> (\<forall>s. \<forall>q \<in> set (fprops (fsyms b s)). q < allocated b)
     \<and> (\<forall>c. fchoice (fsyms b c) \<and> c \<notin> X \<longrightarrow> (\<exists>q \<in> set (fprops (fsyms b c)). ptype (heap b q) = P_CHOICE))
     \<and> (\<forall>m \<in> set (cells b). prompt_ok b (mprompt m))"

lemma building_fupd:
  "building X b \<Longrightarrow> (\<And>k. fprops (f k) = fprops k \<and> (fchoice (f k) \<longrightarrow> fchoice k \<or> s \<in> X)) \<Longrightarrow> building X (fupd s f b)"
  unfolding building_def prompt_ok_def fupd_def by (simp cong: option.case_cong) blast

lemma building_fields:
  "building X b \<Longrightarrow> fsyms b' = fsyms b \<Longrightarrow> heap b' = heap b \<Longrightarrow> allocated b' = allocated b \<Longrightarrow> cells b' = cells b \<Longrightarrow> building X b'"
  by (simp add: building_def prompt_ok_def cong: option.case_cong)

lemma prompt_ok_cells [simp]: "prompt_ok (b\<lparr>cells := cs\<rparr>) p = prompt_ok b p"
  by (simp add: prompt_ok_def cong: option.case_cong)

lemma building_upd:
  assumes "building X b" "upd_cell i f b = Some b'" "\<And>m. prompt_ok b (mprompt m) \<Longrightarrow> prompt_ok b (mprompt (f m))"
  shows "building X b' \<and> heap b' = heap b \<and> allocated b' = allocated b \<and> fsyms b' = fsyms b \<and> current_entry b' = current_entry b"
  using assms set_update_subset_insert [of "cells b" i "f (cells b ! i)"]
  by (auto simp: upd_cell_def building_def subset_iff split: if_splits)

lemma building_alloc:
  assumes "building X b" "prop_linked p" "prop_alloc p s b = (i, b')"
  shows "building X b' \<and> i = allocated b \<and> i < allocated b' \<and> heap b' i = p
    \<and> (\<forall>x. fchoice (fsyms b' x) = fchoice (fsyms b x) \<and> set (fprops (fsyms b' x)) = set (fprops (fsyms b x)) \<union> (if s = Some x then {i} else {}))"
proof -
  have b: "i = allocated b" "allocated b' = Suc i" "heap b' = (heap b)(i := p)" "cells b' = cells b"
    "fchoice (fsyms b' x) = fchoice (fsyms b x)" "set (fprops (fsyms b' x)) = set (fprops (fsyms b x)) \<union> (if s = Some x then {i} else {})" for x
    using assms(3) by (auto simp: prop_alloc_def fupd_def Let_def split: option.splits if_splits)
  have "prompt_ok b' r" if "prompt_ok b r" for r
    using that b by (auto simp: prompt_ok_def split: option.splits)
  moreover have "prop_linked (heap b' q)" if "q < allocated b'" for q
    using that assms(1,2) b by (auto simp: building_def less_Suc_eq)
  moreover have "q < allocated b'" if "q \<in> set (fprops (fsyms b' x))" for q x
    using that assms(1) b by (auto simp: building_def less_Suc_eq split: if_splits)
  moreover have "\<exists>q \<in> set (fprops (fsyms b' c)). ptype (heap b' q) = P_CHOICE" if c: "fchoice (fsyms b' c)" "c \<notin> X" for c
  proof -
    obtain q where "q \<in> set (fprops (fsyms b c))" "ptype (heap b q) = P_CHOICE" using c assms(1) b by (auto simp: building_def)
    moreover have "q < allocated b" using calculation(1) assms(1) by (auto simp: building_def)
    ultimately show ?thesis using b by (intro bexI [of _ q]) auto
  qed
  ultimately have "building X b'" using assms(1) b by (simp add: building_def)
  with b show ?thesis by simp
qed

text \<open>Adding a property takes three steps.\<close>

lemma add_prop_steps:
  assumes "menu_add_prop t prompt e dep b = Some b'"
  obtains m dep' i b1 where "menu_at (cells b) (current_entry b) = Some m" "prop_alloc \<lparr>ptype = t, ptext = map_option (dropWhile is_space) prompt, visible_expr = dep', pexpr = e, pmenu = current_entry b\<rparr> (msym m) b = (i, b1)"
    "current_entry b1 = current_entry b" "cells b1 = cells b"
    "(if prompt \<noteq> None then upd_cell (current_entry b) (\<lambda>m. m\<lparr>mprompt := Some i\<rparr>) b1 else Some b1) = Some b'"
proof -
  obtain m dep' where m: "menu_at (cells b) (current_entry b) = Some m"
    "(let (i, b) = prop_alloc \<lparr>ptype = t, ptext = map_option (dropWhile is_space) prompt, visible_expr = dep', pexpr = e, pmenu = current_entry b\<rparr> (msym m) b
      in if prompt \<noteq> None then upd_cell (current_entry b) (\<lambda>m. m\<lparr>mprompt := Some i\<rparr>) b else Some b) = Some b'"
    using assms unfolding menu_add_prop_def bind_Some_iff by blast
  obtain i b1 where a: "prop_alloc \<lparr>ptype = t, ptext = map_option (dropWhile is_space) prompt, visible_expr = dep', pexpr = e, pmenu = current_entry b\<rparr> (msym m) b = (i, b1)"
    by fastforce
  then have c: "current_entry b1 = current_entry b" "cells b1 = cells b"
    using prop_alloc_builder(1,2) [of "\<lparr>ptype = t, ptext = map_option (dropWhile is_space) prompt, visible_expr = dep', pexpr = e, pmenu = current_entry b\<rparr>" "msym m" b] by simp_all
  moreover have "(if prompt \<noteq> None then upd_cell (current_entry b) (\<lambda>m. m\<lparr>mprompt := Some i\<rparr>) b1 else Some b1) = Some b'"
    using m(2) a c by (auto split: if_splits)
  ultimately show thesis using m(1) a that by blast
qed

lemma add_prop_building:
  assumes "building X b" "menu_add_prop t prompt e dep b = Some b'" "t \<in> {P_SELECT, P_IMPLY} \<longrightarrow> (\<exists>s. e = Dep (Symb s))"
    "t = P_CHOICE \<longrightarrow> e = No_expr" "prompt \<noteq> None \<longrightarrow> t \<in> prompt_types"
  shows "building X b' \<and> (t = P_CHOICE \<longrightarrow> (\<forall>s. current_symbol b = Some s \<longrightarrow> building (X - {s}) b'))"
proof -
  obtain m dep' i b1 where 1: "menu_at (cells b) (current_entry b) = Some m" "prop_alloc \<lparr>ptype = t, ptext = map_option (dropWhile is_space) prompt, visible_expr = dep', pexpr = e, pmenu = current_entry b\<rparr> (msym m) b = (i, b1)"
    "(if prompt \<noteq> None then upd_cell (current_entry b) (\<lambda>m. m\<lparr>mprompt := Some i\<rparr>) b1 else Some b1) = Some b'"
    using add_prop_steps [OF assms(2)] by metis
  have "prop_linked \<lparr>ptype = t, ptext = map_option (dropWhile is_space) prompt, visible_expr = dep', pexpr = e, pmenu = current_entry b\<rparr>"
    using assms(3,4) by (simp add: prop_linked_def)
  note 2 = building_alloc [OF assms(1) this 1(2)]
  have 3: "building X b' \<and> heap b' = heap b1 \<and> allocated b' = allocated b1 \<and> fsyms b' = fsyms b1"
  proof (cases "prompt = None")
    case True
    with 1(3) 2 show ?thesis by simp
  next
    case False
    with 1(3) 2 building_upd [of X b1 "current_entry b" "\<lambda>m. m\<lparr>mprompt := Some i\<rparr>" b'] assms(5)
    show ?thesis by (auto simp: prompt_ok_def)
  qed
  have "building (X - {s}) b'" if "t = P_CHOICE" "current_symbol b = Some s" for s
  proof -
    have "msym m = Some s" using that(2) 1(1) by (simp add: current_symbol_def)
    then have "i \<in> set (fprops (fsyms b' s))" "ptype (heap b' i) = P_CHOICE" using 2 3 that(1) by auto
    with 3 show ?thesis unfolding building_def by blast
  qed
  with 3 show ?thesis by blast
qed

lemma attr_building: "building X b \<Longrightarrow> run_attr a b = Some b' \<Longrightarrow> building X b'"
proof -
  assume b: "building X b" and r: "run_attr a b = Some b'"
  have type: "building X d" if "building X c" "menu_set_type t c = Some d" for c d t
    using that by (auto simp: menu_set_type_def set_type_def intro!: building_fupd split: if_splits)
  have padd: "building X d" if "menu_add_prop t p e dep b = Some d" "t \<in> {P_SELECT, P_IMPLY} \<longrightarrow> (\<exists>s. e = Dep (Symb s))"
    "t \<noteq> P_CHOICE" "p \<noteq> None \<longrightarrow> t \<in> prompt_types" for t p e dep d
    using add_prop_building [OF b that(1,2)] that(3,4) by simp
  show "building X b'"
  proof (cases a)
    case (Type t)
    with r b type show ?thesis by (simp add: run_attr_def)
  next
    case (Default e dep t)
    then obtain c where c: "menu_add_expr P_DEFAULT (Dep e) dep b = Some c" "(if t \<noteq> S_UNKNOWN then menu_set_type t c else Some c) = Some b'"
      using r by (auto simp: run_attr_def)
    have "building X c" using padd [OF c(1) [unfolded menu_add_expr_def]] by simp
    with c(2) type show ?thesis by (cases "t = S_UNKNOWN") auto
  next
    case (Depends e)
    with r building_upd [OF b] show ?thesis by (fastforce simp: run_attr_def menu_add_dep_def)
  next
    case (Visible e)
    with r building_upd [OF b] show ?thesis by (fastforce simp: run_attr_def menu_add_visibility_def)
  next
    case Optional
    with r b show ?thesis by (auto simp: run_attr_def intro!: building_fupd)
  next
    case (Option t)
    with r b show ?thesis
      by (cases t) (auto simp: run_attr_def menu_add_option_def Let_def intro!: building_fupd building_fields [OF b])
  qed (use r padd in \<open>auto simp: run_attr_def menu_add_prompt_def menu_add_symbol_def menu_add_expr_def prompt_types_def\<close>)
qed

lemma attrs_building: "building X b \<Longrightarrow> run_attrs as b = Some b' \<Longrightarrow> building X b'"
  by (induction as arbitrary: b) (auto dest: attr_building)

lemma prompt_to_menu_building: "building X b \<Longrightarrow> prompt_to_menu b = Some b' \<Longrightarrow> building X b'"
proof -
  assume b: "building X b" and r: "prompt_to_menu b = Some b'"
  then obtain m where m: "m \<in> set (cells b)" "b' = (case mprompt m of None \<Rightarrow> b | Some i \<Rightarrow> b\<lparr>heap := (heap b)(i := (heap b i)\<lparr>ptype := P_MENU\<rparr>)\<rparr>)"
    unfolding prompt_to_menu_def bind_Some_iff by (auto simp: menu_at_Some intro!: that [of "cells b ! current_entry b"])
  show ?thesis
  proof (cases "mprompt m")
    case None
    with b m show ?thesis by simp
  next
    case (Some i)
    let ?b = "b\<lparr>heap := (heap b)(i := (heap b i)\<lparr>ptype := P_MENU\<rparr>)\<rparr>"
    have i: "i < allocated b" "ptype (heap b i) \<in> prompt_types" using b m(1) Some by (auto simp: building_def prompt_ok_def)
    have t: "ptype (heap ?b q) = (if q = i then P_MENU else ptype (heap b q))" "pexpr (heap ?b q) = pexpr (heap b q)" for q by simp_all
    have "prompt_ok ?b r" if "prompt_ok b r" for r using that by (auto simp: prompt_ok_def prompt_types_def split: option.splits)
    moreover have "prop_linked (heap ?b q)" if "prop_linked (heap b q)" for q using that unfolding prop_linked_def t by simp
    moreover have "ptype (heap ?b q) = P_CHOICE" if "ptype (heap b q) = P_CHOICE" for q
      using that i(2) by (auto simp: prompt_types_def)
    moreover have "fsyms ?b = fsyms b" "allocated ?b = allocated b" "cells ?b = cells b" by simp_all
    ultimately have "building X ?b" using b unfolding building_def by metis
    with m(2) Some show ?thesis by simp
  qed
qed

lemma slot_building:
  "building X b \<Longrightarrow> set_slot s i b = Some b' \<Longrightarrow> building X b' \<and> current_entry b' = current_entry b"
  using building_upd by (fastforce simp: set_slot_def split: slot.splits)

lemma add_entry_building:
  assumes "building X b" "menu_add_entry s b = Some b'"
  shows "building X b'"
proof -
  let ?c = "b\<lparr>cells := cells b @ [new_menu s (current_menu b)]\<rparr>"
  obtain b1 where 1: "set_slot (last_entry_ptr b) (length (cells b)) ?c = Some b1"
    "(case s of None \<Rightarrow> Some (b1\<lparr>last_entry_ptr := Next (length (cells b)), current_entry := length (cells b)\<rparr>)
      | Some s \<Rightarrow> menu_add_symbol P_SYMBOL s None (b1\<lparr>last_entry_ptr := Next (length (cells b)), current_entry := length (cells b)\<rparr>)) = Some b'"
    using assms(2) by (auto simp: menu_add_entry_def Let_def)
  have "prompt_ok ?c p = prompt_ok b p" for p by (simp add: prompt_ok_def cong: option.case_cong)
  then have "building X ?c" using assms(1) by (auto simp: building_def new_menu_def) (simp add: prompt_ok_def)
  then have "building X b1" using slot_building 1(1) by blast
  then have "building X (b1\<lparr>last_entry_ptr := Next (length (cells b)), current_entry := length (cells b)\<rparr>)"
    by (rule building_fields) simp_all
  with 1(2) add_prop_building [OF this] show ?thesis by (auto simp: menu_add_symbol_def split: option.splits)
qed

section \<open>The symbol of the entry\<close>

definition entry_symbols :: "builder \<Rightarrow> symref option list \<times> nat" where
  "entry_symbols b = (map msym (cells b), current_entry b)"

lemma current_symbol_of: "entry_symbols b = (ss, i) \<Longrightarrow> current_symbol b = (if i < length ss then ss ! i else None)"
  by (auto simp: entry_symbols_def current_symbol_def menu_at_def)

lemma upd_symbols: "upd_cell i f b = Some b' \<Longrightarrow> (\<And>m. msym (f m) = msym m) \<Longrightarrow> entry_symbols b' = entry_symbols b"
  by (auto simp: upd_cell_def entry_symbols_def map_update list_update_same_conv split: if_splits)

lemma slot_symbols: "set_slot s i b = Some b' \<Longrightarrow> entry_symbols b' = entry_symbols b"
  by (auto simp: set_slot_def split: slot.splits elim!: upd_symbols)

lemma add_prop_symbols: "menu_add_prop t prompt e dep b = Some b' \<Longrightarrow> entry_symbols b' = entry_symbols b"
proof (erule add_prop_steps)
  fix i b1
  assume "current_entry b1 = current_entry b" "cells b1 = cells b"
    "(if prompt \<noteq> None then upd_cell (current_entry b) (\<lambda>m. m\<lparr>mprompt := Some i\<rparr>) b1 else Some b1) = Some b'"
  then show ?thesis using upd_symbols [of _ "\<lambda>m. m\<lparr>mprompt := Some i\<rparr>" b1 b'] by (simp add: entry_symbols_def split: if_splits)
qed

lemma add_entry_symbol:
  assumes "menu_add_entry (Some s) b = Some b'"
  shows "current_symbol b' = Some s"
proof -
  let ?c = "b\<lparr>cells := cells b @ [new_menu (Some s) (current_menu b)]\<rparr>"
  obtain b1 where 1: "set_slot (last_entry_ptr b) (length (cells b)) ?c = Some b1"
    "menu_add_symbol P_SYMBOL s None (b1\<lparr>last_entry_ptr := Next (length (cells b)), current_entry := length (cells b)\<rparr>) = Some b'"
    using assms by (auto simp: menu_add_entry_def Let_def)
  have "entry_symbols b' = (map msym (cells b1), length (cells b))"
    using add_prop_symbols [OF 1(2) [unfolded menu_add_symbol_def]] by (simp add: entry_symbols_def)
  moreover have "map msym (cells b1) = map msym (cells b) @ [Some s]"
    using slot_symbols [OF 1(1)] by (simp add: entry_symbols_def new_menu_def)
  ultimately show ?thesis by (simp add: current_symbol_of nth_append)
qed

section \<open>Entries\<close>

lemma choice_building: "building {} b \<Longrightarrow> choice_start s b = Some b' \<Longrightarrow> building {} b'"
proof -
  assume b: "building {} b" and r: "choice_start s b = Some b'"
  obtain b1 where 1: "menu_add_entry (Some s) (fupd s (\<lambda>k. k\<lparr>fchoice := True, fauto := True\<rparr>) b) = Some b1"
    "menu_add_prop P_CHOICE None No_expr None b1 = Some b'"
    using r by (auto simp: choice_start_def menu_add_expr_def)
  have "building {s} b" using b by (auto simp: building_def)
  then have "building {s} (fupd s (\<lambda>k. k\<lparr>fchoice := True, fauto := True\<rparr>) b)" by (rule building_fupd) simp
  then have "building {s} b1" using 1(1) by (rule add_entry_building)
  from add_prop_building [OF this 1(2)] add_entry_symbol [OF 1(1)] show ?thesis by simp
qed

lemma add_menu_building [simp]: "building X (menu_add_menu b) = building X b"
  by (simp add: building_def prompt_ok_def menu_add_menu_def cong: option.case_cong)

lemma end_menu_building: "building X b \<Longrightarrow> menu_end_menu b = Some b' \<Longrightarrow> building X b'"
  by (auto simp: menu_end_menu_def intro: building_fields)

lemma add_dep_building: "building X b \<Longrightarrow> menu_add_dep e b = Some b' \<Longrightarrow> building X b'"
  using building_upd unfolding menu_add_dep_def by fastforce

lemma config_building: "building X b \<Longrightarrow> config_start s b = Some b' \<Longrightarrow> building X b'"
  unfolding config_start_def by (erule add_entry_building [rotated]) (rule building_fupd; simp)

lemma title_building: "building X b \<Longrightarrow> t \<in> prompt_types \<Longrightarrow> menu_add_prompt t s dep b = Some b' \<Longrightarrow> building X b'"
  using add_prop_building [of X b t "Some s" No_expr dep b'] by (auto simp: menu_add_prompt_def prompt_types_def)

lemma entries_building:
  "building {} b \<Longrightarrow> run_entry e b = Some b' \<Longrightarrow> building {} b'"
  "building {} b \<Longrightarrow> run_entries es b = Some b' \<Longrightarrow> building {} b'"
proof (induction e b and es b arbitrary: b' and b' rule: run_entry_run_entries.induct)
  case (1 s as b)
  from 1(2) obtain b1 where "config_start s b = Some b1" "run_attrs as b1 = Some b'" by auto
  with attrs_building [OF config_building [OF 1(1)]] show ?case by blast
next
  case (2 s as b)
  from 2(2) obtain b1 b2 where "config_start s b = Some b1" "run_attrs as b1 = Some b2" "prompt_to_menu b2 = Some b'" by auto
  with prompt_to_menu_building [OF attrs_building [OF config_building [OF 2(1)]]] show ?case by blast
next
  case (3 tx as b)
  from 3(2) obtain b1 b2 where r: "menu_add_entry None b = Some b1" "menu_add_prompt P_COMMENT tx None b1 = Some b2" "run_attrs as b2 = Some b'"
    by auto
  have "building {} b2" using title_building [OF add_entry_building [OF 3(1) r(1)] _ r(2)] by (simp add: prompt_types_def)
  then show ?case using r(3) by (rule attrs_building)
next
  case (4 s as es b)
  from 4(3) obtain b1 b2 b3 where r: "choice_start s b = Some b1" "run_attrs as b1 = Some b2"
    "run_entries es (menu_add_menu b2) = Some b3" "menu_end_menu b3 = Some b'" by auto
  have "building {} b2" using choice_building [OF 4(2) r(1)] r(2) by (rule attrs_building)
  with 4(1) [OF r(1,2) _ r(3)] r(4) show ?case by (auto dest: end_menu_building)
next
  case (5 e es b)
  from 5(3) obtain b1 b2 b3 where r: "menu_add_entry None b = Some b1" "menu_add_dep (Some e) b1 = Some b2"
    "run_entries es (menu_add_menu b2) = Some b3" "menu_end_menu b3 = Some b'" by auto
  have "building {} b2" using add_entry_building [OF 5(2) r(1)] r(2) by (rule add_dep_building)
  with 5(1) [OF r(1,2) _ r(3)] r(4) show ?case by (auto dest: end_menu_building)
next
  case (6 tx as es b)
  from 6(3) obtain b0 b1 b2 b3 where r: "menu_add_entry None b = Some b0" "menu_add_prompt P_MENU tx None b0 = Some b1"
    "run_attrs as b1 = Some b2" "run_entries es (menu_add_menu b2) = Some b3" "menu_end_menu b3 = Some b'" by auto
  have "building {} b1" using title_building [OF add_entry_building [OF 6(2) r(1)] _ r(2)] by (simp add: prompt_types_def)
  then have "building {} b2" using r(3) by (rule attrs_building)
  with 6(1) [OF r(1-3) _ r(4)] r(5) show ?case by (auto dest: end_menu_building)
qed auto

section \<open>The whole file\<close>

text \<open>Before the file is read no symbol has a property, and none is a choice.\<close>

definition fresh :: "'a symbols_state_scheme \<Rightarrow> bool" where
  "fresh st \<longleftrightarrow> allocated st = 0 \<and> (\<forall>s. fprops (fsyms st s) = [] \<and> \<not> fchoice (fsyms st s))"

lemma parse_building: "fresh st \<Longrightarrow> parse_menus title es st = Some b \<Longrightarrow> building {} b"
proof -
  assume f: "fresh st" and r: "parse_menus title es st = Some b"
  have "building {} (menu_init st)"
    using f by (simp add: fresh_def building_def menu_init_def symbols_state.extend_def symbols_state.truncate_def new_menu_def prompt_ok_def)
  moreover obtain b1 where b1: "menu_add_prompt P_MENU title None (menu_init st) = Some b1" "run_entries es b1 = Some b"
    using r by (auto simp: parse_menus_def)
  ultimately have "building {} b1" using title_building [OF _ _ b1(1)] by (simp add: prompt_types_def)
  then show ?thesis using b1(2) by (rule entries_building(2))
qed

lemma building_linked: "building {} b \<Longrightarrow> linked {} b"
proof -
  assume b: "building {} b"
  have "choice_linked b c" if "fchoice (fsyms b c)" for c
  proof -
    have "\<exists>q \<in> set (fprops (fsyms b c)). ptype (heap b q) = P_CHOICE" using b that by (auto simp: building_def)
    then obtain q where q: "find (\<lambda>q. ptype (heap b q) = P_CHOICE) (fprops (fsyms b c)) = Some q"
      by (cases "find (\<lambda>q. ptype (heap b q) = P_CHOICE) (fprops (fsyms b c))") (auto simp: find_None_iff)
    note in_ = find_Some_in [OF q]
    then have "q < allocated b" using b by (auto simp: building_def)
    then have "pexpr (heap b q) = No_expr" using b in_ by (auto simp: building_def prop_linked_def)
    with q show ?thesis by (simp add: choice_linked_def)
  qed
  with b show ?thesis unfolding linked_def building_def prop_linked_def by blast
qed

lemma represents_labels_ok: "represents cs p par ts \<Longrightarrow> \<forall>m \<in> set cs. prompt_ok st (mprompt m) \<Longrightarrow> labels_ok st ts"
proof (induction cs p par ts rule: represents.induct)
  case (1 cs p par)
  then show ?case by (simp add: labels_ok_def)
next
  case (2 cs p par i d ts us)
  then obtain m where m: "menu_at cs i = Some m" "menu_data.truncate m = d" "represents cs (mlist m) (Some i) ts" "represents cs (mnext m) par us"
    by (auto split: option.splits)
  have "mprompt d = mprompt m" using m(2) by (auto simp: menu_data.truncate_def)
  moreover have "m \<in> set cs" using m(1) by (auto simp: menu_at_Some)
  ultimately have "label_ok st (i, msym d, mprompt d)" using 2(4) by (simp add: label_ok_def prompt_ok_def)
  with 2(1) [OF m(1,3) 2(4)] 2(2) [OF m(1,4) 2(4)] show ?case by (simp add: labels_ok_Node)
qed

end
