(* ===== verification/Menu_Values.thy ===== *)
theory Menu_Values
  imports Menu_Finalize
begin

text \<open>
  What the dependencies that \<open>menu_finalize\<close> propagates are worth, whatever values the symbols get later: the
  simplifications see the types only.
\<close>

section \<open>Simplification depends on the types\<close>

definition same_types :: "symtab \<Rightarrow> symtab \<Rightarrow> bool" where
  "same_types G H \<longleftrightarrow> (\<forall>s. stype (syms G s) = stype (syms H s) \<and> sconst (syms G s) = sconst (syms H s))"

lemma join_types: "same_types G H \<Longrightarrow> expr_join G t e1 e2 = expr_join H t e1 e2"
proof -
  assume s: "same_types G H"
  then have "join_const G = join_const H" by (intro ext) (simp add: join_const_def same_types_def)
  then have "join_consts G = join_consts H" by (intro ext) (simp add: join_consts_def split: expr.split rel.split)
  with s show ?thesis by (cases t; cases "join_symbol e1 e2") (simp_all add: expr_join_or_def expr_join_and_def same_types_def Let_def)
qed

lemma level_types: "same_types G H \<Longrightarrow> dups_level G n = dups_level H n"
proof (induction n)
  case 0
  show ?case by (intro ext) simp
next
  case (Suc n)
  then have p: "dups_pair G (dups_level G n) = dups_pair H (dups_level H n)"
    by (intro ext) (auto simp: dups_pair_def join_types [OF Suc.prems] Let_def split: expr.split option.split prod.split)
  have "dups_loop G (dups_level G n) = dups_loop H (dups_level H n)" by (intro ext) (simp only: dups_loop_def p)
  then show ?case by (intro ext) simp
qed

lemma dups_types: "same_types G H \<Longrightarrow> expr_eliminate_dups G e = expr_eliminate_dups H e"
proof (induction G e rule: expr_eliminate_dups.induct)
  case (1 G e)
  have s: "expr_eliminate_dups1 G = expr_eliminate_dups1 H"
    by (intro ext) (simp add: expr_eliminate_dups1_def level_types [OF "1.prems"])
  show ?case
  proof (cases e)
    case (Two t l r)
    obtain e' c where p: "expr_eliminate_dups1 G t e 0 = (e', c)" by fastforce
    with "1.IH" [OF Two p [symmetric] _ "1.prems"] Two s show ?thesis
      by (subst (1 2) expr_eliminate_dups.simps) (auto simp: p)
  qed (simp_all add: expr_eliminate_dups.simps)
qed

lemma transform_types: "same_types G H \<Longrightarrow> expr_transform G e = expr_transform H e"
proof (induction G e rule: expr_transform.induct)
  case (1 G r a b)
  then show ?case by (simp add: transform_comp_def same_types_def)
next
  case (4 G e)
  note IH = "4.IH"(1) [OF "4.prems"]
  show ?case
  proof (cases "expr_transform G e")
    case (Two t l r)
    with "4.IH"(2) [OF Two "4.prems"] IH [symmetric] Two show ?thesis by simp
  next
    case (Not a)
    with "4.IH"(3) [OF Not "4.prems"] IH [symmetric] Not show ?thesis by simp
  qed (use IH [symmetric] in simp_all)
qed simp_all

section \<open>Values\<close>

text \<open>A missing expression is y.\<close>

definition dep_value :: "symtab \<Rightarrow> expr option \<Rightarrow> tristate" where
  "dep_value G e = (case e of None \<Rightarrow> Tyes | Some e \<Rightarrow> expr_calc_value G e)"

text \<open>The table in which m is worth no more than the modules.\<close>

definition limited :: "symtab \<Rightarrow> symtab" where
  "limited G = G\<lparr>syms := (syms G)(symbol_mod := (syms G symbol_mod)\<lparr>scurr_tri := EXPR_AND Tmod (scurr_tri (syms G (modules_sym G)))\<rparr>)\<rparr>"

lemma limited_string: "statics G \<Longrightarrow> modules_sym G \<noteq> symbol_mod \<Longrightarrow> sym_get_string_value (limited G) s = sym_get_string_value G s"
  by (auto simp: sym_get_string_value_def limited_def Let_def statics_simps)

lemma calc_rewrite_m:
  "statics G \<Longrightarrow> modules_sym G \<noteq> symbol_mod \<Longrightarrow> expr_calc_value G (rewrite_m (modules_sym G) e) = expr_calc_value (limited G) e"
proof (induction e)
  case (Comp r a b)
  have "stype (syms (limited G) s) = stype (syms G s)" for s by (simp add: limited_def)
  with Comp show ?case by (simp add: compare_symbols_def limited_string)
next
  case (Symb a)
  then show ?case by (auto simp: limited_def gate_val_def statics_simps)
qed (simp_all add: gate_val_def)

lemma value_gate: "statics G \<Longrightarrow> dep_value G (expr_alloc_gate E_AND a b) = EXPR_AND (dep_value G a) (dep_value G b)"
  using gate_val_unit [of E_AND] by (cases a; cases b) (simp_all add: dep_value_def expr_alloc_gate_def gate_val_def unit_val_def)

text \<open>\<open>modules_sym\<close> and the types are those of the store.\<close>

definition for_state :: "'a symbols_state_scheme \<Rightarrow> symtab \<Rightarrow> bool" where
  "for_state st G \<longleftrightarrow> wf_symtab G \<and> modules_sym G = modules_of st \<and> modules_of st \<noteq> symbol_mod
     \<and> (\<forall>s. stype (syms G s) = ftype (fsyms st s) \<and> sconst (syms G s) = fconst (fsyms st s))"

lemma narrow_value:
  assumes "for_state st G"
  shows "dep_value G (narrow st outer dep) = EXPR_AND (dep_value G outer) (dep_value (limited G) dep)"
proof -
  have s: "same_types (types_of st) G" and w: "wf_symtab G" and m: "modules_of st = modules_sym G" "modules_sym G \<noteq> symbol_mod"
    using assms by (simp_all add: same_types_def types_of_def for_state_def)
  have "dep_value G (map_option (expr_eliminate_dups (types_of st)) e) = dep_value G e" for e
    by (cases e) (simp_all add: dep_value_def dups_types [OF s] calc_dups [OF w])
  moreover have "dep_value G (map_option (\<lambda>e. expr_transform (types_of st) (rewrite_m (modules_of st) e)) e) = dep_value (limited G) e" for e
    by (cases e) (simp_all add: dep_value_def transform_types [OF s] calc_transform [OF w] calc_rewrite_m [OF wf_statics [OF w] m(2)] m(1))
  ultimately show ?thesis by (simp add: narrow_def Let_def value_gate w)
qed

lemma add_reverse_types:
  "add_reverse s p st = Some st' \<Longrightarrow> ftype (fsyms st' x) = ftype (fsyms st x) \<and> fconst (fsyms st' x) = fconst (fsyms st x) \<and> fmodules st' = fmodules st"
  by (auto simp: add_reverse_def fupd_def split: if_splits)

lemma finalize_props_types:
  "finalize_props i s d qs st = Some st' \<Longrightarrow> ftype (fsyms st' x) = ftype (fsyms st x) \<and> fconst (fsyms st' x) = fconst (fsyms st x) \<and> fmodules st' = fmodules st"
proof (induction qs arbitrary: st)
  case (Cons q qs)
  then obtain st1 where 1: "finalize_prop i s d q st = Some st1" "finalize_props i s d qs st1 = Some st'" by auto
  have "ftype (fsyms st1 x) = ftype (fsyms st x) \<and> fconst (fsyms st1 x) = fconst (fsyms st x) \<and> fmodules st1 = fmodules st"
    using 1(1) by (auto simp: finalize_prop_def Let_def split: if_splits dest!: add_reverse_types [where x = x])
  with Cons.IH [OF 1(2)] show ?case by simp
qed simp

lemma for_state_cong:
  "for_state st G \<Longrightarrow> (\<And>x. ftype (fsyms st' x) = ftype (fsyms st x) \<and> fconst (fsyms st' x) = fconst (fsyms st x) \<and> fmodules st' = fmodules st) \<Longrightarrow> for_state st' G"
  by (simp add: for_state_def modules_of_def)

lemma propagate_values:
  "for_state st G \<Longrightarrow> propagate outer ts st = Some (us, st') \<Longrightarrow>
   list_all2 (\<lambda>t u. root u = root t \<and> subtrees u = subtrees t
     \<and> dep_value G (mdep (data u)) = EXPR_AND (dep_value G outer) (dep_value (limited G) (mdep (data t)))) ts us"
proof (induction outer ts st arbitrary: us st' rule: propagate.induct)
  case (2 outer i d ts us0 st)
  let ?b = "narrow st outer (mdep d)"
  from 2(3) obtain st1 vs st2 where 1: "finalize_props i (msym d) ?b (props_of (d\<lparr>mdep := ?b\<rparr>) st) st = Some st1"
    "propagate outer us0 st1 = Some (vs, st2)" "us = Node i (d\<lparr>mdep := ?b\<rparr>) ts # vs"
    by (auto simp: Let_def)
  have f: "for_state st1 G" using for_state_cong [OF 2(2)] finalize_props_types [OF 1(1)] by blast
  have "list_all2 (\<lambda>t u. root u = root t \<and> subtrees u = subtrees t
     \<and> dep_value G (mdep (data u)) = EXPR_AND (dep_value G outer) (dep_value (limited G) (mdep (data t)))) us0 vs"
    by (rule 2(1) [OF refl refl _ f 1(2)]) (simp add: 1(1))
  with narrow_value [OF 2(2), of outer "mdep d"] 1(3) show ?case by simp
qed simp

end
