(* ===== verification/Menu_Properties.thy ===== *)
theory Menu_Properties
  imports Menu_Links Menu_Values Expr_Properties
begin

text \<open>What menu.c promises of the tree of menus, on a small file of entries.\<close>

definition demo_store :: symbols_state where
  "demo_store =
     \<lparr>fsyms = (\<lambda>s. \<lparr>ftype = stype (syms demo_symtab s), fname = sname (syms demo_symtab s), fchoice = False, fchoiceval = False,
        foptional = False, fauto = False, fallno = False, fconst = sconst (syms demo_symtab s), fprops = [],
        fdir = None, frev = None, fimplied = None\<rparr>),
      heap = (\<lambda>_. \<lparr>ptype = P_SYMBOL, ptext = None, visible_expr = None, pexpr = No_expr, pmenu = 0\<rparr>),
      allocated = 0, fmodules = Some (Sym 0), defconfig_list = None\<rparr>"

definition demo_entries :: "statement list" where
  "demo_entries =
     [Menuconfig (Sym 1) [Prompt ''A'' None, Type S_TRISTATE, Depends (Symb symbol_mod), Select (Sym 3) None],
      If symA [Config (Sym 2) [Prompt ''B'' (Some symC), Type S_BOOLEAN]],
      Choice (Sym 5) [Prompt ''one of'' None, Type S_BOOLEAN] [Config (Sym 6) [Prompt ''first'' None], Config (Sym 7) [Prompt ''second'' None]],
      Submenu ''more'' [Visible (Some symB)] [Comment ''end'' []]]"

lemma demo_grammatical: "\<forall>e \<in> set demo_entries. grammatical e"
  by (simp add: demo_entries_def)

lemma demo_fresh: "fresh demo_store"
  by (simp add: demo_store_def fresh_def)

text \<open>C9. The actions of the parser follow no null pointer on any grammatical list of entries: the next,
  list and parent pointers of the nodes they link represent the tree of the entries with their blocks, with the
  nodes numbered in the order of the file, and the walk that \<open>conf_write\<close> makes over these pointers ends after it has
  visited every node once, in that order.
\<close>

theorem menus_built:
  assumes "\<forall>e \<in> set es. grammatical e"
  shows "\<exists>b ts. parse_menus title es st = Some b \<and> represents (cells b) (mlist (cells b ! 0)) (Some 0) ts
    \<and> map tree_shape ts = map entry_shape es \<and> preorder ts = [1..<length (cells b)]
    \<and> written_menus (cells b) = Some [1..<length (cells b)]"
proof -
  obtain b ts where b: "parse_menus title es st = Some b" "map tree_shape ts = map entry_shape es"
    "preorder ts = [1..<length (cells b)]" "0 < length (cells b)" "represents (cells b) (mlist (cells b ! 0)) (Some 0) ts"
    "mnext (cells b ! 0) = None" "mparent (cells b ! 0) = None"
    using parse_represents [OF assms, of title st] by blast
  with written_preorder [OF b(5,4,6,7)] show ?thesis by auto
qed

lemma menus_built_witness:
  "\<exists>b ts. parse_menus ''menu'' demo_entries demo_store = Some b \<and> represents (cells b) (mlist (cells b ! 0)) (Some 0) ts
    \<and> map tree_shape ts = map entry_shape demo_entries \<and> preorder ts = [1..<length (cells b)]
    \<and> written_menus (cells b) = Some [1..<length (cells b)]"
  by (rule menus_built [OF demo_grammatical])

text \<open>C10. \<open>menu_finalize\<close> ends on the root of every grammatical file and reads no null pointer: selects have their
  symbol and choices their property. Its submenus and its flattening of blocks without a text leave every node in its place in the
  order of the file, and afterwards only nodes with a text to show have nodes under them.
\<close>

theorem menus_finalized:
  assumes "\<forall>e \<in> set es. grammatical e" "fresh st"
  shows "\<exists>b ts t st'. parse_menus title es st = Some b \<and> represents (cells b) (mlist (cells b ! 0)) (Some 0) ts
    \<and> menu_finalize (2 * length (cells b)) (Node 0 (menu_data.truncate (cells b ! 0)) ts) [] (symbols_state.truncate b) = Some (t, [], st')
    \<and> preorder [t] = [0..<length (cells b)] \<and> closed st' (subtrees t)"
proof -
  obtain b ts where b: "parse_menus title es st = Some b" "preorder ts = [1..<length (cells b)]" "0 < length (cells b)"
    "represents (cells b) (mlist (cells b ! 0)) (Some 0) ts" "mnext (cells b ! 0) = None" "mparent (cells b ! 0) = None"
    using parse_represents [OF assms(1), of title st] by blast
  let ?t = "Node 0 (menu_data.truncate (cells b ! 0)) ts" and ?st = "symbols_state.truncate b"
  note bld = parse_building [OF assms(2) b(1)]
  have "labels_ok ?st [?t]"
    using bld b(3-6) represents_labels_ok [of "cells b" "Some 0" None "[?t]" ?st]
    by (simp add: building_def menu_at_def symbols_state.truncate_def prompt_ok_def cong: option.case_cong)
  moreover have "linked {} ?st"
    using building_linked [OF bld] by (simp add: linked_def choice_linked_def symbols_state.truncate_def)
  moreover have n: "preorder [?t] = [0..<length (cells b)]" using b(2,3) by (simp add: upt_conv_Cons)
  then have "length (labels [?t]) = length (cells b)"
    by (metis length_map preorder_labels length_upt diff_zero)
  ultimately obtain t us st' where f: "menu_finalize (2 * length (cells b)) ?t [] ?st = Some (t, us, st')"
    "labels (t # us) = labels [?t]" "closed st' (subtrees t)"
    using finalize_fine(1) [of ?st ?t "[]" "2 * length (cells b)"] by fastforce
  then have "preorder [t] = [0..<length (cells b)]" using n finalize_last [OF f(1)] preorder_labels by metis
  with b(1,4) f finalize_last [OF f(1)] show ?thesis by blast
qed

lemma menus_finalized_witness:
  "\<exists>b ts t st'. parse_menus ''menu'' demo_entries demo_store = Some b \<and> represents (cells b) (mlist (cells b ! 0)) (Some 0) ts
    \<and> menu_finalize (2 * length (cells b)) (Node 0 (menu_data.truncate (cells b ! 0)) ts) [] (symbols_state.truncate b) = Some (t, [], st')
    \<and> preorder [t] = [0..<length (cells b)] \<and> closed st' (subtrees t)"
  by (rule menus_finalized [OF demo_grammatical demo_fresh])


lemma demo_for_state: "for_state demo_store demo_symtab"
  using demo_symtab_wf by (simp add: for_state_def demo_store_def modules_of_def) (simp add: demo_symtab_def)

abbreviation "demo_data \<equiv> \<lparr>msym = None, mprompt = None, mvisibility = None, mdep = Some (Symb symbol_mod)\<rparr>"


end
