(* ===== verification/Launcher.thy ===== *)
theory Launcher
  imports Prelude
begin

text \<open>
  The menu program of the devices, src/package/simple-launcher/simple-launcher.c: reading the
  list of commands (\<open>loadCommands\<close>), the values of the hardware (\<open>updateHwInfo\<close>), what is
  drawn (\<open>updateRender\<close>) and the loop of \<open>main\<close>. A character buffer is the C string it holds, its
  size appears where the source gives it; a write outside it is undefined. Files are their
  contents; SDL events, the state of the buttons and the time are inputs.
\<close>

section \<open>Strings and files\<close>

abbreviation "nl \<equiv> CHR 0x0A"

text \<open>\<open>fgets(s, n, file)\<close>: the C string in the buffer and the rest of the file, \<open>None\<close> at the end.\<close>

definition fgets_length :: "nat \<Rightarrow> string \<Rightarrow> nat" where
  "fgets_length n input = min (n - 1) (length (takeWhile (\<lambda>c. c \<noteq> nl) input) + 1)"

definition fgets :: "nat \<Rightarrow> string \<Rightarrow> (string \<times> string) option" where
  "fgets n input =
     (if input = [] then None
      else Some (takeWhile (\<lambda>c. c \<noteq> CHR 0x00) (take (fgets_length n input) input), drop (fgets_length n input) input))"

text \<open>\<open>s[strlen(s) - 1] = 0\<close>, before the buffer when the string is empty.\<close>

definition cut_last :: "string \<Rightarrow> string option" where
  "cut_last s = (if s = [] then None else Some (butlast s))"

text \<open>Removing a newline at the end.\<close>

definition chomp :: "string \<Rightarrow> string" where
  "chomp line = (if line \<noteq> [] \<and> last line = nl then butlast line else line)"

text \<open>The loop over \<open>fgetc\<close> that discards the rest of a line.\<close>

fun discard_line :: "string \<Rightarrow> string" where
  "discard_line [] = []"
| "discard_line (c # cs) = (if c = nl then cs else discard_line cs)"

text \<open>\<open>strncpy(d, s, n - 1); d[n - 1] = 0\<close>.\<close>

definition copy_bounded :: "nat \<Rightarrow> string \<Rightarrow> string" where
  "copy_bounded n s = take (n - 1) s"

section \<open>The list of commands\<close>

definition MAX_BUFFER_SIZE :: nat where "MAX_BUFFER_SIZE = 512"
definition MAX_COMMAND_LENGTH :: nat where "MAX_COMMAND_LENGTH = MAX_BUFFER_SIZE"
definition MAX_NAME_LENGTH :: nat where "MAX_NAME_LENGTH = 128"

record Command =
  name :: string
  command :: string

definition too_long :: string where
  "too_long = ''echo 'Line is too long (max 512 chars). Skip this command' >> /dev/tty1 && sleep 2''"

text \<open>The loop of \<open>loadCommands\<close> over the pairs of lines.\<close>

lemma fgets_shorter: "fgets MAX_BUFFER_SIZE input = Some (line, input1) \<Longrightarrow> length input1 < length input"
  by (auto simp: fgets_def fgets_length_def MAX_BUFFER_SIZE_def split: if_splits)

lemma discard_shorter: "length (discard_line input) \<le> length input"
  by (induction input) auto

function load_lines :: "string \<Rightarrow> Command list \<Rightarrow> Command list" where
  "load_lines input commands = (case fgets MAX_BUFFER_SIZE input of
     None \<Rightarrow> commands
   | Some (line, input) \<Rightarrow>
       if chomp line = [] then load_lines input commands
       else (case fgets MAX_BUFFER_SIZE input of
         None \<Rightarrow> commands
       | Some (cmd, input) \<Rightarrow>
           let nm = copy_bounded MAX_NAME_LENGTH (chomp line) in
           if nl \<notin> set cmd then load_lines (discard_line input) (commands @ [\<lparr>name = nm, command = too_long\<rparr>])
           else load_lines input (commands @ [\<lparr>name = nm, command = copy_bounded MAX_COMMAND_LENGTH (chomp cmd)\<rparr>])))"
  by pat_completeness auto
termination
proof (relation "measure (\<lambda>(input, commands). length input)", goal_cases)
  case (3 input commands p line input1 q cmd input2)
  then show ?case using fgets_shorter [of input line input1] fgets_shorter [of input1 cmd input2] discard_shorter [of input2] by auto
qed (auto dest!: fgets_shorter)

declare load_lines.simps [simp del]

text \<open>The title and the commands; a file that cannot be opened is \<open>None\<close>.\<close>

definition loadCommands :: "string option \<Rightarrow> (string \<times> Command list) option" where
  "loadCommands input = (case input of
     None \<Rightarrow> Some ([], [])
   | Some input \<Rightarrow>
       (case fgets MAX_BUFFER_SIZE input of
          None \<Rightarrow> Some ([], [])
        | Some (title, input) \<Rightarrow> do { title \<leftarrow> cut_last title; Some (title, load_lines input []) }))"

section \<open>The hardware\<close>

record hw =
  batteryCapacity :: string
  brightness :: string
  volume :: string
  batteryCapacityDisplayString :: string
  brightnessDisplayString :: string
  volumeDisplayString :: string
  creditDisplayString :: string

text \<open>What the two files and the pipe deliver; \<open>None\<close> when they cannot be opened.\<close>

record readings =
  battery_file :: "string option"
  brightness_file :: "string option"
  volume_pipe :: "string option"

text \<open>\<open>fgets\<close> into a buffer of eight bytes, which keeps its contents when nothing is read.\<close>

definition read_value :: "string \<Rightarrow> string \<Rightarrow> string" where
  "read_value input old = (case fgets 8 input of None \<Rightarrow> old | Some (line, _) \<Rightarrow> line)"

definition update_battery :: "readings \<Rightarrow> hw \<Rightarrow> hw option" where
  "update_battery r h = (case battery_file r of
     None \<Rightarrow> Some h
   | Some input \<Rightarrow> do {
       b \<leftarrow> cut_last (read_value input (batteryCapacity h));
       Some (h\<lparr>batteryCapacity := b, batteryCapacityDisplayString := ''Batt: '' @ b @ ''%''\<rparr>) })"

definition update_brightness :: "readings \<Rightarrow> hw \<Rightarrow> hw option" where
  "update_brightness r h = (case brightness_file r of
     None \<Rightarrow> Some h
   | Some input \<Rightarrow> do {
       b \<leftarrow> cut_last (read_value input (brightness h));
       Some (h\<lparr>brightness := b, brightnessDisplayString := ''Brightness: '' @ b\<rparr>) })"

definition update_volume :: "readings \<Rightarrow> hw \<Rightarrow> hw option" where
  "update_volume r h = (case volume_pipe r of
     None \<Rightarrow> Some h
   | Some input \<Rightarrow> do {
       let v = read_value input (volume h);
       v \<leftarrow> cut_last (if v = [] then ''0%'' @ [nl] else v);
       Some (h\<lparr>volume := v, volumeDisplayString := ''Volume: '' @ v\<rparr>) })"

definition updateHwInfo :: "string \<Rightarrow> readings \<Rightarrow> hw \<Rightarrow> hw option" where
  "updateHwInfo CREDIT r h = do {
     h \<leftarrow> update_battery r h;
     h \<leftarrow> update_brightness r h;
     h \<leftarrow> update_volume r h;
     Some (h\<lparr>creditDisplayString := CREDIT @ brightnessDisplayString h @ '' | '' @ volumeDisplayString h\<rparr>) }"

definition static_hw :: hw where
  "static_hw = \<lparr>batteryCapacity = [], brightness = [], volume = [], batteryCapacityDisplayString = ''Batt: 0%'',
     brightnessDisplayString = ''Brightness: 0%'', volumeDisplayString = ''Volume: 0%'', creditDisplayString = []\<rparr>"

section \<open>Builds\<close>

text \<open>The constants of a build; \<open>hat\<close> says whether it handles SDL_JOYHATMOTION.\<close>

record launcher_build =
  SCREEN_WIDTH :: int
  SCREEN_HEIGHT :: int
  ITEMS_PER_PAGE :: int
  BTN_A :: int
  BTN_B :: int
  BTN_UP :: int
  BTN_DOWN :: int
  BTN_LEFT :: int
  BTN_RIGHT :: int
  hat :: bool
  CREDIT :: string

definition launcher_rg35xxp :: launcher_build where
  "launcher_rg35xxp = \<lparr>SCREEN_WIDTH = 640, SCREEN_HEIGHT = 480, ITEMS_PER_PAGE = 8, BTN_A = 0, BTN_B = 1, BTN_UP = 4, BTN_DOWN = 5,
     BTN_LEFT = 9, BTN_RIGHT = 10, hat = True, CREDIT = ''Simple Launcher 1.0.0 (RG35) | ''\<rparr>"

definition launcher_trimuisp :: launcher_build where
  "launcher_trimuisp = \<lparr>SCREEN_WIDTH = 640, SCREEN_HEIGHT = 480, ITEMS_PER_PAGE = 8, BTN_A = 1, BTN_B = 0, BTN_UP = 4, BTN_DOWN = 5,
     BTN_LEFT = 9, BTN_RIGHT = 10, hat = True, CREDIT = ''Simple Launcher 1.0.0 (TRIMUISP) | ''\<rparr>"

definition launcher_r36s :: launcher_build where
  "launcher_r36s = \<lparr>SCREEN_WIDTH = 640, SCREEN_HEIGHT = 480, ITEMS_PER_PAGE = 8, BTN_A = 1, BTN_B = 0, BTN_UP = 8, BTN_DOWN = 9,
     BTN_LEFT = 10, BTN_RIGHT = 11, hat = False, CREDIT = ''Simple Launcher 1.0.0 (R36S) | ''\<rparr>"

definition launcher_rgb30 :: launcher_build where
  "launcher_rgb30 = \<lparr>SCREEN_WIDTH = 720, SCREEN_HEIGHT = 720, ITEMS_PER_PAGE = 15, BTN_A = 1, BTN_B = 0, BTN_UP = 13, BTN_DOWN = 14,
     BTN_LEFT = 15, BTN_RIGHT = 16, hat = False, CREDIT = ''Simple Launcher 1.0.0 (RGB30) | ''\<rparr>"

definition launcher_h700 :: launcher_build where
  "launcher_h700 = \<lparr>SCREEN_WIDTH = 480, SCREEN_HEIGHT = 480, ITEMS_PER_PAGE = 8, BTN_A = 1, BTN_B = 0, BTN_UP = 13, BTN_DOWN = 14,
     BTN_LEFT = 15, BTN_RIGHT = 16, hat = False, CREDIT = ''Simple Launcher 1.0.0 (H700) | ''\<rparr>"

definition launcher_builds :: "launcher_build list" where
  "launcher_builds = [launcher_rg35xxp, launcher_trimuisp, launcher_r36s, launcher_rgb30, launcher_h700]"

section \<open>Drawing\<close>

text \<open>A text on the screen: left and upper edge, and whether it has the highlight colour.\<close>

record drawn =
  at_x :: int
  at_y :: int
  shown :: string
  highlighted :: bool

text \<open>\<open>strcat\<close> into \<open>itemName\<close>, a buffer of MAX_NAME_LENGTH bytes that holds ''> ''.\<close>

definition item_text :: "bool \<Rightarrow> string \<Rightarrow> string option" where
  "item_text is_selected nm =
     (if is_selected then (if 2 + length nm + 1 \<le> MAX_NAME_LENGTH then Some (''> '' @ nm) else None) else Some nm)"

text \<open>The loop over all items, of which those of the selected page are drawn.\<close>

fun draw_items :: "launcher_build \<Rightarrow> int \<Rightarrow> int \<Rightarrow> int \<Rightarrow> Command list \<Rightarrow> drawn list option" where
  "draw_items b sel page i [] = Some []"
| "draw_items b sel page i (c # cs) =
     (if i \<ge> page * ITEMS_PER_PAGE b \<and> i < (page + 1) * ITEMS_PER_PAGE b then do {
        text \<leftarrow> item_text (sel = i) (name c);
        ds \<leftarrow> draw_items b sel page (i + 1) cs;
        Some (\<lparr>at_x = 20, at_y = 80 + (i - page * ITEMS_PER_PAGE b) * 40, shown = text, highlighted = (sel = i)\<rparr> # ds) }
      else draw_items b sel page (i + 1) cs)"

definition selected_page :: "launcher_build \<Rightarrow> int \<Rightarrow> int" where
  "selected_page b sel = (if sel < 0 then - ((- sel) div ITEMS_PER_PAGE b) else sel div ITEMS_PER_PAGE b)"

definition total_pages :: "launcher_build \<Rightarrow> int \<Rightarrow> int" where
  "total_pages b n = (if n - 1 < 0 then - ((1 - n) div ITEMS_PER_PAGE b) else (n - 1) div ITEMS_PER_PAGE b) + 1"

text \<open>The items and the numbers of \<open>Page %d / %d\<close>.\<close>

definition updateRender :: "launcher_build \<Rightarrow> Command list \<Rightarrow> int \<Rightarrow> (drawn list \<times> int \<times> int) option" where
  "updateRender b commands sel = do {
     let page = selected_page b sel;
     items \<leftarrow> draw_items b sel page 0 commands;
     Some (items, page + 1, total_pages b (int (length commands))) }"

section \<open>The loop of \<open>main\<close>\<close>

record launcher =
  running :: bool
  suspend :: bool
  selectedItem :: int
  buttonUpHeld :: bool
  buttonDownHeld :: bool
  lastScrollTime :: "32 word"
  lastHwUpdate :: "32 word"
  hardware :: hw
  executed :: "string list"
  screen :: "drawn list \<times> int \<times> int"

datatype keysym = SDLK_UP | SDLK_DOWN | SDLK_LEFT | SDLK_RIGHT | SDLK_RETURN | SDLK_OTHER

datatype hat_value = HAT_UP | HAT_DOWN | HAT_LEFT | HAT_RIGHT | HAT_OTHER

text \<open>
  With the state of the buttons that SDL_JoystickGetButton reports; \<open>Ignored\<close> are axes, the mouse,
  the window and all other events.
\<close>

datatype menu_event =
  Quit
| Key_down keysym int
| Hat hat_value
| Button_down int bool bool
| Button_up bool bool
| Ignored

definition up_item :: "int \<Rightarrow> int \<Rightarrow> int" where
  "up_item n sel = (if sel > 0 then sel - 1 else n - 1)"

definition down_item :: "int \<Rightarrow> int \<Rightarrow> int" where
  "down_item n sel = (if sel < n - 1 then sel + 1 else 0)"

definition left_item :: "launcher_build \<Rightarrow> int \<Rightarrow> int" where
  "left_item b sel = max 0 (sel - ITEMS_PER_PAGE b)"

definition right_item :: "launcher_build \<Rightarrow> int \<Rightarrow> int \<Rightarrow> int" where
  "right_item b n sel = min (sel + ITEMS_PER_PAGE b) (n - 1)"

definition select_item :: "(int \<Rightarrow> int) \<Rightarrow> launcher \<Rightarrow> launcher" where
  "select_item f st = st\<lparr>selectedItem := f (selectedItem st)\<rparr>"

text \<open>\<open>executeShellScript\<close>; the window is closed and made again around it.\<close>

definition execute :: "launcher_build \<Rightarrow> Command list \<Rightarrow> readings \<Rightarrow> launcher \<Rightarrow> launcher option" where
  "execute b commands r st = do {
     c \<leftarrow> aget commands (selectedItem st);
     h \<leftarrow> updateHwInfo (CREDIT b) r (hardware st);
     Some (st\<lparr>executed := executed st @ [command c], hardware := h\<rparr>) }"

definition special_key :: "launcher_build \<Rightarrow> readings \<Rightarrow> int \<Rightarrow> launcher \<Rightarrow> launcher option" where
  "special_key b r scancode st =
     (if scancode = 128 \<or> scancode = 129 then do {
        h \<leftarrow> updateHwInfo (CREDIT b) r (hardware st);
        Some (st\<lparr>hardware := h\<rparr>) }
      else if scancode = 102 then
        Some (if \<not> suspend st then st\<lparr>suspend := True, executed := executed st @ [''systemctl suspend'']\<rparr> else st\<lparr>suspend := False\<rparr>)
      else Some st)"

definition handle :: "launcher_build \<Rightarrow> Command list \<Rightarrow> readings \<Rightarrow> menu_event \<Rightarrow> launcher \<Rightarrow> launcher option" where
  "handle b commands r e st =
     (let n = int (length commands) in case e of
        Quit \<Rightarrow> Some (st\<lparr>running := False\<rparr>)
      | Key_down k scancode \<Rightarrow> do {
          st \<leftarrow> (case k of
            SDLK_UP \<Rightarrow> Some (select_item (up_item n) st)
          | SDLK_DOWN \<Rightarrow> Some (select_item (down_item n) st)
          | SDLK_LEFT \<Rightarrow> Some (select_item (left_item b) st)
          | SDLK_RIGHT \<Rightarrow> Some (select_item (right_item b n) st)
          | SDLK_RETURN \<Rightarrow> execute b commands r st
          | SDLK_OTHER \<Rightarrow> Some st);
          special_key b r scancode st }
      | Hat v \<Rightarrow> Some (if hat b then
          (case v of
             HAT_UP \<Rightarrow> select_item (up_item n) st
           | HAT_DOWN \<Rightarrow> select_item (down_item n) st
           | HAT_LEFT \<Rightarrow> select_item (left_item b) st
           | HAT_RIGHT \<Rightarrow> select_item (right_item b n) st
           | HAT_OTHER \<Rightarrow> st) else st)
      | Button_down k up down \<Rightarrow>
          (if k = BTN_A b then execute b commands r st
           else if k = BTN_B b then Some (select_item (\<lambda>_. 0) st)
           else if k = BTN_UP b \<or> k = BTN_DOWN b then Some (st\<lparr>buttonUpHeld := up, buttonDownHeld := down\<rparr>)
           else if k = BTN_LEFT b then Some (select_item (left_item b) st)
           else if k = BTN_RIGHT b then Some (select_item (right_item b n) st)
           else Some st)
      | Button_up up down \<Rightarrow> Some (st\<lparr>buttonUpHeld := up, buttonDownHeld := down\<rparr>)
      | Ignored \<Rightarrow> Some st)"

definition SCROLL_DELAY :: "32 word" where "SCROLL_DELAY = 150"
definition HW_UPDATE_INTERVAL :: "32 word" where "HW_UPDATE_INTERVAL = 2000"

text \<open>A step of scrolling while a button is held; the difference of times wraps.\<close>

definition scroll :: "bool \<Rightarrow> (int \<Rightarrow> int) \<Rightarrow> 32 word \<Rightarrow> launcher \<Rightarrow> launcher" where
  "scroll held f now st =
     (if held \<and> now - lastScrollTime st > SCROLL_DELAY then (select_item f st)\<lparr>lastScrollTime := now\<rparr> else st)"

definition refresh_hw :: "launcher_build \<Rightarrow> readings \<Rightarrow> 32 word \<Rightarrow> launcher \<Rightarrow> launcher option" where
  "refresh_hw b r now st =
     (if now - lastHwUpdate st \<ge> HW_UPDATE_INTERVAL then do {
        h \<leftarrow> updateHwInfo (CREDIT b) r (hardware st);
        Some (st\<lparr>hardware := h, lastHwUpdate := now\<rparr>) }
      else Some st)"

text \<open>One iteration: the events that are there, the time, and what the hardware reports.\<close>

record frame =
  events :: "menu_event list"
  ticks :: "32 word"
  reported :: readings

definition iteration :: "launcher_build \<Rightarrow> Command list \<Rightarrow> frame \<Rightarrow> launcher \<Rightarrow> launcher option" where
  "iteration b commands f st = do {
     let n = int (length commands);
     st \<leftarrow> run (handle b commands (reported f)) (events f) st;
     let st = scroll (buttonUpHeld st) (up_item n) (ticks f) st;
     let st = scroll (buttonDownHeld st) (down_item n) (ticks f) st;
     st \<leftarrow> refresh_hw b (reported f) (ticks f) st;
     picture \<leftarrow> updateRender b commands (selectedItem st);
     Some (st\<lparr>screen := picture\<rparr>) }"

text \<open>\<open>while (running)\<close> over the iterations that happen, and the start of \<open>main\<close>.\<close>

fun main_loop :: "launcher_build \<Rightarrow> Command list \<Rightarrow> frame list \<Rightarrow> launcher \<Rightarrow> launcher option" where
  "main_loop b commands [] st = Some st"
| "main_loop b commands (f # fs) st =
     (if running st then do { st \<leftarrow> iteration b commands f st; main_loop b commands fs st } else Some st)"

definition launcher_start :: "launcher_build \<Rightarrow> Command list \<Rightarrow> readings \<Rightarrow> launcher option" where
  "launcher_start b commands r = do {
     h \<leftarrow> updateHwInfo (CREDIT b) r static_hw;
     picture \<leftarrow> updateRender b commands 0;
     Some \<lparr>running = True, suspend = False, selectedItem = 0, buttonUpHeld = False, buttonDownHeld = False,
       lastScrollTime = 0, lastHwUpdate = 0, hardware = h, executed = [], screen = picture\<rparr> }"

end
