(* ===== verification/Launcher_Laws.thy ===== *)
theory Launcher_Laws
  imports Launcher
begin

text \<open>
  The menu program: the list that is read is the list that was written, the selection stays in
  the list, and what is drawn is the page of the selection.
\<close>

section \<open>Reading\<close>

lemma takeWhile_line: "nl \<notin> set line \<Longrightarrow> takeWhile (\<lambda>c. c \<noteq> nl) (line @ nl # input) = line"
  by (induction line) auto

lemma takeWhile_all: "\<forall>c \<in> set s. P c \<Longrightarrow> takeWhile P s = s"
  by (induction s) auto

text \<open>A line that fits, without the terminator in it, is read with its end.\<close>

lemma fgets_line:
  assumes "nl \<notin> set line" "CHR 0x00 \<notin> set line" "length line + 1 < n"
  shows "fgets n (line @ nl # input) = Some (line @ [nl], input)"
proof -
  have "fgets_length n (line @ nl # input) = length line + 1"
    using assms(3) by (simp add: fgets_length_def takeWhile_line [OF assms(1)])
  moreover have "takeWhile (\<lambda>c. c \<noteq> CHR 0x00) (line @ [nl]) = line @ [nl]"
    by (rule takeWhile_all) (use assms(2) in auto)
  ultimately show ?thesis by (simp add: fgets_def)
qed

lemma fgets_bounded: "fgets n input = Some (line, input1) \<Longrightarrow> length line \<le> n - 1"
proof -
  assume "fgets n input = Some (line, input1)"
  then have "line = takeWhile (\<lambda>c. c \<noteq> CHR 0x00) (take (fgets_length n input) input)" by (auto simp: fgets_def split: if_splits)
  then have "length line \<le> fgets_length n input" using length_takeWhile_le [of "\<lambda>c. c \<noteq> CHR 0x00" "take (fgets_length n input) input"] by simp
  then show ?thesis by (simp add: fgets_length_def)
qed

lemma chomp_line [simp]: "chomp (line @ [nl]) = line"
  by (simp add: chomp_def)

text \<open>A file of commands as the user writes it.\<close>

definition command_ok :: "Command \<Rightarrow> bool" where
  "command_ok c \<longleftrightarrow> name c \<noteq> [] \<and> nl \<notin> set (name c) \<and> CHR 0x00 \<notin> set (name c) \<and> length (name c) < MAX_NAME_LENGTH
     \<and> nl \<notin> set (command c) \<and> CHR 0x00 \<notin> set (command c) \<and> length (command c) + 1 < MAX_COMMAND_LENGTH"

fun command_lines :: "Command list \<Rightarrow> string" where
  "command_lines [] = []"
| "command_lines (c # cs) = name c @ nl # command c @ nl # command_lines cs"

lemma load_written: "\<forall>c \<in> set cs. command_ok c \<Longrightarrow> load_lines (command_lines cs) acc = acc @ cs"
proof (induction cs arbitrary: acc)
  case Nil
  then show ?case by (simp add: load_lines.simps fgets_def)
next
  case (Cons c cs)
  then have ok: "command_ok c" by simp
  have 1: "fgets MAX_BUFFER_SIZE (command_lines (c # cs)) = Some (name c @ [nl], command c @ nl # command_lines cs)"
    using ok by (simp add: fgets_line command_ok_def MAX_BUFFER_SIZE_def MAX_NAME_LENGTH_def)
  have 2: "fgets MAX_BUFFER_SIZE (command c @ nl # command_lines cs) = Some (command c @ [nl], command_lines cs)"
    using ok by (simp add: fgets_line command_ok_def MAX_COMMAND_LENGTH_def)
  have 3: "copy_bounded MAX_NAME_LENGTH (name c) = name c" "copy_bounded MAX_COMMAND_LENGTH (command c) = command c" "name c \<noteq> []"
    using ok by (simp_all add: copy_bounded_def command_ok_def MAX_NAME_LENGTH_def MAX_COMMAND_LENGTH_def MAX_BUFFER_SIZE_def)
  have "load_lines (command_lines (c # cs)) acc = load_lines (command_lines cs) (acc @ [\<lparr>name = name c, command = command c\<rparr>])"
    by (subst load_lines.simps) (simp only: 1 2 3 option.case prod.case chomp_line Let_def, simp add: 3)
  with Cons show ?case by simp
qed

text \<open>Whatever the file is, names and commands fit their buffers and no name is empty.\<close>

definition loaded :: "Command \<Rightarrow> bool" where
  "loaded c \<longleftrightarrow> name c \<noteq> [] \<and> length (name c) < MAX_NAME_LENGTH \<and> length (command c) < MAX_COMMAND_LENGTH"

lemma load_lines_loaded: "\<forall>c \<in> set acc. loaded c \<Longrightarrow> \<forall>c \<in> set (load_lines input acc). loaded c"
proof (induction input acc rule: load_lines.induct)
  case (1 input acc)
  show ?case
  proof (cases "fgets MAX_BUFFER_SIZE input")
    case None
    then show ?thesis using 1(4) by (simp add: load_lines.simps)
  next
    case (Some p)
    obtain line input1 where p: "p = (line, input1)" by (cases p)
    note s1 = Some [unfolded p]
    show ?thesis
    proof (cases "chomp line = []")
      case True
      then show ?thesis using 1(1) [OF Some p [symmetric]] 1(4) s1 by (subst load_lines.simps) simp
    next
      case False
      show ?thesis
      proof (cases "fgets MAX_BUFFER_SIZE input1")
        case None
        then show ?thesis using s1 False 1(4) by (subst load_lines.simps) simp
      next
        case c: (Some q)
        obtain cmd input2 where q: "q = (cmd, input2)" by (cases q)
        let ?nm = "copy_bounded MAX_NAME_LENGTH (chomp line)"
        have nm: "?nm \<noteq> []" "length ?nm < MAX_NAME_LENGTH"
          using False by (simp_all add: copy_bounded_def MAX_NAME_LENGTH_def)
        have "length too_long < MAX_COMMAND_LENGTH" by (simp add: too_long_def MAX_COMMAND_LENGTH_def MAX_BUFFER_SIZE_def)
        then have l: "loaded \<lparr>name = ?nm, command = too_long\<rparr>"
          "loaded \<lparr>name = ?nm, command = copy_bounded MAX_COMMAND_LENGTH (chomp cmd)\<rparr>"
          using nm by (simp_all add: loaded_def copy_bounded_def MAX_COMMAND_LENGTH_def MAX_BUFFER_SIZE_def)
        note IH = 1(2) [OF Some p [symmetric] False c q [symmetric] refl] 1(3) [OF Some p [symmetric] False c q [symmetric] refl]
        show ?thesis
          using s1 c q False IH l 1(4) by (subst load_lines.simps) (simp add: Let_def)
      qed
    qed
  qed
qed

section \<open>The hardware\<close>

text \<open>The strings fit their buffers, of 8, 20 and MAX_BUFFER_SIZE bytes.\<close>

definition wf_hw :: "hw \<Rightarrow> bool" where
  "wf_hw h \<longleftrightarrow> length (batteryCapacity h) < 8 \<and> length (brightness h) < 8 \<and> length (volume h) < 8
     \<and> length (batteryCapacityDisplayString h) < 20 \<and> length (brightnessDisplayString h) < 20 \<and> length (volumeDisplayString h) < 20
     \<and> length (creditDisplayString h) < MAX_BUFFER_SIZE"

text \<open>Nothing can be cut from what was read.\<close>

definition nothing_read :: "string option \<Rightarrow> string \<Rightarrow> bool" where
  "nothing_read source old \<longleftrightarrow> (\<exists>input. source = Some input \<and> read_value input old = [])"

definition readings_ok :: "readings \<Rightarrow> bool" where
  "readings_ok r \<longleftrightarrow> (\<forall>input. battery_file r = Some input \<or> brightness_file r = Some input \<longrightarrow> input \<noteq> [] \<and> hd input \<noteq> CHR 0x00)"

lemma read_value_bound: "length old < 8 \<Longrightarrow> length (read_value input old) < 8"
  using fgets_bounded [of 8 input] by (fastforce simp: read_value_def split: option.splits)

lemma read_value_some: "input \<noteq> [] \<Longrightarrow> hd input \<noteq> CHR 0x00 \<Longrightarrow> read_value input old \<noteq> []"
proof -
  assume a: "input \<noteq> []" "hd input \<noteq> CHR 0x00"
  then obtain c cs where c: "input = c # cs" "c \<noteq> CHR 0x00" by (cases input) auto
  have "fgets_length 8 input > 0" by (simp add: fgets_length_def)
  then obtain k where "fgets_length 8 input = Suc k" using gr0_conv_Suc by blast
  with c show ?thesis by (simp add: read_value_def fgets_def)
qed

lemma cut_bound: "cut_last s = Some t \<Longrightarrow> length s < 8 \<Longrightarrow> length t < 7"
  by (auto simp: cut_last_def split: if_splits)

lemma cut_read: "cut_last (read_value input old) = Some t \<Longrightarrow> length old < 8 \<Longrightarrow> length t < 7"
  by (rule cut_bound [OF _ read_value_bound])

lemma cut_volume: "cut_last (if read_value input old = [] then ''0%'' @ [nl] else read_value input old) = Some t \<Longrightarrow> length old < 8 \<Longrightarrow> length t < 7"
  using cut_read [of input old t] cut_bound [of "''0%'' @ [nl]" t] by (auto split: if_splits)

lemma update_fields:
  "update_battery r h = Some h1 \<Longrightarrow> h1 = h\<lparr>batteryCapacity := batteryCapacity h1, batteryCapacityDisplayString := batteryCapacityDisplayString h1\<rparr>"
  "update_brightness r h = Some h1 \<Longrightarrow> h1 = h\<lparr>brightness := brightness h1, brightnessDisplayString := brightnessDisplayString h1\<rparr>"
  "update_volume r h = Some h1 \<Longrightarrow> h1 = h\<lparr>volume := volume h1, volumeDisplayString := volumeDisplayString h1\<rparr>"
  by (auto simp: update_battery_def update_brightness_def update_volume_def Let_def split: option.splits)

text \<open>The exact condition under which the update is undefined.\<close>

lemma updateHwInfo_undefined:
  "updateHwInfo C r h = None \<longleftrightarrow> nothing_read (battery_file r) (batteryCapacity h) \<or> nothing_read (brightness_file r) (brightness h)"
proof -
  have b: "update_battery r h = None \<longleftrightarrow> nothing_read (battery_file r) (batteryCapacity h)"
    by (auto simp: update_battery_def nothing_read_def cut_last_def bind_None_iff split: option.splits)
  have g: "update_brightness r h1 = None \<longleftrightarrow> nothing_read (brightness_file r) (brightness h)" if "update_battery r h = Some h1" for h1
  proof -
    have "brightness h1 = brightness h" using update_fields(1) [OF that] by (metis hw.select_convs(2) hw.surjective hw.update_convs(1,4))
    then show ?thesis by (auto simp: update_brightness_def nothing_read_def cut_last_def bind_None_iff split: option.splits)
  qed
  have v: "update_volume r h2 \<noteq> None" for h2
    by (auto simp: update_volume_def cut_last_def bind_None_iff Let_def split: option.splits)
  show ?thesis
  proof (cases "update_battery r h")
    case None
    then show ?thesis using b by (simp add: updateHwInfo_def)
  next
    case (Some h1)
    show ?thesis
    proof (cases "update_brightness r h1")
      case None
      then show ?thesis using Some g [OF Some] by (simp add: updateHwInfo_def)
    next
      case h2: (Some h2)
      then show ?thesis using Some b g [OF Some] v [of h2] by (auto simp: updateHwInfo_def)
    qed
  qed
qed

lemma update_hw_bounds:
  assumes "wf_hw h" "updateHwInfo C r h = Some h'" "length C \<le> 400"
  shows "wf_hw h'"
proof -
  obtain h1 h2 h3 where u: "update_battery r h = Some h1" "update_brightness r h1 = Some h2" "update_volume r h2 = Some h3"
    "h' = h3\<lparr>creditDisplayString := C @ brightnessDisplayString h3 @ '' | '' @ volumeDisplayString h3\<rparr>"
    using assms(2) by (auto simp: updateHwInfo_def)
  have 1: "wf_hw h1"
    using u(1) assms(1) cut_read [of _ "batteryCapacity h"] by (fastforce simp: update_battery_def wf_hw_def split: option.splits)
  have 2: "wf_hw h2"
    using u(2) 1 cut_read [of _ "brightness h1"] by (fastforce simp: update_brightness_def wf_hw_def split: option.splits)
  have 3: "wf_hw h3"
  proof (cases "volume_pipe r")
    case (Some input)
    then obtain v where "cut_last (if read_value input (volume h2) = [] then ''0%'' @ [nl] else read_value input (volume h2)) = Some v"
      "h3 = h2\<lparr>volume := v, volumeDisplayString := ''Volume: '' @ v\<rparr>"
      using u(3) unfolding update_volume_def Let_def by auto
    then show ?thesis using cut_volume [of input "volume h2" v] 2 by (simp add: wf_hw_def)
  qed (use u(3) 2 in \<open>simp add: update_volume_def\<close>)
  then show ?thesis using assms(3) unfolding u(4) wf_hw_def MAX_BUFFER_SIZE_def by simp
qed

lemma update_hw_ok:
  assumes "wf_hw h" "readings_ok r" "length C \<le> 400"
  shows "\<exists>h'. updateHwInfo C r h = Some h' \<and> wf_hw h'"
proof -
  have "updateHwInfo C r h \<noteq> None"
    unfolding updateHwInfo_undefined nothing_read_def using assms(2) read_value_some by (auto simp: readings_ok_def)
  with update_hw_bounds [OF assms(1) _ assms(3)] show ?thesis by blast
qed

section \<open>The selection\<close>

lemma launcher_builds_ok: "b \<in> set launcher_builds \<Longrightarrow> ITEMS_PER_PAGE b \<ge> 1 \<and> length (CREDIT b) \<le> 400
    \<and> 80 + ITEMS_PER_PAGE b * 40 \<le> SCREEN_HEIGHT b"
  by (auto simp: launcher_builds_def launcher_rg35xxp_def launcher_trimuisp_def launcher_r36s_def launcher_rgb30_def launcher_h700_def)

lemma moves_ok:
  assumes "0 \<le> sel" "sel < n" "ITEMS_PER_PAGE b \<ge> 1"
  shows "0 \<le> up_item n sel \<and> up_item n sel < n" "0 \<le> down_item n sel \<and> down_item n sel < n"
    "0 \<le> left_item b sel \<and> left_item b sel < n" "0 \<le> right_item b n sel \<and> right_item b n sel < n"
  using assms by (auto simp: up_item_def down_item_def left_item_def right_item_def)

text \<open>Up and down go around the list.\<close>

lemma down_mod: "0 \<le> sel \<Longrightarrow> sel < n \<Longrightarrow> down_item n sel = (sel + 1) mod n"
  by (cases "sel = n - 1") (auto simp: down_item_def)

lemma up_mod: "0 \<le> sel \<Longrightarrow> sel < n \<Longrightarrow> up_item n sel = (sel - 1) mod n"
  by (auto simp: up_item_def zmod_minus1)

lemma down_up: "0 \<le> sel \<Longrightarrow> sel < n \<Longrightarrow> down_item n (up_item n sel) = sel \<and> up_item n (down_item n sel) = sel"
  by (auto simp: down_item_def up_item_def)

lemma down_repeat: "0 \<le> sel \<Longrightarrow> sel < n \<Longrightarrow> (down_item n ^^ k) sel = (sel + int k) mod n"
proof (induction k)
  case (Suc k)
  have "(down_item n ^^ Suc k) sel = down_item n ((sel + int k) mod n)" using Suc by simp
  also have "\<dots> = ((sel + int k) mod n + 1) mod n" by (rule down_mod) (use Suc in auto)
  also have "\<dots> = (sel + int k + 1) mod n" by (rule mod_add_left_eq)
  also have "\<dots> = (sel + int (Suc k)) mod n" by (simp add: algebra_simps)
  finally show ?case .
qed simp

section \<open>The page\<close>

definition on_page :: "launcher_build \<Rightarrow> int \<Rightarrow> int \<Rightarrow> bool" where
  "on_page b page i \<longleftrightarrow> page * ITEMS_PER_PAGE b \<le> i \<and> i < (page + 1) * ITEMS_PER_PAGE b"

definition item :: "launcher_build \<Rightarrow> int \<Rightarrow> int \<Rightarrow> string \<Rightarrow> int \<Rightarrow> drawn" where
  "item b sel page nm i = \<lparr>at_x = 20, at_y = 80 + (i - page * ITEMS_PER_PAGE b) * 40,
     shown = if sel = i then ''> '' @ nm else nm, highlighted = (sel = i)\<rparr>"

lemma item_text_fits: "(is_selected \<longrightarrow> length nm \<le> 125) \<Longrightarrow> item_text is_selected nm = Some (if is_selected then ''> '' @ nm else nm)"
  by (simp add: item_text_def MAX_NAME_LENGTH_def)

lemma item_text_overflow: "length nm > 125 \<Longrightarrow> item_text True nm = None"
  by (simp add: item_text_def MAX_NAME_LENGTH_def)

lemma draw_items_page:
  assumes "\<forall>j < length cs. sel = i + int j \<longrightarrow> length (name (cs ! j)) \<le> 125"
  shows "draw_items b sel page i cs =
    Some (map (\<lambda>j. item b sel page (name (cs ! j)) (i + int j)) (filter (\<lambda>j. on_page b page (i + int j)) [0..<length cs]))"
  using assms
proof (induction cs arbitrary: i)
  case (Cons c cs)
  have "\<forall>j < length cs. sel = i + 1 + int j \<longrightarrow> length (name (cs ! j)) \<le> 125"
    using Cons.prems by (auto simp: algebra_simps dest: spec [of _ "Suc _"])
  note IH = Cons.IH [OF this]
  have u: "[0..<length (c # cs)] = 0 # map Suc [0..<length cs]"
    by (simp add: map_Suc_upt upt_conv_Cons del: upt_Suc)
  have f: "filter (\<lambda>j. on_page b page (i + int j)) (map Suc xs) = map Suc (filter (\<lambda>j. on_page b page (i + 1 + int j)) xs)" for xs
    by (simp add: filter_map comp_def algebra_simps)
  have g: "map (\<lambda>j. item b sel page (name ((c # cs) ! j)) (i + int j)) (map Suc xs)
      = map (\<lambda>j. item b sel page (name (cs ! j)) (i + 1 + int j)) xs" for xs
    by (simp add: comp_def algebra_simps)
  have t: "item_text (sel = i) (name c) = Some (if sel = i then ''> '' @ name c else name c)"
    by (rule item_text_fits) (use Cons.prems in force)
  have step: "draw_items b sel page i (c # cs) =
     (if on_page b page i then do {
        ds \<leftarrow> draw_items b sel page (i + 1) cs;
        Some (item b sel page (name c) i # ds) }
      else draw_items b sel page (i + 1) cs)"
    by (simp add: on_page_def t item_def)
  show ?case
    unfolding step u IH filter.simps f by (simp add: g del: map_map)
qed simp

lemma page_of: "0 \<le> sel \<Longrightarrow> ITEMS_PER_PAGE b \<ge> 1 \<Longrightarrow> on_page b (selected_page b sel) sel"
proof -
  assume a: "0 \<le> sel" "ITEMS_PER_PAGE b \<ge> 1"
  have "sel mod ITEMS_PER_PAGE b < ITEMS_PER_PAGE b" "0 \<le> sel mod ITEMS_PER_PAGE b" using a by simp_all
  moreover have "sel div ITEMS_PER_PAGE b * ITEMS_PER_PAGE b + sel mod ITEMS_PER_PAGE b = sel" by simp
  ultimately have "sel div ITEMS_PER_PAGE b * ITEMS_PER_PAGE b \<le> sel" "sel < sel div ITEMS_PER_PAGE b * ITEMS_PER_PAGE b + ITEMS_PER_PAGE b"
    by linarith+
  then show ?thesis using a(1) by (simp add: on_page_def selected_page_def distrib_right)
qed

text \<open>The items of a page are an interval of the list.\<close>

lemma filter_interval: "filter (\<lambda>j. a \<le> j \<and> j < c) [0..<n] = [a..<min n c]"
proof (induction n)
  case (Suc n)
  show ?case
  proof (cases "a \<le> n \<and> n < c")
    case True
    then show ?thesis using Suc by (simp add: min_def)
  next
    case False
    then have "[a..<min (Suc n) c] = [a..<min n c]" by (cases "c \<le> n") (auto simp: min.absorb1 min.absorb2)
    with Suc False show ?thesis by simp
  qed
qed simp

lemma map_upt_shift: "map f [a..<e] = map (\<lambda>k. f (a + k)) [0..<e - a]"
  by (rule nth_equalityI) simp_all

lemma filter_single: "a \<le> s \<Longrightarrow> s < e \<Longrightarrow> filter (\<lambda>j. j = s) [a..<e] = [s]"
proof -
  assume "a \<le> s" "s < e"
  then have "[a..<e] = [a..<s] @ s # [Suc s..<e]" using upt_add_eq_append [of a s "e - s"] upt_conv_Cons [of s e] by simp
  then show ?thesis by (simp add: filter_empty_conv)
qed

lemma page_length: "0 \<le> page \<Longrightarrow> 0 \<le> n \<Longrightarrow> nat ((page + 1) * n) - nat (page * n) = nat n"
  by (simp add: distrib_right nat_add_distrib)

lemma page_interval:
  assumes "0 \<le> page" "ITEMS_PER_PAGE b \<ge> 1"
  shows "filter (\<lambda>j. on_page b page (int j)) [0..<n] = [nat (page * ITEMS_PER_PAGE b)..<min n (nat ((page + 1) * ITEMS_PER_PAGE b))]"
proof -
  have "on_page b page (int j) \<longleftrightarrow> nat (page * ITEMS_PER_PAGE b) \<le> j \<and> j < nat ((page + 1) * ITEMS_PER_PAGE b)" for j
    using assms by (auto simp: on_page_def nat_le_iff zless_nat_eq_int_zless)
  then show ?thesis by (simp add: filter_interval)
qed

text \<open>What is drawn for a selection in the list.\<close>

lemma render_page:
  assumes "0 \<le> sel" "sel < int (length cs)" "length (name (cs ! nat sel)) \<le> 125"
  shows "updateRender b cs sel = Some (map (\<lambda>j. item b sel (selected_page b sel) (name (cs ! j)) (int j))
      (filter (\<lambda>j. on_page b (selected_page b sel) (int j)) [0..<length cs]), selected_page b sel + 1, total_pages b (int (length cs)))"
proof -
  have "\<forall>j < length cs. sel = 0 + int j \<longrightarrow> length (name (cs ! j)) \<le> 125" using assms(3) by auto
  from draw_items_page [OF this, of b "selected_page b sel"] show ?thesis by (simp add: updateRender_def Let_def)
qed

section \<open>The machine\<close>

text \<open>A list of commands that can be shown: not empty, and no name that fills its buffer.\<close>

definition menu_ok :: "launcher_build \<Rightarrow> Command list \<Rightarrow> bool" where
  "menu_ok b commands \<longleftrightarrow> b \<in> set launcher_builds \<and> commands \<noteq> [] \<and> (\<forall>c \<in> set commands. length (name c) \<le> 125)"

definition wf_launcher :: "launcher_build \<Rightarrow> Command list \<Rightarrow> launcher \<Rightarrow> bool" where
  "wf_launcher b commands st \<longleftrightarrow> menu_ok b commands \<and> 0 \<le> selectedItem st \<and> selectedItem st < int (length commands)
     \<and> wf_hw (hardware st)"

lemma wf_select:
  assumes "wf_launcher b cs st" "0 \<le> f (selectedItem st)" "f (selectedItem st) < int (length cs)"
  shows "wf_launcher b cs (select_item f st)"
  using assms by (simp add: wf_launcher_def select_item_def)

lemma wf_moves:
  assumes "wf_launcher b cs st"
  shows "wf_launcher b cs (select_item (up_item (int (length cs))) st)" "wf_launcher b cs (select_item (down_item (int (length cs))) st)"
    "wf_launcher b cs (select_item (left_item b) st)" "wf_launcher b cs (select_item (right_item b (int (length cs))) st)"
    "wf_launcher b cs (select_item (\<lambda>_. 0) st)"
proof -
  have m: "0 \<le> selectedItem st" "selectedItem st < int (length cs)" "ITEMS_PER_PAGE b \<ge> 1"
    using assms launcher_builds_ok [of b] by (simp_all add: wf_launcher_def menu_ok_def)
  note ok = moves_ok [OF m]
  show "wf_launcher b cs (select_item (up_item (int (length cs))) st)" by (rule wf_select [OF assms]) (use ok(1) in blast)+
  show "wf_launcher b cs (select_item (down_item (int (length cs))) st)" by (rule wf_select [OF assms]) (use ok(2) in blast)+
  show "wf_launcher b cs (select_item (left_item b) st)" by (rule wf_select [OF assms]) (use ok(3) in blast)+
  show "wf_launcher b cs (select_item (right_item b (int (length cs))) st)" by (rule wf_select [OF assms]) (use ok(4) in blast)+
  show "wf_launcher b cs (select_item (\<lambda>_. 0) st)" by (rule wf_select [OF assms]) (use m in linarith)+
qed

lemma wf_fields [simp]:
  "wf_launcher b cs (st\<lparr>running := r\<rparr>) = wf_launcher b cs st" "wf_launcher b cs (st\<lparr>suspend := s\<rparr>) = wf_launcher b cs st"
  "wf_launcher b cs (st\<lparr>buttonUpHeld := u\<rparr>) = wf_launcher b cs st" "wf_launcher b cs (st\<lparr>buttonDownHeld := u\<rparr>) = wf_launcher b cs st"
  "wf_launcher b cs (st\<lparr>executed := e\<rparr>) = wf_launcher b cs st" "wf_launcher b cs (st\<lparr>lastScrollTime := t\<rparr>) = wf_launcher b cs st"
  "wf_launcher b cs (st\<lparr>lastHwUpdate := t\<rparr>) = wf_launcher b cs st" "wf_launcher b cs (st\<lparr>screen := p\<rparr>) = wf_launcher b cs st"
  by (simp_all add: wf_launcher_def)

lemma wf_hardware: "wf_launcher b cs st \<Longrightarrow> wf_hw h \<Longrightarrow> wf_launcher b cs (st\<lparr>hardware := h\<rparr>)"
  by (simp add: wf_launcher_def)

lemma hw_step:
  assumes "wf_launcher b cs st" "readings_ok r"
  shows "\<exists>h. updateHwInfo (CREDIT b) r (hardware st) = Some h \<and> wf_hw h"
  by (rule update_hw_ok) (use assms launcher_builds_ok [of b] in \<open>simp_all add: wf_launcher_def menu_ok_def\<close>)

lemma execute_ok:
  assumes "wf_launcher b cs st" "readings_ok r"
  shows "\<exists>st'. execute b cs r st = Some st' \<and> wf_launcher b cs st'"
proof -
  obtain h where h: "updateHwInfo (CREDIT b) r (hardware st) = Some h" "wf_hw h" using hw_step [OF assms] by blast
  have "aget cs (selectedItem st) = Some (cs ! nat (selectedItem st))"
    using assms(1) by (simp add: aget_def wf_launcher_def)
  with h assms(1) show ?thesis by (simp add: execute_def wf_launcher_def)
qed

lemma special_ok:
  assumes "wf_launcher b cs st" "readings_ok r"
  shows "\<exists>st'. special_key b r k st = Some st' \<and> wf_launcher b cs st'"
proof -
  obtain h where h: "updateHwInfo (CREDIT b) r (hardware st) = Some h" "wf_hw h" using hw_step [OF assms] by blast
  with wf_hardware [OF assms(1) h(2)] assms(1) show ?thesis by (simp add: special_key_def)
qed

lemma handle_ok:
  assumes "wf_launcher b cs st" "readings_ok r"
  shows "\<exists>st'. handle b cs r e st = Some st' \<and> wf_launcher b cs st'"
proof (cases e)
  case (Key_down k scancode)
  have "\<exists>st1. (case k of
      SDLK_UP \<Rightarrow> Some (select_item (up_item (int (length cs))) st)
    | SDLK_DOWN \<Rightarrow> Some (select_item (down_item (int (length cs))) st)
    | SDLK_LEFT \<Rightarrow> Some (select_item (left_item b) st)
    | SDLK_RIGHT \<Rightarrow> Some (select_item (right_item b (int (length cs))) st)
    | SDLK_RETURN \<Rightarrow> execute b cs r st
    | SDLK_OTHER \<Rightarrow> Some st) = Some st1 \<and> wf_launcher b cs st1"
    using wf_moves [OF assms(1)] execute_ok [OF assms] assms(1) by (cases k) auto
  then obtain st1 where 1: "(case k of
      SDLK_UP \<Rightarrow> Some (select_item (up_item (int (length cs))) st)
    | SDLK_DOWN \<Rightarrow> Some (select_item (down_item (int (length cs))) st)
    | SDLK_LEFT \<Rightarrow> Some (select_item (left_item b) st)
    | SDLK_RIGHT \<Rightarrow> Some (select_item (right_item b (int (length cs))) st)
    | SDLK_RETURN \<Rightarrow> execute b cs r st
    | SDLK_OTHER \<Rightarrow> Some st) = Some st1" "wf_launcher b cs st1" by blast
  from special_ok [OF 1(2) assms(2)] show ?thesis unfolding Key_down handle_def Let_def menu_event.case 1(1) by simp
qed (use wf_moves [OF assms(1)] execute_ok [OF assms] assms(1) in \<open>auto simp: handle_def Let_def split: hat_value.split\<close>)

interpretation input_machine: safe_machine "handle b cs r" "\<lambda>st. wf_launcher b cs st \<and> readings_ok r" "\<lambda>_ _. True" for b cs r
  by unfold_locales (use handle_ok in blast)

lemma scroll_wf: "wf_launcher b cs st \<Longrightarrow> wf_launcher b cs (select_item f st) \<Longrightarrow> wf_launcher b cs (scroll held f now st)"
  by (simp add: scroll_def)

lemma refresh_ok:
  assumes "wf_launcher b cs st" "readings_ok r"
  shows "\<exists>st'. refresh_hw b r now st = Some st' \<and> wf_launcher b cs st' \<and> selectedItem st' = selectedItem st
    \<and> running st' = running st \<and> buttonUpHeld st' = buttonUpHeld st \<and> buttonDownHeld st' = buttonDownHeld st
    \<and> lastScrollTime st' = lastScrollTime st"
proof -
  obtain h where h: "updateHwInfo (CREDIT b) r (hardware st) = Some h" "wf_hw h" using hw_step [OF assms] by blast
  with assms(1) show ?thesis by (simp add: refresh_hw_def wf_launcher_def)
qed

text \<open>What is selected is the menu of the command, drawn once and highlighted.\<close>

lemma render_ok:
  assumes "wf_launcher b cs st"
  shows "\<exists>p. updateRender b cs (selectedItem st) = Some p"
proof -
  have "length (name (cs ! nat (selectedItem st))) \<le> 125"
    using assms by (simp add: wf_launcher_def menu_ok_def nat_less_iff)
  with render_page [of "selectedItem st" cs b] assms show ?thesis by (simp add: wf_launcher_def)
qed

lemma iteration_ok:
  assumes "wf_launcher b cs st" "readings_ok (reported f)"
  shows "\<exists>st'. iteration b cs f st = Some st' \<and> wf_launcher b cs st'"
proof -
  have "input_machine.accepts_all b cs (reported f) es s" for es s
    by (induction es arbitrary: s) simp_all
  then obtain st1 where 1: "run (handle b cs (reported f)) (events f) st = Some st1" "wf_launcher b cs st1"
    using input_machine.run_safe [of b cs st "reported f" "events f"] assms by blast
  define st2 where "st2 = scroll (buttonUpHeld st1) (up_item (int (length cs))) (ticks f) st1"
  define st3 where "st3 = scroll (buttonDownHeld st2) (down_item (int (length cs))) (ticks f) st2"
  have 2: "wf_launcher b cs st2" unfolding st2_def by (rule scroll_wf [OF 1(2) wf_moves(1) [OF 1(2)]])
  have 3: "wf_launcher b cs st3" unfolding st3_def by (rule scroll_wf [OF 2 wf_moves(2) [OF 2]])
  obtain st4 where 4: "refresh_hw b (reported f) (ticks f) st3 = Some st4" "wf_launcher b cs st4" using refresh_ok [OF 3 assms(2)] by blast
  obtain p where "updateRender b cs (selectedItem st4) = Some p" using render_ok [OF 4(2)] by blast
  with 1 4 show ?thesis by (simp add: iteration_def Let_def st2_def [symmetric] st3_def [symmetric])
qed

interpretation menu_machine: safe_machine "iteration b cs" "wf_launcher b cs" "\<lambda>f _. readings_ok (reported f)" for b cs
  by unfold_locales (rule iteration_ok)

lemma main_loop_ok:
  "wf_launcher b cs st \<Longrightarrow> \<forall>f \<in> set fs. readings_ok (reported f) \<Longrightarrow> \<exists>st'. main_loop b cs fs st = Some st' \<and> wf_launcher b cs st'"
proof (induction fs arbitrary: st)
  case (Cons f fs)
  then obtain st1 where "iteration b cs f st = Some st1" "wf_launcher b cs st1" using menu_machine.step_safe by fastforce
  with Cons show ?case by simp
qed simp

lemma menu_start_ok:
  assumes "menu_ok b cs" "readings_ok r"
  shows "\<exists>st. launcher_start b cs r = Some st \<and> wf_launcher b cs st \<and> running st"
proof -
  have "wf_hw static_hw" by (simp add: wf_hw_def static_hw_def MAX_BUFFER_SIZE_def)
  then obtain h where h: "updateHwInfo (CREDIT b) r static_hw = Some h" "wf_hw h"
    using update_hw_ok [of static_hw r "CREDIT b"] assms launcher_builds_ok [of b] by (auto simp: menu_ok_def)
  have "cs \<noteq> []" "length (name (cs ! 0)) \<le> 125" using assms(1) by (auto simp: menu_ok_def)
  then obtain p where "updateRender b cs 0 = Some p" using render_page [of 0 cs b] by auto
  with h assms(1) show ?thesis by (simp add: launcher_start_def wf_launcher_def menu_ok_def)
qed

section \<open>Holding a button\<close>

text \<open>Frames without events whose times are more than the delay apart.\<close>

fun spaced :: "32 word \<Rightarrow> frame list \<Rightarrow> bool" where
  "spaced t [] \<longleftrightarrow> True"
| "spaced t (f # fs) \<longleftrightarrow> events f = [] \<and> ticks f - t > SCROLL_DELAY \<and> spaced (ticks f) fs"

lemma hold_step:
  assumes "wf_launcher b cs st" "readings_ok (reported f)" "events f = []" "ticks f - lastScrollTime st > SCROLL_DELAY"
    "buttonDownHeld st" "\<not> buttonUpHeld st"
  shows "\<exists>st'. iteration b cs f st = Some st' \<and> wf_launcher b cs st' \<and> selectedItem st' = down_item (int (length cs)) (selectedItem st)
    \<and> running st' = running st \<and> buttonDownHeld st' \<and> \<not> buttonUpHeld st' \<and> lastScrollTime st' = ticks f"
proof -
  define st3 where "st3 = (select_item (down_item (int (length cs))) st)\<lparr>lastScrollTime := ticks f\<rparr>"
  have s: "scroll (buttonUpHeld st) (up_item (int (length cs))) (ticks f) st = st"
    "scroll (buttonDownHeld st) (down_item (int (length cs))) (ticks f) st = st3"
    using assms(4-6) by (simp_all add: scroll_def st3_def)
  have 3: "wf_launcher b cs st3" unfolding st3_def using wf_moves(2) [OF assms(1)] by simp
  obtain st4 where 4: "refresh_hw b (reported f) (ticks f) st3 = Some st4" "wf_launcher b cs st4" "selectedItem st4 = selectedItem st3"
    "running st4 = running st3" "buttonUpHeld st4 = buttonUpHeld st3" "buttonDownHeld st4 = buttonDownHeld st3" "lastScrollTime st4 = lastScrollTime st3"
    using refresh_ok [OF 3 assms(2)] by blast
  obtain p where "updateRender b cs (selectedItem st4) = Some p" using render_ok [OF 4(2)] by blast
  then have "iteration b cs f st = Some (st4\<lparr>screen := p\<rparr>)" using 4(1) assms(3) s by (simp add: iteration_def Let_def)
  with 4 assms(5,6) show ?thesis by (simp add: st3_def select_item_def)
qed

lemma hold_down:
  "wf_launcher b cs st \<Longrightarrow> \<forall>f \<in> set fs. readings_ok (reported f) \<Longrightarrow> spaced (lastScrollTime st) fs \<Longrightarrow> running st \<Longrightarrow>
   buttonDownHeld st \<Longrightarrow> \<not> buttonUpHeld st \<Longrightarrow>
   \<exists>st'. main_loop b cs fs st = Some st' \<and> selectedItem st' = (selectedItem st + int (length fs)) mod int (length cs)"
proof (induction fs arbitrary: st)
  case Nil
  then show ?case by (simp add: wf_launcher_def)
next
  case (Cons f fs)
  obtain st1 where 1: "iteration b cs f st = Some st1" "wf_launcher b cs st1"
    "selectedItem st1 = down_item (int (length cs)) (selectedItem st)"
    "running st1 = running st" "buttonDownHeld st1" "\<not> buttonUpHeld st1" "lastScrollTime st1 = ticks f"
    using hold_step [OF Cons.prems(1) _ _ _ Cons.prems(5,6), of f] Cons.prems(2,3) by auto
  obtain st' where 2: "main_loop b cs fs st1 = Some st'" "selectedItem st' = (selectedItem st1 + int (length fs)) mod int (length cs)"
    using Cons.IH [OF 1(2)] 1 Cons.prems(2-4) by auto
  have "selectedItem st1 = (selectedItem st + 1) mod int (length cs)"
    unfolding 1(3) by (rule down_mod) (use Cons.prems(1) in \<open>simp_all add: wf_launcher_def\<close>)
  then have "selectedItem st' = (selectedItem st + int (length (f # fs))) mod int (length cs)"
    unfolding 2(2) by (simp add: mod_add_left_eq add.assoc)
  with 1(1) 2(1) Cons.prems(4) show ?case by simp
qed

end
