(* ===== verification/Launcher_Properties.thy ===== *)
theory Launcher_Properties
  imports Launcher_Laws
begin

text \<open>What the menu program promises, with a small menu to apply it to.\<close>

definition demo_commands :: "Command list" where
  "demo_commands = [\<lparr>name = ''Terminal'', command = ''st''\<rparr>, \<lparr>name = ''Games'', command = ''retroarch''\<rparr>, \<lparr>name = ''Off'', command = ''poweroff''\<rparr>]"

definition demo_readings :: readings where
  "demo_readings = \<lparr>battery_file = Some (''87'' @ [nl]), brightness_file = None, volume_pipe = Some []\<rparr>"

definition demo_frame :: "menu_event list \<Rightarrow> 32 word \<Rightarrow> frame" where
  "demo_frame es t = \<lparr>events = es, ticks = t, reported = demo_readings\<rparr>"

lemma demo_menu: "menu_ok launcher_r36s demo_commands"
  by (simp add: menu_ok_def demo_commands_def launcher_builds_def)

lemma demo_readings_ok: "readings_ok demo_readings"
  by (simp add: readings_ok_def demo_readings_def)



text \<open>C17. The file of commands is read as it was written: the title and, in order, the name and the
  command of every entry, when they fit their buffers and contain no line ends.
\<close>

theorem command_file_roundtrip:
  assumes "nl \<notin> set title" "CHR 0x00 \<notin> set title" "length title + 1 < MAX_BUFFER_SIZE" "\<forall>c \<in> set commands. command_ok c"
  shows "loadCommands (Some (title @ nl # command_lines commands)) = Some (title, commands)"
  using fgets_line [OF assms(1-3), of "command_lines commands"] load_written [OF assms(4), of "[]"]
  by (simp add: loadCommands_def cut_last_def)

lemma command_file_roundtrip_witness:
  "loadCommands (Some (''Menu'' @ nl # command_lines demo_commands)) = Some (''Menu'', demo_commands)"
  by (rule command_file_roundtrip)
    (simp_all add: command_ok_def demo_commands_def MAX_BUFFER_SIZE_def MAX_NAME_LENGTH_def MAX_COMMAND_LENGTH_def)




definition demo_launcher :: launcher where
  "demo_launcher = \<lparr>running = True, suspend = False, selectedItem = 1, buttonUpHeld = False, buttonDownHeld = True,
     lastScrollTime = 0, lastHwUpdate = 0, hardware = static_hw, executed = [], screen = ([], 1, 1)\<rparr>"


text \<open>C39. What the loop does not check: with an empty menu starting an item is undefined, after up or
  right the selection is -1; a selected name of more than 125 characters does not fit the
  buffer in which it gets its mark; a hardware file that is empty when it is first read makes
  the program write before a buffer.
\<close>

theorem unchecked_inputs:
  assumes "length (name c) > 125" "ITEMS_PER_PAGE b \<ge> 1"
  shows "execute b [] r st = None \<and> selectedItem (select_item (up_item 0) (st\<lparr>selectedItem := 0\<rparr>)) = - 1
    \<and> selectedItem (select_item (right_item b 0) st) \<le> - 1
    \<and> updateRender b (c # cs) 0 = None
    \<and> updateHwInfo C \<lparr>battery_file = Some [], brightness_file = None, volume_pipe = None\<rparr> static_hw = None"
proof -
  have "aget [] i = (None :: Command option)" for i by (simp add: aget_def)
  with assms show ?thesis
    by (simp add: execute_def select_item_def up_item_def right_item_def updateRender_def selected_page_def item_text_overflow
      updateHwInfo_undefined nothing_read_def static_hw_def read_value_def fgets_def)
qed

lemma unchecked_inputs_witness:
  "execute launcher_h700 [] demo_readings demo_launcher = None
    \<and> selectedItem (select_item (up_item 0) (demo_launcher\<lparr>selectedItem := 0\<rparr>)) = - 1
    \<and> selectedItem (select_item (right_item launcher_h700 0) demo_launcher) \<le> - 1
    \<and> updateRender launcher_h700 [\<lparr>name = replicate 126 CHR ''a'', command = []\<rparr>] 0 = None
    \<and> updateHwInfo [] \<lparr>battery_file = Some [], brightness_file = None, volume_pipe = None\<rparr> static_hw = None"
  by (rule unchecked_inputs) (simp_all add: launcher_h700_def)

end
