(* ===== verification/Wrapper.thy ===== *)
theory Wrapper
  imports Expr
begin

text \<open>
  The wrapper that Buildroot puts around the cross compiler, src/toolchain/toolchain-wrapper.c: it finds
  the compiler next to itself, refuses paths of the build machine, and calls the compiler with
  the flags of the target before the arguments it was given. What the preprocessor selects is
  a record of options; environment and file system are arguments. Traces for debugging and
  failing allocations are left out.
\<close>

section \<open>Configuration\<close>

datatype cross_path = Path_rel string | Path_abs string | Path_bin

text \<open>A macro that holds text is an optional string; \<open>additional\<close> is the list in BR_ADDITIONAL_CFLAGS.\<close>

record config =
  BR_CCACHE :: bool
  BR_CLANG_CONFIG_FILE :: "string option"
  BR_ABI :: "string option"
  BR_NAN :: "string option"
  BR_FPU :: "string option"
  BR_SOFTFLOAT :: bool
  BR_SIMD :: "string option"
  BR_MODE :: "string option"
  BR_64 :: bool
  BR_OMIT_LOCK_PREFIX :: bool
  BR_NO_FUSED_MADD :: bool
  BR_FP_CONTRACT_OFF :: bool
  BR_BINFMT_FLAT :: bool
  BR_LITTLE_ENDIAN :: bool
  BR_BIG_ENDIAN :: bool
  BR_ADDITIONAL_CFLAGS :: "string list"
  BR_FLOAT_ABI :: "string option"
  BR_FP32_MODE :: "string option"
  BR_ARCH :: "string option"
  BR_CPU :: "string option"
  BR_NEED_SOURCE_DATE_EPOCH :: bool
  BR2_PIC_PIE :: bool
  BR2_RELRO_PARTIAL :: bool
  BR2_RELRO_FULL :: bool
  BR_CROSS_PATH :: cross_path
  BR_CROSS_PATH_SUFFIX :: string
  BR_SYSROOT :: string
  BR_CCACHE_HASH :: "string option"
  BR_CCACHE_BASEDIR :: "string option"

text \<open>
  \<open>realpath\<close>, \<open>readlink\<close> of /proc/self/exe, \<open>getenv\<close>, and the two texts that \<open>strftime\<close> makes of a
  time in the local time zone (\<open>None\<close> when one of the calls fails).
\<close>

record system =
  realpath :: "string \<Rightarrow> string option"
  self_exe :: "string option"
  getenv :: "string \<Rightarrow> string option"
  format_time :: "int \<Rightarrow> (string \<times> string) option"

text \<open>How the program ends: a status, or the call of another program with its environment.\<close>

datatype outcome = Exit nat | Exec "(string \<times> string) list" "string list"

type_synonym 'a run_result = "nat + 'a"

definition flag_if :: "bool \<Rightarrow> string \<Rightarrow> string list" where
  "flag_if b s = (if b then [s] else [])"

definition flag_of :: "string \<Rightarrow> string option \<Rightarrow> string list" where
  "flag_of s v = (case v of None \<Rightarrow> [] | Some v \<Rightarrow> [s @ v])"

section \<open>Unsafe paths\<close>

definition unsafe_paths :: "string list" where
  "unsafe_paths = [''/lib'', ''/usr/include'', ''/usr/lib'', ''/usr/local/include'', ''/usr/local/lib'', ''/usr/X11R6/include'', ''/usr/X11R6/lib'']"

definition unsafe_opts :: "string list" where
  "unsafe_opts = [''-I'', ''-idirafter'', ''-iquote'', ''-isystem'', ''-L'']"

definition starts_with :: "string \<Rightarrow> string \<Rightarrow> bool" where
  "starts_with p s \<longleftrightarrow> take (length p) s = p"

definition check_unsafe_path :: "string \<Rightarrow> bool" where
  "check_unsafe_path path \<longleftrightarrow> (\<exists>p \<in> set unsafe_paths. starts_with p path)"

text \<open>
  The loop over \<open>unsafe_opts\<close>, with \<open>argv[i]\<close> and what follows: an option alone moves on to its
  path, and the loop goes on with that; \<open>Inl\<close> is \<open>exit\<close>.
\<close>

fun check_opts :: "string list \<Rightarrow> string list \<Rightarrow> string list run_result" where
  "check_opts [] args = Inr args"
| "check_opts (opt # opts) [] = Inr []"
| "check_opts (opt # opts) (a # args) =
     (if \<not> starts_with opt a then check_opts opts (a # args)
      else if a = opt then
        (case args of
           [] \<Rightarrow> Inr []
         | p # args' \<Rightarrow> if check_unsafe_path p then Inl 1 else check_opts opts (p # args'))
      else if check_unsafe_path (drop (length opt) a) then Inl 1
      else check_opts opts (a # args))"

lemma check_opts_shorter: "check_opts opts args = Inr args' \<Longrightarrow> length args' \<le> length args"
  by (induction opts args rule: check_opts.induct) (auto split: if_splits list.splits)

function check_args :: "string list \<Rightarrow> unit run_result" where
  "check_args [] = Inr ()"
| "check_args (a # args) = (case check_opts unsafe_opts (a # args) of Inl e \<Rightarrow> Inl e | Inr rest \<Rightarrow> check_args (tl rest))"
  by pat_completeness auto
termination
  by (relation "measure length") (auto dest!: check_opts_shorter)

section \<open>Where the compiler is\<close>

definition PATH_MAX :: nat where "PATH_MAX = 4096"

text \<open>\<open>strrchr(progpath, '/')\<close>: what is before the last slash, and the name after it.\<close>

definition split_path :: "string \<Rightarrow> (string \<times> string) option" where
  "split_path s =
     (if CHR ''/'' \<in> set s
      then Some (butlast (rev (dropWhile (\<lambda>c. c \<noteq> CHR ''/'') (rev s))), rev (takeWhile (\<lambda>c. c \<noteq> CHR ''/'') (rev s)))
      else None)"

text \<open>The loop that cuts two components; an initial slash (\<open>i = 0\<close>) is not one of them.\<close>

fun cut_components :: "nat \<Rightarrow> nat \<Rightarrow> string \<Rightarrow> string" where
  "cut_components 0 count s = s"
| "cut_components (Suc i) count s =
     (if Suc i < length s \<and> s ! Suc i = CHR ''/''
      then (if count + 1 = 2 then take (Suc i) s else cut_components i (count + 1) (take (Suc i) s))
      else cut_components i count s)"

definition find_base :: "system \<Rightarrow> string \<Rightarrow> (string \<times> string) run_result" where
  "find_base S progpath = (case split_path progpath of
     Some (dir, base) \<Rightarrow> (case realpath S (dir @ ''/..'') of None \<Rightarrow> Inl 2 | Some d \<Rightarrow> Inr (d, base))
   | None \<Rightarrow> (case self_exe S of None \<Rightarrow> Inl 2 | Some exe \<Rightarrow> Inr (cut_components (length exe) 0 exe, progpath)))"

text \<open>\<open>snprintf\<close> into a buffer of PATH_MAX bytes.\<close>

definition fits :: "string \<Rightarrow> string run_result" where
  "fits s = (if length s \<ge> PATH_MAX then Inl 3 else Inr s)"

definition compiler_path :: "config \<Rightarrow> string \<Rightarrow> string \<Rightarrow> string run_result" where
  "compiler_path C absbasedir base = fits (case BR_CROSS_PATH C of
     Path_rel rel \<Rightarrow> absbasedir @ ''/'' @ rel @ ''/'' @ base @ BR_CROSS_PATH_SUFFIX C
   | Path_abs dir \<Rightarrow> dir @ ''/'' @ base @ BR_CROSS_PATH_SUFFIX C
   | Path_bin \<Rightarrow> absbasedir @ ''/bin/'' @ base @ BR_CROSS_PATH_SUFFIX C)"

section \<open>Flags\<close>

definition predef_args :: "config \<Rightarrow> string \<Rightarrow> string \<Rightarrow> string \<Rightarrow> string list" where
  "predef_args C ccache_path path sysroot =
     flag_if (BR_CCACHE C) ccache_path @ [path, ''--sysroot'', sysroot]
     @ flag_of [] (BR_CLANG_CONFIG_FILE C) @ flag_of ''-mabi='' (BR_ABI C) @ flag_of ''-mnan='' (BR_NAN C)
     @ flag_of ''-mfpu='' (BR_FPU C) @ flag_if (BR_SOFTFLOAT C) ''-msoft-float'' @ flag_of ''-msimd='' (BR_SIMD C)
     @ flag_of ''-m'' (BR_MODE C) @ flag_if (BR_64 C) ''-m64'' @ flag_if (BR_OMIT_LOCK_PREFIX C) ''-Wa,-momit-lock-prefix=yes''
     @ flag_if (BR_NO_FUSED_MADD C) ''-mno-fused-madd'' @ flag_if (BR_FP_CONTRACT_OFF C) ''-ffp-contract=off''
     @ flag_if (BR_BINFMT_FLAT C) ''-Wl,-elf2flt'' @ flag_if (BR_LITTLE_ENDIAN C) ''-EL'' @ flag_if (BR_BIG_ENDIAN C) ''-EB''
     @ BR_ADDITIONAL_CFLAGS C"

definition found_nonoption :: "string list \<Rightarrow> bool" where
  "found_nonoption args \<longleftrightarrow> (\<exists>a \<in> set args. take 1 a \<noteq> ''-'')"

definition any_starts :: "string list \<Rightarrow> string list \<Rightarrow> bool" where
  "any_starts ps args \<longleftrightarrow> (\<exists>a \<in> set args. \<exists>p \<in> set ps. starts_with p a)"

definition any_of :: "string list \<Rightarrow> string list \<Rightarrow> bool" where
  "any_of os args \<longleftrightarrow> (\<exists>a \<in> set args. a \<in> set os)"

definition float_abi :: "config \<Rightarrow> string list \<Rightarrow> string list" where
  "float_abi C args =
     (if any_starts [''-mfloat-abi=''] args \<or> any_of [''-msoft-float'', ''-mhard-float''] args then []
      else flag_of ''-mfloat-abi='' (BR_FLOAT_ABI C))"

text \<open>The loop over the arguments: the last of the two options decides.\<close>

definition add_fp32_mode :: "string list \<Rightarrow> bool" where
  "add_fp32_mode args = fold (\<lambda>a add. if a = ''-msoft-float'' then False else if a = ''-mhard-float'' then True else add) args True"

definition fp32_mode :: "config \<Rightarrow> string list \<Rightarrow> string list" where
  "fp32_mode C args = (if add_fp32_mode args then flag_of ''-mfp'' (BR_FP32_MODE C) else [])"

definition arch_flags :: "config \<Rightarrow> string list \<Rightarrow> string list" where
  "arch_flags C args =
     (if any_starts [''-march='', ''-mtune='', ''-mcpu=''] args then []
      else flag_of ''-march='' (BR_ARCH C) @ flag_of ''-mcpu='' (BR_CPU C))"

text \<open>\<open>parse_source_date_epoch_from_env\<close> and the three arguments; the time is a 64-bit number.\<close>

definition epoch_flags :: "config \<Rightarrow> system \<Rightarrow> string list run_result" where
  "epoch_flags C S =
     (if \<not> BR_NEED_SOURCE_DATE_EPOCH C then Inr []
      else case getenv S ''SOURCE_DATE_EPOCH'' of
        None \<Rightarrow> Inr []
      | Some epoch_env \<Rightarrow>
          (case strtoll epoch_env 10 of (epoch, tail, err) \<Rightarrow>
             if err \<or> epoch_env = [] \<or> tail \<noteq> [] \<or> epoch < 0 then Inl 1
             else case format_time S epoch of None \<Rightarrow> Inl 1
             | Some (time, date) \<Rightarrow> Inr [time, date, ''-Wno-builtin-macro-redefined'']))"

text \<open>The two loops for position independent code; the first stops at an option that forbids it.\<close>

definition pie_flags :: "config \<Rightarrow> string list \<Rightarrow> string list" where
  "pie_flags C args =
     (if BR2_PIC_PIE C
        \<and> \<not> any_of [''-r'', ''-Wl,-r'', ''-static'', ''-D__KERNEL__'', ''-D__UBOOT__'', ''-fno-pie'', ''-fno-PIE'', ''-no-pie''] args
      then flag_if (\<not> any_of [''-fpie'', ''-fPIE'', ''-fpic'', ''-fPIC''] args) ''-fPIE'' @ flag_if (\<not> any_of [''-shared''] args) ''-pie''
      else [])"

definition relro_flags :: "config \<Rightarrow> string list \<Rightarrow> string list" where
  "relro_flags C args =
     (if \<not> any_of [''-D__KERNEL__'', ''-D__UBOOT__''] args \<and> found_nonoption args
      then flag_if (BR2_RELRO_PARTIAL C) ''-Wl,-z,relro''
        @ (if BR2_RELRO_FULL C then [''-Wl,-z,now'', ''-Wl,-z,relro''] else [])
      else [])"

section \<open>\<open>main\<close>\<close>

definition bind_result :: "'a run_result \<Rightarrow> ('a \<Rightarrow> outcome) \<Rightarrow> outcome" where
  "bind_result r f = (case r of Inl e \<Rightarrow> Exit e | Inr x \<Rightarrow> f x)"

definition all_flags :: "config \<Rightarrow> string list \<Rightarrow> string list \<Rightarrow> string list \<Rightarrow> string list" where
  "all_flags C predef epoch args =
     filter (\<lambda>p. found_nonoption args \<or> \<not> starts_with ''-Wl,'' p) predef
     @ float_abi C args @ fp32_mode C args @ arch_flags C args @ epoch @ pie_flags C args @ relro_flags C args"

text \<open>\<open>setenv\<close> without overwriting.\<close>

definition env_default :: "system \<Rightarrow> string \<Rightarrow> string \<Rightarrow> string option \<Rightarrow> (string \<times> string) list" where
  "env_default S n prefix v = (case v of None \<Rightarrow> [] | Some v \<Rightarrow> if getenv S n = None then [(n, prefix @ v)] else [])"

definition ccache_enabled :: "system \<Rightarrow> bool" where
  "ccache_enabled S = (case getenv S ''BR2_USE_CCACHE'' of Some v \<Rightarrow> starts_with ''1'' v | None \<Rightarrow> False)"

definition wrapper_main :: "config \<Rightarrow> system \<Rightarrow> string \<Rightarrow> string list \<Rightarrow> outcome" where
  "wrapper_main C S progpath args =
     bind_result (find_base S progpath) (\<lambda>(absbasedir, base).
     bind_result (compiler_path C absbasedir base) (\<lambda>path.
     bind_result (check_args args) (\<lambda>_.
     bind_result (if BR_CCACHE C then fits (absbasedir @ ''/bin/ccache'') else Inr []) (\<lambda>ccache_path.
     bind_result (fits (absbasedir @ ''/'' @ BR_SYSROOT C)) (\<lambda>sysroot.
     bind_result (epoch_flags C S) (\<lambda>epoch.
       let exec_args = all_flags C (predef_args C ccache_path path sysroot) epoch args @ args
       in if \<not> BR_CCACHE C then Exec [] exec_args
          else if ccache_enabled S then
            Exec (env_default S ''CCACHE_COMPILERCHECK'' ''string:'' (BR_CCACHE_HASH C) @ env_default S ''CCACHE_BASEDIR'' [] (BR_CCACHE_BASEDIR C)) exec_args
          else Exec [] (tl exec_args)))))))"

end
