(* ===== verification/Wrapper_Properties.thy ===== *)
theory Wrapper_Properties
  imports Wrapper
begin

text \<open>
  The wrapper of the compiler: what it calls, and that no path of the build machine gets past it.
\<close>

section \<open>Unsafe paths\<close>

lemma starts_with_append: "starts_with p (p @ s)"
  by (simp add: starts_with_def)

lemma starts_with_simps [simp]:
  "starts_with [] s" "\<not> starts_with (c # p) []" "starts_with (c # p) (d # s) \<longleftrightarrow> c = d \<and> starts_with p s"
  by (auto simp: starts_with_def)

text \<open>The option that an argument starts with is found whatever comes before it in the list.\<close>

lemma opts_skip: "\<forall>x \<in> set os. \<not> starts_with x a \<Longrightarrow> check_opts (os @ os') (a # args) = check_opts os' (a # args)"
  by (induction os) simp_all

lemma unsafe_opts_split:
  assumes "opt \<in> set unsafe_opts"
  shows "\<exists>os os'. unsafe_opts = os @ opt # os' \<and> (\<forall>x \<in> set os. \<not> starts_with x (opt @ p))"
proof -
  have "opt = ''-I'' \<or> opt = ''-idirafter'' \<or> opt = ''-iquote'' \<or> opt = ''-isystem'' \<or> opt = ''-L''"
    using assms by (simp add: unsafe_opts_def)
  then show ?thesis
  proof (elim disjE)
    assume "opt = ''-I''"
    then show ?thesis by (intro exI [of _ "[]"] exI [of _ "drop 1 unsafe_opts"]) (simp add: unsafe_opts_def)
  next
    assume "opt = ''-idirafter''"
    then show ?thesis by (intro exI [of _ "take 1 unsafe_opts"] exI [of _ "drop 2 unsafe_opts"]) (simp add: unsafe_opts_def)
  next
    assume "opt = ''-iquote''"
    then show ?thesis by (intro exI [of _ "take 2 unsafe_opts"] exI [of _ "drop 3 unsafe_opts"]) (simp add: unsafe_opts_def)
  next
    assume "opt = ''-isystem''"
    then show ?thesis by (intro exI [of _ "take 3 unsafe_opts"] exI [of _ "drop 4 unsafe_opts"]) (simp add: unsafe_opts_def)
  next
    assume "opt = ''-L''"
    then show ?thesis by (intro exI [of _ "take 4 unsafe_opts"] exI [of _ "drop 5 unsafe_opts"]) (simp add: unsafe_opts_def)
  qed
qed

lemma opts_attached:
  assumes "opt \<in> set unsafe_opts" "p \<noteq> []" "check_unsafe_path p"
  shows "check_opts unsafe_opts ((opt @ p) # args) = Inl 1"
proof -
  obtain os os' where os: "unsafe_opts = os @ opt # os'" "\<forall>x \<in> set os. \<not> starts_with x (opt @ p)"
    using unsafe_opts_split [OF assms(1)] by blast
  show ?thesis
    unfolding os(1) opts_skip [OF os(2)] using assms(2,3) by (simp add: starts_with_append)
qed

lemma opts_separate:
  assumes "opt \<in> set unsafe_opts" "check_unsafe_path q"
  shows "check_opts unsafe_opts (opt # q # args) = Inl 1"
proof -
  obtain os os' where os: "unsafe_opts = os @ opt # os'" "\<forall>x \<in> set os. \<not> starts_with x opt"
    using unsafe_opts_split [OF assms(1), of "[]"] by auto
  show ?thesis
    unfolding os(1) opts_skip [OF os(2)] using assms(2) starts_with_append [of opt "[]"] by simp
qed

text \<open>The loop moves on over options that stand alone, and over nothing else.\<close>

lemma opts_rest:
  "check_opts opts args = Inr args' \<Longrightarrow> \<exists>k. args' = drop k args \<and> (\<forall>j < k. j < length args \<longrightarrow> args ! j \<in> set opts)"
proof (induction opts args rule: check_opts.induct)
  case (3 opt opts a args)
  show ?case
  proof (cases "a = opt")
    case True
    show ?thesis
    proof (cases args)
      case Nil
      with 3(4) True have "args' = []" by (simp add: starts_with_def)
      with Nil True show ?thesis by (intro exI [of _ 1]) simp
    next
      case (Cons q args1)
      with 3(4) True have c: "\<not> check_unsafe_path q" "check_opts opts args = Inr args'"
        by (auto simp: starts_with_def split: if_splits)
      have "\<exists>k. args' = drop k (q # args1) \<and> (\<forall>j < k. j < length (q # args1) \<longrightarrow> (q # args1) ! j \<in> set opts)"
        by (rule 3(2)) (use c True Cons in \<open>auto simp: starts_with_def\<close>)
      then obtain k where k: "args' = drop k args" "\<forall>j < k. j < length args \<longrightarrow> args ! j \<in> set opts"
        unfolding Cons by blast
      show ?thesis
      proof (intro exI conjI allI impI)
        show "args' = drop (Suc k) (a # args)" using k by simp
        show "(a # args) ! j \<in> set (opt # opts)" if "j < Suc k" "j < length (a # args)" for j
          using k(2) that True by (cases j) auto
      qed
    qed
  next
    case False
    then have "check_opts opts (a # args) = Inr args'" using 3(4) by (auto split: if_splits)
    moreover have "check_opts opts (a # args) = Inr args' \<Longrightarrow>
      \<exists>k. args' = drop k (a # args) \<and> (\<forall>j < k. j < length (a # args) \<longrightarrow> (a # args) ! j \<in> set opts)"
      using 3(1,3,4) False by (auto split: if_splits)
    ultimately show ?thesis by fastforce
  qed
qed (auto intro: exI [of _ 0])

text \<open>\<open>args ! i\<close> carries or is followed by a path that the wrapper must refuse.\<close>

definition unsafe_at :: "string list \<Rightarrow> nat \<Rightarrow> bool" where
  "unsafe_at args i \<longleftrightarrow> (\<exists>opt \<in> set unsafe_opts.
     (\<exists>p. args ! i = opt @ p \<and> p \<noteq> [] \<and> check_unsafe_path p)
     \<or> (args ! i = opt \<and> i + 1 < length args \<and> check_unsafe_path (args ! (i + 1))))"

lemma unsafe_first: "unsafe_at (a # args) 0 \<Longrightarrow> check_opts unsafe_opts (a # args) = Inl 1"
proof -
  assume "unsafe_at (a # args) 0"
  then consider (attached) opt p where "opt \<in> set unsafe_opts" "a = opt @ p" "p \<noteq> []" "check_unsafe_path p"
    | (separate) q rest' where "a \<in> set unsafe_opts" "args = q # rest'" "check_unsafe_path q"
    unfolding unsafe_at_def by (cases args) auto
  then show ?thesis using opts_attached opts_separate by cases simp_all
qed

lemma check_args_safe:
  "check_args args = Inr () \<Longrightarrow> i < length args \<Longrightarrow> i = 0 \<or> args ! (i - 1) \<notin> set unsafe_opts \<Longrightarrow> \<not> unsafe_at args i"
proof (induction args arbitrary: i rule: check_args.induct)
  case (2 a args)
  obtain r where r: "check_opts unsafe_opts (a # args) = Inr r" "check_args (tl r) = Inr ()"
    using 2(2) by (auto split: sum.splits)
  obtain k where k: "r = drop k (a # args)" "\<forall>j < k. j < length (a # args) \<longrightarrow> (a # args) ! j \<in> set unsafe_opts"
    using opts_rest [OF r(1)] by blast
  show ?case
  proof (cases i)
    case 0
    then show ?thesis using unsafe_first r(1) by fastforce
  next
    case (Suc j)
    have j: "j < length (a # args)" "(a # args) ! j \<notin> set unsafe_opts" using 2(3,4) Suc by auto
    then have "k \<le> j" using k(2) not_less by blast
    define n where "n = i - Suc k"
    have n: "i = Suc k + n" using \<open>k \<le> j\<close> Suc by (simp add: n_def)
    have t: "tl r = drop (Suc k) (a # args)" unfolding k(1) by (simp add: drop_Suc tl_drop)
    have at: "tl r ! x = (a # args) ! (Suc k + x)" if "x < length (tl r)" for x
      using that unfolding t by (intro nth_drop) simp
    have len: "length (tl r) = length (a # args) - Suc k" unfolding t by simp
    have "n = 0 \<or> tl r ! (n - 1) \<notin> set unsafe_opts"
    proof (cases n)
      case (Suc m)
      then have "tl r ! m = (a # args) ! j" using at [of m] len n \<open>i = Suc j\<close> j(1) by simp
      with j(2) Suc show ?thesis by simp
    qed simp
    then have "\<not> unsafe_at (tl r) n" using 2(1) [OF r(1) r(2)] len n 2(3) by simp
    moreover have "unsafe_at (tl r) n = unsafe_at (a # args) i"
      using at [of n] at [of "n + 1"] len n 2(3) unfolding unsafe_at_def by (auto simp: less_diff_conv)
    ultimately show ?thesis by simp
  qed
qed simp

section \<open>The call\<close>

lemma bind_resultE:
  assumes "bind_result r f = Exec e a"
  obtains x where "r = Inr x" "f x = Exec e a"
  using assms by (cases r) (auto simp: bind_result_def)

lemma length_flag: "length (flag_if b s) \<le> 1" "length (flag_of s v) \<le> 1"
  by (simp_all add: flag_if_def flag_of_def split: option.split)

lemma length_concat_flags: "\<forall>xs \<in> set xss. length xs \<le> 1 \<Longrightarrow> length (concat xss) \<le> length xss"
  by (induction xss) auto

definition absolute :: "string \<Rightarrow> bool" where
  "absolute s \<longleftrightarrow> (\<exists>t. s = CHR ''/'' # t)"

lemma absolute_append: "absolute s \<Longrightarrow> absolute (s @ t)"
  by (auto simp: absolute_def)

lemma absolute_no_option: "absolute s \<Longrightarrow> \<not> starts_with (CHR ''-'' # p) s"
  by (auto simp: absolute_def)

lemma absolute_cut: "absolute s \<Longrightarrow> absolute (cut_components i count s)"
  by (induction i count s rule: cut_components.induct) (auto simp: absolute_def)

lemma absolute_base:
  assumes "find_base S progpath = Inr (d, base)"
    and "\<And>q d. realpath S q = Some d \<Longrightarrow> absolute d" "\<And>e. self_exe S = Some e \<Longrightarrow> absolute e"
  shows "absolute d"
  using assms absolute_cut by (auto simp: find_base_def split: option.splits)

lemma compiler_path_absolute:
  assumes "compiler_path C d base = Inr path" "absolute d" "\<And>d. BR_CROSS_PATH C = Path_abs d \<Longrightarrow> absolute d"
  shows "absolute path \<and> length path < PATH_MAX"
  using assms absolute_append by (auto simp: compiler_path_def fits_def split: cross_path.splits if_splits)

text \<open>The flags after the system root; the predefined ones, and what the arguments and the environment ask for.\<close>

definition target_flags :: "config \<Rightarrow> string list" where
  "target_flags C = drop 3 (predef_args (C\<lparr>BR_CCACHE := False\<rparr>) [] [] [])"

lemma predef_split: "predef_args C ccache path sysroot = flag_if (BR_CCACHE C) ccache @ [path, ''--sysroot'', sysroot] @ target_flags C"
  by (simp add: predef_args_def target_flags_def flag_if_def)

lemma target_flags_concat: "target_flags C = concat [flag_of [] (BR_CLANG_CONFIG_FILE C), flag_of ''-mabi='' (BR_ABI C), flag_of ''-mnan='' (BR_NAN C),
     flag_of ''-mfpu='' (BR_FPU C), flag_if (BR_SOFTFLOAT C) ''-msoft-float'', flag_of ''-msimd='' (BR_SIMD C),
     flag_of ''-m'' (BR_MODE C), flag_if (BR_64 C) ''-m64'', flag_if (BR_OMIT_LOCK_PREFIX C) ''-Wa,-momit-lock-prefix=yes'',
     flag_if (BR_NO_FUSED_MADD C) ''-mno-fused-madd'', flag_if (BR_FP_CONTRACT_OFF C) ''-ffp-contract=off'',
     flag_if (BR_BINFMT_FLAT C) ''-Wl,-elf2flt'', flag_if (BR_LITTLE_ENDIAN C) ''-EL'', flag_if (BR_BIG_ENDIAN C) ''-EB'']
     @ BR_ADDITIONAL_CFLAGS C"
proof -
  have "flag_if False x = []" for x by (simp add: flag_if_def)
  then show ?thesis by (simp add: target_flags_def predef_args_def)
qed

lemma length_target: "length (target_flags C) \<le> 14 + length (BR_ADDITIONAL_CFLAGS C)"
  unfolding target_flags_concat length_append
  by (intro add_right_mono order.trans [OF length_concat_flags]) (simp_all add: length_flag [unfolded One_nat_def])

lemma length_asked:
  "length (float_abi C args) \<le> 1" "length (fp32_mode C args) \<le> 1" "length (arch_flags C args) \<le> 2"
  "length (pie_flags C args) \<le> 2" "length (relro_flags C args) \<le> 3"
  by (simp_all add: float_abi_def fp32_mode_def arch_flags_def pie_flags_def relro_flags_def flag_if_def flag_of_def split: option.split)

lemma all_flags_split:
  assumes "absolute path" "absolute sysroot" "BR_CCACHE C \<Longrightarrow> absolute ccache" "length epoch \<le> 3"
  shows "\<exists>flags. all_flags C (predef_args C ccache path sysroot) epoch args = flag_if (BR_CCACHE C) ccache @ [path, ''--sysroot'', sysroot] @ flags
    \<and> length flags \<le> 26 + length (BR_ADDITIONAL_CFLAGS C)"
proof -
  let ?P = "\<lambda>p. found_nonoption args \<or> \<not> starts_with ''-Wl,'' p"
  let ?flags = "filter ?P (target_flags C) @ float_abi C args @ fp32_mode C args @ arch_flags C args @ epoch @ pie_flags C args @ relro_flags C args"
  have "?P path" "?P sysroot" "?P ''--sysroot''" using assms(1,2) absolute_no_option by simp_all
  moreover have "filter ?P (flag_if (BR_CCACHE C) ccache) = flag_if (BR_CCACHE C) ccache"
    using assms(3) absolute_no_option by (simp add: flag_if_def)
  ultimately have "all_flags C (predef_args C ccache path sysroot) epoch args = flag_if (BR_CCACHE C) ccache @ [path, ''--sysroot'', sysroot] @ ?flags"
    unfolding all_flags_def predef_split filter_append filter.simps by simp
  moreover have "length ?flags \<le> 26 + length (BR_ADDITIONAL_CFLAGS C)"
    using length_filter_le [of ?P "target_flags C"] length_target [of C] length_asked [of C args] assms(4) unfolding length_append by linarith
  ultimately show ?thesis by blast
qed

lemma length_epoch: "epoch_flags C S = Inr epoch \<Longrightarrow> length epoch \<le> 3"
  by (auto simp: epoch_flags_def split: if_splits option.splits prod.splits)


definition demo_config :: config where
  "demo_config = \<lparr>BR_CCACHE = True, BR_CLANG_CONFIG_FILE = None, BR_ABI = Some ''lp64d'', BR_NAN = None, BR_FPU = None,
     BR_SOFTFLOAT = False, BR_SIMD = None, BR_MODE = None, BR_64 = False, BR_OMIT_LOCK_PREFIX = False, BR_NO_FUSED_MADD = False,
     BR_FP_CONTRACT_OFF = False, BR_BINFMT_FLAT = False, BR_LITTLE_ENDIAN = False, BR_BIG_ENDIAN = False,
     BR_ADDITIONAL_CFLAGS = [], BR_FLOAT_ABI = None, BR_FP32_MODE = None, BR_ARCH = Some ''rv64gc'', BR_CPU = None,
     BR_NEED_SOURCE_DATE_EPOCH = False, BR2_PIC_PIE = True, BR2_RELRO_PARTIAL = False, BR2_RELRO_FULL = True,
     BR_CROSS_PATH = Path_bin, BR_CROSS_PATH_SUFFIX = ''.br_real'', BR_SYSROOT = ''sysroot'', BR_CCACHE_HASH = None,
     BR_CCACHE_BASEDIR = None\<rparr>"

definition demo_system :: system where
  "demo_system = \<lparr>realpath = (\<lambda>q. if q = ''/host/bin/..'' then Some ''/host'' else None), self_exe = None,
     getenv = (\<lambda>n. None), format_time = (\<lambda>t. None)\<rparr>"

lemma demo_call: "\<exists>env ex. wrapper_main demo_config demo_system ''/host/bin/gcc'' [''-c'', ''-I'', ''include'', ''a.c''] = Exec env ex"
  by (simp add: wrapper_main_def bind_result_def find_base_def split_path_def demo_system_def demo_config_def compiler_path_def fits_def
      PATH_MAX_def unsafe_opts_def check_unsafe_path_def unsafe_paths_def epoch_flags_def ccache_enabled_def Let_def)


text \<open>C3. An option that carries a path into the libraries or headers of the build machine, or that stands
  alone before one, is never passed on: the wrapper exits, wherever the option stands, unless it is
  itself the path of an option before it.\<close>

theorem unsafe_paths_refused:
  assumes "i < length args" "i = 0 \<or> args ! (i - 1) \<notin> set unsafe_opts" "unsafe_at args i"
  shows "\<exists>e. wrapper_main C S progpath args = Exit e"
proof (cases "wrapper_main C S progpath args")
  case (Exec env ex)
  then have "check_args args = Inr ()" unfolding wrapper_main_def by (elim bind_resultE) (auto elim!: bind_resultE)
  with check_args_safe [OF this assms(1,2)] assms(3) show ?thesis by blast
qed simp

lemma unsafe_paths_refused_witness:
  "\<exists>e. wrapper_main demo_config demo_system ''/host/bin/gcc'' [''-c'', ''-isystem'', ''/usr/include/SDL2'', ''a.c''] = Exit e"
  by (rule unsafe_paths_refused [of 1])
    (auto simp: unsafe_opts_def unsafe_at_def check_unsafe_path_def unsafe_paths_def)

end
